(* ===== verification/Prelude.thy ===== *)
theory Prelude
  imports Main "HOL-Library.Option_ord"
begin

section \<open>Shared vocabulary of the models\<close>

text \<open>
  What every component uses: Python's exceptions as values, the result of a method that
  may raise, the generic facts on options, sets and lists that the component proofs share,
  and the collections of facts they are grouped in.

  A method of the source mutates \<open>self\<close> and returns or raises.  Its model takes the
  object's state and returns the new state together with an \<open>outcome\<close>: what was written
  before an exception stays written, as it does in Python.  Python 2 orders \<open>None\<close> below
  every other object; the order of \<open>HOL-Library.Option_ord\<close> is that order.
\<close>

subsection \<open>Exceptions and outcomes\<close>

datatype py_error =
    TypeError
  | KeyError
  | IndexError
  | AttributeError
  | AssertionError
  | ValueError
  | ZeroDivisionError
  | SystemExit
  | Fault
  | InvalidMessageError
  | ZlibError
  | UnpicklingError

datatype 'a outcome = Ret (returned: 'a) | Raise (raised: py_error)

definition raises :: "'a outcome \<Rightarrow> bool" where
  "raises r \<longleftrightarrow> (\<exists>e. r = Raise e)"

lemma raises_simps [simp]: "\<not> raises (Ret x)" "raises (Raise e)"
  by (auto simp: raises_def)

text \<open>
  Collections: \<open>frame_simps\<close> holds the equations that say which part of a state an
  operation leaves alone, \<open>ops\<close> the definitions of the operations a component unfolds.
\<close>

named_theorems frame_simps "fields an operation does not write"
named_theorems paxos_ops "operations of the Paxos components"

subsection \<open>Optional values ordered below everything when absent\<close>

lemma less_option_Some_cases:
  assumes "x < Some (b::'a::linorder)"
  shows "x = None \<or> (\<exists>a. x = Some a \<and> a < b)"
  using assms by (cases x) auto

lemma Some_le_trans [trans]:
  "Some (a::'a::linorder) \<le> x \<Longrightarrow> x \<le> y \<Longrightarrow> Some a \<le> y"
  by (rule order_trans)

lemma Some_le_imp_Some: "Some (a::'a::linorder) \<le> x \<Longrightarrow> \<exists>b. x = Some b \<and> a \<le> b"
  by (cases x) auto

lemma option_le_None_iff: "(x::'a::linorder option) \<le> None \<longleftrightarrow> x = None"
  by (cases x) auto

subsection \<open>Finite sets and majorities\<close>

lemma card_insert_new: "finite S \<Longrightarrow> x \<notin> S \<Longrightarrow> card (insert x S) = Suc (card S)"
  by simp

lemma big_subsets_meet:
  assumes "finite M" "Q \<subseteq> M" "Q' \<subseteq> M" "card M < card Q + card Q'"
  shows "\<exists>a. a \<in> Q \<and> a \<in> Q'"
proof (rule ccontr)
  assume "\<nexists>a. a \<in> Q \<and> a \<in> Q'"
  then have "Q \<inter> Q' = {}" by auto
  moreover have "finite Q" "finite Q'" using assms finite_subset by auto
  ultimately have "card (Q \<union> Q') = card Q + card Q'" by (simp add: card_Un_disjoint)
  moreover have "card (Q \<union> Q') \<le> card M" using assms by (intro card_mono) auto
  ultimately show False using assms by simp
qed

subsection \<open>Python's slices\<close>

text \<open>\<open>xs[i:j]\<close> and \<open>xs[i:]\<close>: a negative index counts from the end, and both are cut
  to the length of the list.\<close>

definition py_clip :: "nat \<Rightarrow> int \<Rightarrow> nat" where
  "py_clip n i = (if i < 0 then nat (int n + i) else min (nat i) n)"

definition py_slice :: "'a list \<Rightarrow> int \<Rightarrow> int \<Rightarrow> 'a list" where
  "py_slice xs i j =
     take (py_clip (length xs) j - py_clip (length xs) i) (drop (py_clip (length xs) i) xs)"

definition py_from :: "'a list \<Rightarrow> int \<Rightarrow> 'a list" where
  "py_from xs i = drop (py_clip (length xs) i) xs"

definition py_upto :: "'a list \<Rightarrow> int \<Rightarrow> 'a list" where
  "py_upto xs j = take (py_clip (length xs) j) xs"

lemma py_from_nonneg: "0 \<le> i \<Longrightarrow> py_from xs i = drop (nat i) xs"
  by (cases "nat i \<le> length xs") (simp_all add: py_from_def py_clip_def)

lemma py_upto_nonneg: "0 \<le> j \<Longrightarrow> py_upto xs j = take (nat j) xs"
  by (cases "nat j \<le> length xs") (simp_all add: py_upto_def py_clip_def)

lemma py_slice_nonneg: 
  assumes "0 \<le> i" "0 \<le> j" shows "py_slice xs i j = take (nat j - nat i) (drop (nat i) xs)"
proof (cases "nat i \<le> length xs")
  case True
  then show ?thesis using assms
    by (cases "nat j \<le> length xs") (simp_all add: py_slice_def py_clip_def)
next
  case False
  then show ?thesis using assms by (simp add: py_slice_def py_clip_def)
qed

end
