(* ===== verification/Proposal_Id.thy ===== *)
theory Proposal_Id
  imports Prelude "HOL-Library.List_Lexorder" "HOL-Library.Char_ord"
begin

section \<open>Node identifiers and proposal identifiers\<close>

text \<open>
  \<open>ProposalID = collections.namedtuple('ProposalID', ['number', 'uid'])\<close> of
  \<open>paxos/composable_paxos.py\<close>.  A uid is a JSON integer (the ids the provisioner writes
  in the node configurations, read by \<open>paxos/custom_server.py\<close>) or a string (the uids
  of \<open>paxos/config.py\<close>).  Python 2 compares tuples component by component, numbers
  below strings, strings character by character.
\<close>

datatype uid = UInt int | UStr string

fun uid_le :: "uid \<Rightarrow> uid \<Rightarrow> bool" where
  "uid_le (UInt a) (UInt b) \<longleftrightarrow> a \<le> b"
| "uid_le (UInt a) (UStr b) \<longleftrightarrow> True"
| "uid_le (UStr a) (UInt b) \<longleftrightarrow> False"
| "uid_le (UStr a) (UStr b) \<longleftrightarrow> a \<le> b"

instantiation uid :: linorder
begin

definition less_eq_uid :: "uid \<Rightarrow> uid \<Rightarrow> bool" where
  "less_eq_uid a b \<longleftrightarrow> uid_le a b"

definition less_uid :: "uid \<Rightarrow> uid \<Rightarrow> bool" where
  "less_uid a b \<longleftrightarrow> uid_le a b \<and> \<not> uid_le b a"

instance
proof
  fix a b c :: uid
  show "(a < b) = (a \<le> b \<and> \<not> b \<le> a)" by (simp add: less_eq_uid_def less_uid_def)
  show "a \<le> a" by (cases a) (auto simp: less_eq_uid_def)
  show "a \<le> b \<Longrightarrow> b \<le> c \<Longrightarrow> a \<le> c"
    by (cases a; cases b; cases c) (auto simp: less_eq_uid_def)
  show "a \<le> b \<Longrightarrow> b \<le> a \<Longrightarrow> a = b"
    by (cases a; cases b) (auto simp: less_eq_uid_def)
  show "a \<le> b \<or> b \<le> a"
    by (cases a; cases b) (auto simp: less_eq_uid_def)
qed

end

datatype proposal_id = ProposalID (number: int) (uid_of: uid)

fun pid_le :: "proposal_id \<Rightarrow> proposal_id \<Rightarrow> bool" where
  "pid_le (ProposalID m u) (ProposalID n w) \<longleftrightarrow> m < n \<or> (m = n \<and> u \<le> w)"

instantiation proposal_id :: linorder
begin

definition less_eq_proposal_id :: "proposal_id \<Rightarrow> proposal_id \<Rightarrow> bool" where
  "less_eq_proposal_id a b \<longleftrightarrow> pid_le a b"

definition less_proposal_id :: "proposal_id \<Rightarrow> proposal_id \<Rightarrow> bool" where
  "less_proposal_id a b \<longleftrightarrow> pid_le a b \<and> \<not> pid_le b a"

instance
proof
  fix a b c :: proposal_id
  show "(a < b) = (a \<le> b \<and> \<not> b \<le> a)"
    by (simp add: less_eq_proposal_id_def less_proposal_id_def)
  show "a \<le> a" by (cases a) (auto simp: less_eq_proposal_id_def)
  show "a \<le> b \<Longrightarrow> b \<le> c \<Longrightarrow> a \<le> c"
    by (cases a; cases b; cases c) (auto simp: less_eq_proposal_id_def)
  show "a \<le> b \<Longrightarrow> b \<le> a \<Longrightarrow> a = b"
    by (cases a; cases b) (auto simp: less_eq_proposal_id_def)
  show "a \<le> b \<or> b \<le> a"
    by (cases a; cases b) (auto simp: less_eq_proposal_id_def)
qed

end

lemmas pid_order_defs =
  less_eq_proposal_id_def less_proposal_id_def less_eq_uid_def less_uid_def

lemma pid_less_iff [simp]:
  "ProposalID m u < ProposalID n w \<longleftrightarrow> m < n \<or> (m = n \<and> u < w)"
  by (auto simp: less_proposal_id_def)

lemma pid_le_iff [simp]:
  "ProposalID m u \<le> ProposalID n w \<longleftrightarrow> m < n \<or> (m = n \<and> u \<le> w)"
  by (simp add: less_eq_proposal_id_def)

lemma uid_order_simps [simp]:
  "UInt a \<le> UInt b \<longleftrightarrow> a \<le> b" "UInt a < UInt b \<longleftrightarrow> a < b"
  "UInt a < UStr t" "UInt a \<le> UStr t" "\<not> UStr t < UInt a" "\<not> UStr t \<le> UInt a"
  "UStr s \<le> UStr t \<longleftrightarrow> s \<le> t" "UStr s < UStr t \<longleftrightarrow> s < t"
  by (auto simp: less_eq_uid_def less_uid_def)

lemma pid_less_of_number: "number a < number b \<Longrightarrow> a < b"
  by (cases a; cases b) auto

lemma number_mono: "(a::proposal_id) \<le> b \<Longrightarrow> number a \<le> number b"
  by (cases a; cases b) auto

lemma pid_less_next: "a \<le> h \<Longrightarrow> a < ProposalID (number h + 1) u"
  by (rule pid_less_of_number) (use number_mono in fastforce)

end
