(* ===== verification/Paxos_Messages.thy ===== *)
theory Paxos_Messages
  imports Proposal_Id
begin

section \<open>Paxos messages\<close>

text \<open>
  The \<open>PaxosMessage\<close> subclasses of \<open>paxos/composable_paxos.py\<close>.  A value that may be
  Python's \<open>None\<close> is an option; an identifier that may be \<open>None\<close> too.
\<close>

datatype 'v paxos_msg =
    Prepare (from_uid: uid) proposal_id
      \<comment> \<open>from_uid, proposal_id\<close>
  | Nack (from_uid: uid) uid proposal_id "proposal_id option"
      \<comment> \<open>from_uid, proposer_uid, proposal_id, promised_proposal_id\<close>
  | Promise (from_uid: uid) uid proposal_id "proposal_id option" "'v option"
      \<comment> \<open>from_uid, proposer_uid, proposal_id, last_accepted_id, last_accepted_value\<close>
  | Accept (from_uid: uid) proposal_id "'v option"
      \<comment> \<open>from_uid, proposal_id, proposal_value\<close>
  | Accepted (from_uid: uid) proposal_id "'v option"
      \<comment> \<open>from_uid, proposal_id, proposal_value\<close>
  | Resolution (from_uid: uid) "'v option"
      \<comment> \<open>from_uid, value\<close>

end
