(* ===== verification/Proposer.thy ===== *)
theory Proposer
  imports Paxos_Messages
begin

section \<open>The proposer\<close>

text \<open>Class \<open>Proposer\<close> of \<open>paxos/composable_paxos.py\<close>: its attributes and its methods.\<close>

record 'v proposer =
  prop_uid :: uid                          \<comment> \<open>network_uid\<close>
  prop_quorum :: nat                       \<comment> \<open>quorum_size\<close>
  leader :: bool
  proposed_value :: "'v option"
  proposal_id :: proposal_id
  highest_proposal_id :: proposal_id
  highest_accepted_id :: "proposal_id option"
  promises_received :: "uid set option"    \<comment> \<open>None until the first prepare\<close>
  nacks_received :: "uid set option"
  current_prepare_msg :: "'v paxos_msg option"
  current_accept_msg :: "'v paxos_msg option"

definition init_proposer :: "uid \<Rightarrow> nat \<Rightarrow> 'v proposer" where
  "init_proposer u q =
     \<lparr>prop_uid = u, prop_quorum = q, leader = False, proposed_value = None,
      proposal_id = ProposalID 0 u, highest_proposal_id = ProposalID 0 u,
      highest_accepted_id = None, promises_received = None, nacks_received = None,
      current_prepare_msg = None, current_accept_msg = None\<rparr>"

definition propose_value :: "'v option \<Rightarrow> 'v proposer \<Rightarrow> 'v proposer \<times> 'v paxos_msg option" where
  "propose_value v p =
     (if proposed_value p = None then
        let p1 = p\<lparr>proposed_value := v\<rparr> in
        if leader p1 then
          let m = Accept (prop_uid p1) (proposal_id p1) v in
          (p1\<lparr>current_accept_msg := Some m\<rparr>, Some m)
        else (p1, None)
      else (p, None))"

definition prepare :: "'v proposer \<Rightarrow> 'v proposer \<times> 'v paxos_msg" where
  "prepare p =
     (let pid = ProposalID (number (highest_proposal_id p) + 1) (prop_uid p);
          m = Prepare (prop_uid p) pid in
      (p\<lparr>leader := False, promises_received := Some {}, nacks_received := Some {},
         proposal_id := pid, highest_proposal_id := pid,
         current_prepare_msg := Some m\<rparr>, m))"

definition observe_proposal :: "proposal_id option \<Rightarrow> 'v proposer \<Rightarrow> 'v proposer" where
  "observe_proposal pid p =
     (case pid of
        None \<Rightarrow> p  \<comment> \<open>None is greater than nothing\<close>
      | Some b \<Rightarrow>
          if b > highest_proposal_id p then p\<lparr>highest_proposal_id := b\<rparr> else p)"

definition receive_nack ::
  "uid \<Rightarrow> proposal_id \<Rightarrow> proposal_id option \<Rightarrow> 'v proposer
     \<Rightarrow> 'v proposer \<times> 'v paxos_msg option outcome" where
  "receive_nack from_u pid promised p =
     (let p1 = observe_proposal promised p in
      case nacks_received p1 of
        None \<Rightarrow> (p1, Ret None)
      | Some ns \<Rightarrow>
          if pid = proposal_id p1 then
            let p2 = p1\<lparr>nacks_received := Some (insert from_u ns)\<rparr> in
            if card (insert from_u ns) = prop_quorum p2
            then let (p3, m) = prepare p2 in (p3, Ret (Some m))
            else (p2, Ret None)
          else (p1, Ret None))"

definition note_accepted :: "proposal_id option \<Rightarrow> 'v option \<Rightarrow> 'v proposer \<Rightarrow> 'v proposer" where
  "note_accepted laid lav p =
     (if laid > highest_accepted_id p then
        let p1 = p\<lparr>highest_accepted_id := laid\<rparr> in
        if lav \<noteq> None then p1\<lparr>proposed_value := lav\<rparr> else p1
      else p)"

definition receive_promise ::
  "uid \<Rightarrow> proposal_id \<Rightarrow> proposal_id option \<Rightarrow> 'v option \<Rightarrow> 'v proposer
     \<Rightarrow> 'v proposer \<times> 'v paxos_msg option outcome" where
  "receive_promise from_u pid laid lav p =
     (let p1 = observe_proposal (Some pid) p in
      if \<not> leader p1 \<and> pid = proposal_id p1 then
        (case promises_received p1 of
           None \<Rightarrow> (p1, Raise TypeError)
         | Some ps \<Rightarrow>
             if from_u \<in> ps then (p1, Ret None)
             else
               let p2 = note_accepted laid lav (p1\<lparr>promises_received := Some (insert from_u ps)\<rparr>) in
               if card (insert from_u ps) = prop_quorum p2 then
                 let p3 = p2\<lparr>leader := True\<rparr> in
                 if proposed_value p3 \<noteq> None then
                   let m = Accept (prop_uid p3) (proposal_id p3) (proposed_value p3) in
                   (p3\<lparr>current_accept_msg := Some m\<rparr>, Ret (Some m))
                 else (p3, Ret None)
               else (p2, Ret None))
      else (p1, Ret None))"

lemmas [paxos_ops] =
  propose_value_def prepare_def observe_proposal_def receive_nack_def note_accepted_def
  receive_promise_def

subsection \<open>The proposer's own invariant\<close>

text \<open>
  What the constructor sets up and every method keeps: the current proposal carries this
  node's uid and is no higher than the highest one observed, the received promises and
  nacks are finite sets, and a proposer that believes itself the leader holds exactly a
  quorum of promises for its current proposal.
\<close>

definition proposer_inv :: "'v proposer \<Rightarrow> bool" where
  "proposer_inv p \<longleftrightarrow>
     uid_of (proposal_id p) = prop_uid p \<and>
     proposal_id p \<le> highest_proposal_id p \<and>
     (\<forall>S. promises_received p = Some S \<longrightarrow> finite S) \<and>
     (\<forall>S. nacks_received p = Some S \<longrightarrow> finite S) \<and>
     (leader p \<longrightarrow> (\<exists>S. promises_received p = Some S \<and> card S = prop_quorum p))"

lemma init_proposer_inv: "proposer_inv (init_proposer u q)"
  by (simp add: proposer_inv_def init_proposer_def)

lemma propose_value_inv: "proposer_inv p \<Longrightarrow> proposer_inv (fst (propose_value v p))"
  by (auto simp: proposer_inv_def propose_value_def Let_def)

lemma prepare_inv: "proposer_inv p \<Longrightarrow> proposer_inv (fst (prepare p))"
  by (auto simp: proposer_inv_def prepare_def Let_def)

lemma observe_proposal_inv: "proposer_inv p \<Longrightarrow> proposer_inv (observe_proposal pid p)"
  by (cases pid) (auto simp: proposer_inv_def observe_proposal_def)

lemma note_accepted_inv: "proposer_inv p \<Longrightarrow> proposer_inv (note_accepted laid lav p)"
  by (auto simp: proposer_inv_def note_accepted_def Let_def)

lemma observe_proposal_frame [frame_simps, simp]:
  "leader (observe_proposal x p) = leader p"
  "prop_uid (observe_proposal x p) = prop_uid p"
  "prop_quorum (observe_proposal x p) = prop_quorum p"
  "proposed_value (observe_proposal x p) = proposed_value p"
  "proposal_id (observe_proposal x p) = proposal_id p"
  "highest_accepted_id (observe_proposal x p) = highest_accepted_id p"
  "promises_received (observe_proposal x p) = promises_received p"
  "nacks_received (observe_proposal x p) = nacks_received p"
  by (auto simp: observe_proposal_def split: option.split)

lemma note_accepted_frame [frame_simps, simp]:
  "leader (note_accepted a b p) = leader p"
  "prop_uid (note_accepted a b p) = prop_uid p"
  "prop_quorum (note_accepted a b p) = prop_quorum p"
  "proposal_id (note_accepted a b p) = proposal_id p"
  "highest_proposal_id (note_accepted a b p) = highest_proposal_id p"
  "promises_received (note_accepted a b p) = promises_received p"
  "nacks_received (note_accepted a b p) = nacks_received p"
  by (auto simp: note_accepted_def Let_def)

lemma highest_observe: "highest_proposal_id (observe_proposal (Some b) p) = max (highest_proposal_id p) b"
  by (auto simp: observe_proposal_def max_def)

lemma receive_nack_inv: "proposer_inv p \<Longrightarrow> proposer_inv (fst (receive_nack f b x p))"
proof -
  assume "proposer_inv p"
  then have p1: "proposer_inv (observe_proposal x p)" by (rule observe_proposal_inv)
  show ?thesis
  proof (cases "nacks_received p")
    case (Some ns)
    let ?p2 = "observe_proposal x p\<lparr>nacks_received := Some (insert f ns)\<rparr>"
    have "proposer_inv ?p2" using p1 Some by (auto simp: proposer_inv_def)
    then show ?thesis
      using p1 Some prepare_inv[of ?p2] by (auto simp: receive_nack_def Let_def split_beta)
  qed (simp add: receive_nack_def p1)
qed

lemma receive_promise_inv: "proposer_inv p \<Longrightarrow> proposer_inv (fst (receive_promise f b la lv p))"
proof -
  assume "proposer_inv p"
  then have p1: "proposer_inv (observe_proposal (Some b) p)" by (rule observe_proposal_inv)
  show ?thesis
  proof (cases "promises_received p")
    case (Some ps)
    let ?p2 = "note_accepted la lv (observe_proposal (Some b) p\<lparr>promises_received := Some (insert f ps)\<rparr>)"
    show ?thesis
    proof (cases "leader p")
      case False
      have "proposer_inv (observe_proposal (Some b) p\<lparr>promises_received := Some (insert f ps)\<rparr>)"
        using p1 Some False by (auto simp: proposer_inv_def)
      then have p2: "proposer_inv ?p2" by (rule note_accepted_inv)
      then show ?thesis
        using p1 Some
        by (auto simp: receive_promise_def proposer_inv_def Let_def)
    qed (use p1 Some in \<open>simp add: receive_promise_def Let_def\<close>)
  next
    case None
    then show ?thesis using p1 by (auto simp: receive_promise_def Let_def)
  qed
qed

lemma proposer_frame [frame_simps]:
  "prop_uid (fst (propose_value v p)) = prop_uid p"
  "prop_quorum (fst (propose_value v p)) = prop_quorum p"
  "prop_uid (fst (prepare p)) = prop_uid p"
  "prop_quorum (fst (prepare p)) = prop_quorum p"
  "prop_uid (fst (receive_nack f b x p)) = prop_uid p"
  "prop_quorum (fst (receive_nack f b x p)) = prop_quorum p"
  "prop_uid (fst (receive_promise f b la lv p)) = prop_uid p"
  "prop_quorum (fst (receive_promise f b la lv p)) = prop_quorum p"
  by (simp_all add: propose_value_def prepare_def receive_nack_def receive_promise_def
      Let_def split_beta split: option.split)

subsection \<open>New proposals outbid what was observed\<close>

lemma prepare_outbids:
  assumes "proposer_inv p"
  shows "highest_proposal_id p < proposal_id (fst (prepare p))"
    "proposal_id p < proposal_id (fst (prepare p))"
  using assms pid_less_next[of "proposal_id p" "highest_proposal_id p"]
    pid_less_next[of "highest_proposal_id p" "highest_proposal_id p"]
  by (auto simp: prepare_def proposer_inv_def Let_def)

subsection \<open>One value per proposal\<close>

text \<open>
  \<open>sent_ok E p\<close>: \<open>E b v\<close> records the Accept messages this proposer has sent.  None
  of them is above the current proposal, one for the current proposal was sent as the
  leader with the value the proposer still holds, and no two for one proposal differ.
\<close>

definition sent_ok :: "(proposal_id \<Rightarrow> 'v option \<Rightarrow> bool) \<Rightarrow> 'v proposer \<Rightarrow> bool" where
  "sent_ok E p \<longleftrightarrow>
     (\<forall>b v. E b v \<longrightarrow> b \<le> proposal_id p \<and>
        (b = proposal_id p \<longrightarrow> leader p \<and> proposed_value p = v \<and> v \<noteq> None)) \<and>
     (\<forall>b v w. E b v \<longrightarrow> E b w \<longrightarrow> v = w)"

text \<open>The Accept message a call returns, added to those sent before.\<close>

definition add_sent ::
  "(proposal_id \<Rightarrow> 'v option \<Rightarrow> bool) \<Rightarrow> 'v paxos_msg option \<Rightarrow> proposal_id \<Rightarrow> 'v option \<Rightarrow> bool" where
  "add_sent E m = (\<lambda>b v. E b v \<or> (\<exists>u. m = Some (Accept u b v)))"

lemma add_sent_None [simp]: "add_sent E None = E"
  by (simp add: add_sent_def)

lemma add_sent_Accept [simp]: "add_sent E (Some (Accept u b v)) = (\<lambda>c w. E c w \<or> c = b \<and> w = v)"
  by (auto simp: add_sent_def fun_eq_iff)

lemma add_sent_Prepare [simp]: "add_sent E (Some (Prepare u b)) = E"
  by (simp add: add_sent_def)

lemma observe_proposal_sent_ok: "sent_ok E p \<Longrightarrow> sent_ok E (observe_proposal x p)"
  by (simp add: sent_ok_def)

lemma propose_value_sent_ok:
  "sent_ok E p \<Longrightarrow> sent_ok (add_sent E (snd (propose_value (Some v) p))) (fst (propose_value (Some v) p))"
  by (fastforce simp: sent_ok_def propose_value_def Let_def)

lemma prepare_sent_ok:
  assumes "proposer_inv p" "sent_ok E p" shows "sent_ok E (fst (prepare p))"
proof -
  have "proposal_id p < proposal_id (fst (prepare p))" using assms(1) by (rule prepare_outbids)
  with assms(2) show ?thesis unfolding sent_ok_def by (meson leD order_le_less_trans less_imp_le)
qed

lemma sent_ok_no_current: "sent_ok E p \<Longrightarrow> \<not> leader p \<Longrightarrow> \<not> E (proposal_id p) v"
  by (auto simp: sent_ok_def)

lemma sent_ok_follower:
  "sent_ok E p \<Longrightarrow> \<not> leader p \<Longrightarrow> proposal_id p' = proposal_id p \<Longrightarrow> sent_ok E p'"
  by (auto simp: sent_ok_def)

lemma sent_ok_emit:
  assumes "sent_ok E p" "\<not> leader p" "proposal_id p' = proposal_id p" "leader p'"
    "proposed_value p' = v" "v \<noteq> None"
  shows "sent_ok (\<lambda>c w. E c w \<or> c = proposal_id p \<and> w = v) p'"
proof -
  have no: "\<not> E (proposal_id p) w" for w using sent_ok_no_current[OF assms(1,2)] .
  have le: "E c w \<Longrightarrow> c \<le> proposal_id p" and fn: "E c w \<Longrightarrow> E c w' \<Longrightarrow> w = w'" for c w w'
    using assms(1) unfolding sent_ok_def by blast+
  show ?thesis using assms(3-6) no le fn unfolding sent_ok_def by auto
qed

lemma receive_nack_sent_ok:
  assumes "proposer_inv p" "sent_ok E p"
  shows "sent_ok E (fst (receive_nack f b x p))"
    and "\<exists>m. snd (receive_nack f b x p) = Ret m \<and> (\<forall>u c v. m \<noteq> Some (Accept u c v))"
proof -
  have p1: "proposer_inv (observe_proposal x p)" "sent_ok E (observe_proposal x p)"
    using assms observe_proposal_inv observe_proposal_sent_ok by auto
  show "sent_ok E (fst (receive_nack f b x p))"
  proof (cases "nacks_received p")
    case (Some ns)
    let ?p2 = "observe_proposal x p\<lparr>nacks_received := Some (insert f ns)\<rparr>"
    have "proposer_inv ?p2" "sent_ok E ?p2"
      using p1 Some by (auto simp: proposer_inv_def sent_ok_def)
    then show ?thesis
      using p1 Some prepare_sent_ok[of ?p2 E] by (auto simp: receive_nack_def Let_def split_beta)
  qed (simp add: receive_nack_def p1)
  show "\<exists>m. snd (receive_nack f b x p) = Ret m \<and> (\<forall>u c v. m \<noteq> Some (Accept u c v))"
    by (auto simp: receive_nack_def prepare_def Let_def split: option.split)
qed

lemma receive_promise_sent_ok:
  assumes "sent_ok E p" "snd (receive_promise f b la lv p) = Ret m"
  shows "sent_ok (add_sent E m) (fst (receive_promise f b la lv p))"
proof (cases "leader p \<or> b \<noteq> proposal_id p")
  case True
  with assms show ?thesis
    by (auto simp: receive_promise_def Let_def intro: observe_proposal_sent_ok)
next
  case False
  with assms(2) obtain ps where ps: "promises_received p = Some ps"
    by (cases "promises_received p") (auto simp: receive_promise_def Let_def)
  have noE: "sent_ok E p'" if "proposal_id p' = proposal_id p" for p'
    using sent_ok_follower[OF assms(1)] False that by auto
  have emit: "sent_ok (\<lambda>c w. E c w \<or> c = proposal_id p \<and> w = v) p'"
    if "proposal_id p' = proposal_id p" "leader p'" "proposed_value p' = v" "v \<noteq> None" for p' v
    using sent_ok_emit[OF assms(1)] False that by blast
  show ?thesis
    using assms(2) False ps
    by (auto simp: receive_promise_def Let_def split: if_splits intro!: noE emit)
qed

text \<open>Any sequence of calls.\<close>

datatype 'v proposer_request =
    ReqPropose "'v option"
  | ReqPrepare
  | ReqObserve "proposal_id option"
  | ReqNack uid proposal_id "proposal_id option"
  | ReqPromise uid proposal_id "proposal_id option" "'v option"

fun proposer_serve :: "'v proposer_request \<Rightarrow> 'v proposer \<Rightarrow> 'v proposer \<times> 'v paxos_msg option outcome" where
  "proposer_serve (ReqPropose v) p = (let (p1, m) = propose_value v p in (p1, Ret m))"
| "proposer_serve ReqPrepare p = (let (p1, m) = prepare p in (p1, Ret (Some m)))"
| "proposer_serve (ReqObserve x) p = (observe_proposal x p, Ret None)"
| "proposer_serve (ReqNack f b x) p = receive_nack f b x p"
| "proposer_serve (ReqPromise f b la lv) p = receive_promise f b la lv p"

fun proposer_run ::
  "'v proposer_request list \<Rightarrow> 'v proposer \<Rightarrow> 'v proposer \<times> 'v paxos_msg option outcome list" where
  "proposer_run [] p = (p, [])"
| "proposer_run (r # rs) p =
     (let (p1, m) = proposer_serve r p; (p2, ms) = proposer_run rs p1 in (p2, m # ms))"

definition reply_sent :: "(proposal_id \<Rightarrow> 'v option \<Rightarrow> bool) \<Rightarrow> 'v paxos_msg option outcome
    \<Rightarrow> proposal_id \<Rightarrow> 'v option \<Rightarrow> bool" where
  "reply_sent E r = (case r of Ret m \<Rightarrow> add_sent E m | Raise _ \<Rightarrow> E)"

lemma proposer_serve_inv: "proposer_inv p \<Longrightarrow> proposer_inv (fst (proposer_serve r p))"
  using propose_value_inv prepare_inv observe_proposal_inv receive_nack_inv receive_promise_inv
  by (cases r) (auto simp: split_beta Let_def)

lemma receive_promise_raise:
  "snd (receive_promise f b la lv p) = Raise e \<Longrightarrow>
   fst (receive_promise f b la lv p) = observe_proposal (Some b) p"
  by (auto simp: receive_promise_def Let_def split: if_splits option.splits)

lemma proposer_serve_sent_ok:
  assumes "proposer_inv p" "sent_ok E p" "r \<noteq> ReqPropose None"
  shows "sent_ok (reply_sent E (snd (proposer_serve r p))) (fst (proposer_serve r p))"
proof (cases r)
  case (ReqPropose v)
  then obtain w where "v = Some w" using assms(3) by auto
  then show ?thesis using ReqPropose propose_value_sent_ok[OF assms(2)]
    by (simp add: reply_sent_def split_beta Let_def)
next
  case ReqPrepare
  then show ?thesis using prepare_sent_ok[OF assms(1,2)] by (simp add: reply_sent_def prepare_def Let_def)
next
  case (ReqObserve x)
  then show ?thesis using observe_proposal_sent_ok[OF assms(2)] by (simp add: reply_sent_def)
next
  case (ReqNack f b x)
  from receive_nack_sent_ok[OF assms(1,2), of f b x] obtain m where
    "snd (receive_nack f b x p) = Ret m" "\<forall>u c v. m \<noteq> Some (Accept u c v)"
    "sent_ok E (fst (receive_nack f b x p))" by blast
  then show ?thesis using ReqNack by (simp add: reply_sent_def add_sent_def)
next
  case (ReqPromise f b la lv)
  then show ?thesis
    using receive_promise_sent_ok[OF assms(2), of f b la lv]
      receive_promise_raise[of f b la lv p] observe_proposal_sent_ok[OF assms(2)]
    by (cases "snd (receive_promise f b la lv p)") (simp_all add: reply_sent_def)
qed

lemma proposer_run_sent_ok:
  assumes "proposer_inv p" "sent_ok E p" "ReqPropose None \<notin> set rs"
  shows "sent_ok (\<lambda>b v. E b v \<or> (\<exists>u. Ret (Some (Accept u b v)) \<in> set (snd (proposer_run rs p))))
           (fst (proposer_run rs p))"
  using assms
proof (induction rs arbitrary: p E)
  case (Cons r rs)
  obtain p1 m where r: "proposer_serve r p = (p1, m)" by fastforce
  have "proposer_inv p1" "sent_ok (reply_sent E m) p1"
    using proposer_serve_inv[OF Cons.prems(1), of r] proposer_serve_sent_ok[OF Cons.prems(1,2), of r] r Cons.prems(3)
    by auto
  from Cons.IH[OF this] Cons.prems(3)
  have "sent_ok (\<lambda>b v. reply_sent E m b v \<or>
      (\<exists>u. Ret (Some (Accept u b v)) \<in> set (snd (proposer_run rs p1)))) (fst (proposer_run rs p1))" by simp
  moreover have "(\<lambda>b v. reply_sent E m b v \<or>
      (\<exists>u. Ret (Some (Accept u b v)) \<in> set (snd (proposer_run rs p1)))) =
     (\<lambda>b v. E b v \<or> (\<exists>u. Ret (Some (Accept u b v)) \<in> set (snd (proposer_run (r # rs) p))))"
    using r by (cases m) (auto simp: reply_sent_def add_sent_def fun_eq_iff split_beta Let_def)
  ultimately show ?case using r by (simp add: split_beta Let_def)
qed simp

subsection \<open>Every proposal id seen is below the next one proposed\<close>

fun seen_ids :: "'v proposer_request \<Rightarrow> proposal_id set" where
  "seen_ids (ReqObserve (Some b)) = {b}"
| "seen_ids (ReqNack f c (Some b)) = {b}"
| "seen_ids (ReqPromise f b la lv) = {b}"
| "seen_ids _ = {}"

lemma observe_highest_mono: "highest_proposal_id p \<le> highest_proposal_id (observe_proposal x p)"
  by (cases x) (auto simp: observe_proposal_def)

lemma observe_highest: "b \<le> highest_proposal_id (observe_proposal (Some b) p)"
  by (simp add: highest_observe)

lemma prepare_highest: "highest_proposal_id p < highest_proposal_id (fst (prepare p))"
  by (simp add: prepare_def Let_def pid_less_next)

lemma nack_highest: "highest_proposal_id (observe_proposal x p) \<le> highest_proposal_id (fst (receive_nack f b x p))"
  using prepare_highest[of "observe_proposal x p\<lparr>nacks_received := Some (insert f (the (nacks_received p)))\<rparr>"]
  by (auto simp: receive_nack_def Let_def split_beta split: option.split)

lemma promise_highest: "highest_proposal_id (fst (receive_promise f b la lv p)) = highest_proposal_id (observe_proposal (Some b) p)"
  by (simp add: receive_promise_def Let_def split: option.split)

lemma proposer_serve_highest:
  "highest_proposal_id p \<le> highest_proposal_id (fst (proposer_serve r p))"
  "b \<in> seen_ids r \<Longrightarrow> b \<le> highest_proposal_id (fst (proposer_serve r p))"
proof -
  show "highest_proposal_id p \<le> highest_proposal_id (fst (proposer_serve r p))"
  proof (cases r)
    case (ReqPropose v)
    then show ?thesis by (simp add: propose_value_def Let_def)
  next
    case ReqPrepare
    then show ?thesis using prepare_highest[of p] by (simp add: split_beta Let_def)
  next
    case (ReqObserve x)
    then show ?thesis by (simp add: observe_highest_mono)
  next
    case (ReqNack f c x)
    then show ?thesis using order_trans[OF observe_highest_mono nack_highest] by simp
  next
    case (ReqPromise f c la lv)
    then show ?thesis by (simp add: promise_highest observe_highest_mono)
  qed
  assume b: "b \<in> seen_ids r"
  then consider "r = ReqObserve (Some b)" | f c where "r = ReqNack f c (Some b)"
    | f la lv where "r = ReqPromise f b la lv"
    by (cases r rule: seen_ids.cases) auto
  then show "b \<le> highest_proposal_id (fst (proposer_serve r p))"
  proof cases
    case 1
    then show ?thesis by (simp add: observe_highest)
  next
    case 2
    then show ?thesis using order_trans[OF observe_highest nack_highest] by simp
  next
    case 3
    then show ?thesis by (simp add: promise_highest observe_highest)
  qed
qed

lemma proposer_run_inv: "proposer_inv p \<Longrightarrow> proposer_inv (fst (proposer_run rs p))"
  using proposer_serve_inv by (induction rs arbitrary: p) (auto simp: split_beta Let_def)

lemma proposer_run_highest:
  "highest_proposal_id p \<le> highest_proposal_id (fst (proposer_run rs p))"
  "r \<in> set rs \<Longrightarrow> b \<in> seen_ids r \<Longrightarrow> b \<le> highest_proposal_id (fst (proposer_run rs p))"
proof -
  show mono: "highest_proposal_id p \<le> highest_proposal_id (fst (proposer_run rs p))" for p rs
  proof (induction rs arbitrary: p)
    case (Cons r rs)
    from order_trans[OF proposer_serve_highest(1) Cons.IH] show ?case by (simp add: split_beta Let_def)
  qed simp
  show "b \<le> highest_proposal_id (fst (proposer_run rs p))" if "r \<in> set rs" "b \<in> seen_ids r"
    using that(1)
  proof (induction rs arbitrary: p)
    case (Cons a rs)
    show ?case
    proof (cases "r = a")
      case True
      then show ?thesis using order_trans[OF proposer_serve_highest(2)[OF that(2)] mono]
        by (simp add: split_beta Let_def)
    next
      case False
      then show ?thesis using Cons by (simp add: split_beta Let_def)
    qed
  qed simp
qed

subsection \<open>The value a quorum of promises imposes\<close>

text \<open>
  \<open>adopts own es hi v\<close>: of the promises \<open>es\<close> (sender, last accepted id and value),
  \<open>hi\<close> is the highest accepted id reported and \<open>v\<close> its value; \<open>v\<close> is the
  proposer's own value when no promise reports one.
\<close>

definition adopts ::
  "'v option \<Rightarrow> (uid \<times> proposal_id option \<times> 'v option) list \<Rightarrow> proposal_id option \<Rightarrow> 'v option \<Rightarrow> bool" where
  "adopts own es hi v \<longleftrightarrow>
     (\<forall>(f, la, lv)\<in>set es. la \<le> hi) \<and>
     (hi = None \<and> v = own \<or> hi \<noteq> None \<and> (\<exists>f. (f, hi, v) \<in> set es))"

definition promise_requests ::
  "proposal_id \<Rightarrow> (uid \<times> proposal_id option \<times> 'v option) list \<Rightarrow> 'v proposer_request list" where
  "promise_requests b es = map (\<lambda>(f, la, lv). ReqPromise f b la lv) es"

lemma proposer_run_append:
  "proposer_run (rs @ rs') p =
     (let (p1, ms) = proposer_run rs p; (p2, ms') = proposer_run rs' p1 in (p2, ms @ ms'))"
  by (induction rs arbitrary: p) (auto simp: split_beta Let_def)

lemma note_accepted_adopts:
  assumes "adopts own es (highest_accepted_id p) (proposed_value p)" "la \<noteq> None \<longrightarrow> lv \<noteq> None"
  shows "adopts own (es @ [(f, la, lv)]) (highest_accepted_id (note_accepted la lv p))
           (proposed_value (note_accepted la lv p))"
proof (cases "highest_accepted_id p < la")
  case True
  then have "la \<noteq> None" by (cases la) auto
  with True assms show ?thesis
    by (auto simp: note_accepted_def adopts_def Let_def intro: order_trans less_imp_le)
next
  case False
  with assms(1) show ?thesis by (auto simp: note_accepted_def adopts_def)
qed

definition collecting ::
  "'v proposer \<Rightarrow> (uid \<times> proposal_id option \<times> 'v option) list \<Rightarrow> 'v proposer \<Rightarrow> bool" where
  "collecting p es p' \<longleftrightarrow>
     \<not> leader p' \<and> proposal_id p' = proposal_id p \<and> prop_uid p' = prop_uid p \<and>
     prop_quorum p' = prop_quorum p \<and> promises_received p' = Some (set (map fst es)) \<and>
     adopts (proposed_value p) es (highest_accepted_id p') (proposed_value p')"

lemma receive_promise_collecting:
  assumes c: "collecting p es p'" and new: "distinct (map fst (es @ [(f, la, lv)]))"
    and val: "la \<noteq> None \<longrightarrow> lv \<noteq> None"
  shows "if length (es @ [(f, la, lv)]) = prop_quorum p
    then \<exists>p'' hi v. adopts (proposed_value p) (es @ [(f, la, lv)]) hi v \<and>
      receive_promise f (proposal_id p) la lv p' =
        (p'', Ret (if v = None then None else Some (Accept (prop_uid p) (proposal_id p) v)))
    else \<exists>p''. receive_promise f (proposal_id p) la lv p' = (p'', Ret None) \<and>
      collecting p (es @ [(f, la, lv)]) p''"
proof -
  let ?o = "observe_proposal (Some (proposal_id p)) p'\<lparr>promises_received := Some (insert f (fst ` set es))\<rparr>"
  let ?n = "note_accepted la lv ?o"
  have card: "card (insert f (fst ` set es)) = length (es @ [(f, la, lv)])"
    using distinct_card[OF new] by simp
  have f: "f \<notin> fst ` set es" using new by auto
  have ad: "adopts (proposed_value p) (es @ [(f, la, lv)]) (highest_accepted_id ?n) (proposed_value ?n)"
    using c val by (intro note_accepted_adopts) (simp_all add: collecting_def)
  have eq: "receive_promise f (proposal_id p) la lv p' =
    (if card (insert f (fst ` set es)) = prop_quorum p then
       if proposed_value ?n \<noteq> None then
         (?n\<lparr>leader := True, current_accept_msg := Some (Accept (prop_uid p) (proposal_id p) (proposed_value ?n))\<rparr>,
          Ret (Some (Accept (prop_uid p) (proposal_id p) (proposed_value ?n))))
       else (?n\<lparr>leader := True\<rparr>, Ret None)
     else (?n, Ret None))"
    using c f by (simp add: receive_promise_def collecting_def Let_def)
  show ?thesis
  proof (cases "length (es @ [(f, la, lv)]) = prop_quorum p")
    case True
    then show ?thesis using ad eq card by auto
  next
    case False
    have "collecting p (es @ [(f, la, lv)]) ?n"
      using c ad by (simp add: collecting_def)
    then show ?thesis using False eq card by auto
  qed
qed

lemma collecting_run:
  assumes p: "\<not> leader p" "promises_received p = Some {}" "highest_accepted_id p = None"
    and d: "distinct (map fst es)" and len: "length es < prop_quorum p"
    and val: "\<forall>(f, la, lv)\<in>set es. la \<noteq> None \<longrightarrow> lv \<noteq> None"
  shows "\<exists>p'. proposer_run (promise_requests (proposal_id p) es) p = (p', replicate (length es) (Ret None))
    \<and> collecting p es p'"
  using d len val
proof (induction es rule: rev_induct)
  case Nil
  then show ?case using p by (simp add: promise_requests_def collecting_def adopts_def)
next
  case (snoc e es)
  obtain f la lv where e: "e = (f, la, lv)" by (cases e)
  from snoc obtain p' where r: "proposer_run (promise_requests (proposal_id p) es) p =
      (p', replicate (length es) (Ret None))" and c: "collecting p es p'" by auto
  from receive_promise_collecting[OF c, of f la lv] snoc.prems e
  obtain p'' where "receive_promise f (proposal_id p) la lv p' = (p'', Ret None)"
    "collecting p (es @ [(f, la, lv)]) p''" by auto
  then show ?case using r e
    by (simp add: promise_requests_def proposer_run_append replicate_append_same)
qed

subsection \<open>Properties\<close>

text \<open>C5: one value per proposal.  Whatever calls are made on a proposer, in any order, as long as
  \<open>None\<close> is not handed to \<open>propose_value\<close>, no two Accept messages it returns for the same
  proposal id carry different values.\<close>

theorem proposer_one_value:
  assumes "ReqPropose None \<notin> set rs"
    "Ret (Some (Accept x b v)) \<in> set (snd (proposer_run rs (init_proposer u q)))"
    "Ret (Some (Accept y b w)) \<in> set (snd (proposer_run rs (init_proposer u q)))"
  shows "v = w"
proof -
  have "sent_ok (\<lambda>b v. False \<or> (\<exists>x. Ret (Some (Accept x b v)) \<in> set (snd (proposer_run rs (init_proposer u q)))))
      (fst (proposer_run rs (init_proposer u q)))"
    by (rule proposer_run_sent_ok[OF init_proposer_inv _ assms(1)]) (simp add: sent_ok_def)
  then show ?thesis using assms(2,3) unfolding sent_ok_def by blast
qed

theorem proposer_one_value_witness:
  "Ret (Some (Accept (UInt 1) (ProposalID 1 (UInt 1)) (Some (7::int))))
     \<in> set (snd (proposer_run
         [ReqPropose (Some 7), ReqPrepare, ReqPromise (UInt 1) (ProposalID 1 (UInt 1)) None None, ReqPropose (Some 8)]
         (init_proposer (UInt 1) 1))) \<and> Some (7::int) = Some 7"
proof -
  let ?rs = "[ReqPropose (Some (7::int)), ReqPrepare, ReqPromise (UInt 1) (ProposalID 1 (UInt 1)) None None, ReqPropose (Some 8)]"
  have 1: "Ret (Some (Accept (UInt 1) (ProposalID 1 (UInt 1)) (Some (7::int))))
     \<in> set (snd (proposer_run ?rs (init_proposer (UInt 1) 1)))"
    by code_simp
  have 0: "ReqPropose None \<notin> set ?rs" by simp
  from proposer_one_value[OF 0 1 1] 1 show ?thesis by simp
qed

text \<open>A leader that is handed \<open>None\<close> asks for it at once, and takes the next value for its first.\<close>

lemma none_proposed_first:
  "snd (proposer_run [ReqPrepare, ReqPromise (UInt 1) (ProposalID 1 (UInt 1)) None None, ReqPropose None, ReqPropose (Some (7 :: int))]
      (init_proposer (UInt 1) 1)) =
    [Ret (Some (Prepare (UInt 1) (ProposalID 1 (UInt 1)))), Ret None,
     Ret (Some (Accept (UInt 1) (ProposalID 1 (UInt 1)) None)), Ret (Some (Accept (UInt 1) (ProposalID 1 (UInt 1)) (Some 7)))]"
  by code_simp

text \<open>A new proposal outbids everything.  After any calls, the proposal id \<open>prepare\<close>
  takes is higher than every id this proposer has ever seen in a Prepare, Accept, Nack or
  Promise, and than its own previous one.\<close>

lemma prepare_outbids_all:
  assumes "r \<in> set rs" "b \<in> seen_ids r"
  shows "b < proposal_id (fst (prepare (fst (proposer_run rs (init_proposer u q))))) \<and>
    proposal_id (fst (proposer_run rs (init_proposer u q)))
      < proposal_id (fst (prepare (fst (proposer_run rs (init_proposer u q)))))"
  using prepare_outbids[OF proposer_run_inv[OF init_proposer_inv, of rs u q]]
    proposer_run_highest(2)[OF assms, of "init_proposer u q"] by simp

text \<open>C6: the rule that makes Paxos safe.  A proposer that has sent a Prepare and is
  handed the promises of a quorum of distinct acceptors answers none of them but the last, and
  that one with an Accept message whose value is the one reported with the highest accepted
  proposal, its own value if none was reported, and with nothing if it has none.\<close>

theorem proposer_adopts_highest:
  assumes "\<not> leader p" "promises_received p = Some {}" "highest_accepted_id p = None"
    and "distinct (map fst es)" "length es = prop_quorum p" "0 < prop_quorum p"
    and "\<forall>(f, la, lv)\<in>set es. la \<noteq> None \<longrightarrow> lv \<noteq> None"
  shows "\<exists>hi v. adopts (proposed_value p) es hi v \<and>
    snd (proposer_run (promise_requests (proposal_id p) es) p) =
      replicate (length es - 1) (Ret None) @
        [Ret (if v = None then None else Some (Accept (prop_uid p) (proposal_id p) v))]"
proof -
  obtain es' f la lv where es: "es = es' @ [(f, la, lv)]"
    using assms(5,6) by (cases es rule: rev_cases) auto
  obtain p' where r: "proposer_run (promise_requests (proposal_id p) es') p =
      (p', replicate (length es') (Ret None))" and c: "collecting p es' p'"
    using collecting_run[OF assms(1-3), of es'] assms(4-7) es by auto
  obtain p'' hi v where "adopts (proposed_value p) es hi v"
    "receive_promise f (proposal_id p) la lv p' =
        (p'', Ret (if v = None then None else Some (Accept (prop_uid p) (proposal_id p) v)))"
    using receive_promise_collecting[OF c, of f la lv] assms(4,5,7) es by auto
  then show ?thesis using r es by (auto simp: promise_requests_def proposer_run_append)
qed

theorem proposer_adopts_highest_witness:
  "\<exists>hi v. adopts (Some (1::int)) [(UInt 1, None, None), (UInt 2, Some (ProposalID 1 (UInt 2)), Some 5)] hi v"
proof -
  let ?p = "fst (prepare (fst (propose_value (Some (1::int)) (init_proposer (UInt 1) 2))))"
  let ?es = "[(UInt 1, None, None), (UInt 2, Some (ProposalID 1 (UInt 2)), Some (5::int))]"
  have p: "\<not> leader ?p" "promises_received ?p = Some {}" "highest_accepted_id ?p = None"
    "prop_quorum ?p = 2" "proposed_value ?p = Some 1"
    by (simp_all add: prepare_def propose_value_def init_proposer_def Let_def)
  show ?thesis
    using proposer_adopts_highest[OF p(1-3), of ?es] p(4,5) by auto
qed

end
