(* ===== verification/Acceptor.thy ===== *)
theory Acceptor
  imports Paxos_Messages
begin

section \<open>The acceptor\<close>

text \<open>Class \<open>Acceptor\<close> of \<open>paxos/composable_paxos.py\<close>.\<close>

record 'v acceptor =
  acc_uid :: uid                           \<comment> \<open>network_uid\<close>
  promised_id :: "proposal_id option"
  accepted_id :: "proposal_id option"
  accepted_value :: "'v option"

definition init_acceptor ::
  "uid \<Rightarrow> proposal_id option \<Rightarrow> proposal_id option \<Rightarrow> 'v option \<Rightarrow> 'v acceptor" where
  "init_acceptor u promised accepted v =
     \<lparr>acc_uid = u, promised_id = promised, accepted_id = accepted, accepted_value = v\<rparr>"

definition acceptor_receive_prepare ::
  "uid \<Rightarrow> proposal_id \<Rightarrow> 'v acceptor \<Rightarrow> 'v acceptor \<times> 'v paxos_msg" where
  "acceptor_receive_prepare from_u pid a =
     (if Some pid \<ge> promised_id a then
        let a1 = a\<lparr>promised_id := Some pid\<rparr> in
        (a1, Promise (acc_uid a1) from_u pid (accepted_id a1) (accepted_value a1))
      else (a, Nack (acc_uid a) from_u pid (promised_id a)))"

definition acceptor_receive_accept ::
  "uid \<Rightarrow> proposal_id \<Rightarrow> 'v option \<Rightarrow> 'v acceptor \<Rightarrow> 'v acceptor \<times> 'v paxos_msg" where
  "acceptor_receive_accept from_u pid v a =
     (if Some pid \<ge> promised_id a then
        (a\<lparr>promised_id := Some pid, accepted_id := Some pid, accepted_value := v\<rparr>,
         Accepted (acc_uid a) pid v)
      else (a, Nack (acc_uid a) from_u pid (promised_id a)))"

lemmas [paxos_ops] = acceptor_receive_prepare_def acceptor_receive_accept_def

subsection \<open>The promise an acceptor keeps\<close>

text \<open>
  An acceptor never accepts a proposal beyond what it has promised to, so that the
  promised id only grows, and what it accepted is what its Accepted messages say.
\<close>

definition acceptor_inv :: "'v acceptor \<Rightarrow> bool" where
  "acceptor_inv a \<longleftrightarrow> accepted_id a \<le> promised_id a"

lemma init_acceptor_inv: "acceptor_inv (init_acceptor u None None None)"
  by (simp add: acceptor_inv_def init_acceptor_def)

lemma receive_prepare_acceptor_inv:
  "acceptor_inv a \<Longrightarrow> acceptor_inv (fst (acceptor_receive_prepare f b a))"
  by (auto simp: acceptor_inv_def acceptor_receive_prepare_def Let_def intro: order_trans)

lemma receive_accept_acceptor_inv:
  "acceptor_inv a \<Longrightarrow> acceptor_inv (fst (acceptor_receive_accept f b v a))"
  by (auto simp: acceptor_inv_def acceptor_receive_accept_def)

lemma receive_prepare_promised_mono:
  "promised_id a \<le> promised_id (fst (acceptor_receive_prepare f b a))"
  by (auto simp: acceptor_receive_prepare_def Let_def)

lemma receive_accept_promised_mono:
  "promised_id a \<le> promised_id (fst (acceptor_receive_accept f b v a))"
  by (auto simp: acceptor_receive_accept_def)

text \<open>
  A run of an acceptor over any sequence of Prepare and Accept messages, in any order and
  with any proposal ids, with the replies it sends.
\<close>

datatype 'v acceptor_request = ReqPrepare uid proposal_id | ReqAccept uid proposal_id "'v option"

fun acceptor_serve :: "'v acceptor_request \<Rightarrow> 'v acceptor \<Rightarrow> 'v acceptor \<times> 'v paxos_msg" where
  "acceptor_serve (ReqPrepare f b) a = acceptor_receive_prepare f b a"
| "acceptor_serve (ReqAccept f b v) a = acceptor_receive_accept f b v a"

fun acceptor_run :: "'v acceptor_request list \<Rightarrow> 'v acceptor \<Rightarrow> 'v acceptor \<times> 'v paxos_msg list" where
  "acceptor_run [] a = (a, [])"
| "acceptor_run (c # cs) a =
     (let (a1, m) = acceptor_serve c a; (a2, ms) = acceptor_run cs a1 in (a2, m # ms))"

lemma acceptor_serve_mono: "promised_id a \<le> promised_id (fst (acceptor_serve c a))"
  by (cases c) (simp_all add: receive_prepare_promised_mono receive_accept_promised_mono)

lemma acceptor_run_mono: "promised_id a \<le> promised_id (fst (acceptor_run cs a))"
proof (induction cs arbitrary: a)
  case (Cons c cs)
  show ?case
    using Cons[of "fst (acceptor_serve c a)"] acceptor_serve_mono[of a c]
    by (auto simp: split_beta Let_def)
qed simp

lemma acceptor_serve_accepted_ge:
  "Accepted w b v = snd (acceptor_serve c a) \<Longrightarrow> promised_id a \<le> Some b"
  by (cases c)
     (auto simp: acceptor_receive_prepare_def acceptor_receive_accept_def Let_def split: if_splits)

lemma acceptor_run_accepted_ge:
  "Accepted w b v \<in> set (snd (acceptor_run cs a)) \<Longrightarrow> promised_id a \<le> Some b"
proof (induction cs arbitrary: a)
  case (Cons c cs)
  obtain a1 m where c: "acceptor_serve c a = (a1, m)" by fastforce
  obtain a2 ms where r: "acceptor_run cs a1 = (a2, ms)" by fastforce
  from Cons.prems c r consider "Accepted w b v = m" | "Accepted w b v \<in> set ms"
    by auto
  then show ?case
  proof cases
    case 1
    then show ?thesis using acceptor_serve_accepted_ge[of w b v c a] c by simp
  next
    case 2
    then have "promised_id a1 \<le> Some b" using Cons.IH[of a1] r by simp
    with acceptor_serve_mono[of a c] c show ?thesis by (simp add: order_trans)
  qed
qed simp

text \<open>What an acceptor has accepted is the highest of the Accepted messages it has sent.\<close>

definition votes_recorded :: "'v paxos_msg set \<Rightarrow> 'v acceptor \<Rightarrow> bool" where
  "votes_recorded M a \<longleftrightarrow>
     acceptor_inv a \<and>
     (\<forall>w c v. Accepted w c v \<in> M \<longrightarrow> Some c \<le> accepted_id a) \<and>
     (\<forall>c. accepted_id a = Some c \<longrightarrow> Accepted (acc_uid a) c (accepted_value a) \<in> M)"

lemma acceptor_serve_recorded:
  assumes ok: "votes_recorded M a" and s: "acceptor_serve r a = (a1, m)"
  shows "votes_recorded (insert m M) a1"
proof -
  have inv: "accepted_id a \<le> promised_id a" and M: "\<And>w c v. Accepted w c v \<in> M \<Longrightarrow> Some c \<le> accepted_id a"
    and A: "\<And>c. accepted_id a = Some c \<Longrightarrow> Accepted (acc_uid a) c (accepted_value a) \<in> M"
    using ok by (auto simp: votes_recorded_def acceptor_inv_def)
  show ?thesis
  proof (cases r)
    case (ReqPrepare f b)
    show ?thesis
    proof (cases "promised_id a \<le> Some b")
      case True
      then have "accepted_id a \<le> Some b" using inv by (rule order_trans[rotated])
      then show ?thesis using True s ReqPrepare M A
        by (auto simp: acceptor_receive_prepare_def Let_def votes_recorded_def acceptor_inv_def)
    qed (use s ReqPrepare ok in \<open>auto simp: acceptor_receive_prepare_def votes_recorded_def\<close>)
  next
    case (ReqAccept f b v)
    show ?thesis
    proof (cases "promised_id a \<le> Some b")
      case True
      have le: "c \<le> b" if "Accepted w c x \<in> M" for w c x
      proof -
        have "Some c \<le> accepted_id a" using M that .
        also note inv
        also note True
        finally show ?thesis by simp
      qed
      then show ?thesis using True s ReqAccept
        by (auto simp: acceptor_receive_accept_def votes_recorded_def acceptor_inv_def)
    qed (use s ReqAccept ok in \<open>auto simp: acceptor_receive_accept_def votes_recorded_def\<close>)
  qed
qed

lemma acceptor_run_recorded:
  "votes_recorded M a \<Longrightarrow>
   votes_recorded (M \<union> set (snd (acceptor_run cs a))) (fst (acceptor_run cs a))"
proof (induction cs arbitrary: M a)
  case (Cons c cs)
  obtain a2 m where c: "acceptor_serve c a = (a2, m)" by fastforce
  from Cons.IH[OF acceptor_serve_recorded[OF Cons.prems c]] show ?case
    by (simp add: c split_beta Let_def)
qed simp

lemma init_recorded: "votes_recorded {} (init_acceptor u None None None)"
  by (simp add: votes_recorded_def init_acceptor_def acceptor_inv_def)

subsection \<open>Properties\<close>

text \<open>C4: once an acceptor has answered a Prepare for proposal b with a Promise, no Accepted
  message it ever sends afterwards, whatever Prepare and Accept messages it is handed and in
  whatever order, is for a proposal below b.\<close>

theorem acceptor_keeps_promise:
  assumes "acceptor_serve (ReqPrepare f b) a = (a1, Promise w f b la lv)"
    "Accepted x c v \<in> set (snd (acceptor_run cs a1))"
  shows "b \<le> c"
proof -
  have "promised_id a1 = Some b"
    using assms(1) by (auto simp: acceptor_receive_prepare_def Let_def split: if_splits)
  then show ?thesis using acceptor_run_accepted_ge[OF assms(2)] by simp
qed

theorem acceptor_keeps_promise_witness:
  "(2::int) \<le> 3 \<and> ProposalID 2 (UInt 1) \<le> ProposalID 3 (UInt 2)"
proof -
  let ?a = "init_acceptor (UInt 9) None None None"
  let ?r = "acceptor_serve (ReqPrepare (UInt 1) (ProposalID 2 (UInt 1))) ?a"
  let ?cs = "[ReqAccept (UInt 3) (ProposalID 1 (UInt 3)) (Some (7::int)),
              ReqAccept (UInt 2) (ProposalID 3 (UInt 2)) (Some 8)]"
  have 1: "?r = (fst ?r, Promise (UInt 9) (UInt 1) (ProposalID 2 (UInt 1)) None None)"
    by (simp add: acceptor_receive_prepare_def init_acceptor_def)
  have 2: "Accepted (UInt 9) (ProposalID 3 (UInt 2)) (Some 8) \<in> set (snd (acceptor_run ?cs (fst ?r)))"
    by (simp add: acceptor_receive_prepare_def acceptor_receive_accept_def init_acceptor_def)
  from acceptor_keeps_promise[OF 1 2] show ?thesis by simp
qed

text \<open>A Promise tells the truth about the past.  The last accepted proposal a fresh
  acceptor reports is the highest of all it has sent Accepted messages for, with the value of
  that message; it reports none only if it has sent none.\<close>

lemma promise_reports_last_vote:
  assumes "acceptor_run cs (init_acceptor u None None None) = (a, ms)"
    "acceptor_serve (ReqPrepare f b) a = (a1, Promise w f b la lv)"
  shows "(\<forall>x c v. Accepted x c v \<in> set ms \<longrightarrow> Some c \<le> la) \<and>
    (\<forall>c. la = Some c \<longrightarrow> c \<le> b \<and> (\<exists>x. Accepted x c lv \<in> set ms))"
proof -
  have r: "votes_recorded (set ms) a" using acceptor_run_recorded[OF init_recorded, of cs u] assms(1) by simp
  have "la = accepted_id a" "lv = accepted_value a" "promised_id a \<le> Some b"
    using assms(2) by (auto simp: acceptor_receive_prepare_def Let_def split: if_splits)
  moreover have "accepted_id a \<le> promised_id a" using r by (simp add: votes_recorded_def acceptor_inv_def)
  ultimately have "la \<le> Some b" by (metis order_trans)
  then show ?thesis using r \<open>la = accepted_id a\<close> \<open>lv = accepted_value a\<close>
    unfolding votes_recorded_def by auto
qed

end
