(* ===== verification/Learner.thy ===== *)
theory Learner
  imports Paxos_Messages
begin

section \<open>The learner\<close>

text \<open>
  Class \<open>Learner\<close> of \<open>paxos/composable_paxos.py\<close>.  \<open>proposals\<close> and
  \<open>acceptors\<close> are dictionaries until the resolution, \<open>None\<close> after it.
\<close>

record 'v proposal_status =
  accept_count :: int
  retain_count :: int
  status_acceptors :: "uid set"
  status_value :: "'v option"

definition new_status :: "'v option \<Rightarrow> 'v proposal_status" where
  "new_status v = \<lparr>accept_count = 0, retain_count = 0, status_acceptors = {}, status_value = v\<rparr>"

record 'v learner =
  learn_uid :: uid                         \<comment> \<open>network_uid\<close>
  learn_quorum :: nat                      \<comment> \<open>quorum_size\<close>
  proposals :: "(proposal_id \<rightharpoonup> 'v proposal_status) option"
  acceptors :: "(uid \<rightharpoonup> proposal_id) option"
  final_value :: "'v option"
  final_acceptors :: "uid set option"
  final_proposal_id :: "proposal_id option"

definition init_learner :: "uid \<Rightarrow> nat \<Rightarrow> 'v learner" where
  "init_learner u q =
     \<lparr>learn_uid = u, learn_quorum = q, proposals = Some Map.empty, acceptors = Some Map.empty,
      final_value = None, final_acceptors = None, final_proposal_id = None\<rparr>"

text \<open>The acceptor moves on from the proposal it accepted before.\<close>

definition release_last :: "uid \<Rightarrow> proposal_id option \<Rightarrow> 'v learner \<Rightarrow> 'v learner \<times> unit outcome" where
  "release_last from_u last_pn l =
     (case last_pn of
        None \<Rightarrow> (l, Ret ())
      | Some q \<Rightarrow>
          (case proposals l of
             None \<Rightarrow> (l, Raise TypeError)
           | Some ps \<Rightarrow>
               (case ps q of
                  None \<Rightarrow> (l, Raise KeyError)
                | Some st \<Rightarrow>
                    let st1 = st\<lparr>retain_count := retain_count st - 1\<rparr> in
                    if from_u \<notin> status_acceptors st1 then
                      (l\<lparr>proposals := Some (ps(q \<mapsto> st1))\<rparr>, Raise KeyError)
                    else
                      let st2 = st1\<lparr>status_acceptors := status_acceptors st1 - {from_u}\<rparr> in
                      if retain_count st2 = 0
                      then (l\<lparr>proposals := Some (ps(q := None))\<rparr>, Ret ())
                      else (l\<lparr>proposals := Some (ps(q \<mapsto> st2))\<rparr>, Ret ()))))"

text \<open>The accepted proposal gains one acceptor; a quorum of them is the resolution.\<close>

definition count_accept ::
  "uid \<Rightarrow> proposal_id \<Rightarrow> 'v option \<Rightarrow> 'v learner \<Rightarrow> 'v learner \<times> 'v paxos_msg option outcome" where
  "count_accept from_u pid v l =
     (case proposals l of
        None \<Rightarrow> (l, Raise TypeError)
      | Some ps0 \<Rightarrow>
          let ps = (if pid \<in> dom ps0 then ps0 else ps0(pid \<mapsto> new_status v));
              l1 = l\<lparr>proposals := Some ps\<rparr>;
              st = the (ps pid) in
          if v \<noteq> status_value st then (l1, Raise AssertionError)
          else
            let st1 = st\<lparr>accept_count := accept_count st + 1, retain_count := retain_count st + 1,
                         status_acceptors := insert from_u (status_acceptors st)\<rparr> in
            if accept_count st1 = int (learn_quorum l1) then
              (l1\<lparr>final_proposal_id := Some pid, final_value := v,
                  final_acceptors := Some (status_acceptors st1),
                  proposals := None, acceptors := None\<rparr>,
               Ret (Some (Resolution (learn_uid l1) v)))
            else (l1\<lparr>proposals := Some (ps(pid \<mapsto> st1))\<rparr>, Ret None))"

definition receive_accepted ::
  "uid \<Rightarrow> proposal_id \<Rightarrow> 'v option \<Rightarrow> 'v learner \<Rightarrow> 'v learner \<times> 'v paxos_msg option outcome" where
  "receive_accepted from_u pid v l =
     (if final_value l \<noteq> None then
        (if Some pid \<ge> final_proposal_id l \<and> v = final_value l then
           (case final_acceptors l of
              None \<Rightarrow> (l, Raise AttributeError)
            | Some as \<Rightarrow>
                (l\<lparr>final_acceptors := Some (insert from_u as)\<rparr>,
                 Ret (Some (Resolution (learn_uid l) (final_value l)))))
         else (l, Ret (Some (Resolution (learn_uid l) (final_value l)))))
      else
        (case acceptors l of
           None \<Rightarrow> (l, Raise AttributeError)
         | Some accs \<Rightarrow>
             let last_pn = accs from_u in
             if Some pid \<le> last_pn then (l, Ret None)  \<comment> \<open>old message\<close>
             else
               let l1 = l\<lparr>acceptors := Some (accs(from_u \<mapsto> pid))\<rparr>;
                   (l2, r) = release_last from_u last_pn l1 in
               case r of
                 Raise e \<Rightarrow> (l2, Raise e)
               | Ret _ \<Rightarrow> count_accept from_u pid v l2))"

lemmas [paxos_ops] = release_last_def count_accept_def receive_accepted_def


subsection \<open>What the dictionaries mean\<close>

text \<open>
  \<open>roster_ok\<close>: the acceptors of a proposal are exactly the nodes whose last accepted
  proposal it is, \<open>retain_count\<close> counts them, and a proposal no acceptor is left on is
  gone from the dictionary.  \<open>tally_ok\<close>: \<open>accept_count\<close> counts distinct nodes that
  cast the vote, stays below the quorum while the value is not resolved, and every node it
  counts has since moved no lower.  \<open>V u b v\<close> is any record of votes: node \<open>u\<close>
  accepted value \<open>v\<close> under proposal \<open>b\<close>.
\<close>

definition status_ok :: "(uid \<rightharpoonup> proposal_id) \<Rightarrow> proposal_id \<Rightarrow> 'v proposal_status \<Rightarrow> bool" where
  "status_ok accs b st \<longleftrightarrow>
     status_acceptors st = {u. accs u = Some b} \<and> finite (status_acceptors st) \<and>
     status_acceptors st \<noteq> {} \<and> retain_count st = int (card (status_acceptors st))"

definition roster_ok :: "(proposal_id \<rightharpoonup> 'v proposal_status) \<Rightarrow> (uid \<rightharpoonup> proposal_id) \<Rightarrow> bool" where
  "roster_ok ps accs \<longleftrightarrow>
     (\<forall>b st. ps b = Some st \<longrightarrow> status_ok accs b st) \<and>
     (\<forall>u b. accs u = Some b \<longrightarrow> ps b \<noteq> None)"

definition tallied ::
  "(uid \<Rightarrow> proposal_id \<Rightarrow> 'v option \<Rightarrow> bool) \<Rightarrow> nat \<Rightarrow> (uid \<rightharpoonup> proposal_id)
     \<Rightarrow> proposal_id \<Rightarrow> 'v proposal_status \<Rightarrow> bool" where
  "tallied V q accs b st \<longleftrightarrow>
     (\<exists>A. finite A \<and> A \<noteq> {} \<and> int (card A) = accept_count st \<and> card A < q \<and>
          (\<forall>u\<in>A. V u b (status_value st) \<and> Some b \<le> accs u))"

definition tally_ok ::
  "(uid \<Rightarrow> proposal_id \<Rightarrow> 'v option \<Rightarrow> bool) \<Rightarrow> nat \<Rightarrow> (proposal_id \<rightharpoonup> 'v proposal_status)
     \<Rightarrow> (uid \<rightharpoonup> proposal_id) \<Rightarrow> bool" where
  "tally_ok V q ps accs \<longleftrightarrow> (\<forall>b st. ps b = Some st \<longrightarrow> tallied V q accs b st)"

definition learner_inv :: "(uid \<Rightarrow> proposal_id \<Rightarrow> 'v option \<Rightarrow> bool) \<Rightarrow> 'v learner \<Rightarrow> bool" where
  "learner_inv V l \<longleftrightarrow>
     0 < learn_quorum l \<and>
     (case (proposals l, acceptors l) of
        (Some ps, Some accs) \<Rightarrow>
          final_value l = None \<and> roster_ok ps accs \<and> tally_ok V (learn_quorum l) ps accs
      | (None, None) \<Rightarrow>
          (\<exists>b Q. final_proposal_id l = Some b \<and> final_acceptors l \<noteq> None \<and>
                 finite Q \<and> card Q = learn_quorum l \<and> (\<forall>u\<in>Q. V u b (final_value l)))
      | _ \<Rightarrow> False)"

lemma init_learner_inv: "0 < q \<Longrightarrow> learner_inv V (init_learner u q)"
  by (simp add: learner_inv_def init_learner_def roster_ok_def tally_ok_def)

lemma status_okI:
  "status_acceptors st = {u. accs u = Some b} \<Longrightarrow> finite (status_acceptors st) \<Longrightarrow>
   status_acceptors st \<noteq> {} \<Longrightarrow> retain_count st = int (card (status_acceptors st)) \<Longrightarrow>
   status_ok accs b st"
  by (simp add: status_ok_def)

lemma roster_okI:
  "(\<And>b st. ps b = Some st \<Longrightarrow> status_ok accs b st) \<Longrightarrow>
   (\<And>u b. accs u = Some b \<Longrightarrow> ps b \<noteq> None) \<Longrightarrow> roster_ok ps accs"
  by (auto simp: roster_ok_def)

lemma roster_okD:
  "roster_ok ps accs \<Longrightarrow> ps b = Some st \<Longrightarrow> status_ok accs b st"
  "roster_ok ps accs \<Longrightarrow> accs u = Some b \<Longrightarrow> ps b \<noteq> None"
  by (auto simp: roster_ok_def)

lemma tally_okD: "tally_ok V q ps accs \<Longrightarrow> ps b = Some st \<Longrightarrow> tallied V q accs b st"
  by (simp add: tally_ok_def)

lemma status_ok_other:
  assumes "status_ok accs c st" "accs u \<noteq> Some c" "x \<noteq> Some c"
  shows "status_ok (accs(u := x)) c st"
proof -
  have "{w. (accs(u := x)) w = Some c} = {w. accs w = Some c}" using assms(2,3) by auto
  with assms(1) show ?thesis unfolding status_ok_def by metis
qed

lemma set_proposals_same: "proposals l = Some ps \<Longrightarrow> l\<lparr>proposals := Some ps\<rparr> = l"
  by (cases l) simp

lemma tally_ok_mono_votes:
  "tally_ok V q ps accs \<Longrightarrow> (\<And>u b v. V u b v \<Longrightarrow> W u b v) \<Longrightarrow> tally_ok W q ps accs"
  unfolding tally_ok_def tallied_def by meson

lemma learner_inv_mono_votes:
  assumes "learner_inv V l" "\<And>u b v. V u b v \<Longrightarrow> W u b v"
  shows "learner_inv W l"
proof (cases "acceptors l")
  case None
  with assms(1) obtain b Q where
    "final_proposal_id l = Some b" "finite Q" "card Q = learn_quorum l" "\<forall>u\<in>Q. V u b (final_value l)"
    unfolding learner_inv_def by (auto split: option.splits)
  moreover from this assms(2) have "\<forall>u\<in>Q. W u b (final_value l)" by blast
  ultimately show ?thesis
    using assms(1) None unfolding learner_inv_def by (auto split: option.splits)
next
  case (Some accs)
  with assms(1) obtain ps where "proposals l = Some ps" "tally_ok V (learn_quorum l) ps accs"
    unfolding learner_inv_def by (auto split: option.splits)
  moreover from this assms(2) have "tally_ok W (learn_quorum l) ps accs"
    by (rule_tac tally_ok_mono_votes)
  ultimately show ?thesis using assms(1) Some unfolding learner_inv_def by simp
qed

lemma tallied_raise:
  assumes "tallied V q accs c st" "accs u \<le> Some b"
  shows "tallied V q (accs(u \<mapsto> b)) c st"
proof -
  have up: "Some c \<le> (accs(u \<mapsto> b)) w" if "Some c \<le> accs w" for w
  proof (cases "w = u")
    case True
    with that assms(2) have "Some c \<le> Some b" by (meson order_trans)
    with True show ?thesis by simp
  qed (use that in simp)
  from assms(1) show ?thesis unfolding tallied_def by (meson up)
qed

lemma tally_ok_raise:
  "tally_ok V q ps accs \<Longrightarrow> accs u \<le> Some b \<Longrightarrow> tally_ok V q ps (accs(u \<mapsto> b))"
  by (simp add: tally_ok_def tallied_raise)

subsection \<open>The two halves of \<open>receive_accepted\<close>\<close>

lemma status_ok_release:
  assumes "status_ok accs c st" "accs u = Some c" "retain_count st \<noteq> 1"
  shows "status_ok (accs(u := None)) c
           (st\<lparr>retain_count := retain_count st - 1, status_acceptors := status_acceptors st - {u}\<rparr>)"
proof -
  have fin: "finite (status_acceptors st)" and u: "u \<in> status_acceptors st"
    and rc: "retain_count st = int (card (status_acceptors st))"
    and eq: "status_acceptors st = {w. accs w = Some c}"
    using assms unfolding status_ok_def by blast+
  have "card (status_acceptors st) = Suc (card (status_acceptors st - {u}))"
    using fin u by (metis card.remove)
  then have n: "int (card (status_acceptors st - {u})) = retain_count st - 1" using rc by simp
  moreover have "status_acceptors st - {u} \<noteq> {}"
  proof
    assume "status_acceptors st - {u} = {}"
    then have "card (status_acceptors st - {u}) = 0" by (metis card.empty)
    with n assms(3) show False by simp
  qed
  moreover have "status_acceptors st - {u} = {w. (accs(u := None)) w = Some c}"
    using eq by auto
  moreover have "finite (status_acceptors st - {u})" using fin by simp
  ultimately show ?thesis
    unfolding status_ok_def by (simp only: proposal_status.simps) simp
qed

lemma release_last_step:
  assumes l: "proposals l = Some ps" and r: "roster_ok ps accs" and t: "tally_ok V q ps accs"
  shows "\<exists>ps'. release_last u (accs u) l = (l\<lparr>proposals := Some ps'\<rparr>, Ret ()) \<and>
           roster_ok ps' (accs(u := None)) \<and> tally_ok V q ps' accs"
proof (cases "accs u")
  case None
  then have "accs(u := None) = accs" by auto
  with None assms show ?thesis by (intro exI[of _ ps]) (simp add: release_last_def)
next
  case (Some c)
  with r obtain st where st: "ps c = Some st" by (meson roster_okD(2) not_Some_eq)
  let ?st' = "st\<lparr>retain_count := retain_count st - 1,
                 status_acceptors := status_acceptors st - {u}\<rparr>"
  have ok: "status_ok accs c st" using r st by (rule roster_okD)
  then have u: "u \<in> status_acceptors st" using Some by (simp add: status_ok_def)
  have rest: "status_ok (accs(u := None)) b s" if "ps b = Some s" "b \<noteq> c" for b s
    using roster_okD(1)[OF r that(1)] that(2) Some by (intro status_ok_other) auto
  show ?thesis
  proof (cases "retain_count st = 1")
    case True
    then have "card (status_acceptors st) = 1" using ok unfolding status_ok_def by linarith
    then have "status_acceptors st = {u}" using u by (metis card_1_singletonE singletonD)
    then have only: "w = u" if "accs w = Some c" for w
      using ok that by (auto simp: status_ok_def)
    have "roster_ok (ps(c := None)) (accs(u := None))"
    proof (rule roster_okI)
      fix w b assume "(accs(u := None)) w = Some b"
      then have "accs w = Some b" "w \<noteq> u" by (auto split: if_splits)
      then show "(ps(c := None)) b \<noteq> None" using only[of w] roster_okD(2)[OF r] by auto
    qed (use rest in \<open>auto split: if_splits\<close>)
    moreover have "tally_ok V q (ps(c := None)) accs"
      using t unfolding tally_ok_def by simp
    moreover have "release_last u (accs u) l = (l\<lparr>proposals := Some (ps(c := None))\<rparr>, Ret ())"
      using l Some st u True by (simp add: release_last_def Let_def)
    ultimately show ?thesis by blast
  next
    case False
    have "roster_ok (ps(c \<mapsto> ?st')) (accs(u := None))"
    proof (rule roster_okI)
      fix b s assume "(ps(c \<mapsto> ?st')) b = Some s"
      then show "status_ok (accs(u := None)) b s"
        using rest status_ok_release[OF ok Some False] by (cases "b = c") simp_all
    next
      fix w b assume "(accs(u := None)) w = Some b"
      then have "accs w = Some b" by (auto split: if_splits)
      then show "(ps(c \<mapsto> ?st')) b \<noteq> None" using roster_okD(2)[OF r] by simp
    qed
    moreover have "tallied V q accs c ?st'"
      using tally_okD[OF t st] by (simp add: tallied_def)
    then have "tally_ok V q (ps(c \<mapsto> ?st')) accs"
      using t unfolding tally_ok_def by simp
    moreover have "release_last u (accs u) l = (l\<lparr>proposals := Some (ps(c \<mapsto> ?st'))\<rparr>, Ret ())"
      using l Some st u False by (simp add: release_last_def Let_def)
    ultimately show ?thesis by blast
  qed
qed

lemma roster_add:
  assumes r: "roster_ok ps (accs(u := None))"
    and st: "st = (case ps b of None \<Rightarrow> new_status v | Some s \<Rightarrow> s)"
  shows "roster_ok (ps(b \<mapsto> st\<lparr>accept_count := n, retain_count := retain_count st + 1,
                                status_acceptors := insert u (status_acceptors st)\<rparr>)) (accs(u \<mapsto> b))"
    (is "roster_ok (ps(b \<mapsto> ?st)) _")
proof (rule roster_okI)
  have new: "status_ok (accs(u \<mapsto> b)) b ?st"
  proof (cases "ps b")
    case None
    then have "w = u" if "accs w = Some b" for w
      using roster_okD(2)[OF r, of w b] that by (cases "w = u") auto
    then have "{w. (accs(u \<mapsto> b)) w = Some b} = {u}" by auto
    with None show ?thesis by (simp add: status_ok_def st new_status_def)
  next
    case (Some s)
    have ok: "status_ok (accs(u := None)) b s" using roster_okD(1)[OF r Some] .
    then have A: "status_acceptors s = {w. (accs(u := None)) w = Some b}"
      "finite (status_acceptors s)" "retain_count s = int (card (status_acceptors s))"
      unfolding status_ok_def by blast+
    from A(1) have u: "u \<notin> status_acceptors s"
      and eq: "insert u (status_acceptors s) = {w. (accs(u \<mapsto> b)) w = Some b}" by auto
    have "st = s" using st Some by simp
    show ?thesis
    proof (rule status_okI)
      show "status_acceptors ?st = {w. (accs(u \<mapsto> b)) w = Some b}" using eq \<open>st = s\<close> by simp
    qed (use A(2,3) u \<open>st = s\<close> in simp_all)
  qed
  fix c s assume c: "(ps(b \<mapsto> ?st)) c = Some s"
  show "status_ok (accs(u \<mapsto> b)) c s"
  proof (cases "c = b")
    case False
    with c have "status_ok (accs(u := None)) c s" using roster_okD(1)[OF r] by simp
    from status_ok_other[OF this, of u "Some b"] False show ?thesis by simp
  qed (use new c in simp)
next
  fix w c assume "(accs(u \<mapsto> b)) w = Some c"
  then show "(ps(b \<mapsto> ?st)) c \<noteq> None"
    using roster_okD(2)[OF r, of w c] by (auto split: if_splits)
qed

text \<open>Counting one more vote: an assertion failure, one more entry, or the resolution.\<close>

lemma count_accept_step:
  assumes ps: "proposals l = Some ps" and r: "roster_ok ps (accs(u := None))"
    and t: "tally_ok V (learn_quorum l) ps accs" and low: "accs u < Some b"
    and vote: "V u b v" and q: "0 < learn_quorum l"
  shows "(\<exists>v' w. count_accept u b v l = (l, Raise AssertionError) \<and> V w b v' \<and> v' \<noteq> v) \<or>
         (\<exists>ps'. count_accept u b v l = (l\<lparr>proposals := Some ps'\<rparr>, Ret None) \<and>
            roster_ok ps' (accs(u \<mapsto> b)) \<and> tally_ok V (learn_quorum l) ps' (accs(u \<mapsto> b))) \<or>
         (\<exists>Q F. finite Q \<and> card Q = learn_quorum l \<and> (\<forall>w\<in>Q. V w b v) \<and>
            count_accept u b v l =
              (l\<lparr>final_proposal_id := Some b, final_value := v, final_acceptors := Some F,
                 proposals := None, acceptors := None\<rparr>, Ret (Some (Resolution (learn_uid l) v))))"
proof -
  define st where "st = (case ps b of None \<Rightarrow> new_status v | Some s \<Rightarrow> s)"
  define ps0 where "ps0 = (if b \<in> dom ps then ps else ps(b \<mapsto> new_status v))"
  let ?st = "st\<lparr>accept_count := accept_count st + 1, retain_count := retain_count st + 1,
                status_acceptors := insert u (status_acceptors st)\<rparr>"
  have ps0: "the (ps0 b) = st" "ps0(b \<mapsto> ?st) = ps(b \<mapsto> ?st)" "ps b \<noteq> None \<Longrightarrow> ps0 = ps"
    unfolding ps0_def st_def by (auto split: option.splits)
  have count: "count_accept u b v l =
     (if v \<noteq> status_value st then (l\<lparr>proposals := Some ps0\<rparr>, Raise AssertionError)
      else if accept_count st + 1 = int (learn_quorum l) then
          (l\<lparr>final_proposal_id := Some b, final_value := v,
             final_acceptors := Some (status_acceptors ?st), proposals := None, acceptors := None\<rparr>,
            Ret (Some (Resolution (learn_uid l) v)))
        else (l\<lparr>proposals := Some (ps(b \<mapsto> ?st))\<rparr>, Ret None))"
    using ps ps0(1,2) by (simp add: count_accept_def ps0_def[symmetric] Let_def)
  obtain A where A: "finite A" "int (card A) = accept_count st" "card A < learn_quorum l"
      "\<forall>w\<in>A. V w b (status_value st) \<and> Some b \<le> accs w" "ps b \<noteq> None \<longrightarrow> A \<noteq> {}"
  proof (cases "ps b")
    case None
    then show thesis using q that[of "{}"] by (simp add: st_def new_status_def)
  next
    case (Some s)
    then show thesis using tally_okD[OF t Some] that by (auto simp: tallied_def st_def)
  qed
  have uA: "u \<notin> A" using A(4) low by (meson leD)
  show ?thesis
  proof (cases "v = status_value st")
    case False
    then have "ps b \<noteq> None" by (cases "ps b") (simp_all add: st_def new_status_def)
    with A(4,5) obtain w where w: "V w b (status_value st)" by blast
    have "l\<lparr>proposals := Some ps0\<rparr> = l"
      unfolding ps0(3)[OF \<open>ps b \<noteq> None\<close>] by (rule set_proposals_same) (rule ps)
    then have "count_accept u b v l = (l, Raise AssertionError)"
      using trans[OF count if_P[OF False]] by metis
    moreover have "status_value st \<noteq> v" using False by (rule not_sym)
    ultimately show ?thesis using w by blast
  next
    case True
    let ?A = "insert u A"
    have A': "finite ?A" "int (card ?A) = accept_count st + 1" "\<forall>w\<in>?A. V w b v"
      using A uA vote True by auto
    show ?thesis
    proof (cases "accept_count st + 1 = int (learn_quorum l)")
      case res: True
      then have "card ?A = learn_quorum l" using A' by linarith
      moreover have "count_accept u b v l =
          (l\<lparr>final_proposal_id := Some b, final_value := v,
             final_acceptors := Some (status_acceptors ?st), proposals := None, acceptors := None\<rparr>,
           Ret (Some (Resolution (learn_uid l) v)))"
        using count True res by simp
      ultimately show ?thesis using A'(1,3) by blast
    next
      case False
      have "roster_ok (ps(b \<mapsto> ?st)) (accs(u \<mapsto> b))"
        using r st_def by (rule roster_add)
      moreover have "tallied V (learn_quorum l) (accs(u \<mapsto> b)) b ?st"
      proof -
        have "card ?A < learn_quorum l" using False A(1,2,3) uA by auto
        moreover have "\<forall>w\<in>?A. Some b \<le> (accs(u \<mapsto> b)) w" using A(4) by auto
        ultimately show ?thesis using A' True unfolding tallied_def by (intro exI[of _ ?A]) simp
      qed
      then have "tally_ok V (learn_quorum l) (ps(b \<mapsto> ?st)) (accs(u \<mapsto> b))"
        using tally_ok_raise[OF t, of u b] low by (simp add: tally_ok_def)
      moreover have "count_accept u b v l = (l\<lparr>proposals := Some (ps(b \<mapsto> ?st))\<rparr>, Ret None)"
        using count True False by simp
      ultimately show ?thesis by blast
    qed
  qed
qed

subsection \<open>One message, and a history of messages\<close>

lemma release_last_frame [frame_simps]:
  "learn_uid (fst (release_last u x l)) = learn_uid l"
  "learn_quorum (fst (release_last u x l)) = learn_quorum l"
  by (simp_all add: release_last_def Let_def split: option.split)

lemma count_accept_frame [frame_simps]:
  "learn_uid (fst (count_accept u b v l)) = learn_uid l"
  "learn_quorum (fst (count_accept u b v l)) = learn_quorum l"
  by (simp_all add: count_accept_def Let_def split: option.split)

lemma receive_accepted_frame [frame_simps]:
  "learn_uid (fst (receive_accepted u b v l)) = learn_uid l"
  "learn_quorum (fst (receive_accepted u b v l)) = learn_quorum l"
  by (simp_all add: receive_accepted_def Let_def split_beta frame_simps
      split: option.split outcome.split)

lemma receive_accepted_open:
  assumes inv: "learner_inv V l" and opn: "acceptors l = Some accs" and vote: "V u b v"
    and agree: "\<forall>w v'. V w b v' \<longrightarrow> v' = v"
  shows "(\<exists>l'. receive_accepted u b v l = (l', Ret None) \<and> learner_inv V l' \<and> acceptors l' \<noteq> None) \<or>
         (\<exists>l' Q. receive_accepted u b v l = (l', Ret (Some (Resolution (learn_uid l) v))) \<and>
            learner_inv V l' \<and> final_value l' = v \<and>
            finite Q \<and> card Q = learn_quorum l \<and> (\<forall>w\<in>Q. V w b v))"
proof -
  from inv opn obtain ps where ps: "proposals l = Some ps" and fv: "final_value l = None"
    and r: "roster_ok ps accs" and t: "tally_ok V (learn_quorum l) ps accs" and q: "0 < learn_quorum l"
    unfolding learner_inv_def by (auto split: option.splits)
  show ?thesis
  proof (cases "Some b \<le> accs u")
    case True
    then show ?thesis using inv opn fv by (simp add: receive_accepted_def)
  next
    case False
    then have low: "accs u < Some b" by simp
    let ?l = "l\<lparr>acceptors := Some (accs(u \<mapsto> b))\<rparr>"
    obtain ps' where rel: "release_last u (accs u) ?l = (?l\<lparr>proposals := Some ps'\<rparr>, Ret ())"
      and r': "roster_ok ps' (accs(u := None))" and t': "tally_ok V (learn_quorum l) ps' accs"
      using release_last_step[of ?l ps accs V "learn_quorum l" u] ps r t by auto
    let ?m = "?l\<lparr>proposals := Some ps'\<rparr>"
    have eq: "receive_accepted u b v l = count_accept u b v ?m"
      using fv opn False rel by (simp add: receive_accepted_def Let_def)
    have q': "0 < learn_quorum ?m" "tally_ok V (learn_quorum ?m) ps' accs" using q t' by simp_all
    consider (bad) v' w where "V w b v'" "v' \<noteq> v"
      | (more) ps'' where "count_accept u b v ?m = (?m\<lparr>proposals := Some ps''\<rparr>, Ret None)"
          "roster_ok ps'' (accs(u \<mapsto> b))" "tally_ok V (learn_quorum l) ps'' (accs(u \<mapsto> b))"
      | (resolved) Q F where "finite Q" "card Q = learn_quorum l" "\<forall>w\<in>Q. V w b v"
          "count_accept u b v ?m =
              (?m\<lparr>final_proposal_id := Some b, final_value := v, final_acceptors := Some F,
                 proposals := None, acceptors := None\<rparr>, Ret (Some (Resolution (learn_uid l) v)))"
    proof -
      have m: "learn_quorum ?m = learn_quorum l" "learn_uid ?m = learn_uid l"
        "proposals ?m = Some ps'" by simp_all
      from count_accept_step[OF m(3) r' q'(2) low vote q'(1), unfolded m] that
      show thesis by blast
    qed
    then show ?thesis
    proof cases
      case bad
      then show ?thesis using agree by blast
    next
      case more
      then show ?thesis using eq q fv by (simp add: learner_inv_def)
    next
      case resolved
      let ?l' = "?m\<lparr>final_proposal_id := Some b, final_value := v, final_acceptors := Some F,
                 proposals := None, acceptors := None\<rparr>"
      have "learner_inv V ?l'" using resolved(1-3) q by (auto simp: learner_inv_def)
      moreover have "final_value ?l' = v" by simp
      ultimately show ?thesis using eq resolved by metis
    qed
  qed
qed

lemma receive_accepted_inv:
  assumes inv: "learner_inv V l" and vote: "V u b v" and agree: "\<And>w v'. V w b v' \<Longrightarrow> v' = v"
  shows "learner_inv V (fst (receive_accepted u b v l))"
proof (cases "acceptors l")
  case None
  with inv obtain as where "final_acceptors l = Some as"
    unfolding learner_inv_def by (auto split: option.splits)
  moreover have "learner_inv V (l\<lparr>final_acceptors := Some F\<rparr>)" for F
    using inv None unfolding learner_inv_def by (auto split: option.splits)
  ultimately show ?thesis using inv None by (simp add: receive_accepted_def)
next
  case (Some accs)
  have "(\<exists>l' r. receive_accepted u b v l = (l', r) \<and> learner_inv V l')"
    using receive_accepted_open[of V l accs u b v] inv Some vote agree by blast
  then show ?thesis by auto
qed

text \<open>
  A learner fed with Accepted messages in any order, duplicates and old messages included.
  Messages that name a value for a proposal agree on it (\<open>agree\<close>): that is what the
  proposers guarantee.
\<close>

fun learner_run ::
  "(uid \<times> proposal_id \<times> 'v option) list \<Rightarrow> 'v learner \<Rightarrow> 'v learner \<times> 'v paxos_msg option outcome list" where
  "learner_run [] l = (l, [])"
| "learner_run ((u, b, v) # ms) l =
     (let (l1, r) = receive_accepted u b v l; (l2, rs) = learner_run ms l1 in (l2, r # rs))"

lemma learner_run_inv:
  assumes "learner_inv V l" "\<forall>(u, b, v)\<in>set ms. V u b v"
    "\<And>u w b v v'. V u b v \<Longrightarrow> V w b v' \<Longrightarrow> v = v'"
  shows "learner_inv V (fst (learner_run ms l))"
  using assms(1,2)
proof (induction ms arbitrary: l)
  case (Cons m ms)
  obtain u b v where m: "m = (u, b, v)" by (cases m)
  have "learner_inv V (fst (receive_accepted u b v l))"
    using Cons.prems m assms(3) by (intro receive_accepted_inv) auto
  from Cons.IH[OF this] Cons.prems m show ?case by (simp add: split_beta Let_def)
qed simp

lemma learner_run_frame [frame_simps]:
  "learn_quorum (fst (learner_run ms l)) = learn_quorum l"
  by (induction ms arbitrary: l) (auto simp: split_beta Let_def receive_accepted_frame)

text \<open>Fed with votes of distinct acceptors for one proposal, a fresh learner counts them.\<close>

lemma learner_run_append:
  "learner_run (ms @ ms') l =
     (let (l1, rs) = learner_run ms l; (l2, rs') = learner_run ms' l1 in (l2, rs @ rs'))"
  by (induction ms arbitrary: l) (auto simp: split_beta Let_def)

lemma learner_run_counts:
  assumes "distinct us" "length us < q"
  shows "learner_run (map (\<lambda>u. (u, b, v)) us) (init_learner w q) =
     ((init_learner w q)\<lparr>
        proposals := Some (if us = [] then Map.empty else
          [b \<mapsto> \<lparr>accept_count = int (length us), retain_count = int (length us),
                 status_acceptors = set us, status_value = v\<rparr>]),
        acceptors := Some (\<lambda>u. if u \<in> set us then Some b else None)\<rparr>,
      replicate (length us) (Ret None))"
  using assms
proof (induction us rule: rev_induct)
  case Nil
  show ?case by (simp add: init_learner_def)
next
  case (snoc u us)
  then show ?case
    by (auto simp: learner_run_append receive_accepted_def release_last_def count_accept_def
        init_learner_def new_status_def Let_def fun_eq_iff simp flip: replicate_append_same)
qed

lemma learner_run_resolves:
  assumes "distinct (us @ [u])" "Suc (length us) = q"
  shows "snd (receive_accepted u b v (fst (learner_run (map (\<lambda>u. (u, b, v)) us) (init_learner w q))))
     = Ret (Some (Resolution w v))"
proof -
  have d: "distinct us" "length us < q" "u \<notin> set us" "q = Suc (length us)" using assms by auto
  show ?thesis
    unfolding learner_run_counts[OF d(1,2)] using d(3,4)
    by (simp add: receive_accepted_def release_last_def count_accept_def init_learner_def
        new_status_def Let_def)
qed

subsection \<open>Properties\<close>

definition backed :: "(uid \<Rightarrow> proposal_id \<Rightarrow> 'v option \<Rightarrow> bool) \<Rightarrow> nat \<Rightarrow> 'v option \<Rightarrow> bool" where
  "backed V q v \<longleftrightarrow> (\<exists>b Q. finite Q \<and> card Q = q \<and> (\<forall>u\<in>Q. V u b v))"

fun verdict_ok :: "(uid \<Rightarrow> proposal_id \<Rightarrow> 'v option \<Rightarrow> bool) \<Rightarrow> nat \<Rightarrow> 'v paxos_msg option outcome \<Rightarrow> bool" where
  "verdict_ok V q (Ret None) \<longleftrightarrow> True"
| "verdict_ok V q (Ret (Some (Resolution w v))) \<longleftrightarrow> backed V q v"
| "verdict_ok V q _ \<longleftrightarrow> False"

lemma receive_accepted_verdict:
  assumes inv: "learner_inv V l" and vote: "V u b v" and agree: "\<And>w x y z b. V w b x \<Longrightarrow> V y b z \<Longrightarrow> x = z"
    and some: "\<And>w b. \<not> V w b None"
  shows "verdict_ok V (learn_quorum l) (snd (receive_accepted u b v l))"
proof (cases "acceptors l")
  case None
  with inv obtain c Q as where c: "final_acceptors l = Some as" and Q: "finite Q" "card Q = learn_quorum l"
    "\<forall>u\<in>Q. V u c (final_value l)" and q: "0 < learn_quorum l"
    unfolding learner_inv_def by (auto split: option.splits)
  then have "Q \<noteq> {}" by auto
  then have "final_value l \<noteq> None" using Q(3) some by fastforce
  moreover have "backed V (learn_quorum l) (final_value l)" using Q unfolding backed_def by blast
  ultimately show ?thesis using c by (auto simp: receive_accepted_def)
next
  case (Some accs)
  have "\<forall>w v'. V w b v' \<longrightarrow> v' = v" using agree vote by blast
  from receive_accepted_open[OF inv Some vote this]
  consider "snd (receive_accepted u b v l) = Ret None"
    | Q where "snd (receive_accepted u b v l) = Ret (Some (Resolution (learn_uid l) v))"
        "finite Q" "card Q = learn_quorum l" "\<forall>w\<in>Q. V w b v"
    by (metis snd_conv)
  then show ?thesis unfolding backed_def[symmetric] by cases (auto simp: backed_def)
qed

text \<open>C7: a learner resolves only what a quorum accepted.  Whatever Accepted messages it
  receives, in any order and with duplicates, as long as no two of them name different values
  for one proposal, it raises no exception, and every Resolution it returns is for a value that
  a quorum of distinct acceptors accepted under one proposal.\<close>

theorem learner_sound:
  assumes "0 < q" "\<forall>(u, b, v)\<in>set ms. v \<noteq> None"
    "\<forall>(u, b, v)\<in>set ms. \<forall>(w, c, x)\<in>set ms. b = c \<longrightarrow> v = x"
    "r \<in> set (snd (learner_run ms (init_learner i q)))"
  shows "verdict_ok (\<lambda>u b v. (u, b, v) \<in> set ms) q r"
proof -
  let ?V = "\<lambda>u b v. (u, b, v) \<in> set ms"
  have agree: "x = z" if "?V w b x" "?V y b z" for w x y z b
    using assms(3) that by fast
  have some: "\<not> ?V w b None" for w b using assms(2) by fastforce
  have run: "verdict_ok ?V q r" if "learner_inv ?V l" "learn_quorum l = q" "set ns \<subseteq> set ms"
    "r \<in> set (snd (learner_run ns l))" for l ns
    using that
  proof (induction ns arbitrary: l)
    case (Cons n ns)
    obtain u b v where n: "n = (u, b, v)" by (cases n)
    let ?l = "fst (receive_accepted u b v l)"
    have uv: "?V u b v" using Cons.prems(3) n by simp
    have i: "learner_inv ?V ?l"
      using receive_accepted_inv[where V = ?V, OF Cons.prems(1) uv] agree[OF _ uv] by blast
    have "verdict_ok ?V q (snd (receive_accepted u b v l))"
      using receive_accepted_verdict[where V = ?V, OF Cons.prems(1) uv agree some] Cons.prems(2) by simp
    moreover have "verdict_ok ?V q r" if "r \<in> set (snd (learner_run ns ?l))"
      using Cons.IH[OF i _ _ that] Cons.prems(2,3) by (simp add: frame_simps)
    ultimately show ?case using Cons.prems(4) n by (auto simp: split_beta Let_def)
  qed simp
  have "learn_quorum (init_learner i q) = q" by (simp add: init_learner_def)
  from run[OF init_learner_inv[OF assms(1)] this subset_refl assms(4)] show ?thesis .
qed

theorem learner_sound_witness:
  "backed (\<lambda>u b v. (u, b, v) \<in> set [(UInt 1, ProposalID 1 (UInt 1), Some (4::int)),
      (UInt 1, ProposalID 1 (UInt 1), Some 4), (UInt 2, ProposalID 1 (UInt 1), Some 4)]) 2 (Some 4)"
proof -
  let ?b = "ProposalID 1 (UInt 1)"
  let ?ms = "[(UInt 1, ?b, Some (4::int)), (UInt 1, ?b, Some 4), (UInt 2, ?b, Some 4)]"
  have 1: "Ret (Some (Resolution (UInt 3) (Some 4))) \<in> set (snd (learner_run ?ms (init_learner (UInt 3) 2)))"
    by code_simp
  have "verdict_ok (\<lambda>u b v. (u, b, v) \<in> set ?ms) 2 (Ret (Some (Resolution (UInt 3) (Some 4))))"
    by (rule learner_sound[OF _ _ _ 1]) simp_all
  then show ?thesis by simp
qed

text \<open>A learner resolves as soon as it can.  Fed the Accepted messages of a quorum of
  distinct acceptors for one proposal and value, a fresh learner stays silent until the last
  of them, and then returns the Resolution of that value.\<close>

lemma learner_complete:
  assumes "distinct us" "length us = q" "0 < q"
  shows "\<exists>rs. snd (learner_run (map (\<lambda>u. (u, b, v)) us) (init_learner w q)) =
    rs @ [Ret (Some (Resolution w v))]"
proof -
  obtain us' u where us: "us = us' @ [u]" using assms(2,3) by (cases us rule: rev_cases) auto
  have "distinct (us' @ [u])" "Suc (length us') = q" using assms us by auto
  from learner_run_resolves[OF this, of b v w] show ?thesis
    by (simp add: us learner_run_append split_beta Let_def)
qed

end
