(* ===== verification/Paxos_Instance.thy ===== *)
theory Paxos_Instance
  imports Proposer Acceptor Learner
begin

section \<open>The composed instance\<close>

text \<open>
  Class \<open>PaxosInstance (Proposer, Acceptor, Learner)\<close> of
  \<open>paxos/composable_paxos.py\<close>.  The three bases share only \<open>network_uid\<close> and
  \<open>quorum_size\<close>, which nothing writes after the constructor; the object is the record of
  the three parts, each holding its copy of the two.
\<close>

record 'v paxos =
  proposer_of :: "'v proposer"
  acceptor_of :: "'v acceptor"
  learner_of :: "'v learner"

definition init_paxos ::
  "uid \<Rightarrow> nat \<Rightarrow> proposal_id option \<Rightarrow> proposal_id option \<Rightarrow> 'v option \<Rightarrow> 'v paxos" where
  "init_paxos u q promised accepted v =
     \<lparr>proposer_of = init_proposer u q, acceptor_of = init_acceptor u promised accepted v,
      learner_of = init_learner u q\<rparr>"

definition paxos_propose_value :: "'v option \<Rightarrow> 'v paxos \<Rightarrow> 'v paxos \<times> 'v paxos_msg option" where
  "paxos_propose_value v x =
     (let (p, m) = propose_value v (proposer_of x) in (x\<lparr>proposer_of := p\<rparr>, m))"

definition paxos_prepare :: "'v paxos \<Rightarrow> 'v paxos \<times> 'v paxos_msg" where
  "paxos_prepare x = (let (p, m) = prepare (proposer_of x) in (x\<lparr>proposer_of := p\<rparr>, m))"

definition paxos_receive_nack ::
  "uid \<Rightarrow> proposal_id \<Rightarrow> proposal_id option \<Rightarrow> 'v paxos \<Rightarrow> 'v paxos \<times> 'v paxos_msg option outcome" where
  "paxos_receive_nack f b promised x =
     (let (p, r) = receive_nack f b promised (proposer_of x) in (x\<lparr>proposer_of := p\<rparr>, r))"

definition paxos_receive_promise ::
  "uid \<Rightarrow> proposal_id \<Rightarrow> proposal_id option \<Rightarrow> 'v option \<Rightarrow> 'v paxos
     \<Rightarrow> 'v paxos \<times> 'v paxos_msg option outcome" where
  "paxos_receive_promise f b la lv x =
     (let (p, r) = receive_promise f b la lv (proposer_of x) in (x\<lparr>proposer_of := p\<rparr>, r))"

definition paxos_receive_accepted ::
  "uid \<Rightarrow> proposal_id \<Rightarrow> 'v option \<Rightarrow> 'v paxos \<Rightarrow> 'v paxos \<times> 'v paxos_msg option outcome" where
  "paxos_receive_accepted f b v x =
     (let (l, r) = receive_accepted f b v (learner_of x) in (x\<lparr>learner_of := l\<rparr>, r))"

text \<open>The two methods \<open>PaxosInstance\<close> overrides: the proposer observes the proposal first.\<close>

definition paxos_receive_prepare :: "uid \<Rightarrow> proposal_id \<Rightarrow> 'v paxos \<Rightarrow> 'v paxos \<times> 'v paxos_msg" where
  "paxos_receive_prepare f b x =
     (let x1 = x\<lparr>proposer_of := observe_proposal (Some b) (proposer_of x)\<rparr>;
          (a, m) = acceptor_receive_prepare f b (acceptor_of x1) in (x1\<lparr>acceptor_of := a\<rparr>, m))"

definition paxos_receive_accept ::
  "uid \<Rightarrow> proposal_id \<Rightarrow> 'v option \<Rightarrow> 'v paxos \<Rightarrow> 'v paxos \<times> 'v paxos_msg" where
  "paxos_receive_accept f b v x =
     (let x1 = x\<lparr>proposer_of := observe_proposal (Some b) (proposer_of x)\<rparr>;
          (a, m) = acceptor_receive_accept f b v (acceptor_of x1) in (x1\<lparr>acceptor_of := a\<rparr>, m))"

text \<open>\<open>MessageHandler.receive\<close>: dispatch on the message's class.\<close>

fun receive :: "'v paxos_msg \<Rightarrow> 'v paxos \<Rightarrow> 'v paxos \<times> 'v paxos_msg option outcome" where
  "receive (Prepare f b) x = (let (x1, m) = paxos_receive_prepare f b x in (x1, Ret (Some m)))"
| "receive (Nack f w b promised) x = paxos_receive_nack f b promised x"
| "receive (Promise f w b la lv) x = paxos_receive_promise f b la lv x"
| "receive (Accept f b v) x = (let (x1, m) = paxos_receive_accept f b v x in (x1, Ret (Some m)))"
| "receive (Accepted f b v) x = paxos_receive_accepted f b v x"
| "receive (Resolution f v) x = (x, Raise InvalidMessageError)"

lemmas [paxos_ops] =
  paxos_propose_value_def paxos_prepare_def paxos_receive_nack_def paxos_receive_promise_def
  paxos_receive_accepted_def paxos_receive_prepare_def paxos_receive_accept_def

subsection \<open>Who writes what\<close>

lemma paxos_parts [frame_simps, simp]:
  "proposer_of (fst (paxos_propose_value v x)) = fst (propose_value v (proposer_of x))"
  "acceptor_of (fst (paxos_propose_value v x)) = acceptor_of x"
  "learner_of (fst (paxos_propose_value v x)) = learner_of x"
  "proposer_of (fst (paxos_prepare x)) = fst (prepare (proposer_of x))"
  "acceptor_of (fst (paxos_prepare x)) = acceptor_of x"
  "learner_of (fst (paxos_prepare x)) = learner_of x"
  "proposer_of (fst (paxos_receive_nack f b pr x)) = fst (receive_nack f b pr (proposer_of x))"
  "acceptor_of (fst (paxos_receive_nack f b pr x)) = acceptor_of x"
  "learner_of (fst (paxos_receive_nack f b pr x)) = learner_of x"
  "proposer_of (fst (paxos_receive_promise f b la lv x)) = fst (receive_promise f b la lv (proposer_of x))"
  "acceptor_of (fst (paxos_receive_promise f b la lv x)) = acceptor_of x"
  "learner_of (fst (paxos_receive_promise f b la lv x)) = learner_of x"
  "proposer_of (fst (paxos_receive_accepted f b v x)) = proposer_of x"
  "acceptor_of (fst (paxos_receive_accepted f b v x)) = acceptor_of x"
  "learner_of (fst (paxos_receive_accepted f b v x)) = fst (receive_accepted f b v (learner_of x))"
  by (simp_all add: paxos_ops split_beta Let_def)

lemma paxos_parts_acceptor [frame_simps, simp]:
  "proposer_of (fst (paxos_receive_prepare f b x)) = observe_proposal (Some b) (proposer_of x)"
  "acceptor_of (fst (paxos_receive_prepare f b x)) = fst (acceptor_receive_prepare f b (acceptor_of x))"
  "learner_of (fst (paxos_receive_prepare f b x)) = learner_of x"
  "proposer_of (fst (paxos_receive_accept f b v x)) = observe_proposal (Some b) (proposer_of x)"
  "acceptor_of (fst (paxos_receive_accept f b v x)) = fst (acceptor_receive_accept f b v (acceptor_of x))"
  "learner_of (fst (paxos_receive_accept f b v x)) = learner_of x"
  by (simp_all add: paxos_receive_prepare_def paxos_receive_accept_def split_beta Let_def)

lemma paxos_replies [simp]:
  "snd (paxos_propose_value v x) = snd (propose_value v (proposer_of x))"
  "snd (paxos_prepare x) = snd (prepare (proposer_of x))"
  "snd (paxos_receive_nack f b pr x) = snd (receive_nack f b pr (proposer_of x))"
  "snd (paxos_receive_promise f b la lv x) = snd (receive_promise f b la lv (proposer_of x))"
  "snd (paxos_receive_accepted f b v x) = snd (receive_accepted f b v (learner_of x))"
  "snd (paxos_receive_prepare f b x) = snd (acceptor_receive_prepare f b (acceptor_of x))"
  "snd (paxos_receive_accept f b v x) = snd (acceptor_receive_accept f b v (acceptor_of x))"
  by (simp_all add: paxos_propose_value_def paxos_prepare_def paxos_receive_nack_def
      paxos_receive_promise_def paxos_receive_accepted_def paxos_receive_prepare_def
      paxos_receive_accept_def split_beta Let_def)

end
