(* ===== verification/Quorum.thy ===== *)
theory Quorum
  imports Paxos_Messages
begin

section \<open>Majorities\<close>

text \<open>
  \<open>quorum_size = len(peers)/2 + 1\<close> of \<open>BaseReplicatedValue.__init__\<close>
  (\<open>paxos/replicated_value.py\<close>; Python 2 divides integers rounding down), and the contract
  its clients rely on: two sets of peers of that size share a member.
\<close>

definition quorum_of :: "uid list \<Rightarrow> nat" where
  "quorum_of peers = length peers div 2 + 1"

locale quorum_system =
  fixes members :: "uid set" and quorum :: nat
  assumes members_finite: "finite members"
    and majority: "card members < 2 * quorum"
begin

definition is_quorum :: "uid set \<Rightarrow> bool" where
  "is_quorum Q \<longleftrightarrow> Q \<subseteq> members \<and> quorum \<le> card Q"

lemma quorums_meet:
  assumes "is_quorum Q" "is_quorum Q'"
  shows "\<exists>a. a \<in> Q \<and> a \<in> Q'"
  using assms majority members_finite
  by (intro big_subsets_meet[of members]) (auto simp: is_quorum_def)

lemma quorum_nonempty: "is_quorum Q \<Longrightarrow> Q \<noteq> {}"
  using quorums_meet by blast

end

interpretation peers: quorum_system "set ps" "quorum_of ps" for ps :: "uid list"
proof
  have "card (set ps) \<le> length ps" by (rule card_length)
  then show "card (set ps) < 2 * quorum_of ps" by (simp add: quorum_of_def)
qed simp

lemma quorum_of_pos: "0 < quorum_of ps"
  by (simp add: quorum_of_def)

end
