(* ===== verification/Replicated_Value.thy ===== *)
theory Replicated_Value
  imports Paxos_Instance Quorum
begin

section \<open>The replicated value\<close>

text \<open>
  Class \<open>BaseReplicatedValue\<close> of \<open>paxos/replicated_value.py\<close>: one link of the
  multi-Paxos chain at a time, persisted in a state file.  The object's record also holds
  what its methods do to the world: the content of the state file, the packets handed to the
  messenger in order (\<open>outbox\<close>), and the calls of \<open>onUpdateCallback\<close> in order
  (\<open>updates\<close>).  Methods that a mixin class overrides and the base class calls through
  \<open>self\<close> are arguments of the operations that call them.
\<close>

subsection \<open>State and packets\<close>

text \<open>The packets of \<open>Messenger.send_...\<close>, without the sender.\<close>

datatype 'v wire =
    WPrepare int proposal_id
  | WPromise int proposal_id "proposal_id option" "'v option"
  | WNack int proposal_id "proposal_id option"
  | WAccept int proposal_id "'v option"
  | WAccepted int proposal_id "'v option"
  | WSyncRequest int
  | WCatchup int "'v option"

text \<open>The JSON object in the state file.\<close>

record 'v saved_state =
  file_instance_number :: int
  file_promised_id :: "proposal_id option"
  file_accepted_id :: "proposal_id option"
  file_accepted_value :: "'v option"
  file_current_value :: "'v option"

record 'v replicated_value =
  network_uid :: uid
  peers :: "uid list"
  quorum_size :: nat
  state_file :: "'v saved_state option"     \<comment> \<open>None: the file does not exist\<close>
  instance_number :: int
  current_value :: "'v option"
  rv_promised_id :: "proposal_id option"    \<comment> \<open>self.promised_id\<close>
  rv_accepted_id :: "proposal_id option"    \<comment> \<open>self.accepted_id\<close>
  rv_accepted_value :: "'v option"          \<comment> \<open>self.accepted_value\<close>
  paxos_of :: "'v paxos"                    \<comment> \<open>self.paxos\<close>
  outbox :: "(uid \<times> 'v wire) list"
  updates :: "'v option list"

subsection \<open>The state file\<close>

definition save_state ::
  "int \<Rightarrow> 'v option \<Rightarrow> proposal_id option \<Rightarrow> proposal_id option \<Rightarrow> 'v option
     \<Rightarrow> ('v, 'z) replicated_value_scheme \<Rightarrow> ('v, 'z) replicated_value_scheme" where
  "save_state i cur promised accepted v r =
     r\<lparr>instance_number := i, current_value := cur, rv_promised_id := promised,
       rv_accepted_id := accepted, rv_accepted_value := v,
       state_file := Some \<lparr>file_instance_number = i, file_promised_id = promised,
         file_accepted_id = accepted, file_accepted_value = v, file_current_value = cur\<rparr>\<rparr>"

definition fresh_file :: "'v saved_state" where
  "fresh_file = \<lparr>file_instance_number = 0, file_promised_id = None, file_accepted_id = None,
                 file_accepted_value = None, file_current_value = None\<rparr>"

definition load_state :: "('v, 'z) replicated_value_scheme \<Rightarrow> ('v, 'z) replicated_value_scheme" where
  "load_state r =
     (let r1 = (case state_file r of None \<Rightarrow> r\<lparr>state_file := Some fresh_file\<rparr> | Some _ \<Rightarrow> r);
          m = the (state_file r1) in
      r1\<lparr>instance_number := file_instance_number m, current_value := file_current_value m,
         rv_promised_id := file_promised_id m, rv_accepted_id := file_accepted_id m,
         rv_accepted_value := file_accepted_value m\<rparr>)"

text \<open>\<open>__init__\<close>, given the content of the state file; the attributes read before they are
  assigned are the ones \<open>load_state\<close> writes.\<close>

definition init_replicated_value :: "uid \<Rightarrow> uid list \<Rightarrow> 'v saved_state option \<Rightarrow> 'v replicated_value" where
  "init_replicated_value u ps file =
     (let r = load_state
        \<lparr>network_uid = u, peers = ps, quorum_size = quorum_of ps, state_file = file,
         instance_number = 0, current_value = None, rv_promised_id = None, rv_accepted_id = None,
         rv_accepted_value = None, paxos_of = init_paxos u (quorum_of ps) None None None,
         outbox = [], updates = []\<rparr> in
      r\<lparr>paxos_of := init_paxos u (quorum_size r) (rv_promised_id r) (rv_accepted_id r)
                      (rv_accepted_value r)\<rparr>)"

subsection \<open>Sending\<close>

definition send_to :: "uid \<Rightarrow> 'v wire \<Rightarrow> ('v, 'z) replicated_value_scheme \<Rightarrow> ('v, 'z) replicated_value_scheme" where
  "send_to u w r = r\<lparr>outbox := outbox r @ [(u, w)]\<rparr>"

definition send_to_peers :: "'v wire \<Rightarrow> ('v, 'z) replicated_value_scheme \<Rightarrow> ('v, 'z) replicated_value_scheme" where
  "send_to_peers w r = fold (\<lambda>u. send_to u w) (peers r) r"

definition base_send_prepare ::
  "proposal_id \<Rightarrow> ('v, 'z) replicated_value_scheme \<Rightarrow> ('v, 'z) replicated_value_scheme" where
  "base_send_prepare b r = send_to_peers (WPrepare (instance_number r) b) r"

definition base_send_accept ::
  "proposal_id \<Rightarrow> 'v option \<Rightarrow> ('v, 'z) replicated_value_scheme \<Rightarrow> ('v, 'z) replicated_value_scheme" where
  "base_send_accept b v r = send_to_peers (WAccept (instance_number r) b v) r"

definition base_send_accepted ::
  "proposal_id \<Rightarrow> 'v option \<Rightarrow> ('v, 'z) replicated_value_scheme \<Rightarrow> ('v, 'z) replicated_value_scheme" where
  "base_send_accepted b v r = send_to_peers (WAccepted (instance_number r) b v) r"

subsection \<open>Proposing, advancing, receiving\<close>

definition base_propose_update ::
  "'v option \<Rightarrow> ('v, 'z) replicated_value_scheme \<Rightarrow> ('v, 'z) replicated_value_scheme" where
  "base_propose_update v r =
     (if proposed_value (proposer_of (paxos_of r)) = None
      then r\<lparr>paxos_of := fst (paxos_propose_value v (paxos_of r))\<rparr>  \<comment> \<open>the reply is dropped\<close>
      else r)"

definition base_advance_instance ::
  "int \<Rightarrow> 'v option \<Rightarrow> ('v, 'z) replicated_value_scheme \<Rightarrow> ('v, 'z) replicated_value_scheme" where
  "base_advance_instance i cur r =
     (let r1 = save_state i cur None None None r;
          r2 = r1\<lparr>paxos_of := init_paxos (network_uid r1) (quorum_size r1) None None None\<rparr> in
      r2\<lparr>updates := updates r2 @ [cur]\<rparr>)"

definition base_receive_prepare ::
  "uid \<Rightarrow> int \<Rightarrow> proposal_id \<Rightarrow> ('v, 'z) replicated_value_scheme \<Rightarrow> ('v, 'z) replicated_value_scheme" where
  "base_receive_prepare f i b r =
     (if i \<noteq> instance_number r then r
      else
        let (x, m) = paxos_receive_prepare f b (paxos_of r); r1 = r\<lparr>paxos_of := x\<rparr> in
        (case m of
           Promise _ _ c la lv \<Rightarrow>
             let r2 = save_state (instance_number r1) (current_value r1) (Some c) la lv r1 in
             send_to f (WPromise (instance_number r2) c la lv) r2
         | _ \<Rightarrow> send_to f (WNack (instance_number r1) b (rv_promised_id r1)) r1))"

definition base_receive_nack ::
  "uid \<Rightarrow> int \<Rightarrow> proposal_id \<Rightarrow> proposal_id option
     \<Rightarrow> ('v, 'z) replicated_value_scheme \<Rightarrow> ('v, 'z) replicated_value_scheme" where
  "base_receive_nack f i b promised r =
     (if i \<noteq> instance_number r then r
      else r\<lparr>paxos_of := fst (paxos_receive_nack f b promised (paxos_of r))\<rparr>)"

definition base_receive_promise ::
  "(proposal_id \<Rightarrow> 'v option \<Rightarrow> ('v, 'z) replicated_value_scheme \<Rightarrow> ('v, 'z) replicated_value_scheme)
     \<Rightarrow> uid \<Rightarrow> int \<Rightarrow> proposal_id \<Rightarrow> proposal_id option \<Rightarrow> 'v option
     \<Rightarrow> ('v, 'z) replicated_value_scheme \<Rightarrow> ('v, 'z) replicated_value_scheme \<times> unit outcome" where
  "base_receive_promise self_send_accept f i b la lv r =
     (if i \<noteq> instance_number r then (r, Ret ())
      else
        let (x, res) = paxos_receive_promise f b la lv (paxos_of r); r1 = r\<lparr>paxos_of := x\<rparr> in
        (case res of
           Raise e \<Rightarrow> (r1, Raise e)
         | Ret (Some (Accept _ c v)) \<Rightarrow> (self_send_accept c v r1, Ret ())
         | Ret _ \<Rightarrow> (r1, Ret ())))"

definition base_receive_accept ::
  "uid \<Rightarrow> int \<Rightarrow> proposal_id \<Rightarrow> 'v option
     \<Rightarrow> ('v, 'z) replicated_value_scheme \<Rightarrow> ('v, 'z) replicated_value_scheme" where
  "base_receive_accept f i b v r =
     (if i \<noteq> instance_number r then r
      else
        let (x, m) = paxos_receive_accept f b v (paxos_of r); r1 = r\<lparr>paxos_of := x\<rparr> in
        (case m of
           Accepted _ c w \<Rightarrow>
             let r2 = save_state (instance_number r1) (current_value r1) (rv_promised_id r1) (Some b) v r1 in
             base_send_accepted c w r2
         | _ \<Rightarrow> send_to f (WNack (instance_number r1) b (rv_promised_id r1)) r1))"

definition base_receive_accepted ::
  "(int \<Rightarrow> 'v option \<Rightarrow> ('v, 'z) replicated_value_scheme \<Rightarrow> ('v, 'z) replicated_value_scheme)
     \<Rightarrow> uid \<Rightarrow> int \<Rightarrow> proposal_id \<Rightarrow> 'v option
     \<Rightarrow> ('v, 'z) replicated_value_scheme \<Rightarrow> ('v, 'z) replicated_value_scheme \<times> unit outcome" where
  "base_receive_accepted self_advance_instance f i b v r =
     (if i \<noteq> instance_number r then (r, Ret ())
      else
        let (x, res) = paxos_receive_accepted f b v (paxos_of r); r1 = r\<lparr>paxos_of := x\<rparr> in
        (case res of
           Raise e \<Rightarrow> (r1, Raise e)
         | Ret (Some (Resolution _ _)) \<Rightarrow>
             (self_advance_instance (instance_number r1 + 1) v r1, Ret ())
         | Ret _ \<Rightarrow> (r1, Ret ())))"

end
