(* ===== verification/Resolution_Strategy.thy ===== *)
theory Resolution_Strategy
  imports Replicated_Value Complex_Main
begin

section \<open>Driving an instance to its resolution\<close>

text \<open>
  Class \<open>ExponentialBackoffResolutionStrategyMixin\<close> of
  \<open>paxos/resolution_strategy.py\<close>: its timers and the methods it overrides.  A timer is
  its pending call: the repeated send of \<open>retransmit_task\<close>, and the delay in seconds of
  an active \<open>delayed_drive\<close> (\<open>None\<close> when there is none or it is not active).  The
  reactor fires them; \<open>random.random()\<close> is an argument.
\<close>

datatype 'v retransmit = RetransmitPrepare proposal_id | RetransmitAccept proposal_id "'v option"

record 'v driven = "'v replicated_value" +
  backoff_window :: int                     \<comment> \<open>milliseconds\<close>
  retransmit_task :: "'v retransmit option"
  delayed_drive :: "rat option"

definition backoff_initial :: int where "backoff_initial = 5"

definition backoff_cap :: int where "backoff_cap = 2000"

definition drive_silence_timeout :: int where "drive_silence_timeout = 3000"

definition init_driven :: "uid \<Rightarrow> uid list \<Rightarrow> 'v saved_state option \<Rightarrow> 'v driven" where
  "init_driven u ps file =
     replicated_value.extend (init_replicated_value u ps file)
       \<lparr>backoff_window = backoff_initial, retransmit_task = None, delayed_drive = None\<rparr>"

definition reschedule_next_drive_attempt :: "rat \<Rightarrow> ('v, 'z) driven_scheme \<Rightarrow> ('v, 'z) driven_scheme" where
  "reschedule_next_drive_attempt delay r = r\<lparr>delayed_drive := Some delay\<rparr>"

definition stop_driving :: "('v, 'z) driven_scheme \<Rightarrow> ('v, 'z) driven_scheme" where
  "stop_driving r = r\<lparr>retransmit_task := None, delayed_drive := None\<rparr>"

definition drive_to_resolution :: "('v, 'z) driven_scheme \<Rightarrow> ('v, 'z) driven_scheme" where
  "drive_to_resolution r =
     (let r1 = stop_driving r; (x, m) = paxos_prepare (paxos_of r1); r2 = r1\<lparr>paxos_of := x\<rparr> in
      case m of
        Prepare _ b \<Rightarrow> base_send_prepare b (r2\<lparr>retransmit_task := Some (RetransmitPrepare b)\<rparr>)
      | _ \<Rightarrow> r2)"

definition advance_instance :: "int \<Rightarrow> 'v option \<Rightarrow> ('v, 'z) driven_scheme \<Rightarrow> ('v, 'z) driven_scheme" where
  "advance_instance i cur r =
     (stop_driving (base_advance_instance i cur r))\<lparr>backoff_window := backoff_initial\<rparr>"

definition propose_update :: "'v option \<Rightarrow> ('v, 'z) driven_scheme \<Rightarrow> ('v, 'z) driven_scheme" where
  "propose_update v r = drive_to_resolution (base_propose_update v r)"

definition send_accept :: "proposal_id \<Rightarrow> 'v option \<Rightarrow> ('v, 'z) driven_scheme \<Rightarrow> ('v, 'z) driven_scheme" where
  "send_accept b v r = base_send_accept b v (r\<lparr>retransmit_task := Some (RetransmitAccept b v)\<rparr>)"

definition receive_accept ::
  "uid \<Rightarrow> int \<Rightarrow> proposal_id \<Rightarrow> 'v option \<Rightarrow> ('v, 'z) driven_scheme \<Rightarrow> ('v, 'z) driven_scheme" where
  "receive_accept f i b v r =
     (if i \<noteq> instance_number r then r
      else reschedule_next_drive_attempt (of_int drive_silence_timeout / 1000)
             (base_receive_accept f i b v r))"

definition driven_receive_nack ::
  "rat \<Rightarrow> uid \<Rightarrow> int \<Rightarrow> proposal_id \<Rightarrow> proposal_id option
     \<Rightarrow> ('v, 'z) driven_scheme \<Rightarrow> ('v, 'z) driven_scheme" where
  "driven_receive_nack rnd f i b promised r =
     (if i \<noteq> instance_number r then r
      else
        let r1 = stop_driving (base_receive_nack f i b promised r);
            w = backoff_window r1 * 2;
            w' = (if w > backoff_cap then backoff_cap else w);
            r2 = r1\<lparr>backoff_window := w'\<rparr> in
        reschedule_next_drive_attempt (of_int w' * rnd / 1000) r2)"

text \<open>The reactor runs the looping call of \<open>retransmit_task\<close>, or the delayed call.\<close>

definition fire_retransmit :: "('v, 'z) driven_scheme \<Rightarrow> ('v, 'z) driven_scheme" where
  "fire_retransmit r =
     (case retransmit_task r of
        None \<Rightarrow> r
      | Some (RetransmitPrepare b) \<Rightarrow> base_send_prepare b r
      | Some (RetransmitAccept b v) \<Rightarrow> base_send_accept b v r)"

definition fire_delayed_drive :: "('v, 'z) driven_scheme \<Rightarrow> ('v, 'z) driven_scheme" where
  "fire_delayed_drive r =
     (case delayed_drive r of
        None \<Rightarrow> r
      | Some _ \<Rightarrow> drive_to_resolution (r\<lparr>delayed_drive := None\<rparr>))"

end
