(* ===== verification/Sync_Strategy.thy ===== *)
theory Sync_Strategy
  imports Replicated_Value
begin

section \<open>Catching up\<close>

text \<open>Class \<open>SimpleSynchronizationStrategyMixin\<close> of \<open>paxos/sync_strategy.py\<close>; the
  peer that \<open>random.choice(self.peers)\<close> picks is an argument.\<close>

definition send_sync :: "uid \<Rightarrow> ('v, 'z) replicated_value_scheme \<Rightarrow> ('v, 'z) replicated_value_scheme" where
  "send_sync peer r = send_to peer (WSyncRequest (instance_number r)) r"

definition receive_sync_request ::
  "uid \<Rightarrow> int \<Rightarrow> ('v, 'z) replicated_value_scheme \<Rightarrow> ('v, 'z) replicated_value_scheme" where
  "receive_sync_request f i r =
     (if i < instance_number r
      then send_to f (WCatchup (instance_number r) (current_value r)) r else r)"

definition receive_catchup ::
  "(int \<Rightarrow> 'v option \<Rightarrow> ('v, 'z) replicated_value_scheme \<Rightarrow> ('v, 'z) replicated_value_scheme)
     \<Rightarrow> uid \<Rightarrow> int \<Rightarrow> 'v option \<Rightarrow> ('v, 'z) replicated_value_scheme \<Rightarrow> ('v, 'z) replicated_value_scheme" where
  "receive_catchup self_advance_instance f i cur r =
     (if i > instance_number r then self_advance_instance i cur r else r)"

end
