(* ===== verification/Paxos_Node.thy ===== *)
theory Paxos_Node
  imports Resolution_Strategy Sync_Strategy
begin

section \<open>The node that \<open>paxos/custom_server.py\<close> runs\<close>

text \<open>
  \<open>class ReplicatedValue(ExponentialBackoffResolutionStrategyMixin,
  SimpleSynchronizationStrategyMixin, BaseReplicatedValue)\<close>: the methods as Python's method
  resolution order composes them, one per message that \<open>Messenger.datagramReceived\<close>
  dispatches (\<open>receive_\<close> and the message type), and the other events of a node.
\<close>

type_synonym 'v node = "'v driven"

fun handle_message :: "rat \<Rightarrow> uid \<Rightarrow> 'v wire \<Rightarrow> 'v node \<Rightarrow> 'v node \<times> unit outcome" where
  "handle_message rnd f (WPrepare i b) n = (base_receive_prepare f i b n, Ret ())"
| "handle_message rnd f (WPromise i b la lv) n = base_receive_promise send_accept f i b la lv n"
| "handle_message rnd f (WNack i b promised) n = (driven_receive_nack rnd f i b promised n, Ret ())"
| "handle_message rnd f (WAccept i b v) n = (receive_accept f i b v n, Ret ())"
| "handle_message rnd f (WAccepted i b v) n = base_receive_accepted advance_instance f i b v n"
| "handle_message rnd f (WSyncRequest i) n = (receive_sync_request f i n, Ret ())"
| "handle_message rnd f (WCatchup i cur) n = (receive_catchup advance_instance f i cur n, Ret ())"

text \<open>
  What happens at a node: the application proposes a value (\<open>Messenger.paxos_append\<close> or
  a \<open>propose\<close> packet), a timer fires, a packet arrives.
\<close>

datatype 'v event =
    Propose 'v
  | Retransmit
  | Drive
  | Sync uid
  | Receive rat uid "'v wire"

fun node_step :: "'v event \<Rightarrow> 'v node \<Rightarrow> 'v node \<times> unit outcome" where
  "node_step (Propose v) n = (propose_update (Some v) n, Ret ())"
| "node_step Retransmit n = (fire_retransmit n, Ret ())"
| "node_step Drive n = (fire_delayed_drive n, Ret ())"
| "node_step (Sync p) n = (send_sync p n, Ret ())"
| "node_step (Receive rnd f w) n = handle_message rnd f w n"

text \<open>Any sequence of events at one node, with what the handlers returned dropped.\<close>

fun node_run :: "'v event list \<Rightarrow> 'v node \<Rightarrow> 'v node" where
  "node_run [] n = n"
| "node_run (e # es) n = node_run es (fst (node_step e n))"

lemma node_run_keeps:
  assumes "P n" "\<And>e n. e \<in> set es \<Longrightarrow> P n \<Longrightarrow> P (fst (node_step e n))"
  shows "P (node_run es n)"
  using assms by (induction es arbitrary: n) auto

subsection \<open>What broadcasts and timers leave alone\<close>

lemma fold_send_to: "fold (\<lambda>u. send_to u w) us r = r\<lparr>outbox := outbox r @ map (\<lambda>u. (u, w)) us\<rparr>"
  by (induction us arbitrary: r) (simp_all add: send_to_def)

lemma send_to_peers_eq: "send_to_peers w r = r\<lparr>outbox := outbox r @ map (\<lambda>u. (u, w)) (peers r)\<rparr>"
  by (simp add: send_to_peers_def fold_send_to)

lemmas sending =
  send_to_peers_eq send_to_def base_send_prepare_def base_send_accept_def base_send_accepted_def

lemmas base_handlers =
  base_propose_update_def base_advance_instance_def base_receive_prepare_def base_receive_nack_def
  base_receive_promise_def base_receive_accept_def base_receive_accepted_def

lemmas driven_handlers =
  reschedule_next_drive_attempt_def stop_driving_def drive_to_resolution_def advance_instance_def
  propose_update_def send_accept_def receive_accept_def driven_receive_nack_def
  fire_retransmit_def fire_delayed_drive_def send_sync_def receive_sync_request_def
  receive_catchup_def

subsection \<open>The timers\<close>

text \<open>The backoff window stays between its two constants, every delay is at most the silence timeout.\<close>

definition timers_ok :: "'v node \<Rightarrow> bool" where
  "timers_ok n \<longleftrightarrow>
     backoff_initial \<le> backoff_window n \<and> backoff_window n \<le> backoff_cap \<and>
     (\<forall>d. delayed_drive n = Some d \<longrightarrow> 0 \<le> d \<and> d \<le> of_int drive_silence_timeout / 1000)"

fun good_random :: "'v event \<Rightarrow> bool" where
  "good_random (Receive rnd f w) \<longleftrightarrow> 0 \<le> rnd \<and> rnd < 1"
| "good_random _ \<longleftrightarrow> True"

lemmas timer_consts = backoff_initial_def backoff_cap_def drive_silence_timeout_def

lemma timers_ok_fields:
  "backoff_window n' = backoff_window n \<Longrightarrow> delayed_drive n' = delayed_drive n \<or> delayed_drive n' = None
     \<Longrightarrow> timers_ok n \<Longrightarrow> timers_ok n'"
  by (auto simp: timers_ok_def)

lemma base_timers:
  "backoff_window (base_receive_prepare f i b n) = backoff_window n"
  "delayed_drive (base_receive_prepare f i b n) = delayed_drive n"
  "backoff_window (base_receive_accept f i b v n) = backoff_window n"
  "delayed_drive (base_receive_accept f i b v n) = delayed_drive n"
  "backoff_window (base_receive_nack f i b x n) = backoff_window n"
  "backoff_window (fst (base_receive_promise send_accept f i b la lv n)) = backoff_window n"
  "delayed_drive (fst (base_receive_promise send_accept f i b la lv n)) = delayed_drive n"
  by (auto simp: base_handlers send_accept_def sending save_state_def split_beta Let_def
      split: paxos_msg.splits outcome.splits option.splits)

lemma nack_window:
  assumes "i = instance_number n"
  shows "backoff_window (driven_receive_nack rnd f i b x n) = min (backoff_window n * 2) backoff_cap"
    "delayed_drive (driven_receive_nack rnd f i b x n) =
       Some (of_int (min (backoff_window n * 2) backoff_cap) * rnd / 1000)"
    "instance_number (driven_receive_nack rnd f i b x n) = instance_number n"
  using assms
  by (simp_all add: driven_receive_nack_def base_receive_nack_def stop_driving_def
      reschedule_next_drive_attempt_def Let_def min_def)

lemma drive_timers:
  "backoff_window (drive_to_resolution n) = backoff_window n" "delayed_drive (drive_to_resolution n) = None"
  by (simp_all add: drive_to_resolution_def stop_driving_def sending Let_def split_beta
      split: paxos_msg.split)

lemma advance_timers:
  "backoff_window (advance_instance i v n) = backoff_initial" "delayed_drive (advance_instance i v n) = None"
  by (simp_all add: advance_instance_def stop_driving_def)

lemma delay_bound:
  assumes "0 \<le> rnd" "rnd < (1::rat)" "5 \<le> w" "w \<le> 2000"
  shows "0 \<le> of_int w * rnd / 1000" "of_int w * rnd / 1000 \<le> 2"
proof -
  have "of_int w * rnd \<le> of_int w * 1" using assms by (intro mult_left_mono) auto
  also have "\<dots> \<le> 2000" using assms by simp
  finally show "of_int w * rnd / 1000 \<le> 2" by simp
  show "0 \<le> of_int w * rnd / 1000" using assms by simp
qed

lemma nack_timers:
  assumes "timers_ok n" "0 \<le> rnd" "rnd < 1"
  shows "timers_ok (driven_receive_nack rnd f i b x n)"
proof (cases "i = instance_number n")
  case True
  let ?w = "min (backoff_window n * 2) 2000"
  have w: "5 \<le> ?w" "?w \<le> 2000" using assms(1) by (auto simp: timers_ok_def timer_consts)
  note d = delay_bound[OF assms(2,3) w]
  have "timers_ok m" if "backoff_window m = ?w" "delayed_drive m = Some (of_int ?w * rnd / 1000)" for m :: "'a node"
    using w d that by (auto simp: timers_ok_def timer_consts simp del: min_def)
  then show ?thesis using nack_window[OF True] by (simp add: backoff_cap_def)
qed (use assms in \<open>simp add: driven_receive_nack_def\<close>)

lemma advance_timers_ok: "timers_ok (advance_instance i v n)"
  by (simp add: timers_ok_def advance_timers timer_consts)

lemma node_step_timers:
  assumes ok: "timers_ok n" and r: "good_random e"
  shows "timers_ok (fst (node_step e n))"
proof (cases e)
  case (Propose v)
  have "backoff_window (propose_update (Some v) n) = backoff_window n"
    by (simp add: propose_update_def drive_timers base_propose_update_def)
  then show ?thesis using Propose ok
    by (intro timers_ok_fields[OF _ _ ok]) (simp_all add: propose_update_def drive_timers)
next
  case Retransmit
  then show ?thesis using ok
    by (intro timers_ok_fields[OF _ _ ok])
       (auto simp: fire_retransmit_def sending split: option.split retransmit.split)
next
  case Drive
  then show ?thesis
    by (intro timers_ok_fields[OF _ _ ok])
       (auto simp: fire_delayed_drive_def drive_timers split: option.split)
next
  case (Sync p)
  then show ?thesis by (intro timers_ok_fields[OF _ _ ok]) (simp_all add: send_sync_def sending)
next
  case (Receive rnd f w)
  show ?thesis
  proof (cases w)
    case (WPrepare i b)
    then show ?thesis using Receive
      by (intro timers_ok_fields[OF _ _ ok]) (simp_all add: base_timers)
  next
    case (WPromise i b la lv)
    then show ?thesis using Receive
      by (intro timers_ok_fields[OF _ _ ok]) (simp_all add: base_timers)
  next
    case (WNack i b x)
    then show ?thesis using Receive r nack_timers[OF ok] by simp
  next
    case (WAccept i b v)
    then show ?thesis using Receive ok
      by (auto simp: receive_accept_def reschedule_next_drive_attempt_def timers_ok_def base_timers
          timer_consts)
  next
    case (WAccepted i b v)
    then show ?thesis using Receive ok
      by (auto simp: base_receive_accepted_def advance_timers_ok timers_ok_fields[OF _ _ ok] split_beta Let_def
          split: paxos_msg.splits outcome.splits option.splits)
  next
    case (WSyncRequest i)
    then show ?thesis using Receive
      by (intro timers_ok_fields[OF _ _ ok]) (simp_all add: receive_sync_request_def sending)
  next
    case (WCatchup i v)
    then show ?thesis using Receive ok by (simp add: receive_catchup_def advance_timers_ok)
  qed
qed

lemma init_timers: "timers_ok (init_driven u ps file)"
  by (simp add: timers_ok_def init_driven_def replicated_value.defs timer_consts)

subsection \<open>The state file\<close>

text \<open>The state file holds what the attributes hold, and what a restart reads back.\<close>

definition file_mirrors :: "'v node \<Rightarrow> bool" where
  "file_mirrors n \<longleftrightarrow>
     state_file n = Some \<lparr>file_instance_number = instance_number n,
       file_promised_id = rv_promised_id n, file_accepted_id = rv_accepted_id n,
       file_accepted_value = rv_accepted_value n, file_current_value = current_value n\<rparr>"

lemma init_mirrors: "file_mirrors (init_driven u ps saved)"
  by (cases saved)
     (simp_all add: file_mirrors_def init_driven_def init_replicated_value_def load_state_def
       replicated_value.defs fresh_file_def Let_def)

lemma node_step_mirrors:
  assumes "file_mirrors n" shows "file_mirrors (fst (node_step e n))"
proof (cases e)
  case (Receive rnd f w)
  then show ?thesis
    using assms
    by (cases w)
       (auto simp: file_mirrors_def base_handlers driven_handlers sending save_state_def split_beta Let_def
         split: paxos_msg.splits outcome.splits option.splits)
qed (use assms in \<open>auto simp: file_mirrors_def base_handlers driven_handlers sending split_beta Let_def
       split: paxos_msg.splits outcome.splits option.splits retransmit.splits\<close>)

subsection \<open>Properties\<close>

text \<open>The timers stay within their bounds.  Whatever happens at a node, the backoff window
  is between 5 and 2000 milliseconds and a pending drive attempt is at most 3 seconds away,
  as long as \<open>random.random()\<close> is in [0, 1).\<close>

lemma timers_bounded:
  assumes "\<forall>e\<in>set es. good_random e"
  shows "timers_ok (node_run es (init_driven u ps saved))"
proof (rule node_run_keeps[where P = timers_ok, OF init_timers])
  show "timers_ok (fst (node_step e n))" if "e \<in> set es" "timers_ok n" for e n
    using that assms by (intro node_step_timers) simp_all
qed

text \<open>The exponential backoff.  Every Nack of the current instance doubles the window, up
  to the cap, so that k Nacks in a row make it the minimum of 2000 and the window times 2 to
  the k, and the next attempt is scheduled at that window times the last random number, in
  seconds.\<close>

definition receive_nacks ::
  "(rat \<times> uid \<times> proposal_id \<times> proposal_id option) list \<Rightarrow> int \<Rightarrow> 'v node \<Rightarrow> 'v node" where
  "receive_nacks ns i n = fold (\<lambda>(rnd, f, b, x). driven_receive_nack rnd f i b x) ns n"

lemma receive_nacks_window:
  "i = instance_number n \<Longrightarrow> 0 < backoff_window n \<Longrightarrow> backoff_window n \<le> backoff_cap \<Longrightarrow>
   backoff_window (receive_nacks ns i n) = min (backoff_window n * 2 ^ length ns) backoff_cap \<and>
   instance_number (receive_nacks ns i n) = i"
proof (induction ns arbitrary: n)
  case (Cons m ns)
  obtain rnd f b x where m: "m = (rnd, f, b, x)" by (cases m)
  let ?n = "driven_receive_nack rnd f i b x n"
  note w = nack_window[OF Cons.prems(1), of rnd f b x]
  have "0 < backoff_window ?n" "backoff_window ?n \<le> backoff_cap"
    using Cons.prems(2) by (simp_all add: w(1) backoff_cap_def)
  with Cons.IH[of ?n] Cons.prems(1) w(3) have
    "backoff_window (receive_nacks ns i ?n) = min (backoff_window ?n * 2 ^ length ns) backoff_cap
     \<and> instance_number (receive_nacks ns i ?n) = i" by simp
  then have
    "backoff_window (receive_nacks ns i ?n) = min (min (backoff_window n * 2) backoff_cap * 2 ^ length ns) backoff_cap
     \<and> instance_number (receive_nacks ns i ?n) = i" unfolding w(1) .
  moreover have "min (min (backoff_window n * 2) backoff_cap * 2 ^ length ns) backoff_cap
      = min (backoff_window n * 2 ^ Suc (length ns)) backoff_cap"
  proof (cases "backoff_window n * 2 \<le> backoff_cap")
    case False
    define k :: int where "k = 2 ^ length ns"
    have k: "1 \<le> k" by (simp add: k_def)
    have "backoff_cap * 1 \<le> backoff_cap * k"
      by (rule mult_left_mono[OF k]) (simp add: backoff_cap_def)
    then have c: "backoff_cap \<le> backoff_cap * k" by simp
    have "backoff_cap * k \<le> backoff_window n * 2 * k"
      using False k by (intro mult_right_mono) auto
    with c have "backoff_cap \<le> backoff_window n * 2 * k" by (rule order_trans)
    moreover have "backoff_window n * 2 ^ Suc (length ns) = backoff_window n * 2 * k"
      by (simp add: k_def)
    moreover have "min (backoff_window n * 2) backoff_cap = backoff_cap" using False by simp
    ultimately show ?thesis using c unfolding k_def[symmetric] by (simp only: min_absorb2)
  qed (simp add: min_def)
  ultimately show ?case by (simp add: receive_nacks_def m)
qed (simp add: receive_nacks_def min_def)

lemma backoff_doubles:
  assumes "i = instance_number n" "0 < backoff_window n" "backoff_window n \<le> 2000"
  shows "backoff_window (receive_nacks ns i n) = min (backoff_window n * 2 ^ length ns) 2000 \<and>
    (\<forall>rnd f b x. delayed_drive (driven_receive_nack rnd f i b x (receive_nacks ns i n)) =
       Some (of_int (min (backoff_window n * 2 ^ Suc (length ns)) 2000) * rnd / 1000))"
proof -
  have le: "backoff_window n \<le> backoff_cap" using assms(3) by (simp add: backoff_cap_def)
  have w: "backoff_window (receive_nacks ns i n) = min (backoff_window n * 2 ^ length ns) 2000"
    "instance_number (receive_nacks ns i n) = i"
    using receive_nacks_window[OF assms(1,2) le, of ns] by (simp_all add: backoff_cap_def)
  have "delayed_drive (driven_receive_nack rnd f i b x (receive_nacks ns i n)) =
       Some (of_int (min (backoff_window n * 2 ^ Suc (length ns)) 2000) * rnd / 1000)" for rnd f b x
  proof -
    have "min (min (backoff_window n * 2 ^ length ns) 2000 * 2) (2000::int)
        = min (backoff_window n * 2 ^ Suc (length ns)) 2000" by (simp add: min_def)
    then show ?thesis
      using nack_window(2)[of i "receive_nacks ns i n" rnd f b x] w by (simp add: backoff_cap_def)
  qed
  then show ?thesis using w(1) by blast
qed

text \<open>Only the current link of the chain counts.  A Prepare, Promise, Nack, Accept or
  Accepted message of any other instance leaves the node exactly as it was and sends nothing.\<close>

fun paxos_instance :: "'v wire \<Rightarrow> int option" where
  "paxos_instance (WPrepare i b) = Some i"
| "paxos_instance (WPromise i b la lv) = Some i"
| "paxos_instance (WNack i b x) = Some i"
| "paxos_instance (WAccept i b v) = Some i"
| "paxos_instance (WAccepted i b v) = Some i"
| "paxos_instance _ = None"

lemma other_instances_ignored:
  assumes "paxos_instance w = Some i" "i \<noteq> instance_number n"
  shows "handle_message rnd f w n = (n, Ret ())"
  using assms
  by (cases w) (auto simp: base_receive_prepare_def base_receive_promise_def driven_receive_nack_def
      receive_accept_def base_receive_accepted_def)

text \<open>Catching up.  When a node sends its sync request to a peer that is ahead and the
  peer's answer reaches it, the node is at the peer's instance with the peer's current value,
  has reported that value to its callback and starts the instance with a fresh Paxos object;
  a peer that is not ahead does not answer.\<close>

lemma sync_catches_up:
  assumes "outbox n = []" "outbox m = []"
  shows "let i = instance_number n; m' = receive_sync_request (network_uid n) i m in
    if instance_number n < instance_number m then
      \<exists>n'. outbox m' = [(network_uid n, WCatchup (instance_number m) (current_value m))] \<and>
        n' = receive_catchup advance_instance (network_uid m) (instance_number m) (current_value m) n \<and>
        instance_number n' = instance_number m \<and> current_value n' = current_value m \<and>
        updates n' = updates n @ [current_value m] \<and>
        paxos_of n' = init_paxos (network_uid n) (quorum_size n) None None None
    else m' = m"
  using assms
  by (simp add: receive_sync_request_def receive_catchup_def advance_instance_def
      base_advance_instance_def save_state_def stop_driving_def send_to_def Let_def)

end
