(* ===== verification/Ballot_History.thy ===== *)
theory Ballot_History
  imports Quorum
begin

section \<open>What any Paxos history owes, and agreement from it\<close>

text \<open>
  The contract between one instance of Paxos and the argument for agreement, over any
  record of the messages that were sent: which Accept messages (\<open>proposed\<close>), which
  Promise messages with the id of the last accepted proposal (\<open>promised\<close>), which
  Accepted messages (\<open>voted\<close>).  \<open>ok\<close> is the condition under which the laws hold.
\<close>

locale ballot_history = quorum_system +
  fixes ok :: "'s \<Rightarrow> bool"
    and proposed :: "'s \<Rightarrow> proposal_id \<Rightarrow> 'v \<Rightarrow> bool"
    and promised :: "'s \<Rightarrow> uid \<Rightarrow> proposal_id \<Rightarrow> proposal_id option \<Rightarrow> bool"
    and voted :: "'s \<Rightarrow> uid \<Rightarrow> proposal_id \<Rightarrow> 'v \<Rightarrow> bool"
  assumes finitely_proposed: "ok s \<Longrightarrow> finite {b. \<exists>v. proposed s b v}"
    and one_value: "ok s \<Longrightarrow> proposed s b v \<Longrightarrow> proposed s b w \<Longrightarrow> v = w"
    and voted_proposed: "ok s \<Longrightarrow> voted s a b v \<Longrightarrow> proposed s b v"
    and promise_kept: "ok s \<Longrightarrow> promised s a b la \<Longrightarrow> voted s a c v \<Longrightarrow> c < b \<Longrightarrow> Some c \<le> la"
    and justified: "ok s \<Longrightarrow> proposed s b v \<Longrightarrow>
      \<exists>Q hi. Q \<subseteq> members \<and> quorum \<le> card Q \<and>
        (\<forall>a\<in>Q. \<exists>la. promised s a b la \<and> la \<le> hi) \<and>
        (hi = None \<or> (\<exists>c. hi = Some c \<and> c < b \<and> proposed s c v))"
begin

definition chosen_at :: "'s \<Rightarrow> proposal_id \<Rightarrow> 'v \<Rightarrow> bool" where
  "chosen_at s b v \<longleftrightarrow> (\<exists>Q. is_quorum Q \<and> (\<forall>a\<in>Q. voted s a b v))"

lemma chosen_proposed: "ok s \<Longrightarrow> chosen_at s b v \<Longrightarrow> proposed s b v"
  using voted_proposed quorum_nonempty unfolding chosen_at_def by blast

text \<open>
  A proposal above a chosen one carries the chosen value: by induction on the number of
  proposals between them.
\<close>

lemma later_proposals_agree:
  assumes ok: "ok s" and ch: "chosen_at s c w"
  shows "proposed s b v \<Longrightarrow> c < b \<Longrightarrow> v = w"
proof (induction "card {d. (\<exists>x. proposed s d x) \<and> d < b}" arbitrary: b v rule: less_induct)
  case less
  obtain Q hi where Q: "is_quorum Q" and prom: "\<forall>a\<in>Q. \<exists>la. promised s a b la \<and> la \<le> hi"
    and hi: "hi = None \<or> (\<exists>d. hi = Some d \<and> d < b \<and> proposed s d v)"
    using justified[OF ok less.prems(1)] unfolding is_quorum_def by blast
  obtain Q' where Q': "is_quorum Q'" "\<forall>a\<in>Q'. voted s a c w"
    using ch unfolding chosen_at_def by blast
  from quorums_meet[OF Q Q'(1)] obtain a where "a \<in> Q" "a \<in> Q'" by blast
  with prom Q' obtain la where la: "promised s a b la" "la \<le> hi" "voted s a c w" by blast
  from promise_kept[OF ok la(1,3) less.prems(2)] la(2) have "Some c \<le> hi" by (rule order_trans)
  with hi obtain d where d: "c \<le> d" "d < b" "proposed s d v" by (cases hi) auto
  show ?case
  proof (cases "c = d")
    case True
    then show ?thesis using one_value[OF ok d(3)] chosen_proposed[OF ok ch] by blast
  next
    case False
    let ?B = "\<lambda>b. {e. (\<exists>x. proposed s e x) \<and> e < b}"
    have "finite (?B b)" using finitely_proposed[OF ok] by (rule rev_finite_subset) auto
    moreover have "?B d \<subset> ?B b" using d by (auto intro: less_trans)
    ultimately have "card (?B d) < card (?B b)" by (rule psubset_card_mono)
    from less.hyps[OF this d(3)] False d(1) show ?thesis by simp
  qed
qed

theorem chosen_unique:
  assumes "ok s" "chosen_at s b v" "chosen_at s c w"
  shows "v = w"
proof (cases b c rule: linorder_cases)
  case less
  with later_proposals_agree[OF assms(1,2) chosen_proposed[OF assms(1,3)]] show ?thesis by simp
next
  case equal
  with one_value[OF assms(1)] chosen_proposed[OF assms(1)] assms(2,3) show ?thesis by blast
next
  case greater
  with later_proposals_agree[OF assms(1,3) chosen_proposed[OF assms(1,2)]] show ?thesis by simp
qed

end

end
