(* ===== verification/Paxos_Network.thy ===== *)
theory Paxos_Network
  imports Paxos_Node Ballot_History
begin

section \<open>Nodes and the network between them\<close>

text \<open>
  The peers of one cluster, each running the node of \<open>Paxos_Node\<close>, and UDP between them:
  a datagram that was sent may be delivered any number of times, at any later moment, in
  any order, or never, and \<open>Messenger.datagramReceived\<close> names its sender by the address it
  came from.  \<open>sent\<close> is every datagram ever handed to the transport, with its sender and
  its destination; \<open>requested\<close> every value the application ever proposed.  Nodes run the
  handlers one at a time, as the reactor does.
\<close>

type_synonym 'v packet = "uid \<times> uid \<times> 'v wire"

record 'v network =
  node_at :: "uid \<Rightarrow> 'v node"
  sent :: "'v packet list"
  requested :: "'v list"

definition init_network :: "uid list \<Rightarrow> 'v network" where
  "init_network ps =
     \<lparr>node_at = (\<lambda>u. (init_driven u ps None)), sent = [], requested = []\<rparr>"

text \<open>
  What can happen at a node of the cluster: a packet arrives only if it was sent to it, and
  \<open>random.random()\<close> is in [0, 1).  What the event does at its node; the packets of the outbox go on the wire.\<close>

fun event_values :: "'v event \<Rightarrow> 'v list" where
  "event_values (Propose v) = [v]"
| "event_values _ = []"

definition happens :: "uid \<Rightarrow> 'v event \<Rightarrow> 'v network \<Rightarrow> 'v network" where
  "happens u e s =
     (let n = fst (node_step e (node_at s u)) in
      s\<lparr>node_at := (node_at s)(u := n\<lparr>outbox := []\<rparr>),
        sent := sent s @ map (\<lambda>(d, w). (u, d, w)) (outbox n),
        requested := requested s @ event_values e\<rparr>)"

fun enabled :: "uid list \<Rightarrow> uid \<Rightarrow> 'v event \<Rightarrow> 'v network \<Rightarrow> bool" where
  "enabled ps u (Receive rnd f w) s \<longleftrightarrow>
     u \<in> set ps \<and> (f, u, w) \<in> set (sent s) \<and> 0 \<le> rnd \<and> rnd < 1"
| "enabled ps u (Sync p) s \<longleftrightarrow> u \<in> set ps \<and> p \<in> set ps"
| "enabled ps u _ s \<longleftrightarrow> u \<in> set ps"

inductive net_trans :: "uid list \<Rightarrow> 'v network \<Rightarrow> 'v network \<Rightarrow> bool" for ps where
  "enabled ps u e s \<Longrightarrow> net_trans ps s (happens u e s)"

inductive_cases net_transE: "net_trans ps s s'"

definition reachable :: "uid list \<Rightarrow> 'v network \<Rightarrow> bool" where
  "reachable ps s \<longleftrightarrow> (net_trans ps)\<^sup>*\<^sup>* (init_network ps) s"

text \<open>A schedule of events, run as long as every one of them is enabled.\<close>

fun net_run :: "uid list \<Rightarrow> (uid \<times> 'v event) list \<Rightarrow> 'v network \<Rightarrow> 'v network option" where
  "net_run ps [] s = Some s"
| "net_run ps ((u, e) # es) s =
     (if enabled ps u e s then net_run ps es (happens u e s) else None)"

lemma net_run_trans: "net_run ps es s = Some s' \<Longrightarrow> (net_trans ps)\<^sup>*\<^sup>* s s'"
proof (induction es arbitrary: s)
  case (Cons a es)
  obtain u e where a: "a = (u, e)" by fastforce
  with Cons.prems have "enabled ps u e s" "net_run ps es (happens u e s) = Some s'"
    by (auto split: if_splits)
  then show ?case using Cons.IH net_trans.intros converse_rtranclp_into_rtranclp by metis
qed simp

lemma net_run_reachable: "net_run ps es (init_network ps) = Some s \<Longrightarrow> reachable ps s"
  using net_run_trans by (simp add: reachable_def)

lemma reachable_induct [consumes 1, case_names init step]:
  assumes "reachable ps s" "P (init_network ps)"
    "\<And>s u e. reachable ps s \<Longrightarrow> P s \<Longrightarrow> enabled ps u e s \<Longrightarrow> P (happens u e s)"
  shows "P s"
proof -
  have "(net_trans ps)\<^sup>*\<^sup>* (init_network ps) s" using assms(1) by (simp add: reachable_def)
  then have "reachable ps s \<and> P s"
  proof (induction rule: rtranclp_induct)
    case base
    then show ?case using assms(2) by (simp add: reachable_def)
  next
    case (step y z)
    then have "reachable ps z" by (auto simp: reachable_def)
    moreover have "P z" using step(2,3) assms(3) by (auto elim!: net_transE)
    ultimately show ?case ..
  qed
  then show ?thesis ..
qed

subsection \<open>What the packets on the wire say\<close>

definition voted :: "'v packet set \<Rightarrow> int \<Rightarrow> uid \<Rightarrow> proposal_id \<Rightarrow> 'v option \<Rightarrow> bool" where
  "voted K i u b v \<longleftrightarrow> (\<exists>d. (u, d, WAccepted i b v) \<in> K)"

definition asked :: "'v packet set \<Rightarrow> int \<Rightarrow> uid \<Rightarrow> proposal_id \<Rightarrow> 'v option \<Rightarrow> bool" where
  "asked K i u b v \<longleftrightarrow> (\<exists>d. (u, d, WAccept i b v) \<in> K)"

definition promised ::
  "'v packet set \<Rightarrow> int \<Rightarrow> uid \<Rightarrow> proposal_id \<Rightarrow> proposal_id option \<Rightarrow> 'v option \<Rightarrow> bool" where
  "promised K i u b la lv \<longleftrightarrow> (\<exists>d. (u, d, WPromise i b la lv) \<in> K)"

definition chosen :: "uid list \<Rightarrow> 'v packet set \<Rightarrow> int \<Rightarrow> 'v option \<Rightarrow> bool" where
  "chosen ps K i v \<longleftrightarrow>
     (\<exists>b Q. Q \<subseteq> set ps \<and> quorum_of ps \<le> card Q \<and> (\<forall>a\<in>Q. voted K i a b v))"

lemma wire_mono:
  assumes "K \<subseteq> K'"
  shows "voted K i u b v \<Longrightarrow> voted K' i u b v"
    "asked K i u b v \<Longrightarrow> asked K' i u b v"
    "promised K i u b la lv \<Longrightarrow> promised K' i u b la lv"
  using assms unfolding voted_def asked_def promised_def by (auto dest: subsetD)

lemma chosen_mono: "K \<subseteq> K' \<Longrightarrow> chosen ps K i v \<Longrightarrow> chosen ps K' i v"
  unfolding chosen_def using wire_mono(1) by meson

lemma sent_mono: "(net_trans ps)\<^sup>*\<^sup>* s s' \<Longrightarrow> set (sent s) \<subseteq> set (sent s')"
proof (induction rule: rtranclp_induct)
  case (step y z)
  then show ?case by (auto simp: happens_def Let_def elim!: net_transE)
qed simp

end
