(* ===== verification/Paxos_Invariants.thy ===== *)
theory Paxos_Invariants
  imports Paxos_Network
begin

section \<open>The invariant of the network\<close>

text \<open>
  What holds of the packets on the wire (\<open>packets_inv\<close>) and of each node relative to them
  (\<open>node_inv\<close>), and how sending one more kind of packet keeps the former.
\<close>

subsection \<open>The packets\<close>

definition wire_prepares :: "'v packet set \<Rightarrow> bool" where
  "wire_prepares K \<longleftrightarrow>
     (\<forall>f d i b. (f, d, WPrepare i b) \<in> K \<longrightarrow> 1 \<le> number b) \<and>
     (\<forall>f d i. (f, d, WSyncRequest i) \<in> K \<longrightarrow> 0 \<le> i)"

definition promise_true :: "'v packet set \<Rightarrow> int \<Rightarrow> uid \<Rightarrow> proposal_id \<Rightarrow> proposal_id option
    \<Rightarrow> 'v option \<Rightarrow> bool" where
  "promise_true K i a b la lv \<longleftrightarrow>
     (\<forall>c v. voted K i a c v \<longrightarrow> c < b \<longrightarrow> Some c \<le> la) \<and>
     (\<forall>c. la = Some c \<longrightarrow> c \<le> b \<and> voted K i a c lv)"

definition wire_promises :: "'v packet set \<Rightarrow> bool" where
  "wire_promises K \<longleftrightarrow>
     (\<forall>i a b la lv. promised K i a b la lv \<longrightarrow> 1 \<le> number b \<and> promise_true K i a b la lv)"

definition wire_votes :: "'v packet set \<Rightarrow> bool" where
  "wire_votes K \<longleftrightarrow> (\<forall>i a b v. voted K i a b v \<longrightarrow> (\<exists>u. asked K i u b v))"

definition wire_asked :: "'v list \<Rightarrow> 'v packet set \<Rightarrow> bool" where
  "wire_asked R K \<longleftrightarrow>
     (\<forall>i u b v. asked K i u b v \<longrightarrow> uid_of b = u \<and> v \<in> Some ` set R) \<and>
     (\<forall>i u b v w. asked K i u b v \<longrightarrow> asked K i u b w \<longrightarrow> v = w)"

definition justified :: "uid list \<Rightarrow> 'v packet set \<Rightarrow> int \<Rightarrow> proposal_id \<Rightarrow> 'v option \<Rightarrow> bool" where
  "justified ps K i b v \<longleftrightarrow>
     (\<exists>Q hi. Q \<subseteq> set ps \<and> quorum_of ps \<le> card Q \<and>
        (\<forall>a\<in>Q. \<exists>la lv. promised K i a b la lv \<and> la \<le> hi) \<and>
        (hi = None \<or> (\<exists>c u. hi = Some c \<and> c < b \<and> asked K i u c v)))"

definition wire_justified :: "uid list \<Rightarrow> 'v packet set \<Rightarrow> bool" where
  "wire_justified ps K \<longleftrightarrow> (\<forall>i u b v. asked K i u b v \<longrightarrow> justified ps K i b v)"

definition wire_catchups :: "uid list \<Rightarrow> 'v packet set \<Rightarrow> bool" where
  "wire_catchups ps K \<longleftrightarrow>
     (\<forall>f d i v. (f, d, WCatchup i v) \<in> K \<longrightarrow> 0 < i \<and> chosen ps K (i - 1) v)"

definition packets_inv :: "uid list \<Rightarrow> 'v list \<Rightarrow> 'v packet set \<Rightarrow> bool" where
  "packets_inv ps R K \<longleftrightarrow>
     finite K \<and> fst ` K \<subseteq> set ps \<and> wire_prepares K \<and> wire_promises K \<and> wire_votes K \<and>
     wire_asked R K \<and> wire_justified ps K \<and> wire_catchups ps K"

text \<open>Its consequences, one by one.\<close>

lemma asked_facts:
  assumes "packets_inv ps R K"
  shows "asked K i u b v \<Longrightarrow> uid_of b = u"
    and "asked K i u b v \<Longrightarrow> v \<in> Some ` set R"
    and "asked K i u b v \<Longrightarrow> asked K i w b x \<Longrightarrow> v = x"
proof -
  have a: "wire_asked R K" using assms by (simp add: packets_inv_def)
  then have uid: "asked K i u b v \<Longrightarrow> uid_of b = u" for u v unfolding wire_asked_def by simp
  then show "asked K i u b v \<Longrightarrow> uid_of b = u" .
  show "asked K i u b v \<Longrightarrow> v \<in> Some ` set R" using a unfolding wire_asked_def by simp
  show "v = x" if "asked K i u b v" "asked K i w b x"
  proof -
    have "u = w" using uid[OF that(1)] uid[OF that(2)] by simp
    with that a show ?thesis unfolding wire_asked_def by meson
  qed
qed

lemma voted_asked: "packets_inv ps R K \<Longrightarrow> voted K i a b v \<Longrightarrow> \<exists>u. asked K i u b v"
  unfolding packets_inv_def wire_votes_def by meson

lemma promised_facts:
  assumes "packets_inv ps R K" "promised K i a b la lv"
  shows "1 \<le> number b" "promise_true K i a b la lv"
  using assms unfolding packets_inv_def wire_promises_def by meson+

lemma sender_peer:
  assumes "packets_inv ps R K" shows "(f, d, w) \<in> K \<Longrightarrow> f \<in> set ps"
  using assms unfolding packets_inv_def by (metis fst_conv image_eqI subsetD)

lemma wire_empty: "packets_inv ps R {}"
  by (simp add: packets_inv_def wire_prepares_def wire_promises_def wire_votes_def wire_asked_def
      wire_justified_def wire_catchups_def voted_def asked_def promised_def)

subsection \<open>One more datagram\<close>

definition post :: "uid \<Rightarrow> uid set \<Rightarrow> 'v wire \<Rightarrow> 'v packet set" where
  "post u D w = {(u, d, w) | d. d \<in> D}"

lemma post_iff: "(f, d, x) \<in> post u D w \<longleftrightarrow> f = u \<and> d \<in> D \<and> x = w"
  by (auto simp: post_def)

lemma finite_post: "finite D \<Longrightarrow> finite (post u D w)"
  by (simp add: post_def)

lemma fst_post: "fst ` post u D w \<subseteq> {u}"
  by (auto simp: post_def)

text \<open>What a packet adds to the record of the wire.\<close>

lemma voted_post:
  assumes "D \<noteq> {}"
  shows "voted (K \<union> post u D w) i a b v \<longleftrightarrow> voted K i a b v \<or> (a = u \<and> w = WAccepted i b v)"
  using assms unfolding voted_def by (auto simp: post_iff)

lemma asked_post:
  assumes "D \<noteq> {}"
  shows "asked (K \<union> post u D w) i a b v \<longleftrightarrow> asked K i a b v \<or> (a = u \<and> w = WAccept i b v)"
  using assms unfolding asked_def by (auto simp: post_iff)

lemma promised_post:
  assumes "D \<noteq> {}"
  shows "promised (K \<union> post u D w) i a b la lv \<longleftrightarrow>
    promised K i a b la lv \<or> (a = u \<and> w = WPromise i b la lv)"
  using assms unfolding promised_def by (auto simp: post_iff)

lemma justifiedE:
  assumes "justified ps K i b v"
  obtains Q hi where "Q \<subseteq> set ps" "quorum_of ps \<le> card Q"
    "\<And>a. a \<in> Q \<Longrightarrow> \<exists>la lv. promised K i a b la lv \<and> la \<le> hi"
    "hi = None \<or> (\<exists>c u. hi = Some c \<and> c < b \<and> asked K i u c v)"
  using assms unfolding justified_def by blast

lemma justifiedI:
  assumes "Q \<subseteq> set ps" "quorum_of ps \<le> card Q"
    "\<And>a. a \<in> Q \<Longrightarrow> \<exists>la lv. promised K i a b la lv \<and> la \<le> hi"
    "hi = None \<or> (\<exists>c u. hi = Some c \<and> c < b \<and> asked K i u c v)"
  shows "justified ps K i b v"
  unfolding justified_def using assms by (intro exI[of _ Q] exI[of _ hi]) simp

lemma justified_mono:
  assumes K: "K \<subseteq> K'" and j: "justified ps K i b v"
  shows "justified ps K' i b v"
proof -
  from j obtain Q hi where Q: "Q \<subseteq> set ps" "quorum_of ps \<le> card Q"
    and p: "\<And>a. a \<in> Q \<Longrightarrow> \<exists>la lv. promised K i a b la lv \<and> la \<le> hi"
    and h: "hi = None \<or> (\<exists>c u. hi = Some c \<and> c < b \<and> asked K i u c v)"
    by (rule justifiedE) blast
  from p have "\<And>a. a \<in> Q \<Longrightarrow> \<exists>la lv. promised K' i a b la lv \<and> la \<le> hi"
    using wire_mono(3)[OF K] by meson
  moreover have "hi = None \<or> (\<exists>c u. hi = Some c \<and> c < b \<and> asked K' i u c v)"
    using h wire_mono(2)[OF K] by blast
  ultimately show ?thesis using Q by (intro justifiedI)
qed

lemma promise_true_cong:
  "(\<And>c v. voted K' i a c v \<longleftrightarrow> voted K i a c v) \<Longrightarrow>
   promise_true K' i a b la lv \<longleftrightarrow> promise_true K i a b la lv"
  by (simp add: promise_true_def)

lemma packets_inv_values:
  assumes "packets_inv ps R K" "set R \<subseteq> set R'"
  shows "packets_inv ps R' K"
proof -
  have "wire_asked R K" using assms(1) by (simp add: packets_inv_def)
  then have "wire_asked R' K" using assms(2) unfolding wire_asked_def by fast
  then show ?thesis using assms(1) by (simp add: packets_inv_def)
qed

fun plain_packet :: "'v wire \<Rightarrow> bool" where
  "plain_packet (WPrepare i b) \<longleftrightarrow> 1 \<le> number b"
| "plain_packet (WNack i b p) \<longleftrightarrow> True"
| "plain_packet (WSyncRequest i) \<longleftrightarrow> 0 \<le> i"
| "plain_packet _ \<longleftrightarrow> False"

lemma plain_frame:
  assumes "plain_packet w"
  shows "voted (K \<union> post u D w) = voted K" "asked (K \<union> post u D w) = asked K"
    "promised (K \<union> post u D w) = promised K" "chosen ps (K \<union> post u D w) = chosen ps K"
proof -
  show v: "voted (K \<union> post u D w) = voted K"
    using assms by (cases w) (auto simp: voted_def post_iff fun_eq_iff)
  show "asked (K \<union> post u D w) = asked K"
    using assms by (cases w) (auto simp: asked_def post_iff fun_eq_iff)
  show "promised (K \<union> post u D w) = promised K"
    using assms by (cases w) (auto simp: promised_def post_iff fun_eq_iff)
  show "chosen ps (K \<union> post u D w) = chosen ps K"
    by (simp add: chosen_def v fun_eq_iff)
qed

lemma packets_inv_common:
  assumes "packets_inv ps R K" "u \<in> set ps" "finite D"
  shows "finite (K \<union> post u D w)" "fst ` (K \<union> post u D w) \<subseteq> set ps"
  using assms fst_post[of u D w] by (auto simp: packets_inv_def finite_post)

lemma packets_inv_plain:
  assumes inv: "packets_inv ps R K" and u: "u \<in> set ps" and D: "finite D" and w: "plain_packet w"
  shows "packets_inv ps R (K \<union> post u D w)"
proof -
  have "wire_prepares (K \<union> post u D w)"
    using inv w by (auto simp: packets_inv_def wire_prepares_def post_iff)
  moreover have "wire_catchups ps (K \<union> post u D w)"
    using inv w by (auto simp: packets_inv_def wire_catchups_def post_iff plain_frame[OF w])
  moreover have "wire_promises (K \<union> post u D w)" "wire_votes (K \<union> post u D w)"
    "wire_asked R (K \<union> post u D w)" "wire_justified ps (K \<union> post u D w)"
    using inv
    by (simp_all add: packets_inv_def wire_promises_def wire_votes_def wire_asked_def
        wire_justified_def justified_def promise_true_def plain_frame[OF w])
  ultimately show ?thesis using packets_inv_common[OF inv u D] by (simp add: packets_inv_def)
qed

lemma catchups_mono:
  assumes "wire_catchups ps K" "\<And>i v. w = WCatchup i v \<Longrightarrow> 0 < i \<and> chosen ps K (i - 1) v"
  shows "wire_catchups ps (K \<union> post u D w)"
proof -
  have mono: "chosen ps K j x \<Longrightarrow> chosen ps (K \<union> post u D w) j x" for j x
    by (rule chosen_mono) simp_all
  show ?thesis
    unfolding wire_catchups_def
  proof (intro allI impI)
    fix f d i v assume "(f, d, WCatchup i v) \<in> K \<union> post u D w"
    then have "0 < i \<and> chosen ps K (i - 1) v"
      using assms by (auto simp: wire_catchups_def post_iff)
    then show "0 < i \<and> chosen ps (K \<union> post u D w) (i - 1) v" using mono by blast
  qed
qed

lemma prepares_post:
  "wire_prepares K \<Longrightarrow> (\<And>i b. w \<noteq> WPrepare i b) \<Longrightarrow> (\<And>i. w \<noteq> WSyncRequest i) \<Longrightarrow>
   wire_prepares (K \<union> post u D w)"
  unfolding wire_prepares_def Un_iff post_iff by blast

lemma packets_inv_catchup:
  assumes inv: "packets_inv ps R K" and u: "u \<in> set ps" and D: "finite D"
    and ch: "0 < i" "chosen ps K (i - 1) v"
  shows "packets_inv ps R (K \<union> post u D (WCatchup i v))"
proof -
  let ?K = "K \<union> post u D (WCatchup i v)"
  have "voted ?K = voted K" "asked ?K = asked K" "promised ?K = promised K"
    by (auto simp: voted_def asked_def promised_def post_iff fun_eq_iff)
  then have "wire_promises ?K" "wire_votes ?K" "wire_asked R ?K" "wire_justified ps ?K"
    using inv by (simp_all add: packets_inv_def wire_promises_def wire_votes_def wire_asked_def
        wire_justified_def justified_def promise_true_def)
  moreover have "wire_catchups ps ?K"
    using inv ch by (intro catchups_mono) (auto simp: packets_inv_def)
  moreover have "wire_prepares ?K"
    using inv by (intro prepares_post) (auto simp: packets_inv_def)
  ultimately show ?thesis using packets_inv_common[OF inv u D] by (simp add: packets_inv_def)
qed

lemma packets_inv_promise:
  assumes inv: "packets_inv ps R K" and u: "u \<in> set ps" and D: "finite D" "D \<noteq> {}"
    and new: "1 \<le> number b" "promise_true K i u b la lv"
  shows "packets_inv ps R (K \<union> post u D (WPromise i b la lv))"
proof -
  let ?K = "K \<union> post u D (WPromise i b la lv)"
  have v: "voted ?K = voted K" and a: "asked ?K = asked K"
    by (auto simp: voted_def asked_def post_iff fun_eq_iff)
  have pt: "promise_true ?K = promise_true K" by (simp add: promise_true_def fun_eq_iff v)
  have "wire_promises ?K"
    using inv new by (auto simp: packets_inv_def wire_promises_def promised_post[OF D(2)] pt)
  moreover have "wire_votes ?K" "wire_asked R ?K"
    using inv by (simp_all add: packets_inv_def wire_votes_def wire_asked_def v a)
  moreover have "wire_justified ps ?K"
  proof -
    have mono: "justified ps K j c x \<Longrightarrow> justified ps ?K j c x" for j c x
      by (rule justified_mono) simp_all
    have "wire_justified ps K" using inv by (simp add: packets_inv_def)
    then show ?thesis unfolding wire_justified_def a using mono by blast
  qed
  moreover have "wire_catchups ps ?K"
    using inv by (intro catchups_mono) (auto simp: packets_inv_def)
  moreover have "wire_prepares ?K"
    using inv by (intro prepares_post) (auto simp: packets_inv_def)
  ultimately show ?thesis using packets_inv_common[OF inv u D(1)] by (simp add: packets_inv_def)
qed

text \<open>
  A vote is allowed when the value was asked for and no promise for a higher proposal was
  sent.
\<close>

lemma promise_true_vote:
  assumes "promise_true K j a c la lv" "D \<noteq> {}" "a = u \<Longrightarrow> j = i \<Longrightarrow> c \<le> b"
  shows "promise_true (K \<union> post u D (WAccepted i b v)) j a c la lv"
proof -
  have "c \<le> b" if "WAccepted i b v = WAccepted j d x" "a = u" for d x
    using assms(3) that by simp
  then show ?thesis
    using assms(1) unfolding promise_true_def voted_post[OF assms(2)] by fastforce
qed

lemma packets_inv_vote:
  assumes inv: "packets_inv ps R K" and u: "u \<in> set ps" and D: "finite D" "D \<noteq> {}"
    and a: "asked K i p b v" and low: "\<And>c la lv. promised K i u c la lv \<Longrightarrow> c \<le> b"
  shows "packets_inv ps R (K \<union> post u D (WAccepted i b v))"
proof -
  let ?K = "K \<union> post u D (WAccepted i b v)"
  have ask: "asked ?K = asked K" and pr: "promised ?K = promised K"
    by (auto simp: asked_def promised_def post_iff fun_eq_iff)
  have "wire_promises ?K"
    unfolding wire_promises_def pr
  proof (intro allI impI)
    fix j x c la lv assume p: "promised K j x c la lv"
    then have "1 \<le> number c \<and> promise_true K j x c la lv"
      using inv by (simp add: packets_inv_def wire_promises_def)
    moreover have "c \<le> b" if "x = u" "j = i" using low p that by blast
    ultimately show "1 \<le> number c \<and> promise_true ?K j x c la lv"
      using promise_true_vote[OF _ D(2)] by blast
  qed
  moreover have "wire_votes ?K"
    using inv a by (auto simp: packets_inv_def wire_votes_def voted_post[OF D(2)] ask)
  moreover have "wire_asked R ?K" "wire_justified ps ?K"
    using inv by (simp_all add: packets_inv_def wire_asked_def wire_justified_def justified_def ask pr)
  moreover have "wire_catchups ps ?K"
    using inv by (intro catchups_mono) (auto simp: packets_inv_def)
  moreover have "wire_prepares ?K"
    using inv by (intro prepares_post) (auto simp: packets_inv_def)
  ultimately show ?thesis using packets_inv_common[OF inv u D(1)] by (simp add: packets_inv_def)
qed

lemma packets_inv_ask:
  assumes inv: "packets_inv ps R K" and u: "u \<in> set ps" and D: "finite D" "D \<noteq> {}"
    and new: "uid_of b = u" "v \<in> Some ` set R" "justified ps K i b v"
    and same: "\<And>w. asked K i u b w \<Longrightarrow> w = v"
  shows "packets_inv ps R (K \<union> post u D (WAccept i b v))"
proof -
  let ?K = "K \<union> post u D (WAccept i b v)"
  have vt: "voted ?K = voted K" and pr: "promised ?K = promised K"
    by (auto simp: voted_def promised_def post_iff fun_eq_iff)
  have ask: "asked ?K j x c y \<longleftrightarrow> asked K j x c y \<or> (x = u \<and> WAccept i b v = WAccept j c y)" for j x c y
    by (rule asked_post[OF D(2)])
  have "wire_promises ?K"
    using inv by (simp add: packets_inv_def wire_promises_def promise_true_def vt pr)
  moreover have "wire_votes ?K"
    using inv unfolding packets_inv_def wire_votes_def vt ask by blast
  moreover have "wire_asked R ?K"
  proof -
    have "wire_asked R K" using inv by (simp add: packets_inv_def)
    then show ?thesis using new(1,2) same unfolding wire_asked_def ask wire.inject by blast
  qed
  moreover have "wire_justified ps ?K"
  proof -
    have mono: "justified ps K j c x \<Longrightarrow> justified ps ?K j c x" for j c x
      by (rule justified_mono) simp_all
    have "wire_justified ps K" using inv by (simp add: packets_inv_def)
    then show ?thesis using new(3) mono unfolding wire_justified_def ask wire.inject by blast
  qed
  moreover have "wire_catchups ps ?K"
    using inv by (intro catchups_mono) (auto simp: packets_inv_def)
  moreover have "wire_prepares ?K"
    using inv by (intro prepares_post) (auto simp: packets_inv_def)
  ultimately show ?thesis using packets_inv_common[OF inv u D(1)] by (simp add: packets_inv_def)
qed

end
