(* ===== verification/Node_Invariants.thy ===== *)
theory Node_Invariants
  imports Paxos_Invariants
begin

section \<open>The invariant of a node\<close>

text \<open>
  How the parts of a node, in instance \<open>i\<close>, relate to the packets \<open>K\<close> on the wire:
  the acceptor is bound by its own Promise and Accepted packets, the proposer's promises
  are on the wire and its value is the one they report, the current value was chosen in the
  instance before.
\<close>

definition acceptor_ok :: "'v packet set \<Rightarrow> int \<Rightarrow> uid \<Rightarrow> 'v acceptor \<Rightarrow> bool" where
  "acceptor_ok K i u a \<longleftrightarrow>
     acceptor_inv a \<and>
     (\<forall>b v. voted K i u b v \<longrightarrow> Some b \<le> accepted_id a) \<and>
     (\<forall>b la lv. promised K i u b la lv \<longrightarrow> Some b \<le> promised_id a) \<and>
     (\<forall>c. accepted_id a = Some c \<longrightarrow> voted K i u c (accepted_value a)) \<and>
     (\<forall>j b v. voted K j u b v \<longrightarrow> j \<le> i) \<and>
     (\<forall>j b la lv. promised K j u b la lv \<longrightarrow> j \<le> i)"

definition promises_ok :: "'v packet set \<Rightarrow> int \<Rightarrow> 'v proposer \<Rightarrow> bool" where
  "promises_ok K i p \<longleftrightarrow>
     (promises_received p = None \<longrightarrow> number (proposal_id p) < 1) \<and>
     (\<forall>S w. promises_received p = Some S \<longrightarrow> w \<in> S \<longrightarrow>
        (\<exists>la lv. promised K i w (proposal_id p) la lv \<and> la \<le> highest_accepted_id p)) \<and>
     (\<forall>c. highest_accepted_id p = Some c \<longrightarrow>
        c < proposal_id p \<and> (\<exists>w. voted K i w c (proposed_value p)))"

definition proposer_ok :: "'v list \<Rightarrow> 'v packet set \<Rightarrow> int \<Rightarrow> uid \<Rightarrow> 'v proposer \<Rightarrow> bool" where
  "proposer_ok R K i u p \<longleftrightarrow>
     proposer_inv p \<and> prop_uid p = u \<and> sent_ok (asked K i u) p \<and>
     (\<forall>j b v. asked K j u b v \<longrightarrow> j \<le> i) \<and>
     proposed_value p \<in> insert None (Some ` set R) \<and>
     0 \<le> number (highest_proposal_id p) \<and> promises_ok K i p"

fun retransmit_ok :: "'v packet set \<Rightarrow> int \<Rightarrow> uid \<Rightarrow> 'v retransmit option \<Rightarrow> bool" where
  "retransmit_ok K i u None \<longleftrightarrow> True"
| "retransmit_ok K i u (Some (RetransmitPrepare b)) \<longleftrightarrow> 1 \<le> number b"
| "retransmit_ok K i u (Some (RetransmitAccept b v)) \<longleftrightarrow> asked K i u b v"

definition chain_ok :: "uid list \<Rightarrow> 'v packet set \<Rightarrow> int \<Rightarrow> 'v option \<Rightarrow> bool" where
  "chain_ok ps K i cur \<longleftrightarrow> (i = 0 \<and> cur = None) \<or> (0 < i \<and> chosen ps K (i - 1) cur)"

definition ids_ok :: "uid list \<Rightarrow> uid \<Rightarrow> 'v node \<Rightarrow> bool" where
  "ids_ok ps u n \<longleftrightarrow>
     network_uid n = u \<and> peers n = ps \<and> quorum_size n = quorum_of ps \<and>
     prop_quorum (proposer_of (paxos_of n)) = quorum_of ps \<and>
     acc_uid (acceptor_of (paxos_of n)) = u \<and>
     learn_uid (learner_of (paxos_of n)) = u \<and>
     learn_quorum (learner_of (paxos_of n)) = quorum_of ps"

definition learner_ok :: "'v packet set \<Rightarrow> int \<Rightarrow> 'v learner \<Rightarrow> bool" where
  "learner_ok K i l \<longleftrightarrow> learner_inv (voted K i) l \<and> acceptors l \<noteq> None"

definition node_inv :: "uid list \<Rightarrow> 'v list \<Rightarrow> 'v packet set \<Rightarrow> uid \<Rightarrow> 'v node \<Rightarrow> bool" where
  "node_inv ps R K u n \<longleftrightarrow>
     ids_ok ps u n \<and>
     acceptor_ok K (instance_number n) u (acceptor_of (paxos_of n)) \<and>
     proposer_ok R K (instance_number n) u (proposer_of (paxos_of n)) \<and>
     learner_ok K (instance_number n) (learner_of (paxos_of n)) \<and>
     retransmit_ok K (instance_number n) u (retransmit_task n) \<and>
     chain_ok ps K (instance_number n) (current_value n)"

subsection \<open>More packets\<close>

text \<open>The invariants only look at this node's own votes, promises and Accept packets.\<close>

lemma acceptor_ok_cong:
  assumes "\<And>j b v. voted K' j u b v \<longleftrightarrow> voted K j u b v"
    "\<And>j b la lv. promised K' j u b la lv \<longleftrightarrow> promised K j u b la lv"
  shows "acceptor_ok K' i u a \<longleftrightarrow> acceptor_ok K i u a"
  unfolding acceptor_ok_def assms ..

lemma promises_ok_mono: 
  assumes "promises_ok K i p" "K \<subseteq> K'" shows "promises_ok K' i p"
proof -
  have v: "voted K i w c x \<Longrightarrow> voted K' i w c x" for w c x using wire_mono(1)[OF assms(2)] .
  have p: "promised K i w c x y \<Longrightarrow> promised K' i w c x y" for w c x y using wire_mono(3)[OF assms(2)] .
  show ?thesis using assms(1) v p unfolding promises_ok_def by meson
qed

lemma proposer_ok_mono:
  assumes "proposer_ok R K i u p" "K \<subseteq> K'" "\<And>j b v. asked K' j u b v \<longleftrightarrow> asked K j u b v"
    "set R \<subseteq> set R'"
  shows "proposer_ok R' K' i u p"
proof -
  have "asked K' i u = asked K i u" using assms(3) by (simp add: fun_eq_iff)
  then show ?thesis
    using assms(1,4) promises_ok_mono[OF _ assms(2), of i p]
    unfolding proposer_ok_def assms(3) by auto
qed

lemma learner_ok_mono: "learner_ok K i l \<Longrightarrow> K \<subseteq> K' \<Longrightarrow> learner_ok K' i l"
  unfolding learner_ok_def using learner_inv_mono_votes wire_mono(1) by metis

lemma retransmit_ok_mono: "retransmit_ok K i u t \<Longrightarrow> K \<subseteq> K' \<Longrightarrow> retransmit_ok K' i u t"
  by (cases "(K, i, u, t)" rule: retransmit_ok.cases) (auto dest: wire_mono(2))

lemma chain_ok_mono: "chain_ok ps K i cur \<Longrightarrow> K \<subseteq> K' \<Longrightarrow> chain_ok ps K' i cur"
  unfolding chain_ok_def using chosen_mono by metis

lemma node_inv_foreign:
  assumes "node_inv ps R K x n" "x \<noteq> u" "\<And>f d w. (f, d, w) \<in> P \<Longrightarrow> f = u"
  shows "node_inv ps R (K \<union> P) x n"
proof -
  let ?K = "K \<union> P"
  have K: "K \<subseteq> ?K" by simp
  have fr: "voted ?K j x b v \<longleftrightarrow> voted K j x b v" "asked ?K j x b v \<longleftrightarrow> asked K j x b v"
    "promised ?K j x b la lv \<longleftrightarrow> promised K j x b la lv" for j b v la lv
    using assms(2,3) by (auto simp: voted_def asked_def promised_def)
  have "acceptor_ok ?K i x a = acceptor_ok K i x a" for i a
    by (rule acceptor_ok_cong) (simp_all add: fr)
  moreover have "proposer_ok R K i x p \<Longrightarrow> proposer_ok R ?K i x p" for i p
    by (rule proposer_ok_mono[OF _ K _ subset_refl]) (simp_all add: fr)
  ultimately show ?thesis
    using assms(1) learner_ok_mono[OF _ K] retransmit_ok_mono[OF _ K] chain_ok_mono[OF _ K]
    unfolding node_inv_def by blast
qed

text \<open>A new instance starts with nothing said in it yet.\<close>

lemma fresh_instance:
  assumes "acceptor_ok K i u a" "proposer_ok R K i u p" "i < j"
  shows "acceptor_ok K j u (init_acceptor u None None None)"
    "proposer_ok R K j u (init_proposer u q)"
proof -
  have v: "\<not> voted K k u b v" and p: "\<not> promised K k u b la lv" if "i < k" for k b v la lv
    using assms(1) that unfolding acceptor_ok_def by (meson leD)+
  have vj: "k \<le> j" if "voted K k u b v" for k b v
    using assms(1,3) that unfolding acceptor_ok_def by fastforce
  have pj: "k \<le> j" if "promised K k u b la lv" for k b la lv
    using assms(1,3) that unfolding acceptor_ok_def by fastforce
  show "acceptor_ok K j u (init_acceptor u None None None)"
    unfolding acceptor_ok_def
    using v[OF assms(3)] p[OF assms(3)] vj pj
    by (auto simp: init_acceptor_def acceptor_inv_def)
  have a: "\<not> asked K j u b v" for b v
    using assms(2,3) unfolding proposer_ok_def by fastforce
  have aj: "k \<le> j" if "asked K k u b v" for k b v
    using assms(2,3) that unfolding proposer_ok_def by fastforce
  show "proposer_ok R K j u (init_proposer u q)"
    unfolding proposer_ok_def promises_ok_def sent_ok_def
    using a aj init_proposer_inv[of u q]
    by (auto simp: init_proposer_def)
qed

lemma init_learner_ok: "learner_ok K i (init_learner u (quorum_of ps))"
  unfolding learner_ok_def using init_learner_inv[OF quorum_of_pos]
  by (simp add: init_learner_def)

end
