(* ===== verification/Role_Steps.thy ===== *)
theory Role_Steps
  imports Node_Invariants
begin

section \<open>Acceptor, proposer and learner against the network\<close>

subsection \<open>The acceptor\<close>

lemma acceptor_ok_plain:
  assumes "acceptor_ok K i u a" "voted K' = voted K" "promised K' = promised K"
  shows "acceptor_ok K' i u a"
  using assms by (simp add: acceptor_ok_def)

text \<open>Answering a Prepare with a Promise: the Promise tells the truth and binds.\<close>

lemma acceptor_promise_step:
  assumes ok: "acceptor_ok K i u a" and b: "promised_id a \<le> Some b" and D: "D \<noteq> {}"
  shows "promise_true K i u b (accepted_id a) (accepted_value a)"
    "acceptor_ok (K \<union> post u D (WPromise i b (accepted_id a) (accepted_value a))) i u
       (a\<lparr>promised_id := Some b\<rparr>)"
proof -
  let ?K = "K \<union> post u D (WPromise i b (accepted_id a) (accepted_value a))"
  have inv: "accepted_id a \<le> promised_id a" using ok by (simp add: acceptor_ok_def acceptor_inv_def)
  have le: "accepted_id a \<le> Some b" using inv b by (rule order_trans)
  show "promise_true K i u b (accepted_id a) (accepted_value a)"
    using ok le unfolding acceptor_ok_def promise_true_def by auto
  have v: "voted ?K = voted K" by (auto simp: voted_def post_iff fun_eq_iff)
  have up: "Some c \<le> promised_id a \<Longrightarrow> c \<le> b" for c
    using b order_trans by fastforce
  show "acceptor_ok ?K i u (a\<lparr>promised_id := Some b\<rparr>)"
    using ok le up unfolding acceptor_ok_def v promised_post[OF D]
    by (auto simp: acceptor_inv_def)
qed

lemma acceptor_vote_step:
  assumes ok: "acceptor_ok K i u a" and b: "promised_id a \<le> Some b" and D: "D \<noteq> {}"
  shows "\<And>c la lv. promised K i u c la lv \<Longrightarrow> c \<le> b"
    "acceptor_ok (K \<union> post u D (WAccepted i b v)) i u
       (a\<lparr>promised_id := Some b, accepted_id := Some b, accepted_value := v\<rparr>)"
proof -
  let ?K = "K \<union> post u D (WAccepted i b v)"
  have up: "Some c \<le> promised_id a \<Longrightarrow> c \<le> b" for c
    using b order_trans by fastforce
  show low: "c \<le> b" if "promised K i u c la lv" for c la lv
    using ok that up unfolding acceptor_ok_def by blast
  have pr: "promised ?K = promised K" by (auto simp: promised_def post_iff fun_eq_iff)
  have inv: "accepted_id a \<le> promised_id a" using ok by (simp add: acceptor_ok_def acceptor_inv_def)
  have acc: "c \<le> b" if "voted K i u c x" for c x
  proof -
    have "Some c \<le> accepted_id a" using ok that unfolding acceptor_ok_def by blast
    also note inv
    finally show ?thesis by (rule up)
  qed
  show "acceptor_ok ?K i u (a\<lparr>promised_id := Some b, accepted_id := Some b, accepted_value := v\<rparr>)"
    using ok low acc unfolding acceptor_ok_def pr voted_post[OF D]
    by (auto simp: acceptor_inv_def)
qed

subsection \<open>The proposer\<close>

lemma proposer_ok_plain:
  assumes "proposer_ok R K i u p" "voted K' = voted K" "asked K' = asked K" "promised K' = promised K"
  shows "proposer_ok R K' i u p"
  using assms by (simp add: proposer_ok_def promises_ok_def)

lemma observe_number: "number (highest_proposal_id p) \<le> number (highest_proposal_id (observe_proposal x p))"
  by (cases x) (auto simp: observe_proposal_def number_mono)

lemma observe_ok: 
  assumes "proposer_ok R K i u p" shows "proposer_ok R K i u (observe_proposal x p)"
  using assms observe_proposal_inv[of p x] observe_proposal_sent_ok[of "asked K i u" p x]
    observe_number[of p x]
  unfolding proposer_ok_def promises_ok_def by simp

lemma prepare_frame [frame_simps]:
  "snd (prepare p) = Prepare (prop_uid p) (proposal_id (fst (prepare p)))"
  "highest_accepted_id (fst (prepare p)) = highest_accepted_id p"
  "proposed_value (fst (prepare p)) = proposed_value p"
  "promises_received (fst (prepare p)) = Some {}"
  "highest_proposal_id (fst (prepare p)) = proposal_id (fst (prepare p))"
  "number (proposal_id (fst (prepare p))) = number (highest_proposal_id p) + 1"
  by (simp_all add: prepare_def Let_def)

lemma prepare_ok:
  assumes ok: "proposer_ok R K i u p"
  shows "proposer_ok R K i u (fst (prepare p))"
    "1 \<le> number (proposal_id (fst (prepare p)))"
proof -
  have inv: "proposer_inv p" and s: "sent_ok (asked K i u) p" and n: "0 \<le> number (highest_proposal_id p)"
    using ok by (simp_all add: proposer_ok_def)
  have lt: "proposal_id p < proposal_id (fst (prepare p))" by (rule prepare_outbids[OF inv])
  have "promises_ok K i (fst (prepare p))"
    using ok lt unfolding proposer_ok_def promises_ok_def frame_simps by (auto intro: less_trans)
  then show "proposer_ok R K i u (fst (prepare p))"
    using ok n prepare_inv[OF inv] prepare_sent_ok[OF inv s]
    unfolding proposer_ok_def by (simp add: frame_simps)
  show "1 \<le> number (proposal_id (fst (prepare p)))" using n by (simp add: frame_simps)
qed

text \<open>The value of a vote is a proposed one, never \<open>None\<close>.\<close>

lemma voted_value:
  assumes "packets_inv ps R K" "voted K i w c v" shows "v \<in> Some ` set R"
  using voted_asked[OF assms] asked_facts(2)[OF assms(1)] by blast

lemma propose_ok:
  assumes ok: "proposer_ok R K i u p" and inv: "packets_inv ps R K" and v: "v \<in> set R"
  shows "proposer_ok R K i u (fst (propose_value (Some v) p))"
proof (cases "proposed_value p")
  case None
  have no: "highest_accepted_id p = None"
  proof (rule ccontr)
    assume "highest_accepted_id p \<noteq> None"
    then obtain c w where "voted K i w c (proposed_value p)"
      using ok unfolding proposer_ok_def promises_ok_def by auto
    from voted_value[OF inv this] None show False by auto
  qed
  have "sent_ok (asked K i u) (fst (propose_value (Some v) p))"
    using ok None unfolding proposer_ok_def sent_ok_def propose_value_def by (auto simp: Let_def)
  then show ?thesis
    using ok no v propose_value_inv[of p "Some v"]
    unfolding proposer_ok_def promises_ok_def by (auto simp: propose_value_def Let_def None)
next
  case (Some x)
  then show ?thesis using ok by (simp add: propose_value_def)
qed

lemma nack_ok:
  assumes ok: "proposer_ok R K i u p"
  shows "proposer_ok R K i u (fst (receive_nack f b x p))"
proof (cases "nacks_received p")
  case None
  then show ?thesis using observe_ok[OF ok] by (simp add: receive_nack_def)
next
  case (Some ns)
  let ?p = "observe_proposal x p\<lparr>nacks_received := Some (insert f ns)\<rparr>"
  have o: "proposer_ok R K i u (observe_proposal x p)" by (rule observe_ok[OF ok])
  then have "proposer_ok R K i u ?p"
    using Some unfolding proposer_ok_def promises_ok_def proposer_inv_def sent_ok_def by auto
  then show ?thesis using o by (simp add: receive_nack_def Some Let_def split_beta prepare_ok(1))
qed

text \<open>
  A Promise from the wire.  When it is not counted, the proposer only observes its id.  When
  it is, the proposer's bookkeeping stays true, and an Accept message it returns carries a
  value the promises of a quorum justify.
\<close>

lemma promise_once:
  assumes ok: "proposer_ok R K i u p" and inv: "packets_inv ps R K" and nl: "\<not> leader p"
    and pr: "promised K i f (proposal_id p) (Some c) lv"
  shows "c < proposal_id p" "voted K i f c lv"
proof -
  have t: "c \<le> proposal_id p" "voted K i f c lv"
    using promised_facts(2)[OF inv pr] unfolding promise_true_def by simp_all
  then show "voted K i f c lv" by simp
  have "c \<noteq> proposal_id p"
  proof
    assume c: "c = proposal_id p"
    obtain w where w: "asked K i w c lv" using voted_asked[OF inv t(2)] by blast
    then have "uid_of c = w" by (rule asked_facts(1)[OF inv])
    moreover have "uid_of c = u" using ok c unfolding proposer_ok_def proposer_inv_def by simp
    ultimately have "asked K i u (proposal_id p) lv" using w c by simp
    then show False using sent_ok_no_current nl ok unfolding proposer_ok_def by blast
  qed
  with t(1) show "c < proposal_id p" by simp
qed

lemma note_accepted_highest: "highest_accepted_id (note_accepted la lv p) = max (highest_accepted_id p) la"
  by (auto simp: note_accepted_def Let_def max_def)

lemma note_accepted_value:
  "lv \<noteq> None \<Longrightarrow> proposed_value (note_accepted la lv p) =
     (if highest_accepted_id p < la then lv else proposed_value p)"
  "la = None \<Longrightarrow> note_accepted la lv p = p"
  by (auto simp: note_accepted_def Let_def)

text \<open>The proposer after it has recorded a Promise for its proposal.\<close>

definition recorded :: "uid \<Rightarrow> uid set \<Rightarrow> proposal_id option \<Rightarrow> 'v option \<Rightarrow> 'v proposer \<Rightarrow> 'v proposer" where
  "recorded f S la lv p =
     note_accepted la lv (observe_proposal (Some (proposal_id p)) p\<lparr>promises_received := Some (insert f S)\<rparr>)"

lemma recorded_ok:
  assumes ok: "proposer_ok R K i u p" and inv: "packets_inv ps R K" and nl: "\<not> leader p"
    and S: "promises_received p = Some S" and pr: "promised K i f (proposal_id p) la lv"
  shows "proposer_ok R K i u (recorded f S la lv p)"
proof -
  let ?p = "recorded f S la lv p"
  let ?o = "observe_proposal (Some (proposal_id p)) p\<lparr>promises_received := Some (insert f S)\<rparr>"
  have o: "proposer_inv (observe_proposal (Some (proposal_id p)) p)"
    using ok by (intro observe_proposal_inv) (simp add: proposer_ok_def)
  have "proposer_inv ?o" using o S nl by (auto simp: proposer_inv_def)
  then have pinv: "proposer_inv ?p" unfolding recorded_def by (rule note_accepted_inv)
  have hi: "highest_accepted_id ?p = max (highest_accepted_id p) la"
    by (simp add: recorded_def note_accepted_highest)
  have lvS: "lv \<in> Some ` set R" if "la = Some c" for c
    using voted_value[OF inv promise_once(2)[OF ok inv nl]] pr that by blast
  have val: "proposed_value ?p = (if highest_accepted_id p < la then lv else proposed_value p)"
  proof (cases la)
    case None
    then show ?thesis by (simp add: recorded_def note_accepted_value(2))
  next
    case (Some c)
    then have "lv \<noteq> None" using lvS by auto
    then show ?thesis by (simp add: recorded_def note_accepted_value(1))
  qed
  have fields: "promises_received ?p = Some (insert f S)" "proposal_id ?p = proposal_id p"
    "prop_uid ?p = prop_uid p" "leader ?p = leader p"
    by (simp_all add: recorded_def)
  have "promises_ok K i ?p"
    unfolding promises_ok_def fields
  proof (intro conjI allI impI)
    fix T w assume "Some (insert f S) = Some T" "w \<in> T"
    then consider "w = f" | "w \<in> S" by auto
    then show "\<exists>la lv. promised K i w (proposal_id p) la lv \<and> la \<le> highest_accepted_id ?p"
    proof cases
      case 1
      then show ?thesis using pr by (auto simp: hi)
    next
      case 2
      then obtain a b where "promised K i w (proposal_id p) a b" "a \<le> highest_accepted_id p"
        using ok S unfolding proposer_ok_def promises_ok_def by blast
      then show ?thesis by (auto simp: hi intro: max.coboundedI1)
    qed
  next
    fix c assume c: "highest_accepted_id ?p = Some c"
    show "c < proposal_id p"
      using c ok promise_once(1)[OF ok inv nl, of f] pr
      by (auto simp: hi max_def proposer_ok_def promises_ok_def split: if_splits)
    show "\<exists>w. voted K i w c (proposed_value ?p)"
    proof (cases "highest_accepted_id p < la")
      case True
      then have "la = Some c" using c by (simp add: hi max_absorb2)
      then have "voted K i f c lv" using promise_once(2)[OF ok inv nl] pr by simp
      moreover have "proposed_value ?p = lv" using True by (simp add: val)
      ultimately show ?thesis by auto
    next
      case False
      then have "highest_accepted_id p = Some c" using c by (simp add: hi max_def split: if_splits)
      then show ?thesis using False ok by (simp add: val proposer_ok_def promises_ok_def)
    qed
  qed simp
  moreover have "proposed_value ?p \<in> insert None (Some ` set R)"
    unfolding val using ok lvS by (cases la) (auto simp: proposer_ok_def)
  moreover have "0 \<le> number (highest_proposal_id ?p)"
    using ok observe_number[of p "Some (proposal_id p)"]
    by (simp add: recorded_def proposer_ok_def)
  moreover have "sent_ok (asked K i u) ?p"
  proof (rule sent_ok_follower[OF _ nl fields(2)])
    show "sent_ok (asked K i u) p" using ok by (simp add: proposer_ok_def)
  qed
  ultimately show ?thesis using ok pinv fields unfolding proposer_ok_def by simp
qed

lemma receive_promise_eq:
  "receive_promise f b la lv p =
     (if \<not> leader p \<and> b = proposal_id p then
        (case promises_received p of
           None \<Rightarrow> (observe_proposal (Some b) p, Raise TypeError)
         | Some S \<Rightarrow>
             if f \<in> S then (observe_proposal (Some b) p, Ret None)
             else
               let p2 = recorded f S la lv p in
               if card (insert f S) = prop_quorum p then
                 if proposed_value p2 \<noteq> None then
                   let m = Accept (prop_uid p) (proposal_id p) (proposed_value p2) in
                   (p2\<lparr>leader := True, current_accept_msg := Some m\<rparr>, Ret (Some m))
                 else (p2\<lparr>leader := True\<rparr>, Ret None)
               else (p2, Ret None))
      else (observe_proposal (Some b) p, Ret None))"
  by (cases "promises_received p")
     (simp_all add: receive_promise_def recorded_def Let_def)

lemma promised_sender: "packets_inv ps R K \<Longrightarrow> promised K i f b la lv \<Longrightarrow> f \<in> set ps"
  unfolding promised_def using sender_peer by blast

lemma recorded_justified:
  assumes ok: "proposer_ok R K i u p'" and inv: "packets_inv ps R K"
    and S: "promises_received p' = Some S" "card S = quorum_of ps"
  shows "justified ps K i (proposal_id p') (proposed_value p')"
proof (rule justifiedI[of S])
  have pr: "\<exists>la lv. promised K i w (proposal_id p') la lv \<and> la \<le> highest_accepted_id p'" if "w \<in> S" for w
    using ok S that unfolding proposer_ok_def promises_ok_def by blast
  then show "S \<subseteq> set ps" using promised_sender[OF inv] by blast
  show "quorum_of ps \<le> card S" using S by simp
  show "\<And>a. a \<in> S \<Longrightarrow> \<exists>la lv. promised K i a (proposal_id p') la lv \<and> la \<le> highest_accepted_id p'"
    by (rule pr)
  show "highest_accepted_id p' = None \<or>
     (\<exists>c u. highest_accepted_id p' = Some c \<and> c < proposal_id p' \<and> asked K i u c (proposed_value p'))"
  proof (cases "highest_accepted_id p'")
    case (Some c)
    then obtain w where "c < proposal_id p'" "voted K i w c (proposed_value p')"
      using ok unfolding proposer_ok_def promises_ok_def by blast
    moreover from this obtain x where "asked K i x c (proposed_value p')"
      using voted_asked[OF inv] by blast
    ultimately show ?thesis using Some by blast
  qed simp
qed

text \<open>The two ways a counted quorum of promises ends: silently, or with an Accept message.\<close>

lemma lead_ok:
  assumes ok: "proposer_ok R K i u p" and nl: "\<not> leader p" and S: "promises_received p = Some S"
    "card S = prop_quorum p"
  shows "proposer_ok R K i u (p\<lparr>leader := True\<rparr>)"
  using assms sent_ok_no_current[of "asked K i u" p]
  unfolding proposer_ok_def proposer_inv_def sent_ok_def promises_ok_def by auto

lemma ask_ok:
  assumes ok: "proposer_ok R K i u p" and nl: "\<not> leader p" and S: "promises_received p = Some S"
    "card S = prop_quorum p" and v: "proposed_value p \<noteq> None" and D: "D \<noteq> {}"
  shows "proposer_ok R (K \<union> post u D (WAccept i (proposal_id p) (proposed_value p))) i u
           (p\<lparr>leader := True, current_accept_msg := m\<rparr>)"
proof -
  let ?w = "WAccept i (proposal_id p) (proposed_value p)"
  let ?K = "K \<union> post u D ?w" and ?p = "p\<lparr>leader := True, current_accept_msg := m\<rparr>"
  have same: "voted ?K = voted K" "promised ?K = promised K"
    by (auto simp: voted_def promised_def post_iff fun_eq_iff)
  have ask: "asked ?K i u = (\<lambda>c w. asked K i u c w \<or> (c = proposal_id p \<and> w = proposed_value p))"
    by (auto simp: asked_post[OF D] fun_eq_iff)
  have "sent_ok (asked K i u) p" using ok by (simp add: proposer_ok_def)
  then have "sent_ok (asked ?K i u) ?p"
    unfolding ask by (rule sent_ok_emit) (simp_all add: nl v)
  moreover have "proposer_inv ?p"
    using ok S by (auto simp: proposer_ok_def proposer_inv_def)
  moreover have "\<forall>j b v. asked ?K j u b v \<longrightarrow> j \<le> i"
    using ok by (auto simp: proposer_ok_def asked_post[OF D])
  moreover have "promises_ok ?K i ?p"
    using ok by (simp add: proposer_ok_def promises_ok_def same)
  ultimately show ?thesis using ok by (simp add: proposer_ok_def)
qed

lemma promise_step:
  assumes ok: "proposer_ok R K i u p" and inv: "packets_inv ps R K" and q: "prop_quorum p = quorum_of ps"
    and pr: "promised K i f b la lv"
  shows "(\<exists>p'. receive_promise f b la lv p = (p', Ret None) \<and> proposer_ok R K i u p') \<or>
     (\<exists>p' v. receive_promise f b la lv p = (p', Ret (Some (Accept u b v))) \<and>
        uid_of b = u \<and> v \<in> Some ` set R \<and> justified ps K i b v \<and> (\<forall>w. \<not> asked K i u b w) \<and>
        (\<forall>D. D \<noteq> {} \<longrightarrow> proposer_ok R (K \<union> post u D (WAccept i b v)) i u p'))"
    (is "?quiet \<or> ?ask")
proof -
  have obs: "proposer_ok R K i u (observe_proposal (Some b) p)" by (rule observe_ok[OF ok])
  consider (other) "leader p \<or> b \<noteq> proposal_id p"
    | (none) "\<not> leader p" "b = proposal_id p" "promises_received p = None"
    | (dup) S where "\<not> leader p" "b = proposal_id p" "promises_received p = Some S" "f \<in> S"
    | (new) S where "\<not> leader p" "b = proposal_id p" "promises_received p = Some S" "f \<notin> S"
    by (cases "promises_received p") auto
  then show ?thesis
  proof cases
    case other
    then show ?thesis using obs by (auto simp: receive_promise_eq)
  next
    case none
    then have "number b < 1" using ok by (simp add: proposer_ok_def promises_ok_def)
    moreover have "1 \<le> number b" by (rule promised_facts(1)[OF inv pr])
    ultimately show ?thesis by simp
  next
    case dup
    then show ?thesis using obs by (auto simp: receive_promise_eq)
  next
    case new
    let ?p = "recorded f S la lv p"
    have r: "proposer_ok R K i u ?p"
      using recorded_ok[OF ok inv new(1,3), of f la lv] pr new(2) by simp
    have fields: "promises_received ?p = Some (insert f S)" "proposal_id ?p = proposal_id p"
      "prop_uid ?p = prop_uid p" "leader ?p = leader p" "prop_quorum ?p = prop_quorum p"
      by (simp_all add: recorded_def)
    have nl: "\<not> leader ?p" using new fields by simp
    show ?thesis
    proof (cases "card (insert f S) = prop_quorum p")
      case False
      then have ?quiet using new r by (simp add: receive_promise_eq Let_def)
      then show ?thesis ..
    next
      case card: True
      then have S: "promises_received ?p = Some (insert f S)" "card (insert f S) = prop_quorum ?p"
        using fields by simp_all
      show ?thesis
      proof (cases "proposed_value ?p = None")
        case True
        then have ?quiet
          using new card lead_ok[OF r nl S] by (simp add: receive_promise_eq Let_def)
        then show ?thesis ..
      next
        case False
        let ?v = "proposed_value ?p"
        have u: "prop_uid p = u" "uid_of b = u"
          using ok new(2) by (simp_all add: proposer_ok_def proposer_inv_def)
        have "\<forall>w. \<not> asked K i u b w"
          using ok new sent_ok_no_current unfolding proposer_ok_def by blast
        moreover have "?v \<in> Some ` set R" using r False by (simp add: proposer_ok_def)
        moreover have "justified ps K i b ?v"
          using recorded_justified[OF r inv S(1)] S(2) q fields new(2) by simp
        moreover have "\<forall>D. D \<noteq> {} \<longrightarrow> proposer_ok R (K \<union> post u D (WAccept i b ?v)) i u
            (?p\<lparr>leader := True, current_accept_msg := Some (Accept u b ?v)\<rparr>)"
          using ask_ok[OF r nl S False] fields new(2) by simp
        moreover have "receive_promise f b la lv p =
            (?p\<lparr>leader := True, current_accept_msg := Some (Accept u b ?v)\<rparr>, Ret (Some (Accept u b ?v)))"
          using new card False u by (simp add: receive_promise_eq Let_def)
        ultimately show ?thesis using u(2) by blast
      qed
    qed
  qed
qed

subsection \<open>The learner\<close>

lemma votes_agree:
  assumes inv: "packets_inv ps R K" and v: "voted K i a b v" "voted K i c b w"
  shows "v = w"
proof -
  obtain x y where "asked K i x b v" "asked K i y b w"
    using voted_asked[OF inv v(1)] voted_asked[OF inv v(2)] by blast
  then show ?thesis by (rule asked_facts(3)[OF inv])
qed

lemma accepted_step:
  assumes ok: "learner_ok K i l" and inv: "packets_inv ps R K" and q: "learn_quorum l = quorum_of ps"
    and v: "voted K i f b v"
  shows "(\<exists>l'. receive_accepted f b v l = (l', Ret None) \<and> learner_ok K i l') \<or>
     (\<exists>l'. receive_accepted f b v l = (l', Ret (Some (Resolution (learn_uid l) v))) \<and>
        chosen ps K i v)"
proof -
  obtain accs where a: "acceptors l = Some accs" and li: "learner_inv (voted K i) l"
    using ok by (auto simp: learner_ok_def)
  have agree: "\<forall>w v'. voted K i w b v' \<longrightarrow> v' = v" using votes_agree[OF inv] v by blast
  from receive_accepted_open[where V = "voted K i", OF li a v agree]
  consider (more) l' where "receive_accepted f b v l = (l', Ret None)" "learner_inv (voted K i) l'"
      "acceptors l' \<noteq> None"
    | (fin) l' Q where "receive_accepted f b v l = (l', Ret (Some (Resolution (learn_uid l) v)))"
      "finite Q" "card Q = learn_quorum l" "\<forall>w\<in>Q. voted K i w b v"
    by blast
  then show ?thesis
  proof cases
    case more
    then show ?thesis by (simp add: learner_ok_def)
  next
    case fin
    have "Q \<subseteq> set ps" using fin(4) sender_peer[OF inv] unfolding voted_def by blast
    moreover have "quorum_of ps \<le> card Q" using fin(3) q by simp
    ultimately have "chosen ps K i v" using fin(4) unfolding chosen_def by blast
    then show ?thesis using fin(1) by blast
  qed
qed

end
