(* ===== verification/Handler_Steps.thy ===== *)
theory Handler_Steps
  imports Role_Steps
begin

section \<open>The handlers of a node against the network\<close>

text \<open>
  \<open>step_ok\<close>: after an operation that left \<open>n\<close>, its outbox can go on the wire, and both
  halves of the invariant hold again.
\<close>

definition posted :: "uid \<Rightarrow> 'v node \<Rightarrow> 'v packet set" where
  "posted u n = (\<lambda>(d, w). (u, d, w)) ` set (outbox n)"

definition step_ok :: "uid list \<Rightarrow> 'v list \<Rightarrow> 'v packet set \<Rightarrow> uid \<Rightarrow> 'v node \<Rightarrow> bool" where
  "step_ok ps R K u n \<longleftrightarrow>
     packets_inv ps R (K \<union> posted u n) \<and> node_inv ps R (K \<union> posted u n) u n"

lemma posted_none: "outbox n = [] \<Longrightarrow> posted u n = {}"
  by (simp add: posted_def)

lemma posted_map: "outbox n = map (\<lambda>d. (d, w)) ds \<Longrightarrow> posted u n = post u (set ds) w"
  by (auto simp: posted_def post_def)

lemma node_inv_cong:
  assumes "voted K' = voted K" "asked K' = asked K" "promised K' = promised K"
  shows "node_inv ps R K' u n = node_inv ps R K u n"
proof -
  have "chosen ps K' = chosen ps K" by (simp add: chosen_def assms fun_eq_iff)
  moreover have "retransmit_ok K' i u t = retransmit_ok K i u t" for i t
    by (cases "(K, i, u, t)" rule: retransmit_ok.cases) (simp_all add: assms)
  ultimately show ?thesis
    by (simp add: node_inv_def acceptor_ok_def proposer_ok_def promises_ok_def learner_ok_def
        chain_ok_def assms)
qed

lemma step_quiet:
  assumes "packets_inv ps R K" "node_inv ps R K u n" "outbox n = []"
  shows "step_ok ps R K u n"
  using assms by (simp add: step_ok_def posted_none)

lemma step_plain:
  assumes "packets_inv ps R K" "u \<in> set ps" "node_inv ps R K u n"
    "outbox n = map (\<lambda>d. (d, w)) ds" "plain_packet w"
  shows "step_ok ps R K u n"
  using assms packets_inv_plain[of ps R K u "set ds" w]
    node_inv_cong[OF plain_frame(1,2,3)[OF assms(5)], where K = K and n = n]
  by (simp add: step_ok_def posted_map[OF assms(4)])

lemma step_catchup:
  assumes "packets_inv ps R K" "u \<in> set ps" "node_inv ps R K u n"
    "outbox n = [(f, WCatchup i v)]" "0 < i" "chosen ps K (i - 1) v"
  shows "step_ok ps R K u n"
proof -
  let ?K = "K \<union> post u {f} (WCatchup i v)"
  have p: "posted u n = post u {f} (WCatchup i v)"
    using posted_map[of n "WCatchup i v" "[f]"] assms(4) by simp
  have same: "voted ?K = voted K" "asked ?K = asked K" "promised ?K = promised K"
    by (auto simp: voted_def asked_def promised_def post_iff fun_eq_iff)
  have "packets_inv ps R ?K" using assms by (intro packets_inv_catchup) simp_all
  moreover have "node_inv ps R ?K u n" unfolding node_inv_cong[OF same] by (rule assms(3))
  ultimately show ?thesis by (simp add: step_ok_def p)
qed

text \<open>Sending an Accept message again that was sent before.\<close>

lemma step_resend:
  assumes inv: "packets_inv ps R K" and u: "u \<in> set ps" and n: "node_inv ps R K u n"
    and out: "outbox n = map (\<lambda>d. (d, WAccept i b v)) ps" and a: "asked K i u b v"
  shows "step_ok ps R K u n"
proof -
  let ?K = "K \<union> post u (set ps) (WAccept i b v)"
  have D: "set ps \<noteq> {}" using u by auto
  have "asked ?K j x c y = asked K j x c y" for j x c y
    using a by (auto simp: asked_post[OF D])
  then have same: "voted ?K = voted K" "asked ?K = asked K" "promised ?K = promised K"
    by (auto simp: voted_def promised_def post_iff fun_eq_iff)
  have "justified ps K i b v" using inv a by (auto simp: packets_inv_def wire_justified_def)
  then have "packets_inv ps R ?K"
    using asked_facts(1,2)[OF inv a] asked_facts(3)[OF inv _ a]
    by (intro packets_inv_ask[OF inv u _ D]) simp_all
  moreover have "node_inv ps R ?K u n" unfolding node_inv_cong[OF same] by (rule n)
  ultimately show ?thesis by (simp add: step_ok_def posted_map[OF out])
qed

subsection \<open>Fields and timers\<close>

text \<open>Only the fields below matter to the invariant of a node.\<close>

lemma node_inv_fields:
  assumes "node_inv ps R K u n" "network_uid n' = network_uid n" "peers n' = peers n"
    "quorum_size n' = quorum_size n" "instance_number n' = instance_number n"
    "current_value n' = current_value n" "paxos_of n' = paxos_of n"
    "retransmit_ok K (instance_number n) u (retransmit_task n')"
  shows "node_inv ps R K u n'"
  using assms by (simp add: node_inv_def ids_ok_def)

lemma node_inv_proposer:
  assumes "node_inv ps R K u n" "proposer_ok R K (instance_number n) u (proposer_of x)"
    "prop_quorum (proposer_of x) = quorum_of ps" "acceptor_of x = acceptor_of (paxos_of n)"
    "learner_of x = learner_of (paxos_of n)"
  shows "node_inv ps R K u (n\<lparr>paxos_of := x\<rparr>)"
  using assms by (simp add: node_inv_def ids_ok_def)

lemma stop_driving_inv: "node_inv ps R K u n \<Longrightarrow> node_inv ps R K u (stop_driving n)"
  by (rule node_inv_fields) (simp_all add: stop_driving_def)

lemma node_invD:
  assumes "node_inv ps R K u n"
  shows "network_uid n = u" "peers n = ps" "quorum_size n = quorum_of ps"
    "prop_uid (proposer_of (paxos_of n)) = u"
    "prop_quorum (proposer_of (paxos_of n)) = quorum_of ps"
    "acc_uid (acceptor_of (paxos_of n)) = u" "learn_uid (learner_of (paxos_of n)) = u"
    "learn_quorum (learner_of (paxos_of n)) = quorum_of ps"
    "acceptor_ok K (instance_number n) u (acceptor_of (paxos_of n))"
    "proposer_ok R K (instance_number n) u (proposer_of (paxos_of n))"
    "learner_ok K (instance_number n) (learner_of (paxos_of n))"
    "retransmit_ok K (instance_number n) u (retransmit_task n)"
    "chain_ok ps K (instance_number n) (current_value n)"
  using assms by (simp_all add: node_inv_def ids_ok_def proposer_ok_def)

lemma drive_eq:
  "drive_to_resolution n =
     (let x = fst (paxos_prepare (paxos_of n)); b = proposal_id (proposer_of x) in
      n\<lparr>paxos_of := x, delayed_drive := None, retransmit_task := Some (RetransmitPrepare b),
        outbox := outbox n @ map (\<lambda>d. (d, WPrepare (instance_number n) b)) (peers n)\<rparr>)"
  by (simp add: drive_to_resolution_def stop_driving_def sending Let_def split_beta frame_simps)

lemma drive_step:
  assumes inv: "packets_inv ps R K" and u: "u \<in> set ps" and n: "node_inv ps R K u n"
    and out: "outbox n = []"
  shows "step_ok ps R K u (drive_to_resolution n)"
proof -
  let ?x = "fst (paxos_prepare (paxos_of n))"
  let ?b = "proposal_id (proposer_of ?x)"
  have ok: "proposer_ok R K (instance_number n) u (proposer_of ?x)" and b: "1 \<le> number ?b"
    using prepare_ok[OF node_invD(10)[OF n]] by simp_all
  have x: "node_inv ps R K u (n\<lparr>paxos_of := ?x\<rparr>)"
    using n ok node_invD(5)[OF n] by (intro node_inv_proposer) (simp_all add: frame_simps)
  have "node_inv ps R K u (drive_to_resolution n)"
    by (rule node_inv_fields[OF x]) (use b in \<open>simp_all add: drive_eq Let_def\<close>)
  then show ?thesis
    by (rule step_plain[OF inv u, where w = "WPrepare (instance_number n) ?b" and ds = ps])
       (use b out node_invD(2)[OF n] in \<open>simp_all add: drive_eq Let_def\<close>)
qed

lemma propose_step:
  assumes inv: "packets_inv ps R K" and u: "u \<in> set ps" and n: "node_inv ps R K u n"
    and out: "outbox n = []" and v: "v \<in> set R"
  shows "step_ok ps R K u (propose_update (Some v) n)"
proof -
  have "node_inv ps R K u (base_propose_update (Some v) n)"
  proof (cases "proposed_value (proposer_of (paxos_of n)) = None")
    case True
    have "node_inv ps R K u (n\<lparr>paxos_of := fst (paxos_propose_value (Some v) (paxos_of n))\<rparr>)"
      using n propose_ok[OF node_invD(10)[OF n] inv v] node_invD(5)[OF n]
      by (intro node_inv_proposer) (simp_all add: frame_simps)
    then show ?thesis using True by (simp add: base_propose_update_def)
  qed (use n in \<open>auto simp: base_propose_update_def\<close>)
  moreover have "outbox (base_propose_update (Some v) n) = []"
    using out by (simp add: base_propose_update_def)
  ultimately show ?thesis
    unfolding propose_update_def using drive_step[OF inv u] by blast
qed

lemma retransmit_step:
  assumes inv: "packets_inv ps R K" and u: "u \<in> set ps" and n: "node_inv ps R K u n"
    and out: "outbox n = []"
  shows "step_ok ps R K u (fire_retransmit n)"
proof -
  have keep: "node_inv ps R K u (fire_retransmit n)"
    using node_invD(12)[OF n]
    by (intro node_inv_fields[OF n])
       (auto simp: fire_retransmit_def sending split: option.split retransmit.split)
  have peers: "peers n = ps" using n by (rule node_invD)
  have t: "retransmit_ok K (instance_number n) u (retransmit_task n)" using n by (rule node_invD)
  consider (none) "retransmit_task n = None"
    | (prep) b where "retransmit_task n = Some (RetransmitPrepare b)"
    | (acc) b v where "retransmit_task n = Some (RetransmitAccept b v)"
    by (metis option.exhaust retransmit.exhaust)
  then show ?thesis
  proof cases
    case none
    then show ?thesis using keep inv out by (intro step_quiet) (simp_all add: fire_retransmit_def)
  next
    case prep
    show ?thesis
      by (rule step_plain[OF inv u keep, where w = "WPrepare (instance_number n) b" and ds = ps])
         (use prep t out peers in \<open>simp_all add: fire_retransmit_def sending\<close>)
  next
    case acc
    show ?thesis
      by (rule step_resend[OF inv u keep, where i = "instance_number n" and b = b and v = v])
         (use acc t out peers in \<open>simp_all add: fire_retransmit_def sending\<close>)
  qed
qed

subsection \<open>Advancing to a new instance\<close>

lemma advance_eq:
  "advance_instance i cur n =
     n\<lparr>instance_number := i, current_value := cur, rv_promised_id := None, rv_accepted_id := None,
       rv_accepted_value := None,
       state_file := Some \<lparr>file_instance_number = i, file_promised_id = None,
         file_accepted_id = None, file_accepted_value = None, file_current_value = cur\<rparr>,
       paxos_of := init_paxos (network_uid n) (quorum_size n) None None None,
       updates := updates n @ [cur], retransmit_task := None, delayed_drive := None,
       backoff_window := backoff_initial\<rparr>"
  by (simp add: advance_instance_def base_advance_instance_def save_state_def stop_driving_def Let_def)

lemma advance_step:
  assumes inv: "packets_inv ps R K" and n: "node_inv ps R K u n" and out: "outbox n = []"
    and i: "instance_number n < i" and ch: "0 < i" "chosen ps K (i - 1) v"
  shows "step_ok ps R K u (advance_instance i v n)"
proof (rule step_quiet[OF inv])
  show "outbox (advance_instance i v n) = []" using out by (simp add: advance_eq)
  note f = fresh_instance[OF node_invD(9,10)[OF n] i]
  show "node_inv ps R K u (advance_instance i v n)"
    using f(1) f(2)[of "quorum_of ps"] init_learner_ok[of K i u ps] ch node_invD(1,2,3)[OF n]
    unfolding node_inv_def ids_ok_def advance_eq chain_ok_def init_paxos_def
    by (simp add: init_proposer_def init_acceptor_def init_learner_def)
qed

subsection \<open>Messages\<close>

lemma nack_step:
  assumes inv: "packets_inv ps R K" and n: "node_inv ps R K u n" and out: "outbox n = []"
  shows "step_ok ps R K u (driven_receive_nack rnd f i b x n)"
proof (cases "i = instance_number n")
  case True
  have "node_inv ps R K u (n\<lparr>paxos_of := fst (paxos_receive_nack f b x (paxos_of n))\<rparr>)"
    using n nack_ok[OF node_invD(10)[OF n]] node_invD(5)[OF n]
    by (intro node_inv_proposer) (simp_all add: frame_simps)
  then have "node_inv ps R K u (driven_receive_nack rnd f i b x n)"
    by (rule node_inv_fields)
       (simp_all add: True driven_receive_nack_def base_receive_nack_def stop_driving_def
         reschedule_next_drive_attempt_def Let_def)
  then show ?thesis
    using inv out
    by (intro step_quiet)
       (simp_all add: driven_receive_nack_def base_receive_nack_def stop_driving_def
         reschedule_next_drive_attempt_def Let_def)
qed (use assms in \<open>simp add: driven_receive_nack_def step_quiet\<close>)

lemma observed_parts:
  assumes n: "node_inv ps R K u n" and p: "proposer_of x = observe_proposal (Some b) (proposer_of (paxos_of n))"
  shows "proposer_ok R K (instance_number n) u (proposer_of x)"
    "prop_quorum (proposer_of x) = quorum_of ps"
  using observe_ok[OF node_invD(10)[OF n]] node_invD(5)[OF n] by (simp_all add: p)

lemma receive_prepare_eq:
  assumes "i = instance_number n"
  shows "base_receive_prepare f i b n =
     (let a = acceptor_of (paxos_of n);
          x = (paxos_of n)\<lparr>proposer_of := observe_proposal (Some b) (proposer_of (paxos_of n))\<rparr> in
      if promised_id a \<le> Some b then
        send_to f (WPromise i b (accepted_id a) (accepted_value a))
          (save_state i (current_value n) (Some b) (accepted_id a) (accepted_value a)
             (n\<lparr>paxos_of := x\<lparr>acceptor_of := a\<lparr>promised_id := Some b\<rparr>\<rparr>\<rparr>))
      else send_to f (WNack i b (rv_promised_id n)) (n\<lparr>paxos_of := x\<rparr>))"
proof -
  have "acceptor_of (paxos_of n) = a \<Longrightarrow> (paxos_of n)\<lparr>proposer_of := p, acceptor_of := a\<rparr> = (paxos_of n)\<lparr>proposer_of := p\<rparr>" for a p
    by (cases "paxos_of n") simp
  then show ?thesis
    using assms by (simp add: base_receive_prepare_def paxos_receive_prepare_def
        acceptor_receive_prepare_def save_state_def Let_def)
qed

lemma prepare_step:
  assumes inv: "packets_inv ps R K" and u: "u \<in> set ps" and n: "node_inv ps R K u n"
    and out: "outbox n = []" and b: "1 \<le> number b"
  shows "step_ok ps R K u (base_receive_prepare f i b n)"
proof (cases "i = instance_number n")
  case i: True
  let ?a = "acceptor_of (paxos_of n)"
  let ?x = "(paxos_of n)\<lparr>proposer_of := observe_proposal (Some b) (proposer_of (paxos_of n))\<rparr>"
  let ?n = "base_receive_prepare f i b n"
  have obs: "node_inv ps R K u (n\<lparr>paxos_of := ?x\<rparr>)"
    using n observed_parts[OF n, of ?x b] by (intro node_inv_proposer) simp_all
  show ?thesis
  proof (cases "promised_id ?a \<le> Some b")
    case True
    let ?w = "WPromise i b (accepted_id ?a) (accepted_value ?a)"
    let ?K = "K \<union> post u {f} ?w"
    have p: "posted u ?n = post u {f} ?w"
      using posted_map[of ?n ?w "[f]"] out
      by (simp add: receive_prepare_eq[OF i] True send_to_def save_state_def Let_def)
    note st = acceptor_promise_step[OF node_invD(9)[OF n] True, of "{f}", folded i]
    have "packets_inv ps R ?K"
      using st(1) b by (intro packets_inv_promise[OF inv u]) simp_all
    moreover have "node_inv ps R ?K u ?n"
    proof -
      have K: "K \<subseteq> ?K" by simp
      have "asked ?K = asked K" by (auto simp: asked_def post_iff fun_eq_iff)
      then have "proposer_ok R ?K i u (proposer_of ?x)"
        using proposer_ok_mono[OF observed_parts(1)[OF n, of ?x b] K, of R] by (simp add: i)
      then show ?thesis
        using st(2) node_invD(1-8)[OF n] node_invD(11-13)[OF n]
          learner_ok_mono[OF _ K] retransmit_ok_mono[OF _ K] chain_ok_mono[OF _ K]
        unfolding node_inv_def ids_ok_def receive_prepare_eq[OF i]
        by (simp add: True send_to_def save_state_def Let_def i)
    qed
    ultimately show ?thesis by (simp add: step_ok_def p)
  next
    case False
    have "node_inv ps R K u ?n"
      by (rule node_inv_fields[OF obs])
         (use node_invD(12)[OF n] in \<open>simp_all add: receive_prepare_eq[OF i] False send_to_def Let_def\<close>)
    then show ?thesis
      by (rule step_plain[OF inv u, where w = "WNack i b (rv_promised_id n)" and ds = "[f]"])
         (use out in \<open>simp_all add: receive_prepare_eq[OF i] False send_to_def Let_def\<close>)
  qed
qed (use assms in \<open>simp add: base_receive_prepare_def step_quiet\<close>)

lemma receive_accept_eq:
  assumes "i = instance_number n"
  shows "receive_accept f i b v n =
     (let a = acceptor_of (paxos_of n);
          x = (paxos_of n)\<lparr>proposer_of := observe_proposal (Some b) (proposer_of (paxos_of n))\<rparr> in
      if promised_id a \<le> Some b then
        send_to_peers (WAccepted i b v)
          (save_state i (current_value n) (rv_promised_id n) (Some b) v
             (n\<lparr>paxos_of := x\<lparr>acceptor_of := a\<lparr>promised_id := Some b, accepted_id := Some b,
                                                 accepted_value := v\<rparr>\<rparr>,
                delayed_drive := Some (of_int drive_silence_timeout / 1000)\<rparr>))
      else send_to f (WNack i b (rv_promised_id n))
             (n\<lparr>paxos_of := x, delayed_drive := Some (of_int drive_silence_timeout / 1000)\<rparr>))"
proof -
  have "acceptor_of (paxos_of n) = a \<Longrightarrow> (paxos_of n)\<lparr>proposer_of := p, acceptor_of := a\<rparr> = (paxos_of n)\<lparr>proposer_of := p\<rparr>" for a p
    by (cases "paxos_of n") simp
  then show ?thesis
    using assms by (simp add: receive_accept_def base_receive_accept_def paxos_receive_accept_def
        acceptor_receive_accept_def save_state_def reschedule_next_drive_attempt_def sending Let_def)
qed

lemma accept_step:
  assumes inv: "packets_inv ps R K" and u: "u \<in> set ps" and n: "node_inv ps R K u n"
    and out: "outbox n = []" and a: "asked K i w b v"
  shows "step_ok ps R K u (receive_accept f i b v n)"
proof (cases "i = instance_number n")
  case i: True
  let ?a = "acceptor_of (paxos_of n)"
  let ?x = "(paxos_of n)\<lparr>proposer_of := observe_proposal (Some b) (proposer_of (paxos_of n))\<rparr>"
  let ?n = "receive_accept f i b v n"
  have obs: "node_inv ps R K u (n\<lparr>paxos_of := ?x\<rparr>)"
    using n observed_parts[OF n, of ?x b] by (intro node_inv_proposer) simp_all
  have D: "set ps \<noteq> {}" using u by auto
  show ?thesis
  proof (cases "promised_id ?a \<le> Some b")
    case True
    let ?w = "WAccepted i b v"
    let ?K = "K \<union> post u (set ps) ?w"
    have p: "posted u ?n = post u (set ps) ?w"
      using posted_map[of ?n ?w ps] out node_invD(2)[OF n]
      by (simp add: receive_accept_eq[OF i] True sending save_state_def Let_def)
    note st = acceptor_vote_step[OF node_invD(9)[OF n] True D, folded i]
    have "packets_inv ps R ?K"
      by (rule packets_inv_vote[OF inv u _ D a]) (use st(1) in auto)
    moreover have "node_inv ps R ?K u ?n"
    proof -
      have K: "K \<subseteq> ?K" by simp
      have "asked ?K = asked K" by (auto simp: asked_def post_iff fun_eq_iff)
      then have "proposer_ok R ?K i u (proposer_of ?x)"
        using proposer_ok_mono[OF observed_parts(1)[OF n, of ?x b] K, of R] by (simp add: i)
      then show ?thesis
        using st(2)[of v] node_invD(1-8)[OF n] node_invD(11-13)[OF n]
          learner_ok_mono[OF _ K] retransmit_ok_mono[OF _ K] chain_ok_mono[OF _ K]
        unfolding node_inv_def ids_ok_def receive_accept_eq[OF i]
        by (simp add: True sending save_state_def Let_def i)
    qed
    ultimately show ?thesis by (simp add: step_ok_def p)
  next
    case False
    have "node_inv ps R K u ?n"
      by (rule node_inv_fields[OF obs])
         (use node_invD(12)[OF n] in \<open>simp_all add: receive_accept_eq[OF i] False send_to_def Let_def\<close>)
    then show ?thesis
      by (rule step_plain[OF inv u, where w = "WNack i b (rv_promised_id n)" and ds = "[f]"])
         (use out in \<open>simp_all add: receive_accept_eq[OF i] False send_to_def Let_def\<close>)
  qed
qed (use assms in \<open>simp add: receive_accept_def step_quiet\<close>)

lemma promised_step:
  assumes inv: "packets_inv ps R K" and u: "u \<in> set ps" and n: "node_inv ps R K u n"
    and out: "outbox n = []" and pr: "promised K i f b la lv"
  shows "step_ok ps R K u (fst (base_receive_promise send_accept f i b la lv n))"
    "\<not> raises (snd (base_receive_promise send_accept f i b la lv n))"
proof -
  have "step_ok ps R K u (fst (base_receive_promise send_accept f i b la lv n)) \<and>
    \<not> raises (snd (base_receive_promise send_accept f i b la lv n))"
  proof (cases "i = instance_number n")
    case i: True
    let ?p = "proposer_of (paxos_of n)"
    let ?r = "base_receive_promise send_accept f i b la lv n"
    have D: "set ps \<noteq> {}" using u by auto
    have upd: "paxos_receive_promise f b la lv (paxos_of n) =
        ((paxos_of n)\<lparr>proposer_of := p'\<rparr>, r)" if "receive_promise f b la lv ?p = (p', r)" for p' r
      using that by (simp add: paxos_receive_promise_def)
    have pq: "prop_quorum p' = quorum_of ps" if "receive_promise f b la lv ?p = (p', r)" for p' r
      using proposer_frame(8)[of f b la lv ?p] node_invD(5)[OF n] that by simp
    from promise_step[OF node_invD(10)[OF n] inv node_invD(5)[OF n]
        pr[unfolded i]]
    consider (quiet) p' where "receive_promise f b la lv ?p = (p', Ret None)"
        "proposer_ok R K i u p'"
      | (ask) p' v where "receive_promise f b la lv ?p = (p', Ret (Some (Accept u b v)))"
        "uid_of b = u" "v \<in> Some ` set R" "justified ps K i b v" "\<forall>w. \<not> asked K i u b w"
        "\<forall>D. D \<noteq> {} \<longrightarrow> proposer_ok R (K \<union> post u D (WAccept i b v)) i u p'"
      unfolding i by blast
    then show ?thesis
    proof cases
      case quiet
      have "node_inv ps R K u (n\<lparr>paxos_of := (paxos_of n)\<lparr>proposer_of := p'\<rparr>\<rparr>)"
        using n quiet(2) pq[OF quiet(1)] i by (intro node_inv_proposer) simp_all
      then show ?thesis
        using step_quiet[OF inv] out upd[OF quiet(1)] i by (simp add: base_receive_promise_def)
    next
      case ask
      let ?w = "WAccept i b v"
      let ?K = "K \<union> post u (set ps) ?w"
      let ?n = "n\<lparr>paxos_of := (paxos_of n)\<lparr>proposer_of := p'\<rparr>,
        retransmit_task := Some (RetransmitAccept b v), outbox := map (\<lambda>d. (d, ?w)) ps\<rparr>"
      have r: "?r = (?n, Ret ())"
        using upd[OF ask(1)] i out node_invD(2)[OF n]
        by (simp add: base_receive_promise_def send_accept_def sending)
      have p: "posted u ?n = post u (set ps) ?w" by (rule posted_map) simp
      have "packets_inv ps R ?K"
        by (rule packets_inv_ask[OF inv u _ D]) (use ask in auto)
      moreover have "node_inv ps R ?K u ?n"
      proof -
        have K: "K \<subseteq> ?K" by simp
        have same: "voted ?K = voted K" "promised ?K = promised K"
          by (auto simp: voted_def promised_def post_iff fun_eq_iff)
        have "asked ?K i u b v" by (simp add: asked_post[OF D])
        moreover have "proposer_ok R ?K i u p'" using ask(6) D by blast
        ultimately show ?thesis
          using node_invD(1-8)[OF n] pq[OF ask(1)] acceptor_ok_plain[OF node_invD(9)[OF n] same]
            learner_ok_mono[OF node_invD(11)[OF n] K] chain_ok_mono[OF node_invD(13)[OF n] K]
          unfolding node_inv_def ids_ok_def by (simp add: i)
      qed
      ultimately show ?thesis by (simp add: step_ok_def p r)
    qed
  qed (use assms in \<open>simp add: base_receive_promise_def step_quiet\<close>)
  then show "step_ok ps R K u (fst (base_receive_promise send_accept f i b la lv n))"
    "\<not> raises (snd (base_receive_promise send_accept f i b la lv n))" by blast+
qed

end
