(* ===== verification/Paxos_Agreement.thy ===== *)
theory Paxos_Agreement
  imports Handler_Steps
begin

section \<open>Agreement along the chain\<close>

subsection \<open>Every step keeps the invariant\<close>

lemma voted_step:
  assumes inv: "packets_inv ps R K" and n: "node_inv ps R K u n"
    and out: "outbox n = []" and v: "voted K i f b v"
  shows "step_ok ps R K u (fst (base_receive_accepted advance_instance f i b v n))"
    "\<not> raises (snd (base_receive_accepted advance_instance f i b v n))"
proof -
  let ?r = "base_receive_accepted advance_instance f i b v n"
  have "step_ok ps R K u (fst ?r) \<and> \<not> raises (snd ?r)"
  proof (cases "i = instance_number n")
    case i: True
    let ?l = "learner_of (paxos_of n)"
    have upd: "paxos_receive_accepted f b v (paxos_of n) = ((paxos_of n)\<lparr>learner_of := l'\<rparr>, r)"
      if "receive_accepted f b v ?l = (l', r)" for l' r
      using that by (simp add: paxos_receive_accepted_def)
    from accepted_step[OF node_invD(11)[OF n] inv node_invD(8)[OF n] v[unfolded i]]
    consider (more) l' where "receive_accepted f b v ?l = (l', Ret None)" "learner_ok K i l'"
      | (resolved) l' where "receive_accepted f b v ?l = (l', Ret (Some (Resolution (learn_uid ?l) v)))"
        "chosen ps K i v"
      unfolding i by blast
    then show ?thesis
    proof cases
      case more
      have "learn_uid l' = learn_uid ?l" "learn_quorum l' = learn_quorum ?l"
        using receive_accepted_frame[of f b v ?l] more(1) by simp_all
      then have "node_inv ps R K u (n\<lparr>paxos_of := (paxos_of n)\<lparr>learner_of := l'\<rparr>\<rparr>)"
        using node_invD[OF n] more(2) i unfolding node_inv_def ids_ok_def by simp
      then show ?thesis
        using step_quiet[OF inv] out upd[OF more(1)] i by (simp add: base_receive_accepted_def)
    next
      case resolved
      let ?n = "n\<lparr>paxos_of := (paxos_of n)\<lparr>learner_of := l'\<rparr>\<rparr>"
      have "advance_instance (i + 1) v ?n = advance_instance (i + 1) v n"
        by (simp add: advance_eq)
      moreover have "0 \<le> i"
        using node_invD(13)[OF n] by (auto simp: chain_ok_def i)
      then have "step_ok ps R K u (advance_instance (i + 1) v n)"
        using resolved(2) i by (intro advance_step[OF inv n out]) simp_all
      ultimately show ?thesis
        using upd[OF resolved(1)] i by (simp add: base_receive_accepted_def)
    qed
  qed (use assms in \<open>simp add: base_receive_accepted_def step_quiet\<close>)
  then show "step_ok ps R K u (fst ?r)" "\<not> raises (snd ?r)" by blast+
qed

lemma sync_request_step:
  assumes inv: "packets_inv ps R K" and u: "u \<in> set ps" and n: "node_inv ps R K u n"
    and out: "outbox n = []"
  shows "0 \<le> i \<Longrightarrow> step_ok ps R K u (receive_sync_request f i n)"
    "step_ok ps R K u (send_sync p n)"
proof -
  have keep: "node_inv ps R K u (send_to f w n)" for f w
    by (rule node_inv_fields[OF n]) (simp_all add: send_to_def node_invD(12)[OF n])
  have outs: "outbox (send_to f w n) = [(f, w)]" for f w using out by (simp add: send_to_def)
  show "step_ok ps R K u (send_sync p n)"
    unfolding send_sync_def
    by (rule step_plain[OF inv u keep, where ds = "[p]" and w = "WSyncRequest (instance_number n)"])
       (use node_invD(13)[OF n] in \<open>auto simp: outs chain_ok_def\<close>)
  assume i: "0 \<le> i"
  show "step_ok ps R K u (receive_sync_request f i n)"
  proof (cases "i < instance_number n")
    case True
    then have "0 < instance_number n" "chosen ps K (instance_number n - 1) (current_value n)"
      using i node_invD(13)[OF n] by (auto simp: chain_ok_def)
    then show ?thesis
      using True step_catchup[OF inv u keep outs] by (simp add: receive_sync_request_def)
  qed (use inv n out in \<open>simp add: receive_sync_request_def step_quiet\<close>)
qed

lemma catchup_step:
  assumes inv: "packets_inv ps R K" and n: "node_inv ps R K u n" and out: "outbox n = []"
    and c: "(f, d, WCatchup i v) \<in> K"
  shows "step_ok ps R K u (receive_catchup advance_instance g i v n)"
proof (cases "instance_number n < i")
  case True
  have "0 < i" "chosen ps K (i - 1) v" using inv c by (auto simp: packets_inv_def wire_catchups_def)
  then show ?thesis
    using True advance_step[OF inv n out] by (simp add: receive_catchup_def)
qed (use inv n out in \<open>simp add: receive_catchup_def step_quiet\<close>)

text \<open>Whatever an enabled event does at its node, its packets can go on the wire.\<close>

lemma node_step_ok:
  assumes inv: "packets_inv ps R K" and n: "node_inv ps R K u n" and out: "outbox n = []"
    and u: "u \<in> set ps" and vs: "set (event_values e) \<subseteq> set R"
    and src: "\<And>rnd f w. e = Receive rnd f w \<Longrightarrow> (f, u, w) \<in> K"
  shows "step_ok ps R K u (fst (node_step e n)) \<and> \<not> raises (snd (node_step e n))"
proof (cases e)
  case (Propose v)
  then show ?thesis using propose_step[OF inv u n out, of v] vs by simp
next
  case Retransmit
  then show ?thesis using retransmit_step[OF inv u n out] by simp
next
  case Drive
  have c: "node_inv ps R K u (n\<lparr>delayed_drive := None\<rparr>)"
    by (rule node_inv_fields[OF n]) (simp_all add: node_invD(12)[OF n])
  show ?thesis
    using Drive drive_step[OF inv u c] step_quiet[OF inv n out] out
    by (cases "delayed_drive n") (simp_all add: fire_delayed_drive_def)
next
  case (Sync p)
  then show ?thesis using sync_request_step(2)[OF inv u n out] by simp
next
  case (Receive rnd f w)
  with src have k: "(f, u, w) \<in> K" by blast
  show ?thesis
  proof (cases w)
    case (WPrepare i b)
    then have "1 \<le> number b" using inv k by (auto simp: packets_inv_def wire_prepares_def)
    then show ?thesis using Receive WPrepare prepare_step[OF inv u n out] by simp
  next
    case (WPromise i b la lv)
    then have "promised K i f b la lv" using k by (auto simp: promised_def)
    then show ?thesis using Receive WPromise promised_step[OF inv u n out] by simp
  next
    case (WNack i b x)
    then show ?thesis using Receive nack_step[OF inv n out] by simp
  next
    case (WAccept i b v)
    then have "asked K i f b v" using k by (auto simp: asked_def)
    then show ?thesis using Receive WAccept accept_step[OF inv u n out] by simp
  next
    case (WAccepted i b v)
    then have "voted K i f b v" using k by (auto simp: voted_def)
    then show ?thesis using Receive WAccepted voted_step[OF inv n out] by simp
  next
    case (WSyncRequest i)
    then have "0 \<le> i" using inv k by (auto simp: packets_inv_def wire_prepares_def)
    then show ?thesis using Receive WSyncRequest sync_request_step(1)[OF inv u n out] by simp
  next
    case (WCatchup i v)
    then show ?thesis using Receive catchup_step[OF inv n out] k by simp
  qed
qed

definition net_inv :: "uid list \<Rightarrow> 'v network \<Rightarrow> bool" where
  "net_inv ps s \<longleftrightarrow>
     packets_inv ps (requested s) (set (sent s)) \<and>
     (\<forall>u\<in>set ps. node_inv ps (requested s) (set (sent s)) u (node_at s u) \<and>
        outbox (node_at s u) = [])"

lemma init_net_inv: "net_inv ps (init_network ps)"
  using wire_empty[of ps]
  by (auto simp: net_inv_def init_network_def init_driven_def init_replicated_value_def
      load_state_def fresh_file_def node_inv_def ids_ok_def init_paxos_def
      replicated_value.defs driven.defs chain_ok_def Let_def
      acceptor_ok_def proposer_ok_def promises_ok_def init_proposer_def init_acceptor_def
      voted_def asked_def promised_def acceptor_inv_def proposer_inv_def sent_ok_def
      init_learner_def init_learner_ok[unfolded init_learner_def])

lemma net_inv_step:
  assumes inv: "net_inv ps s" and en: "enabled ps u e s"
  shows "net_inv ps (happens u e s)" "\<not> raises (snd (node_step e (node_at s u)))"
proof -
  let ?K = "set (sent s)" and ?R = "requested s @ event_values e" and ?n = "node_at s u"
  let ?n' = "fst (node_step e ?n)"
  have u: "u \<in> set ps" using en by (cases e) auto
  have sub: "set (requested s) \<subseteq> set ?R" by simp
  have p0: "packets_inv ps (requested s) ?K"
    and n0: "\<And>x. x \<in> set ps \<Longrightarrow> node_inv ps (requested s) ?K x (node_at s x)"
    and o0: "\<And>x. x \<in> set ps \<Longrightarrow> outbox (node_at s x) = []"
    using inv by (simp_all add: net_inv_def)
  have p: "packets_inv ps ?R ?K" by (rule packets_inv_values[OF p0 sub])
  have n: "node_inv ps ?R ?K x (node_at s x)" if "x \<in> set ps" for x
  proof -
    have "node_inv ps (requested s) ?K x (node_at s x)" by (rule n0[OF that])
    then show ?thesis
      unfolding node_inv_def using proposer_ok_mono[of "requested s" ?K _ x _ ?K ?R] by simp
  qed
  have "(f, u, w) \<in> ?K" if "e = Receive rnd f w" for rnd f w
    using en that by simp
  then have st: "step_ok ps ?R ?K u ?n' \<and> \<not> raises (snd (node_step e ?n))"
    using node_step_ok[OF p n[OF u] o0[OF u] u] by (metis le_sup_iff set_append subset_refl)
  then show "\<not> raises (snd (node_step e ?n))" ..
  let ?P = "posted u ?n'"
  have sent': "set (sent (happens u e s)) = ?K \<union> ?P"
    by (auto simp: happens_def Let_def posted_def)
  have R': "requested (happens u e s) = ?R" by (simp add: happens_def Let_def)
  have "packets_inv ps ?R (?K \<union> ?P)" using st by (simp add: step_ok_def)
  moreover have "node_inv ps ?R (?K \<union> ?P) x (node_at (happens u e s) x)
      \<and> outbox (node_at (happens u e s) x) = []" if x: "x \<in> set ps" for x
  proof (cases "x = u")
    case True
    have "node_inv ps ?R (?K \<union> ?P) u ?n'" using st by (simp add: step_ok_def)
    then have "node_inv ps ?R (?K \<union> ?P) u (?n'\<lparr>outbox := []\<rparr>)"
      by (rule node_inv_fields) (use \<open>node_inv ps ?R (?K \<union> ?P) u ?n'\<close> in \<open>auto dest: node_invD(12)\<close>)
    then show ?thesis using True by (simp add: happens_def Let_def)
  next
    case False
    have "node_inv ps ?R (?K \<union> ?P) x (node_at s x)"
      by (rule node_inv_foreign[OF n[OF x] False]) (auto simp: posted_def)
    then show ?thesis using False o0[OF x] by (simp add: happens_def Let_def)
  qed
  ultimately show "net_inv ps (happens u e s)"
    unfolding net_inv_def sent' R' by blast
qed

lemma reachable_inv: "reachable ps s \<Longrightarrow> net_inv ps s"
  by (induction rule: reachable_induct) (simp_all add: init_net_inv net_inv_step)

subsection \<open>The contract of \<open>ballot_history\<close> holds on the wire\<close>

interpretation wire: ballot_history "set ps" "quorum_of ps"
  "\<lambda>(R, K, i). packets_inv ps R K"
  "\<lambda>(R, K, i) b v. \<exists>u. asked K i u b v"
  "\<lambda>(R, K, i) a b la. \<exists>lv. promised K i a b la lv"
  "\<lambda>(R, K, i) a b v. voted K i a b v"
  for ps :: "uid list"
proof (unfold_locales, goal_cases)
  case (1 s)
  obtain R K i where s: "s = (R, K, i)" by (cases s)
  have "finite K" using 1 by (simp add: s packets_inv_def)
  moreover have "{b. \<exists>v u. asked K i u b v} \<subseteq>
      (\<lambda>(f, d, w). case w of WAccept j b v \<Rightarrow> b | _ \<Rightarrow> ProposalID 0 f) ` K"
    by (force simp: asked_def)
  ultimately show ?case by (simp add: s finite_subset[OF _ finite_imageI])
next
  case (2 s b v w)
  then obtain R K i x y where "packets_inv ps R K" "asked K i x b v" "asked K i y b w"
    by (cases s) auto
  then show ?case by (rule asked_facts(3))
next
  case (3 s a b v)
  then show ?case using voted_asked by (cases s) auto
next
  case (4 s a b la c v)
  then show ?case using promised_facts(2) by (cases s) (fastforce simp: promise_true_def)
next
  case (5 s b v)
  then obtain R K i u where s: "s = (R, K, i)" and inv: "packets_inv ps R K" and a: "asked K i u b v"
    by (cases s) auto
  have "justified ps K i b v" using inv a by (auto simp: packets_inv_def wire_justified_def)
  then obtain Q hi where Q: "Q \<subseteq> set ps" "quorum_of ps \<le> card Q"
    and p: "\<And>a. a \<in> Q \<Longrightarrow> \<exists>la lv. promised K i a b la lv \<and> la \<le> hi"
    and h: "hi = None \<or> (\<exists>c u. hi = Some c \<and> c < b \<and> asked K i u c v)"
    by (rule justifiedE) blast
  have p': "\<forall>a\<in>Q. \<exists>la. (\<exists>lv. promised K i a b la lv) \<and> la \<le> hi" using p by blast
  have h': "hi = None \<or> (\<exists>c. hi = Some c \<and> c < b \<and> (\<exists>u. asked K i u c v))" using h by blast
  show ?case unfolding s prod.case
    by (rule exI[of _ Q], rule exI[of _ hi]) (intro conjI Q p' h')
qed

lemma chosen_wire: "chosen ps K i v \<longleftrightarrow> (\<exists>b. wire.chosen_at ps (R, K, i) b v)"
  by (auto simp: chosen_def wire.chosen_at_def peers.is_quorum_def)

lemma chosen_agree:
  assumes "packets_inv ps R K" "chosen ps K i v" "chosen ps K i w"
  shows "v = w"
  using assms wire.chosen_unique[of ps "(R, K, i)"] by (auto simp: chosen_wire[of _ _ _ _ R])

lemma chosen_requested:
  assumes inv: "packets_inv ps R K" and c: "chosen ps K i v"
  shows "v \<in> Some ` set R"
proof -
  from c obtain b Q where Q: "quorum_of ps \<le> card Q" "\<forall>a\<in>Q. voted K i a b v"
    unfolding chosen_def by blast
  have "Q \<noteq> {}" using Q(1) quorum_of_pos[of ps] by auto
  then show ?thesis using voted_value[OF inv] Q(2) by blast
qed

lemma reachable_packets: "reachable ps s \<Longrightarrow> packets_inv ps (requested s) (set (sent s))"
  using reachable_inv[of ps s] by (simp add: net_inv_def)

lemma reachable_chain:
  "reachable ps s \<Longrightarrow> u \<in> set ps \<Longrightarrow>
   chain_ok ps (set (sent s)) (instance_number (node_at s u)) (current_value (node_at s u))"
  using reachable_inv[of ps s] by (auto simp: net_inv_def node_inv_def)

end
