(* ===== verification/Recovery.thy ===== *)
theory Recovery
  imports Paxos_Agreement
begin

section \<open>Restarts\<close>

text \<open>
  A node that crashes loses everything but its state file; when
  \<open>paxos/custom_server.py\<close> starts again, \<open>BaseReplicatedValue.__init__\<close> reads the
  file back.  \<open>file_accepts\<close> relates the attributes that are saved to the acceptor of
  the running instance.
\<close>

definition restart :: "'v node \<Rightarrow> 'v node" where
  "restart n = init_driven (network_uid n) (peers n) (state_file n)"

definition file_accepts :: "'v node \<Rightarrow> bool" where
  "file_accepts n \<longleftrightarrow>
     rv_accepted_id n = accepted_id (acceptor_of (paxos_of n)) \<and>
     rv_accepted_value n = accepted_value (acceptor_of (paxos_of n)) \<and>
     rv_promised_id n \<le> promised_id (acceptor_of (paxos_of n))"

lemma init_accepts: "file_accepts (init_driven u ps saved)"
  by (cases saved)
     (simp_all add: file_accepts_def init_driven_def init_replicated_value_def load_state_def
       replicated_value.defs fresh_file_def init_paxos_def init_acceptor_def Let_def)

lemma file_accepts_fields:
  "rv_accepted_id n' = rv_accepted_id n \<Longrightarrow> rv_accepted_value n' = rv_accepted_value n \<Longrightarrow>
   rv_promised_id n' = rv_promised_id n \<Longrightarrow>
   acceptor_of (paxos_of n') = acceptor_of (paxos_of n) \<Longrightarrow> file_accepts n \<Longrightarrow> file_accepts n'"
  by (simp add: file_accepts_def)

lemma advance_accepts: "file_accepts (advance_instance i v n)"
  by (simp add: advance_eq file_accepts_def init_paxos_def init_acceptor_def)

lemma prepare_accepts:
  assumes "file_accepts n" shows "file_accepts (base_receive_prepare f i b n)"
proof (cases "i = instance_number n")
  case True
  show ?thesis
    using assms
    by (auto simp: receive_prepare_eq[OF True] file_accepts_def sending save_state_def Let_def)
qed (use assms in \<open>simp add: base_receive_prepare_def\<close>)

lemma accept_accepts:
  assumes "file_accepts n" shows "file_accepts (receive_accept f i b v n)"
proof (cases "i = instance_number n")
  case True
  show ?thesis
    using assms
    by (auto simp: receive_accept_eq[OF True] file_accepts_def sending save_state_def Let_def
        intro: order_trans)
qed (use assms in \<open>simp add: receive_accept_def\<close>)

lemma node_step_accepts:
  assumes ok: "file_accepts n" shows "file_accepts (fst (node_step e n))"
proof (cases e)
  case (Propose v)
  then show ?thesis
    by (intro file_accepts_fields[OF _ _ _ _ ok])
       (simp_all add: propose_update_def drive_eq base_propose_update_def Let_def)
next
  case Retransmit
  then show ?thesis
    by (intro file_accepts_fields[OF _ _ _ _ ok])
       (auto simp: fire_retransmit_def sending split: option.split retransmit.split)
next
  case Drive
  then show ?thesis
    by (intro file_accepts_fields[OF _ _ _ _ ok])
       (auto simp: fire_delayed_drive_def drive_eq Let_def split: option.split)
next
  case (Sync p)
  then show ?thesis by (intro file_accepts_fields[OF _ _ _ _ ok]) (simp_all add: send_sync_def sending)
next
  case (Receive rnd f w)
  show ?thesis
  proof (cases w)
    case (WPrepare i b)
    then show ?thesis using Receive prepare_accepts[OF ok] by simp
  next
    case (WPromise i b la lv)
    then show ?thesis using Receive
      by (intro file_accepts_fields[OF _ _ _ _ ok])
         (auto simp: base_receive_promise_def paxos_receive_promise_def send_accept_def sending
           split_beta Let_def split: paxos_msg.splits outcome.splits option.splits)
  next
    case (WNack i b x)
    then show ?thesis using Receive
      by (intro file_accepts_fields[OF _ _ _ _ ok])
         (simp_all add: driven_receive_nack_def base_receive_nack_def driven_handlers Let_def)
  next
    case (WAccept i b v)
    then show ?thesis using Receive accept_accepts[OF ok] by simp
  next
    case (WAccepted i b v)
    then show ?thesis using Receive ok
      by (auto simp: base_receive_accepted_def advance_accepts paxos_receive_accepted_def
          file_accepts_fields[OF _ _ _ _ ok] split_beta Let_def
          split: paxos_msg.splits outcome.splits option.splits)
  next
    case (WSyncRequest i)
    then show ?thesis using Receive
      by (intro file_accepts_fields[OF _ _ _ _ ok]) (simp_all add: receive_sync_request_def sending)
  next
    case (WCatchup i v)
    then show ?thesis using Receive ok by (simp add: receive_catchup_def advance_accepts)
  qed
qed

text \<open>What \<open>__init__\<close> rebuilds from the file a node left.\<close>

lemma restart_reads:
  assumes "file_mirrors n"
  shows "instance_number (restart n) = instance_number n"
    "current_value (restart n) = current_value n"
    "acceptor_of (paxos_of (restart n)) =
       init_acceptor (network_uid n) (rv_promised_id n) (rv_accepted_id n) (rv_accepted_value n)"
    "proposer_of (paxos_of (restart n)) = init_proposer (network_uid n) (quorum_of (peers n))"
  using assms
  by (simp_all add: restart_def file_mirrors_def init_driven_def init_replicated_value_def
      load_state_def replicated_value.defs init_paxos_def Let_def)

subsection \<open>The network with restarts\<close>

datatype 'v crash_event = Happens uid "'v event" | Restart uid

fun crash_step :: "uid list \<Rightarrow> 'v crash_event \<Rightarrow> 'v network \<Rightarrow> 'v network option" where
  "crash_step ps (Happens u e) s = (if enabled ps u e s then Some (happens u e s) else None)"
| "crash_step ps (Restart u) s =
     (if u \<in> set ps then Some (s\<lparr>node_at := (node_at s)(u := restart (node_at s u))\<rparr>) else None)"

fun crash_run :: "uid list \<Rightarrow> 'v crash_event list \<Rightarrow> 'v network \<Rightarrow> 'v network option" where
  "crash_run ps [] s = Some s"
| "crash_run ps (e # es) s =
     (case crash_step ps e s of None \<Rightarrow> None | Some s' \<Rightarrow> crash_run ps es s')"

subsection \<open>Properties\<close>

text \<open>The state file is a faithful copy.  Whatever happened at a node, a restart finds the
  same instance number, current value, accepted proposal and accepted value, so a vote that
  was cast is not forgotten; the promise it finds is never higher than the one the running
  acceptor made.\<close>

lemma restart_keeps_votes:
  "let n = node_run es (init_driven u ps saved); a = acceptor_of (paxos_of n);
       a' = acceptor_of (paxos_of (restart n)) in
   instance_number (restart n) = instance_number n \<and> current_value (restart n) = current_value n \<and>
   accepted_id a' = accepted_id a \<and> accepted_value a' = accepted_value a \<and>
   promised_id a' \<le> promised_id a"
proof -
  have m: "file_mirrors (node_run es (init_driven u ps saved))"
    by (rule node_run_keeps[where P = file_mirrors, OF init_mirrors]) (rule node_step_mirrors)
  have "file_accepts (node_run es (init_driven u ps saved))"
    by (rule node_run_keeps[where P = file_accepts, OF init_accepts]) (rule node_step_accepts)
  then show ?thesis
    using restart_reads[OF m] by (simp add: Let_def file_accepts_def init_acceptor_def)
qed

text \<open>Accepting binds only until the next crash.  An acceptor that accepts proposal b
  promises b in memory, but \<open>receive_accept\<close> saves the promise the node made before: after a
  restart the acceptor is bound by that older promise alone, and it answers a Prepare or an
  Accept for any proposal between the two as if it had never accepted b.\<close>

lemma accept_promise_lost:
  assumes "file_mirrors n" "instance_number n = i" "promised_id (acceptor_of (paxos_of n)) \<le> Some b"
  shows "let n' = receive_accept f i b v n in
    promised_id (acceptor_of (paxos_of n')) = Some b \<and>
    promised_id (acceptor_of (paxos_of (restart n'))) = rv_promised_id n \<and>
    (\<forall>c w g. rv_promised_id n \<le> Some c \<longrightarrow>
      accepted_id (acceptor_of (paxos_of (receive_accept g i c w (restart n')))) = Some c)"
proof -
  let ?n = "receive_accept f i b v n"
  have r: "restart ?n = restart ?n" ..
  have m: "file_mirrors ?n"
    using node_step_mirrors[OF assms(1), of "Receive 0 f (WAccept i b v)"] by simp
  have e: "rv_promised_id ?n = rv_promised_id n" "promised_id (acceptor_of (paxos_of ?n)) = Some b"
    "instance_number ?n = i"
    using assms(2,3)
    by (simp_all add: receive_accept_eq[OF assms(2)[symmetric]] sending save_state_def Let_def)
  have a: "promised_id (acceptor_of (paxos_of (restart ?n))) = rv_promised_id n"
    using restart_reads(3)[OF m] e(1) by (simp add: init_acceptor_def)
  have "accepted_id (acceptor_of (paxos_of (receive_accept g i c w (restart ?n)))) = Some c"
    if "rv_promised_id n \<le> Some c" for c w g
  proof -
    have i: "i = instance_number (restart ?n)" using restart_reads(1)[OF m] e(3) by simp
    show ?thesis
      using that a by (simp add: receive_accept_eq[OF i] sending save_state_def Let_def)
  qed
  then show ?thesis using a e(2) by (simp add: Let_def)
qed

text \<open>Proposal numbers are reused.  The proposer's counter is not in the state file, so
  after a restart the first proposal of a node is number 1 again, whatever it had proposed in
  the same instance before the crash.\<close>

lemma restart_reuses_number:
  "outbox (drive_to_resolution (restart n)) =
     map (\<lambda>d. (d, WPrepare (instance_number (restart n)) (ProposalID 1 (network_uid n)))) (peers n)"
  by (cases "state_file n")
     (simp_all add: drive_eq restart_def init_driven_def init_replicated_value_def load_state_def
       replicated_value.defs paxos_prepare_def prepare_def init_paxos_def init_proposer_def Let_def)

text \<open>
  A schedule of three nodes with one restart.  Node 2 gets the promises of 2 and 3 for
  proposal 1.2; node 1 outbids it with 2.1, which 1 and 3 accept, so 1 resolves the value 10.
  Node 3 restarts: its saved promise is still 1.2, so it accepts the delayed Accept message of
  1.2 over its own higher vote.  Node 2 proposes again, and the promise of node 3 now reports
  the lower proposal.
\<close>

definition crash_schedule :: "nat crash_event list" where
  "crash_schedule =
     (let a = UInt 1; b = UInt 2; c = UInt 3; pa = ProposalID 2 a; pb = ProposalID 1 b;
          pb' = ProposalID 3 b; rcv = (\<lambda>u f w. Happens u (Receive 0 f w)) in
      [Happens b (Propose 20),
       rcv b b (WPrepare 0 pb), rcv c b (WPrepare 0 pb), rcv a b (WPrepare 0 pb),
       rcv b b (WPromise 0 pb None None), rcv b c (WPromise 0 pb None None),
       Happens a (Propose 10),
       rcv a a (WPrepare 0 pa), rcv b a (WPrepare 0 pa),
       rcv a a (WPromise 0 pa None None), rcv a b (WPromise 0 pa None None),
       rcv a a (WAccept 0 pa (Some 10)), rcv c a (WAccept 0 pa (Some 10)),
       rcv a a (WAccepted 0 pa (Some 10)), rcv a c (WAccepted 0 pa (Some 10)),
       Restart c,
       rcv c b (WAccept 0 pb (Some 20)),
       Happens b (Propose 20),
       rcv b b (WPrepare 0 pb'), rcv c b (WPrepare 0 pb'),
       rcv b b (WPromise 0 pb' None None), rcv b c (WPromise 0 pb' (Some pb) (Some 20)),
       rcv b b (WAccept 0 pb' (Some 20)), rcv c b (WAccept 0 pb' (Some 20)),
       rcv b b (WAccepted 0 pb' (Some 20)), rcv b c (WAccepted 0 pb' (Some 20))])"

definition positions :: "uid list \<Rightarrow> 'v network option \<Rightarrow> (int \<times> 'v option) list option" where
  "positions ps r = map_option
     (\<lambda>s. map (\<lambda>u. (instance_number (node_at s u), current_value (node_at s u))) ps) r"

text \<open>C3: agreement does not survive a crash.  With one restart, two nodes of three end up at
  the same instance with different current values: the schedule above runs, every packet in
  it was sent, and nodes 1 and 2 have resolved instance 0 to 10 and to 20.\<close>

theorem restart_breaks_agreement:
  "positions [UInt 1, UInt 2, UInt 3]
     (crash_run [UInt 1, UInt 2, UInt 3] crash_schedule (init_network [UInt 1, UInt 2, UInt 3]))
   = Some [(1, Some 10), (1, Some 20), (0, None)]"
  by code_simp

end
