(* ===== verification/Master_Strategy.thy ===== *)
theory Master_Strategy
  imports Paxos_Node
begin

section \<open>A dedicated master\<close>

text \<open>
  Class \<open>DedicatedMasterStrategyMixin\<close> of \<open>paxos/master_strategy.py\<close>, mixed in front of
  the classes of \<open>Paxos_Node\<close> as \<open>paxos/server.py\<close> does under \<open>--master\<close>: one node
  holds a lease for ten seconds at a time and resolves values without the prepare phase.
  \<open>time.time()\<close> is an argument \<open>now\<close> of the operations that read it.
\<close>

subsection \<open>Values and state\<close>

text \<open>
  The values of the Paxos instances are JSON texts of pairs \<open>[master_uid, value]\<close>; an
  application's value is any other text.  \<open>json.loads\<close> of such a text is a
  \<open>ValueError\<close> (unless the text happens to be JSON, which is left out), of \<open>None\<close> a
  \<open>TypeError\<close>.
\<close>

datatype 'a json = Plain 'a | Packed "uid option" "'a json option"

fun loads :: "'a json option \<Rightarrow> (uid option \<times> 'a json option) outcome" where
  "loads (Some (Packed u v)) = Ret (u, v)"
| "loads (Some (Plain a)) = Raise ValueError"
| "loads None = Raise TypeError"

text \<open>\<open>if self.master_uid\<close>: the empty string and zero are not true.\<close>

definition uid_true :: "uid \<Rightarrow> bool" where
  "uid_true u \<longleftrightarrow> u \<noteq> UInt 0 \<and> u \<noteq> UStr []"

text \<open>
  A timer is the time it is due.  \<open>lease_expiry\<close> is \<open>None\<close> when there is no active one;
  the delayed calls of \<open>update_lease\<close> are kept nowhere and never cancelled, nor can a
  looping call be stopped that \<open>retransmit_task\<close> no longer names: \<open>renewals\<close> and
  \<open>loose_loops\<close> hold what the reactor still holds of them.
\<close>

record 'a mastered = "'a json driven" +
  lease_start :: rat
  lease_expiry :: "rat option"
  master_uid :: "uid option"
  master_attempt :: bool
  renewals :: "rat list"
  loose_loops :: "'a json retransmit list"

definition lease_window :: rat where "lease_window = 10"

subsection \<open>The lease\<close>

definition start_master_lease_timer :: "rat \<Rightarrow> 'a mastered \<Rightarrow> 'a mastered" where
  "start_master_lease_timer now n = n\<lparr>lease_start := now, lease_expiry := Some (now + lease_window)\<rparr>"

text \<open>
  The override of \<open>drive_to_resolution\<close>.  The looping call started at its end sends the
  proposal id of the time it fires; as long as \<open>retransmit_task\<close> is this call, that is the
  id of the time it was started, for whatever changes the proposal id stops the call.  It
  replaces the loop that \<open>send_accept\<close> has just started without stopping it.
\<close>

definition master_drive :: "'a mastered \<Rightarrow> 'a mastered" where
  "master_drive n =
     (if master_uid n = Some (network_uid n) then
        let n1 = stop_driving n; p = proposer_of (paxos_of n1);
            n2 = (if number (proposal_id p) = 1 then send_accept (proposal_id p) (proposed_value p) n1
                  else n1\<lparr>paxos_of := fst (paxos_prepare (paxos_of n1))\<rparr>) in
        n2\<lparr>loose_loops := loose_loops n2 @ (case retransmit_task n2 of None \<Rightarrow> [] | Some t \<Rightarrow> [t]),
           retransmit_task := Some (RetransmitPrepare (proposal_id (proposer_of (paxos_of n2))))\<rparr>
      else drive_to_resolution n)"

text \<open>\<open>propose_update\<close> of the classes behind the mixin, which drives through \<open>self\<close>.\<close>

definition super_propose_update :: "'a json \<Rightarrow> 'a mastered \<Rightarrow> 'a mastered" where
  "super_propose_update v n = master_drive (base_propose_update (Some v) n)"

text \<open>The two halves of \<open>propose_update\<close>: an application's value, and the node's own uid
  with \<open>application_level=False\<close>.\<close>

definition propose_application :: "'a \<Rightarrow> 'a mastered \<Rightarrow> 'a mastered" where
  "propose_application v n =
     (if master_uid n = Some (network_uid n)
      then super_propose_update (Packed None (Some (Plain v))) n
      else n)"

definition propose_lease :: "rat \<Rightarrow> 'a mastered \<Rightarrow> 'a mastered" where
  "propose_lease now n =
     (if (master_uid n = None \<or> master_uid n = Some (network_uid n)) \<and> \<not> master_attempt n
      then super_propose_update (Packed (Some (network_uid n)) None)
             (start_master_lease_timer now (n\<lparr>master_attempt := True\<rparr>))
      else n)"

definition update_lease :: "rat \<Rightarrow> uid option \<Rightarrow> 'a mastered \<Rightarrow> 'a mastered" where
  "update_lease now m n =
     (let n1 = n\<lparr>master_uid := m\<rparr>;
          n2 = (if Some (network_uid n1) \<noteq> m then start_master_lease_timer now n1 else n1) in
      if m = Some (network_uid n2) then
        let renew_delay = (lease_start n2 + lease_window - 1) - now in
        if renew_delay > 0 then n2\<lparr>renewals := renewals n2 @ [now + renew_delay]\<rparr>
        else propose_lease now n2
      else n2)"

definition lease_expired :: "rat \<Rightarrow> 'a mastered \<Rightarrow> 'a mastered" where
  "lease_expired now n = propose_lease now (n\<lparr>master_uid := None\<rparr>)"

text \<open>The constructor: \<open>load_state\<close> is called once, and its override starts the timer.\<close>

definition init_mastered :: "rat \<Rightarrow> uid \<Rightarrow> uid list \<Rightarrow> 'a json saved_state option \<Rightarrow> 'a mastered" where
  "init_mastered now u ps file =
     update_lease now None
       (driven.extend (init_driven u ps file)
         \<lparr>lease_start = 0, lease_expiry = None, master_uid = None, master_attempt = False,
          renewals = [], loose_loops = []\<rparr>)"

subsection \<open>The next instance\<close>

text \<open>The promises a master makes to itself in the name of its peers.\<close>

fun assume_promises :: "uid list \<Rightarrow> proposal_id \<Rightarrow> 'v paxos \<Rightarrow> 'v paxos \<times> unit outcome" where
  "assume_promises [] b x = (x, Ret ())"
| "assume_promises (u # us) b x =
     (case paxos_receive_promise u b None None x of
        (x1, Raise e) \<Rightarrow> (x1, Raise e)
      | (x1, Ret m) \<Rightarrow> assume_promises us b x1)"

text \<open>\<open>advance_instance\<close> with \<open>catchup=True\<close>, and without.\<close>

definition master_catchup :: "int \<Rightarrow> 'a json option \<Rightarrow> 'a mastered \<Rightarrow> 'a mastered" where
  "master_catchup i cur n =
     (let n1 = advance_instance i cur (n\<lparr>master_attempt := False\<rparr>) in
      n1\<lparr>paxos_of := fst (paxos_prepare (paxos_of n1))\<rparr>)"

definition master_advance ::
  "rat \<Rightarrow> int \<Rightarrow> 'a json option \<Rightarrow> 'a mastered \<Rightarrow> 'a mastered \<times> unit outcome" where
  "master_advance now i cur n =
     (let n0 = n\<lparr>master_attempt := False\<rparr> in
      case loads cur of
        Raise e \<Rightarrow> (n0, Raise e)
      | Ret (t0, t1) \<Rightarrow>
          let n1 = (case t0 of None \<Rightarrow> n0 | Some u \<Rightarrow> update_lease now (Some u) n0);
              cur' = (case t0 of None \<Rightarrow> t1 | Some u \<Rightarrow> current_value n1);
              n2 = advance_instance i cur' n1 in
          (case master_uid n2 of
             None \<Rightarrow> (n2, Ret ())
           | Some m \<Rightarrow>
               if \<not> uid_true m then (n2, Ret ())
               else
                 let master_pid = ProposalID 1 m in
                 if m = network_uid n2 then
                   let (x, res) = assume_promises (peers n2) master_pid (fst (paxos_prepare (paxos_of n2))) in
                   (n2\<lparr>paxos_of := x\<rparr>, res)
                 else
                   let x = fst (paxos_receive_prepare m master_pid (paxos_of n2)) in
                   (n2\<lparr>paxos_of := x\<lparr>proposer_of := observe_proposal (Some master_pid) (proposer_of x)\<rparr>\<rparr>,
                    Ret ())))"

subsection \<open>Messages and timers\<close>

definition drops :: "uid \<Rightarrow> 'a mastered \<Rightarrow> bool" where
  "drops f n = (case master_uid n of None \<Rightarrow> False | Some m \<Rightarrow> uid_true m \<and> f \<noteq> m)"

definition master_receive_prepare :: "uid \<Rightarrow> int \<Rightarrow> proposal_id \<Rightarrow> 'a mastered \<Rightarrow> 'a mastered" where
  "master_receive_prepare f i b n = (if drops f n then n else base_receive_prepare f i b n)"

definition master_receive_accept ::
  "uid \<Rightarrow> int \<Rightarrow> proposal_id \<Rightarrow> 'a json option \<Rightarrow> 'a mastered \<Rightarrow> 'a mastered" where
  "master_receive_accept f i b v n = (if drops f n then n else receive_accept f i b v n)"

text \<open>\<open>receive_accepted\<close> of the base class, whose call of \<open>self.advance_instance\<close> may raise here.\<close>

definition master_receive_accepted ::
  "rat \<Rightarrow> uid \<Rightarrow> int \<Rightarrow> proposal_id \<Rightarrow> 'a json option \<Rightarrow> 'a mastered \<Rightarrow> 'a mastered \<times> unit outcome" where
  "master_receive_accepted now f i b v n =
     (if i \<noteq> instance_number n then (n, Ret ())
      else
        let (x, res) = paxos_receive_accepted f b v (paxos_of n); n1 = n\<lparr>paxos_of := x\<rparr> in
        (case res of
           Raise e \<Rightarrow> (n1, Raise e)
         | Ret (Some (Resolution _ _)) \<Rightarrow> master_advance now (instance_number n1 + 1) v n1
         | Ret _ \<Rightarrow> (n1, Ret ())))"

fun master_message ::
  "rat \<Rightarrow> rat \<Rightarrow> uid \<Rightarrow> 'a json wire \<Rightarrow> 'a mastered \<Rightarrow> 'a mastered \<times> unit outcome" where
  "master_message now rnd f (WPrepare i b) n = (master_receive_prepare f i b n, Ret ())"
| "master_message now rnd f (WPromise i b la lv) n = base_receive_promise send_accept f i b la lv n"
| "master_message now rnd f (WNack i b promised) n = (driven_receive_nack rnd f i b promised n, Ret ())"
| "master_message now rnd f (WAccept i b v) n = (master_receive_accept f i b v n, Ret ())"
| "master_message now rnd f (WAccepted i b v) n = master_receive_accepted now f i b v n"
| "master_message now rnd f (WSyncRequest i) n = (receive_sync_request f i n, Ret ())"
| "master_message now rnd f (WCatchup i cur) n = (receive_catchup master_catchup f i cur n, Ret ())"

text \<open>
  What happens at a node: a client's value, a packet, or a timer.  The lease timers fire
  when they are due or later.
\<close>

datatype 'a master_event =
    Client 'a
  | Resend
  | Resend_Loose nat
  | Redrive
  | Lease_Timer
  | Renewal nat
  | Ask_Sync uid
  | Packet rat uid "'a json wire"

definition fire_loose :: "nat \<Rightarrow> 'a mastered \<Rightarrow> 'a mastered" where
  "fire_loose k n =
     (if k < length (loose_loops n)
      then (case loose_loops n ! k of
              RetransmitPrepare b \<Rightarrow> base_send_prepare b n
            | RetransmitAccept b v \<Rightarrow> base_send_accept b v n)
      else n)"

definition fire_lease :: "rat \<Rightarrow> 'a mastered \<Rightarrow> 'a mastered" where
  "fire_lease now n =
     (case lease_expiry n of
        None \<Rightarrow> n
      | Some d \<Rightarrow> if d \<le> now then lease_expired now (n\<lparr>lease_expiry := None\<rparr>) else n)"

definition fire_renewal :: "rat \<Rightarrow> nat \<Rightarrow> 'a mastered \<Rightarrow> 'a mastered" where
  "fire_renewal now k n =
     (if k < length (renewals n) \<and> renewals n ! k \<le> now
      then propose_lease now (n\<lparr>renewals := take k (renewals n) @ drop (Suc k) (renewals n)\<rparr>)
      else n)"

fun master_step :: "rat \<Rightarrow> 'a master_event \<Rightarrow> 'a mastered \<Rightarrow> 'a mastered \<times> unit outcome" where
  "master_step now (Client v) n = (propose_application v n, Ret ())"
| "master_step now Resend n = (fire_retransmit n, Ret ())"
| "master_step now (Resend_Loose k) n = (fire_loose k n, Ret ())"
| "master_step now Redrive n =
     (case delayed_drive n of
        None \<Rightarrow> (n, Ret ())
      | Some d \<Rightarrow> (master_drive (n\<lparr>delayed_drive := None\<rparr>), Ret ()))"
| "master_step now Lease_Timer n = (fire_lease now n, Ret ())"
| "master_step now (Renewal k) n = (fire_renewal now k n, Ret ())"
| "master_step now (Ask_Sync p) n = (send_sync p n, Ret ())"
| "master_step now (Packet rnd f w) n = master_message now rnd f w n"

subsection \<open>What stays\<close>

lemma stop_driving_frame [frame_simps, simp]:
  "network_uid (stop_driving n) = network_uid n" "peers (stop_driving n) = peers n"
  "quorum_size (stop_driving n) = quorum_size n" "instance_number (stop_driving n) = instance_number n"
  "current_value (stop_driving n) = current_value n" "paxos_of (stop_driving n) = paxos_of n"
  "outbox (stop_driving n) = outbox n" "retransmit_task (stop_driving n) = None"
  by (simp_all add: stop_driving_def)

lemma send_accept_frame [frame_simps, simp]:
  "network_uid (send_accept b v n) = network_uid n" "peers (send_accept b v n) = peers n"
  "quorum_size (send_accept b v n) = quorum_size n" "instance_number (send_accept b v n) = instance_number n"
  "current_value (send_accept b v n) = current_value n" "paxos_of (send_accept b v n) = paxos_of n"
  "outbox (send_accept b v n) = outbox n @ map (\<lambda>d. (d, WAccept (instance_number n) b v)) (peers n)"
  "retransmit_task (send_accept b v n) = Some (RetransmitAccept b v)"
  by (simp_all add: send_accept_def sending)

lemma drive_frame [frame_simps, simp]:
  "network_uid (drive_to_resolution n) = network_uid n" "peers (drive_to_resolution n) = peers n"
  "quorum_size (drive_to_resolution n) = quorum_size n"
  "instance_number (drive_to_resolution n) = instance_number n"
  "current_value (drive_to_resolution n) = current_value n"
  by (simp_all add: drive_to_resolution_def sending Let_def split_beta split: paxos_msg.split)

lemma master_drive_frame [frame_simps, simp]:
  "network_uid (master_drive n) = network_uid n" "peers (master_drive n) = peers n"
  "quorum_size (master_drive n) = quorum_size n" "instance_number (master_drive n) = instance_number n"
  "current_value (master_drive n) = current_value n"
  by (simp_all add: master_drive_def Let_def)

lemma base_propose_frame [frame_simps, simp]:
  "network_uid (base_propose_update v n) = network_uid n" "peers (base_propose_update v n) = peers n"
  "quorum_size (base_propose_update v n) = quorum_size n"
  "instance_number (base_propose_update v n) = instance_number n"
  "current_value (base_propose_update v n) = current_value n"
  "outbox (base_propose_update v n) = outbox n"
  by (simp_all add: base_propose_update_def)

lemma lease_frame [frame_simps, simp]:
  "network_uid (update_lease now m n) = network_uid n" "peers (update_lease now m n) = peers n"
  "quorum_size (update_lease now m n) = quorum_size n"
  "instance_number (update_lease now m n) = instance_number n"
  "current_value (update_lease now m n) = current_value n"
  by (simp_all add: update_lease_def propose_lease_def super_propose_update_def
      start_master_lease_timer_def Let_def)

lemma advance_frame [frame_simps, simp]:
  "network_uid (advance_instance i v n) = network_uid n" "peers (advance_instance i v n) = peers n"
  "quorum_size (advance_instance i v n) = quorum_size n" "instance_number (advance_instance i v n) = i"
  "current_value (advance_instance i v n) = v" "outbox (advance_instance i v n) = outbox n"
  "updates (advance_instance i v n) = updates n @ [v]"
  "paxos_of (advance_instance i v n) = init_paxos (network_uid n) (quorum_size n) None None None"
  by (simp_all add: advance_instance_def base_advance_instance_def save_state_def stop_driving_def Let_def)

subsection \<open>One round trip under a lease\<close>

text \<open>A node receives the Accepted messages of several peers.\<close>

fun hear_accepted ::
  "rat \<Rightarrow> uid list \<Rightarrow> int \<Rightarrow> proposal_id \<Rightarrow> 'a json option \<Rightarrow> 'a mastered \<Rightarrow> 'a mastered" where
  "hear_accepted now [] i b v n = n"
| "hear_accepted now (u # us) i b v n =
     hear_accepted now us i b v (fst (master_message now 0 u (WAccepted i b v) n))"

lemma hear_accepted_append:
  "hear_accepted now (us @ us') i b v n = hear_accepted now us' i b v (hear_accepted now us i b v n)"
  by (induction us arbitrary: n) simp_all

lemma hear_accepted_silent:
  assumes "snd (learner_run (map (\<lambda>u. (u, b, v)) us) (learner_of (paxos_of n))) = replicate (length us) (Ret None)"
    "instance_number n = i"
  shows "hear_accepted now us i b v n = n\<lparr>paxos_of := (paxos_of n)\<lparr>learner_of :=
     fst (learner_run (map (\<lambda>u. (u, b, v)) us) (learner_of (paxos_of n)))\<rparr>\<rparr>"
  using assms
proof (induction us arbitrary: n)
  case (Cons u us)
  obtain l r where l: "receive_accepted u b v (learner_of (paxos_of n)) = (l, r)" by fastforce
  let ?n = "n\<lparr>paxos_of := (paxos_of n)\<lparr>learner_of := l\<rparr>\<rparr>"
  have r: "r = Ret None" and rest: "snd (learner_run (map (\<lambda>u. (u, b, v)) us) l) = replicate (length us) (Ret None)"
    using Cons.prems(1) l by (auto simp: split_beta Let_def)
  have "fst (master_message now 0 u (WAccepted i b v) n) = ?n"
    using Cons.prems(2) l r by (simp add: master_receive_accepted_def paxos_receive_accepted_def)
  with Cons.IH[of ?n] rest Cons.prems(2) l show ?case by (simp add: split_beta Let_def)
qed (cases "paxos_of n", simp)

lemma loads_packed [simp]: "loads (Some (Packed u v)) = Ret (u, v)"
  by simp

lemma hear_quorum:
  assumes "distinct us" "length us = quorum_size n" "0 < quorum_size n" "instance_number n = i"
    and fresh: "learner_of (paxos_of n) = init_learner w (quorum_size n)"
  shows "instance_number (hear_accepted now us i b (Some (Packed None (Some v))) n) = i + 1"
    "current_value (hear_accepted now us i b (Some (Packed None (Some v))) n) = Some v"
    "updates (hear_accepted now us i b (Some (Packed None (Some v))) n) = updates n @ [Some v]"
proof -
  obtain us' u where us: "us = us' @ [u]" using assms(2,3) by (cases us rule: rev_cases) auto
  let ?v = "Some (Packed None (Some v))"
  let ?l = "fst (learner_run (map (\<lambda>u. (u, b, ?v)) us') (init_learner w (quorum_size n)))"
  let ?n = "n\<lparr>paxos_of := (paxos_of n)\<lparr>learner_of := ?l\<rparr>\<rparr>"
  have d: "distinct us'" "length us' < quorum_size n" using assms us by auto
  have h: "hear_accepted now us' i b ?v n = ?n"
    using assms(4) by (subst hear_accepted_silent) (simp_all add: fresh learner_run_counts[OF d])
  have "snd (receive_accepted u b ?v ?l) = Ret (Some (Resolution w ?v))"
    using assms(1,2) us by (intro learner_run_resolves) auto
  then obtain l where l: "receive_accepted u b ?v ?l = (l, Ret (Some (Resolution w ?v)))"
    by (cases "receive_accepted u b ?v ?l") simp
  let ?m = "?n\<lparr>paxos_of := (paxos_of ?n)\<lparr>learner_of := l\<rparr>\<rparr>"
  have e: "hear_accepted now us i b ?v n = fst (master_advance now (i + 1) ?v ?m)"
    using assms(4) l by (simp add: us hear_accepted_append h master_receive_accepted_def paxos_receive_accepted_def)
  show "instance_number (hear_accepted now us i b ?v n) = i + 1"
    "current_value (hear_accepted now us i b ?v n) = Some v"
    "updates (hear_accepted now us i b ?v n) = updates n @ [Some v]"
    by (simp_all add: e master_advance_def Let_def split_beta split: option.split)
qed

lemma assume_promises_frame:
  assumes "promises_received (proposer_of x) \<noteq> None"
  shows "snd (assume_promises us b x) = Ret () \<and>
    proposed_value (proposer_of (fst (assume_promises us b x))) = proposed_value (proposer_of x) \<and>
    proposal_id (proposer_of (fst (assume_promises us b x))) = proposal_id (proposer_of x) \<and>
    acceptor_of (fst (assume_promises us b x)) = acceptor_of x \<and>
    learner_of (fst (assume_promises us b x)) = learner_of x"
  using assms
proof (induction us arbitrary: x)
  case (Cons u us)
  let ?x = "fst (paxos_receive_promise u b None None x)"
  obtain ps where ps: "promises_received (proposer_of x) = Some ps" using Cons.prems by auto
  have x: "promises_received (proposer_of ?x) \<noteq> None"
    "proposed_value (proposer_of ?x) = proposed_value (proposer_of x)"
    "proposal_id (proposer_of ?x) = proposal_id (proposer_of x)"
    "acceptor_of ?x = acceptor_of x" "learner_of ?x = learner_of x"
    "\<exists>m. snd (paxos_receive_promise u b None None x) = Ret m"
    using ps by (auto simp: receive_promise_def note_accepted_def Let_def)
  then obtain m where m: "snd (paxos_receive_promise u b None None x) = Ret m" by blast
  have "assume_promises (u # us) b x = assume_promises us b ?x"
    using m by (cases "paxos_receive_promise u b None None x") simp
  then show ?case using Cons.IH[OF x(1)] x by (simp only:)
qed simp

text \<open>What a node is after advancing while it knows of a master.\<close>

definition under_lease :: "uid \<Rightarrow> int \<Rightarrow> 'a mastered \<Rightarrow> bool" where
  "under_lease m i n \<longleftrightarrow>
     master_uid n = Some m \<and> instance_number n = i \<and>
     learner_of (paxos_of n) = init_learner (network_uid n) (quorum_size n) \<and>
     promised_id (acceptor_of (paxos_of n)) \<le> Some (ProposalID 1 m) \<and>
     (m = network_uid n \<longrightarrow> proposed_value (proposer_of (paxos_of n)) = None \<and>
        proposal_id (proposer_of (paxos_of n)) = ProposalID 1 m)"

lemma advance_under_lease:
  assumes "master_uid (fst (master_advance now i cur n)) = Some m" "uid_true m"
    "snd (master_advance now i cur n) = Ret ()"
  shows "under_lease m i (fst (master_advance now i cur n))"
proof -
  obtain t0 t1 where t: "loads cur = Ret (t0, t1)" using assms(3) by (cases "loads cur") (auto simp: master_advance_def)
  define n1 where "n1 = (case t0 of None \<Rightarrow> n\<lparr>master_attempt := False\<rparr>
     | Some u \<Rightarrow> update_lease now (Some u) (n\<lparr>master_attempt := False\<rparr>))"
  define c where "c = (case t0 of None \<Rightarrow> t1 | Some u \<Rightarrow> current_value n1)"
  define n2 where "n2 = advance_instance i c n1"
  have x: "paxos_of n2 = init_paxos (network_uid n2) (quorum_size n2) None None None"
    "instance_number n2 = i" by (simp_all add: n2_def)
  have e: "fst (master_advance now i cur n) =
     (case master_uid n2 of None \<Rightarrow> n2 | Some m \<Rightarrow> if \<not> uid_true m then n2
      else if m = network_uid n2 then n2\<lparr>paxos_of :=
        fst (assume_promises (peers n2) (ProposalID 1 m) (fst (paxos_prepare (paxos_of n2))))\<rparr>
      else n2\<lparr>paxos_of := (let x = fst (paxos_receive_prepare m (ProposalID 1 m) (paxos_of n2)) in
        x\<lparr>proposer_of := observe_proposal (Some (ProposalID 1 m)) (proposer_of x)\<rparr>)\<rparr>)"
    by (simp add: master_advance_def t n1_def c_def n2_def Let_def split_beta split: option.split)
  have m: "master_uid n2 = Some m"
    using assms(1) unfolding e by (auto split: option.splits if_splits)
  note af = assume_promises_frame[of "fst (paxos_prepare (init_paxos (network_uid n2) (quorum_size n2) None None None))"
      "peers n2" "ProposalID 1 m"]
  show ?thesis
    unfolding e using m assms(2) af x
    by (auto simp: under_lease_def Let_def init_paxos_def init_proposer_def init_acceptor_def prepare_def
        acceptor_receive_prepare_def)
qed

lemma master_advance_frame [frame_simps, simp]:
  "network_uid (fst (master_advance now i cur n)) = network_uid n"
  "peers (fst (master_advance now i cur n)) = peers n"
  "quorum_size (fst (master_advance now i cur n)) = quorum_size n"
  by (auto simp: master_advance_def Let_def split_beta split: option.split outcome.split)

lemma propose_under_lease:
  assumes "under_lease (network_uid n) i n"
  shows "outbox (propose_application v n) = outbox n @
      map (\<lambda>u. (u, WAccept i (ProposalID 1 (network_uid n)) (Some (Packed None (Some (Plain v)))))) (peers n)"
    "acceptor_of (paxos_of (propose_application v n)) = acceptor_of (paxos_of n)"
    "learner_of (paxos_of (propose_application v n)) = learner_of (paxos_of n)"
    "master_uid (propose_application v n) = master_uid n"
    "instance_number (propose_application v n) = instance_number n"
    "network_uid (propose_application v n) = network_uid n" "peers (propose_application v n) = peers n"
    "quorum_size (propose_application v n) = quorum_size n"
  using assms
  by (auto simp: under_lease_def propose_application_def super_propose_update_def master_drive_def
      base_propose_update_def stop_driving_def send_accept_def sending propose_value_def
      paxos_propose_value_def Let_def split_beta)

lemma accept_from_master:
  assumes "promised_id (acceptor_of (paxos_of n)) \<le> Some b" "instance_number n = i" "\<not> drops f n"
  shows "outbox (master_receive_accept f i b v n) = outbox n @ map (\<lambda>d. (d, WAccepted i b v)) (peers n)"
    "learner_of (paxos_of (master_receive_accept f i b v n)) = learner_of (paxos_of n)"
    "instance_number (master_receive_accept f i b v n) = i"
    "quorum_size (master_receive_accept f i b v n) = quorum_size n"
    "updates (master_receive_accept f i b v n) = updates n"
  using assms
  by (simp_all add: master_receive_accept_def receive_accept_def base_receive_accept_def
      acceptor_receive_accept_def paxos_receive_accept_def save_state_def sending
      reschedule_next_drive_attempt_def Let_def)

text \<open>C9: a value under a lease takes one round trip.  Once every peer has advanced to an
  instance knowing of the same master, a client's value at the master sends an Accept of
  proposal 1 to every peer and no Prepare; every peer that receives it answers every peer with
  an Accepted, and every peer that hears of a quorum of them is at the next instance with the
  client's own value, not its JSON text.\<close>

theorem master_one_round:
  assumes "m \<in> set ps" "uid_true m"
    and before: "\<forall>u\<in>set ps. network_uid (before u) = u \<and> peers (before u) = ps \<and>
      quorum_size (before u) = quorum_of ps"
    and now: "\<forall>u\<in>set ps. master_advance (t u) i (cur u) (before u) = (n u, Ret ()) \<and>
      master_uid (n u) = Some m"
    and quorum: "distinct us" "length us = quorum_of ps"
  shows "let b = ProposalID 1 m; w = Some (Packed None (Some (Plain v)));
      asking = propose_application v (n m) in
    outbox asking = outbox (n m) @ map (\<lambda>u. (u, WAccept i b w)) ps \<and>
    (\<forall>u\<in>set ps.
      let accepting = fst (master_message t' rnd m (WAccept i b w) (if u = m then asking else n u));
        done = hear_accepted t'' us i b w accepting in
      outbox accepting = outbox (if u = m then asking else n u) @ map (\<lambda>d. (d, WAccepted i b w)) ps \<and>
      instance_number done = i + 1 \<and> current_value done = Some (Plain v) \<and>
      updates done = updates accepting @ [Some (Plain v)])"
proof -
  let ?b = "ProposalID 1 m" and ?w = "Some (Packed None (Some (Plain v)))"
  let ?s = "\<lambda>u. if u = m then propose_application v (n m) else n u"
  have n: "under_lease m i (n u)" "network_uid (n u) = u" "peers (n u) = ps" "quorum_size (n u) = quorum_of ps"
    if "u \<in> set ps" for u
  proof -
    have e: "n u = fst (master_advance (t u) i (cur u) (before u))" using now that by simp
    show "under_lease m i (n u)" unfolding e using now that assms(2) by (intro advance_under_lease) auto
    show "network_uid (n u) = u" "peers (n u) = ps" "quorum_size (n u) = quorum_of ps"
      unfolding e using before that by simp_all
  qed
  note p = propose_under_lease[of "n m" i v, unfolded n(2)[OF assms(1)] n(3)[OF assms(1)], OF n(1)[OF assms(1)]]
  have s: "under_lease m i (n u)" "promised_id (acceptor_of (paxos_of (?s u))) \<le> Some ?b"
    "instance_number (?s u) = i" "\<not> drops m (?s u)" "peers (?s u) = ps" "quorum_size (?s u) = quorum_of ps"
    "learner_of (paxos_of (?s u)) = init_learner u (quorum_of ps)" if "u \<in> set ps" for u
    using n[OF that] n[OF assms(1)] p by (auto simp: under_lease_def drops_def)
  have "outbox (fst (master_message t' rnd m (WAccept i ?b ?w) (?s u))) =
      outbox (?s u) @ map (\<lambda>d. (d, WAccepted i ?b ?w)) ps \<and>
    instance_number (hear_accepted t'' us i ?b ?w (fst (master_message t' rnd m (WAccept i ?b ?w) (?s u)))) = i + 1 \<and>
    current_value (hear_accepted t'' us i ?b ?w (fst (master_message t' rnd m (WAccept i ?b ?w) (?s u)))) = Some (Plain v) \<and>
    updates (hear_accepted t'' us i ?b ?w (fst (master_message t' rnd m (WAccept i ?b ?w) (?s u)))) =
      updates (fst (master_message t' rnd m (WAccept i ?b ?w) (?s u))) @ [Some (Plain v)]"
    if u: "u \<in> set ps" for u
  proof -
    note a = accept_from_master[OF s(2-4)[OF u], of ?w]
    define y where "y = master_receive_accept m i ?b ?w (?s u)"
    have y: "outbox y = outbox (?s u) @ map (\<lambda>d. (d, WAccepted i ?b ?w)) ps"
      "learner_of (paxos_of y) = init_learner u (quorum_size y)" "instance_number y = i"
      "quorum_size y = quorum_of ps"
      using a s(5-7)[OF u] by (simp_all add: y_def)
    have "0 < quorum_size y" by (simp add: y(4) quorum_of_pos)
    from hear_quorum[OF quorum(1) _ this y(3) y(2), of t'' ?b "Plain v"] quorum(2) y(1,4)
    show ?thesis by (simp add: y_def[symmetric])
  qed
  then show ?thesis using p(1) by (simp add: Let_def)
qed

text \<open>The three nodes of the witnesses below, after the lease of node 3 is granted.\<close>

definition granted :: "uid \<Rightarrow> nat mastered" where
  "granted u = fst (master_advance 1 1 (Some (Packed (Some (UInt 3)) None))
     (init_mastered 0 u [UInt 1, UInt 2, UInt 3] None))"

lemma granted_ready:
  assumes "u \<in> {UInt 1, UInt 2, UInt 3}"
  shows "master_advance 1 1 (Some (Packed (Some (UInt 3)) None))
      (init_mastered 0 u [UInt 1, UInt 2, UInt 3] None) = (granted u, Ret ())"
    "master_uid (granted u) = Some (UInt 3)"
proof -
  let ?a = "master_advance 1 1 (Some (Packed (Some (UInt 3)) None))
      (init_mastered 0 u [UInt 1, UInt 2, UInt 3] (None :: nat json saved_state option))"
  have r: "\<forall>u\<in>set [UInt 1, UInt 2, UInt 3]. snd (master_advance 1 1 (Some (Packed (Some (UInt 3)) None))
      (init_mastered 0 u [UInt 1, UInt 2, UInt 3] (None :: nat json saved_state option))) = Ret () \<and>
      master_uid (granted u) = Some (UInt 3)"
    by code_simp
  then show "?a = (granted u, Ret ())" "master_uid (granted u) = Some (UInt 3)"
    using assms by (cases ?a; auto simp: granted_def)+
qed

theorem master_one_round_witness:
  "let a = fst (master_message 2 0 (UInt 3) (WAccept 1 (ProposalID 1 (UInt 3)) (Some (Packed None (Some (Plain 7)))))
       (granted (UInt 2))) in
   current_value (hear_accepted 2 [UInt 1, UInt 2] 1 (ProposalID 1 (UInt 3)) (Some (Packed None (Some (Plain 7)))) a)
     = Some (Plain 7)"
proof -
  let ?ps = "[UInt 1, UInt 2, UInt 3]"
  have m: "UInt 3 \<in> set ?ps" "uid_true (UInt 3)" by (simp_all add: uid_true_def)
  have b: "\<forall>u\<in>set ?ps. network_uid (init_mastered 0 u ?ps (None :: nat json saved_state option)) = u \<and>
      peers (init_mastered 0 u ?ps (None :: nat json saved_state option)) = ?ps \<and>
      quorum_size (init_mastered 0 u ?ps (None :: nat json saved_state option)) = quorum_of ?ps"
    by code_simp
  have n: "\<forall>u\<in>set ?ps. master_advance 1 1 (Some (Packed (Some (UInt 3)) None))
      (init_mastered 0 u ?ps None) = (granted u, Ret ()) \<and> master_uid (granted u) = Some (UInt 3)"
    using granted_ready by simp
  have q: "distinct [UInt 1, UInt 2]" "length [UInt 1, UInt 2] = quorum_of ?ps"
    by (simp_all add: quorum_of_def)
  show ?thesis
    using master_one_round[OF m b n q, of 7 2 0 2] by (simp add: Let_def)
qed

subsection \<open>Loops that nothing stops\<close>

fun master_run :: "(rat \<times> 'a master_event) list \<Rightarrow> 'a mastered \<Rightarrow> 'a mastered" where
  "master_run [] n = n"
| "master_run ((now, e) # es) n = master_run es (fst (master_step now e n))"

text \<open>Nothing a node does takes a loop from \<open>loose_loops\<close>, or changes who it is.\<close>

definition keeps_loops :: "'a mastered \<Rightarrow> 'a mastered \<Rightarrow> bool" where
  "keeps_loops n n' \<longleftrightarrow> (\<exists>ls. loose_loops n' = loose_loops n @ ls) \<and>
     peers n' = peers n \<and> network_uid n' = network_uid n"

lemma keeps_loops_refl: "keeps_loops n n"
  by (simp add: keeps_loops_def)

lemma keeps_loops_trans [trans]: "keeps_loops n n' \<Longrightarrow> keeps_loops n' n'' \<Longrightarrow> keeps_loops n n''"
  by (auto simp: keeps_loops_def)

lemma keeps_loops_fields:
  "loose_loops n' = loose_loops n \<Longrightarrow> peers n' = peers n \<Longrightarrow> network_uid n' = network_uid n
     \<Longrightarrow> keeps_loops n n'"
  by (simp add: keeps_loops_def)

lemma driven_loops [frame_simps, simp]:
  "loose_loops (stop_driving n) = loose_loops n"
  "loose_loops (send_accept b v n) = loose_loops n"
  "loose_loops (drive_to_resolution n) = loose_loops n"
  "loose_loops (base_propose_update v n) = loose_loops n"
  "loose_loops (advance_instance i v n) = loose_loops n"
  by (simp_all add: stop_driving_def send_accept_def drive_to_resolution_def base_propose_update_def
      advance_instance_def base_advance_instance_def save_state_def sending Let_def split_beta
      split: paxos_msg.split)

lemma master_drive_loops: "keeps_loops n (master_drive n)"
  by (simp add: keeps_loops_def master_drive_def Let_def)

lemma super_propose_loops: "keeps_loops n (super_propose_update v n)"
  unfolding super_propose_update_def
  by (rule keeps_loops_trans[OF _ master_drive_loops]) (simp add: keeps_loops_def)

lemma propose_lease_loops: "keeps_loops n (propose_lease now n)"
  unfolding propose_lease_def
  by (auto intro!: keeps_loops_trans[OF _ super_propose_loops] keeps_loops_refl keeps_loops_fields
      simp: start_master_lease_timer_def)

lemma update_lease_loops: "keeps_loops n (update_lease now m n)"
  unfolding update_lease_def start_master_lease_timer_def Let_def
  by (auto intro!: keeps_loops_trans[OF _ propose_lease_loops] keeps_loops_fields)

lemma master_advance_loops: "keeps_loops n (fst (master_advance now i cur n))"
proof (cases "loads cur")
  case (Ret t)
  obtain t0 t1 where t: "t = (t0, t1)" by (cases t)
  let ?n1 = "case t0 of None \<Rightarrow> n\<lparr>master_attempt := False\<rparr>
     | Some u \<Rightarrow> update_lease now (Some u) (n\<lparr>master_attempt := False\<rparr>)"
  have "keeps_loops n ?n1"
    by (cases t0) (auto intro!: keeps_loops_fields keeps_loops_trans[OF _ update_lease_loops])
  then show ?thesis
    by (rule keeps_loops_trans)
       (auto simp: master_advance_def Ret t keeps_loops_def Let_def split_beta split: option.split)
qed (simp add: master_advance_def keeps_loops_def)

lemma master_step_loops: "keeps_loops n (fst (master_step now e n))"
proof (cases e)
  case (Client v)
  then show ?thesis by (auto simp: propose_application_def intro: super_propose_loops keeps_loops_refl)
next
  case Lease_Timer
  then show ?thesis
    by (auto simp: fire_lease_def lease_expired_def split: option.split
        intro!: keeps_loops_trans[OF _ propose_lease_loops] keeps_loops_fields)
next
  case (Renewal k)
  then show ?thesis
    by (auto simp: fire_renewal_def intro!: keeps_loops_trans[OF _ propose_lease_loops] keeps_loops_fields)
next
  case Redrive
  then show ?thesis
    by (auto split: option.split intro!: keeps_loops_trans[OF _ master_drive_loops] keeps_loops_fields)
next
  case (Packet rnd f w)
  show ?thesis
  proof (cases w)
    case (WAccepted i b v)
    have "keeps_loops n (fst (master_receive_accepted now f i b v n))"
      by (auto simp: master_receive_accepted_def Let_def split_beta keeps_loops_fields
          split: outcome.split option.split paxos_msg.split
          intro!: keeps_loops_trans[OF _ master_advance_loops] intro: keeps_loops_fields)
    then show ?thesis by (simp add: Packet WAccepted)
  qed (simp_all add: Packet keeps_loops_def master_receive_prepare_def master_receive_accept_def base_handlers
      driven_handlers sending save_state_def split_beta Let_def receive_catchup_def master_catchup_def
      split: paxos_msg.splits outcome.splits option.splits)
qed (auto simp: keeps_loops_def fire_retransmit_def fire_loose_def send_sync_def sending
    split: option.split retransmit.split)

lemma master_run_loops: "keeps_loops n (master_run es n)"
proof (induction es arbitrary: n)
  case (Cons e es)
  obtain now ev where "e = (now, ev)" by (cases e)
  then show ?case using keeps_loops_trans[OF master_step_loops Cons.IH] by simp
qed (simp add: keeps_loops_refl)

text \<open>A master never stops asking for its old values.  \<open>drive_to_resolution\<close> overwrites the
  loop that \<open>send_accept\<close> has started, so whatever happens afterwards, in whatever
  instance the node then is and whoever is master, the reactor still runs a loop that sends
  every peer an Accept of proposal 1 with this value for the instance of that time.\<close>

lemma old_value_sent_for_ever:
  assumes "under_lease (network_uid n) i n"
  shows "let later = master_run es (propose_application v n) in
    outbox (fst (master_step now (Resend_Loose (length (loose_loops n))) later)) =
    outbox later @ map (\<lambda>u. (u, WAccept (instance_number later) (ProposalID 1 (network_uid n))
      (Some (Packed None (Some (Plain v)))))) (peers n)"
proof -
  have "loose_loops (propose_application v n) = loose_loops n @
      [RetransmitAccept (ProposalID 1 (network_uid n)) (Some (Packed None (Some (Plain v))))]"
    using assms
    by (simp add: under_lease_def propose_application_def super_propose_update_def master_drive_def
        base_propose_update_def propose_value_def paxos_propose_value_def Let_def split_beta)
  moreover have "keeps_loops (propose_application v n) (master_run es (propose_application v n))"
    by (rule master_run_loops)
  ultimately show ?thesis
    using propose_under_lease(6,7)[OF assms, of v]
    by (auto simp: keeps_loops_def fire_loose_def nth_append sending Let_def)
qed

subsection \<open>A cluster with a clock\<close>

text \<open>As in \<open>Paxos_Network\<close>: a packet arrives only if it was sent, at any later time or
  never.  The clocks of the nodes agree and do not go back; a node is started at a time of its own.\<close>

record 'a master_network =
  clock :: rat
  master_node :: "uid \<Rightarrow> 'a mastered"
  packets :: "(uid \<times> uid \<times> 'a json wire) list"

definition init_master_network :: "(uid \<Rightarrow> rat) \<Rightarrow> uid list \<Rightarrow> 'a master_network" where
  "init_master_network start ps =
     \<lparr>clock = 0, master_node = (\<lambda>u. init_mastered (start u) u ps None), packets = []\<rparr>"

fun master_enabled :: "rat \<Rightarrow> uid \<Rightarrow> 'a master_event \<Rightarrow> 'a master_network \<Rightarrow> bool" where
  "master_enabled now u (Packet rnd f w) s \<longleftrightarrow> clock s \<le> now \<and> (f, u, w) \<in> set (packets s)"
| "master_enabled now u _ s \<longleftrightarrow> clock s \<le> now"

definition master_happens :: "rat \<Rightarrow> uid \<Rightarrow> 'a master_event \<Rightarrow> 'a master_network \<Rightarrow> 'a master_network" where
  "master_happens now u e s =
     (let n = fst (master_step now e (master_node s u)) in
      s\<lparr>clock := now, master_node := (master_node s)(u := n\<lparr>outbox := []\<rparr>),
        packets := packets s @ map (\<lambda>(d, w). (u, d, w)) (outbox n)\<rparr>)"

fun master_net_run ::
  "(rat \<times> uid \<times> 'a master_event) list \<Rightarrow> 'a master_network \<Rightarrow> 'a master_network option" where
  "master_net_run [] s = Some s"
| "master_net_run ((now, u, e) # es) s =
     (if master_enabled now u e s then master_net_run es (master_happens now u e s) else None)"

text \<open>
  Node 3 starts at 0 and the others at 5.  At 10 node 3 asks for the lease and gets it; at 12 a
  client gives it the value 7, which nodes 1 and 2 accept, and at 13, after the instance is
  resolved at node 3, the value 8, whose Accept reaches node 2 late.  Nodes 1 and 2 hear each
  other's Accepted only at 22, after their leases of node 3 have ended, so they enter instance 2
  without promising it to node 3, and at 31 they resolve it under proposal 1 of node 1, which is
  lower than that of node 3.  Every lease timer fires when it is due; the other timers would only
  send more packets that are lost.
\<close>

definition lease_schedule :: "(rat \<times> uid \<times> nat master_event) list" where
  "lease_schedule =
     (let a = UInt 1; b = UInt 2; c = UInt 3; pc = ProposalID 1 c; pa = ProposalID 1 a;
          lc = Some (Packed (Some c) None); la = Some (Packed (Some a) None);
          v = Some (Packed None (Some (Plain 7))); w = Some (Packed None (Some (Plain 8))) in
      [(10, c, Lease_Timer),
       (10, a, Packet 0 c (WPrepare 0 pc)), (10, b, Packet 0 c (WPrepare 0 pc)),
       (10, c, Packet 0 a (WPromise 0 pc None None)), (10, c, Packet 0 b (WPromise 0 pc None None)),
       (10, a, Packet 0 c (WAccept 0 pc lc)), (10, b, Packet 0 c (WAccept 0 pc lc)),
       (11, a, Packet 0 a (WAccepted 0 pc lc)), (11, a, Packet 0 b (WAccepted 0 pc lc)),
       (11, b, Packet 0 a (WAccepted 0 pc lc)), (11, b, Packet 0 b (WAccepted 0 pc lc)),
       (11, c, Packet 0 a (WAccepted 0 pc lc)), (11, c, Packet 0 b (WAccepted 0 pc lc)),
       (12, c, Client 7),
       (12, a, Packet 0 c (WAccept 1 pc v)), (12, b, Packet 0 c (WAccept 1 pc v)),
       (12, c, Packet 0 a (WAccepted 1 pc v)), (12, c, Packet 0 b (WAccepted 1 pc v)),
       (13, c, Client 8),
       (13, c, Packet 0 c (WAccept 2 pc w)),
       (19, c, Renewal 0),
       (21, a, Lease_Timer), (21, b, Lease_Timer),
       (22, a, Packet 0 a (WAccepted 1 pc v)), (22, a, Packet 0 b (WAccepted 1 pc v)),
       (22, b, Packet 0 a (WAccepted 1 pc v)), (22, b, Packet 0 b (WAccepted 1 pc v)),
       (29, c, Lease_Timer),
       (31, a, Lease_Timer),
       (31, a, Packet 0 a (WPrepare 2 pa)), (31, b, Packet 0 a (WPrepare 2 pa)),
       (31, a, Packet 0 a (WPromise 2 pa None None)), (31, a, Packet 0 b (WPromise 2 pa None None)),
       (31, a, Packet 0 a (WAccept 2 pa la)), (31, b, Packet 0 a (WAccept 2 pa la)),
       (31, a, Packet 0 a (WAccepted 2 pa la)), (31, a, Packet 0 b (WAccepted 2 pa la)),
       (31, b, Lease_Timer),
       (32, b, Packet 0 c (WAccept 2 pc w)),
       (32, c, Packet 0 c (WAccepted 2 pc w)), (32, c, Packet 0 b (WAccepted 2 pc w))])"

text \<open>C10: agreement depends on the lease's clock.  Under a dedicated master packets that are
  late, with no failure and with clocks that agree, let two nodes of three resolve the same
  instance to different values: nodes 1 and 3 are both past instance 2, node 1 with the value
  7 it had and the lease for itself, node 3 with the value 8.\<close>

theorem lease_breaks_agreement:
  "map_option (\<lambda>s. map (\<lambda>u. (instance_number (master_node s u), current_value (master_node s u)))
       [UInt 1, UInt 2, UInt 3])
     (master_net_run lease_schedule
       (init_master_network (\<lambda>u. if u = UInt 3 then 0 else 5) [UInt 1, UInt 2, UInt 3]))
   = Some [(3, Some (Plain 7)), (2, Some (Plain 7)), (3, Some (Plain 8))]"
  by code_simp

end
