(* ===== verification/Messenger_Text.thy ===== *)
theory Messenger_Text
  imports Paxos_Node "HOL-Library.Multiset"
begin

section \<open>Datagrams\<close>

text \<open>
  Class \<open>Messenger\<close> of \<open>paxos/messenger.py\<close> below the packets of \<open>Paxos_Node\<close>: the
  keywords under which \<open>send_...\<close> puts the parts of a packet into a JSON object, and what
  \<open>datagramReceived\<close> makes of the text that arrives; and the clients that send
  \<open>propose\<close> datagrams (\<open>paxos/client.py\<close>, \<open>paxos/custom_client.py\<close>).  The text of a
  JSON value is the value; the values that are replicated are strings.
\<close>

subsection \<open>JSON objects\<close>

datatype json_value = Null | Num int | Txt string | Arr "json_value list"

type_synonym json_object = "(string \<times> json_value) list"

text \<open>A \<open>ProposalID\<close> is a tuple, which JSON writes as a list.\<close>

fun json_uid :: "uid \<Rightarrow> json_value" where
  "json_uid (UInt i) = Num i"
| "json_uid (UStr s) = Txt s"

definition json_id :: "proposal_id option \<Rightarrow> json_value" where
  "json_id x = (case x of None \<Rightarrow> Null | Some b \<Rightarrow> Arr [Num (number b), json_uid (uid_of b)])"

definition json_text :: "string option \<Rightarrow> json_value" where
  "json_text v = (case v of None \<Rightarrow> Null | Some s \<Rightarrow> Txt s)"

text \<open>The message type and the keywords of each \<open>send_\<close> method.\<close>

fun send_kwargs :: "string wire \<Rightarrow> string \<times> json_object" where
  "send_kwargs (WSyncRequest i) = (''sync_request'', [(''instance_number'', Num i)])"
| "send_kwargs (WCatchup i cur) =
     (''catchup'', [(''instance_number'', Num i), (''current_value'', json_text cur)])"
| "send_kwargs (WNack i b promised) =
     (''nack'', [(''instance_number'', Num i), (''proposal_id'', json_id (Some b)),
                (''promised_proposal_id'', json_id promised)])"
| "send_kwargs (WPrepare i b) =
     (''prepare'', [(''instance_number'', Num i), (''proposal_id'', json_id (Some b))])"
| "send_kwargs (WPromise i b la lv) =
     (''promise'', [(''instance_number'', Num i), (''proposal_id'', json_id (Some b)),
                   (''last_accepted_id'', json_id la), (''last_accepted_value'', json_text lv)])"
| "send_kwargs (WAccept i b v) =
     (''accept'', [(''instance_number'', Num i), (''proposal_id'', json_id (Some b)),
                  (''proposal_value'', json_text v)])"
| "send_kwargs (WAccepted i b v) =
     (''accepted'', [(''instance_number'', Num i), (''proposal_id'', json_id (Some b)),
                    (''proposal_value'', json_text v)])"

subsection \<open>Arguments of a handler\<close>

text \<open>
  An argument after the loop over the keywords: one whose name ends in \<open>_id\<close> and that is not
  null has become a \<open>ProposalID\<close>.  Lists of another shape, which no \<open>send_\<close> method
  writes, are an exception here.
\<close>

datatype argument = Plain_Arg json_value | Id_Arg proposal_id

definition ends_in_id :: "string \<Rightarrow> bool" where
  "ends_in_id k \<longleftrightarrow> drop (length k - 3) k = ''_id''"

fun uid_json :: "json_value \<Rightarrow> uid option" where
  "uid_json (Num i) = Some (UInt i)"
| "uid_json (Txt s) = Some (UStr s)"
| "uid_json _ = None"

fun proposal_of :: "json_value \<Rightarrow> argument option" where
  "proposal_of (Arr [Num n, u]) = map_option (\<lambda>w. Id_Arg (ProposalID n w)) (uid_json u)"
| "proposal_of _ = None"

definition convert :: "string \<Rightarrow> json_value \<Rightarrow> argument option" where
  "convert k x = (if ends_in_id k \<and> x \<noteq> Null then proposal_of x else Some (Plain_Arg x))"

fun convert_all :: "json_object \<Rightarrow> (string \<times> argument) list option" where
  "convert_all [] = Some []"
| "convert_all ((k, x) # kw) =
     (case (convert k x, convert_all kw) of (Some a, Some as) \<Rightarrow> Some ((k, a) # as) | _ \<Rightarrow> None)"

fun int_arg :: "argument option \<Rightarrow> int option" where
  "int_arg (Some (Plain_Arg (Num i))) = Some i"
| "int_arg _ = None"

fun id_arg :: "argument option \<Rightarrow> proposal_id option" where
  "id_arg (Some (Id_Arg b)) = Some b"
| "id_arg _ = None"

fun optional_id_arg :: "argument option \<Rightarrow> proposal_id option option" where
  "optional_id_arg (Some (Id_Arg b)) = Some (Some b)"
| "optional_id_arg (Some (Plain_Arg Null)) = Some None"
| "optional_id_arg _ = None"

fun text_arg :: "argument option \<Rightarrow> string option option" where
  "text_arg (Some (Plain_Arg (Txt s))) = Some (Some s)"
| "text_arg (Some (Plain_Arg Null)) = Some None"
| "text_arg _ = None"

text \<open>The parameters of the handler methods, without \<open>from_uid\<close>.\<close>

definition parameters :: "string \<Rightarrow> string list option" where
  "parameters = map_of
     [(''sync_request'', [''instance_number'']),
      (''catchup'', [''instance_number'', ''current_value'']),
      (''nack'', [''instance_number'', ''proposal_id'', ''promised_proposal_id'']),
      (''prepare'', [''instance_number'', ''proposal_id'']),
      (''promise'', [''instance_number'', ''proposal_id'', ''last_accepted_id'', ''last_accepted_value'']),
      (''accept'', [''instance_number'', ''proposal_id'', ''proposal_value'']),
      (''accepted'', [''instance_number'', ''proposal_id'', ''proposal_value''])]"

text \<open>\<open>handler(from_uid, **kwargs)\<close>: the names must be the parameters, in any order.\<close>

definition handler_call :: "string \<Rightarrow> (string \<times> argument) list \<Rightarrow> string wire option" where
  "handler_call t as =
     (let i = int_arg (map_of as ''instance_number''); b = id_arg (map_of as ''proposal_id'');
          v = text_arg (map_of as ''proposal_value'') in
      if map_option set (parameters t) \<noteq> Some (fst ` set as) \<or> \<not> distinct (map fst as) then None
      else if t = ''sync_request'' then map_option WSyncRequest i
      else if t = ''catchup'' then
        Option.bind i (\<lambda>i. map_option (WCatchup i) (text_arg (map_of as ''current_value'')))
      else if t = ''nack'' then
        Option.bind i (\<lambda>i. Option.bind b (\<lambda>b.
          map_option (WNack i b) (optional_id_arg (map_of as ''promised_proposal_id''))))
      else if t = ''prepare'' then Option.bind i (\<lambda>i. map_option (WPrepare i) b)
      else if t = ''promise'' then
        Option.bind i (\<lambda>i. Option.bind b (\<lambda>b.
          Option.bind (optional_id_arg (map_of as ''last_accepted_id'')) (\<lambda>la.
            map_option (WPromise i b la) (text_arg (map_of as ''last_accepted_value'')))))
      else if t = ''accept'' then Option.bind i (\<lambda>i. Option.bind b (\<lambda>b. map_option (WAccept i b) v))
      else if t = ''accepted'' then Option.bind i (\<lambda>i. Option.bind b (\<lambda>b. map_option (WAccepted i b) v))
      else None)"

subsection \<open>Receiving\<close>

text \<open>
  What can arrive: a text that starts with \<open>propose\<close> and a blank, a message type and a JSON
  object, or anything else.  Whatever is raised is caught.
\<close>

datatype datagram = Proposal_Text string | Json_Message string json_object | Other_Text string

type_synonym address = "string \<times> nat"

text \<open>\<open>addrs\<close> maps names to addresses and addresses to names, in one dictionary whose keys of the
  two kinds never coincide: two maps here.  \<open>endpoints\<close> are the items of \<open>peer_addresses\<close> in
  the order of the dictionary; a later item overwrites an earlier one with its address.\<close>

record messenger =
  address_of :: "uid \<Rightarrow> address option"
  uid_at :: "address \<Rightarrow> uid option"

definition init_messenger :: "(uid \<times> address) list \<Rightarrow> messenger" where
  "init_messenger endpoints =
     \<lparr>address_of = map_of endpoints, uid_at = fold (\<lambda>(k, v) m. m(v \<mapsto> k)) endpoints Map.empty\<rparr>"

definition datagram_received ::
  "(address \<Rightarrow> uid option) \<Rightarrow> rat \<Rightarrow> datagram \<Rightarrow> address \<Rightarrow> string node \<Rightarrow> string node" where
  "datagram_received addrs rnd packet from_addr n =
     (case packet of
        Proposal_Text data \<Rightarrow> propose_update (Some data) n
      | Other_Text _ \<Rightarrow> n
      | Json_Message message_type kw \<Rightarrow>
          (case addrs from_addr of
             None \<Rightarrow> n
           | Some sender \<Rightarrow>
               (case Option.bind (convert_all kw) (handler_call message_type) of
                  None \<Rightarrow> n
                | Some w \<Rightarrow> fst (handle_message rnd sender w n))))"

definition send_text :: "string wire \<Rightarrow> datagram" where
  "send_text w = (case send_kwargs w of (t, kw) \<Rightarrow> Json_Message t kw)"

text \<open>\<open>_send\<close>: the datagram that is written, and where to.\<close>

definition send_packet :: "messenger \<Rightarrow> uid \<Rightarrow> string wire \<Rightarrow> (datagram \<times> address) outcome" where
  "send_packet m to_uid w =
     (case address_of m to_uid of None \<Rightarrow> Raise KeyError | Some a \<Rightarrow> Ret (send_text w, a))"

subsection \<open>Clients\<close>

text \<open>\<open>ClientProtocol.startProtocol\<close> of both clients.\<close>

definition client_datagram :: "string \<Rightarrow> datagram" where
  "client_datagram new_value = Proposal_Text new_value"

text \<open>\<open>ReactorThread\<close> of \<open>custom_client.py\<close>: other threads add items or stop it between the turns of
  \<open>append_from_queue\<close>, which takes the item added last; \<open>written\<close> is what it has sent.\<close>

record reactor_thread =
  spin :: bool
  queue :: "string list"
  written :: "datagram list"

datatype thread_event = Add_Item string | Loop_Turn | Stop_Thread

definition init_thread :: reactor_thread where
  "init_thread = \<lparr>spin = True, queue = [], written = []\<rparr>"

fun thread_step :: "thread_event \<Rightarrow> reactor_thread \<Rightarrow> reactor_thread" where
  "thread_step (Add_Item v) r = r\<lparr>queue := queue r @ [v]\<rparr>"
| "thread_step Loop_Turn r =
     (if spin r \<and> length (queue r) > 0
      then r\<lparr>queue := butlast (queue r), written := written r @ [client_datagram (last (queue r))]\<rparr>
      else r)"
| "thread_step Stop_Thread r = r\<lparr>spin := False\<rparr>"

fun items_added :: "thread_event list \<Rightarrow> string list" where
  "items_added [] = []"
| "items_added (Add_Item v # es) = v # items_added es"
| "items_added (e # es) = items_added es"

text \<open>Every item is sent once or is still in the queue, where it stays when the thread is stopped.\<close>

lemma thread_conserves:
  "mset (written (fold thread_step es r)) + image_mset client_datagram (mset (queue (fold thread_step es r))) =
   mset (written r) + image_mset client_datagram (mset (queue r)) + image_mset client_datagram (mset (items_added es))"
proof (induction es arbitrary: r)
  case (Cons e es)
  show ?case
  proof (cases e)
    case Loop_Turn
    have "image_mset client_datagram (mset (butlast (queue r))) + {#client_datagram (last (queue r))#} =
        image_mset client_datagram (mset (queue r))" if "queue r \<noteq> []"
      using arg_cong[OF append_butlast_last_id[OF that], of "\<lambda>q. image_mset client_datagram (mset q)"] by simp
    then show ?thesis using Cons[of "thread_step e r"] by (cases "queue r = []") (simp_all add: Loop_Turn)
  qed (use Cons[of "thread_step e r"] in simp_all)
qed simp

lemma last_added_first: "spin r \<Longrightarrow>
    written (fold thread_step (map Add_Item vs @ replicate (length vs) Loop_Turn) r) =
      written r @ map client_datagram (rev vs)"
proof -
  assume r: "spin r"
  have add: "fold thread_step (map Add_Item vs) r = r\<lparr>queue := queue r @ vs\<rparr>" for vs and r :: reactor_thread
    by (induction vs arbitrary: r) simp_all
  have turns: "written (fold thread_step (replicate (length vs) Loop_Turn) r) = written r @ map client_datagram (rev vs)"
    if "spin r" "queue r = q @ vs" for vs q and r :: reactor_thread
    using that by (induction vs arbitrary: r rule: rev_induct) (simp_all add: butlast_append)
  show ?thesis using turns[of "r\<lparr>queue := queue r @ vs\<rparr>" "queue r" vs] r by (simp add: add)
qed

subsection \<open>What is sent is what is received\<close>

lemma id_names:
  "ends_in_id ''proposal_id''" "ends_in_id ''promised_proposal_id''" "ends_in_id ''last_accepted_id''"
  "\<not> ends_in_id ''instance_number''" "\<not> ends_in_id ''current_value''" "\<not> ends_in_id ''proposal_value''"
  "\<not> ends_in_id ''last_accepted_value''"
  by (simp_all add: ends_in_id_def)

lemma uid_json_uid: "uid_json (json_uid u) = Some u"
  by (cases u) simp_all

lemma convert_id:
  "ends_in_id k \<Longrightarrow> convert k (json_id x) = Some (case x of None \<Rightarrow> Plain_Arg Null | Some b \<Rightarrow> Id_Arg b)"
  by (cases x) (auto simp: convert_def json_id_def uid_json_uid split: option.splits)

lemma convert_plain: "\<not> ends_in_id k \<Longrightarrow> convert k x = Some (Plain_Arg x)"
  by (simp add: convert_def)

lemma arg_back:
  "optional_id_arg (Some (case x of None \<Rightarrow> Plain_Arg Null | Some b \<Rightarrow> Id_Arg b)) = Some x"
  "text_arg (Some (Plain_Arg (json_text v))) = Some v"
  by (cases x; simp) (cases v; simp add: json_text_def)

lemma wire_roundtrip: "(case send_kwargs w of (t, kw) \<Rightarrow> Option.bind (convert_all kw) (handler_call t)) = Some w"
  by (cases w) (simp_all add: convert_id convert_plain id_names handler_call_def parameters_def arg_back)

lemma uid_at_other:
  "a \<notin> snd ` set endpoints \<Longrightarrow> fold (\<lambda>(k, v) m. m(v \<mapsto> k)) endpoints m a = m a"
  by (induction endpoints arbitrary: m) auto

lemma uid_at_fold:
  "distinct (map snd endpoints) \<Longrightarrow> (u, a) \<in> set endpoints \<Longrightarrow>
   fold (\<lambda>(k, v) m. m(v \<mapsto> k)) endpoints m a = Some u"
  by (induction endpoints arbitrary: m) (auto simp: uid_at_other)

lemma uid_at_peer:
  "distinct (map snd endpoints) \<Longrightarrow> (u, a) \<in> set endpoints \<Longrightarrow> uid_at (init_messenger endpoints) a = Some u"
  by (simp add: init_messenger_def uid_at_fold)

text \<open>C36: the wire format.  Let all peers have different names and addresses.  What a node sends to
  a peer goes to the peer's address; and when the text of a packet of any kind arrives there from
  the sender's address, its whole effect is the call of the handler of this kind, with the same
  sender, instance number, proposal ids and values, also where these are missing.\<close>

theorem messenger_roundtrip:
  assumes "distinct (map fst endpoints)" "distinct (map snd endpoints)" "(u, a) \<in> set endpoints" "(v, b) \<in> set endpoints"
  shows "send_packet (init_messenger endpoints) v w = Ret (send_text w, b) \<and>
    datagram_received (uid_at (init_messenger endpoints)) rnd (send_text w) a n = fst (handle_message rnd u w n)"
proof
  show "send_packet (init_messenger endpoints) v w = Ret (send_text w, b)"
    using assms(1,4) by (simp add: send_packet_def init_messenger_def)
  show "datagram_received (uid_at (init_messenger endpoints)) rnd (send_text w) a n = fst (handle_message rnd u w n)"
    using wire_roundtrip[of w] uid_at_peer[OF assms(2,3)]
    by (simp add: datagram_received_def send_text_def split: prod.splits)
qed

theorem messenger_roundtrip_witness:
  "\<forall>n. datagram_received (uid_at (init_messenger [(UStr ''A'', ''127.0.0.1'', 1234), (UStr ''B'', ''127.0.0.1'', 1235)])) 0
     (Json_Message ''prepare'' [(''instance_number'', Num 0), (''proposal_id'', Arr [Num 1, Txt ''A''])])
     (''127.0.0.1'', 1234) n = base_receive_prepare (UStr ''A'') 0 (ProposalID 1 (UStr ''A'')) n"
proof
  fix n :: "string node"
  show "datagram_received (uid_at (init_messenger [(UStr ''A'', ''127.0.0.1'', 1234), (UStr ''B'', ''127.0.0.1'', 1235)])) 0
     (Json_Message ''prepare'' [(''instance_number'', Num 0), (''proposal_id'', Arr [Num 1, Txt ''A''])])
     (''127.0.0.1'', 1234) n = base_receive_prepare (UStr ''A'') 0 (ProposalID 1 (UStr ''A'')) n"
    using messenger_roundtrip[of "[(UStr ''A'', ''127.0.0.1'', 1234), (UStr ''B'', ''127.0.0.1'', 1235)]"
        "UStr ''A''" "(''127.0.0.1'', 1234)" "UStr ''B''" "(''127.0.0.1'', 1235)" "WPrepare 0 (ProposalID 1 (UStr ''A''))" 0 n]
    by (simp add: send_text_def json_id_def)
qed

end
