(* ===== verification/Test_Daemon.thy ===== *)
theory Test_Daemon
  imports Prelude Complex_Main
begin

section \<open>Measuring an operation\<close>

text \<open>
  \<open>test_daemon.py\<close> for a cluster: \<open>cluster_append_entry\<close> asks a node to append a value and
  waits in a loop until another thread, serving \<open>cluster_append_complete\<close>, has set the global
  \<open>CLUSTER_ACK\<close> to the time of the completion.  The node gives the time of the request, and
  later of the completion.  Floats are rational numbers.
\<close>

record measuring =
  cluster_ack :: "rat option"
  asked_at :: "rat option"            \<comment> \<open>the node's answer, while \<open>cluster_append_entry\<close> waits\<close>
  results :: "rat list"
  wanted :: nat                       \<comment> \<open>\<open>times\<close>\<close>

text \<open>\<open>append_entry\<close> returns or raises, which \<open>run\<close> logs before it tries again; a completion
  arrives; the waiting loop looks.\<close>

datatype measuring_event = Appended "rat outcome" | Completed rat | Looks

fun measuring_step :: "measuring_event \<Rightarrow> measuring \<Rightarrow> measuring" where
  "measuring_step (Appended r) m =
     (if asked_at m = None \<and> length (results m) < wanted m
      then (case r of Ret t \<Rightarrow> m\<lparr>asked_at := Some t\<rparr> | Raise e \<Rightarrow> m)
      else m)"
| "measuring_step (Completed t) m = m\<lparr>cluster_ack := Some t\<rparr>"
| "measuring_step Looks m =
     (case (asked_at m, cluster_ack m) of
        (Some res, Some ack) \<Rightarrow>
          m\<lparr>results := results m @ [ack - res], cluster_ack := None, asked_at := None\<rparr>
      | _ \<Rightarrow> m)"

definition init_measuring :: "nat \<Rightarrow> measuring" where
  "init_measuring n = \<lparr>cluster_ack = None, asked_at = None, results = [], wanted = n\<rparr>"

text \<open>Operations one after the other: each is asked for at \<open>t\<close>, maybe looked at in vain, completed
  at \<open>c\<close>, and looked at.\<close>

fun in_turn :: "(rat \<times> nat \<times> rat) list \<Rightarrow> measuring_event list" where
  "in_turn [] = []"
| "in_turn ((t, looks, c) # ops) =
     Appended (Ret t) # replicate looks Looks @ [Completed c, Looks] @ in_turn ops"

lemma looks_in_vain:
  "cluster_ack m = None \<Longrightarrow> fold measuring_step (replicate k Looks) m = m"
  by (induction k) (simp_all split: option.split)

text \<open>Each measurement is the time from the request to its own completion.\<close>

lemma asked_for:
  "asked_at m = None \<Longrightarrow> length (results m) < wanted m \<Longrightarrow>
   measuring_step (Appended (Ret t)) m = m\<lparr>asked_at := Some t\<rparr>"
  by simp

lemma one_operation:
  assumes "cluster_ack m = None" "asked_at m = None" "length (results m) < wanted m"
  shows "fold measuring_step (Appended (Ret t) # replicate k Looks @ [Completed c, Looks]) m =
    m\<lparr>results := results m @ [c - t]\<rparr>"
proof -
  let ?m = "m\<lparr>asked_at := Some t\<rparr>"
  have "fold measuring_step (replicate k Looks) ?m = ?m" using assms(1) by (intro looks_in_vain) simp
  then have "fold measuring_step (Appended (Ret t) # replicate k Looks @ [Completed c, Looks]) m =
      fold measuring_step [Completed c, Looks] ?m"
    by (simp only: fold.simps fold_append comp_apply asked_for[OF assms(2,3)])
  then show ?thesis using assms by simp
qed

lemma measures_operations:
  assumes "cluster_ack m = None" "asked_at m = None" "length (results m) + length ops \<le> wanted m"
  shows "results (fold measuring_step (in_turn ops) m) = results m @ map (\<lambda>(t, looks, c). c - t) ops"
  using assms
proof (induction ops arbitrary: m)
  case (Cons op ops)
  obtain t k c where op: "op = (t, k, c)" by (cases op)
  let ?m = "m\<lparr>results := results m @ [c - t]\<rparr>"
  have "in_turn (op # ops) = (Appended (Ret t) # replicate k Looks @ [Completed c, Looks]) @ in_turn ops"
    by (simp add: op)
  then have step: "fold measuring_step (in_turn (op # ops)) m = fold measuring_step (in_turn ops) ?m"
    using one_operation[of m t k c] Cons.prems by (simp only: fold_append comp_apply) simp
  show ?case unfolding step using Cons.IH[of ?m] Cons.prems by (simp add: op)
qed simp

text \<open>A completion that comes when nobody waits for it, the second one of an operation or one whose
  request had raised, shifts every measurement after it: each operation is taken to be completed
  when the one before it was.\<close>

fun shifted :: "rat \<Rightarrow> (rat \<times> rat) list \<Rightarrow> rat list" where
  "shifted c0 [] = []"
| "shifted c0 ((t, c) # ops) = (c0 - t) # shifted c ops"

lemma stray_completion_shifts:
  assumes "asked_at m = None" "length (results m) + length ops \<le> wanted m" "cluster_ack m = Some c0"
  shows "results (fold measuring_step (concat (map (\<lambda>(t, c). [Appended (Ret t), Looks, Completed c]) ops)) m) =
    results m @ shifted c0 ops"
  using assms
proof (induction ops arbitrary: m c0)
  case (Cons op ops)
  obtain t c where op: "op = (t, c)" by (cases op)
  let ?m = "m\<lparr>results := results m @ [c0 - t], asked_at := None, cluster_ack := Some c\<rparr>"
  have "fold measuring_step [Appended (Ret t), Looks, Completed c] m = ?m" using Cons.prems by simp
  then show ?case using Cons.IH[of ?m c] Cons.prems by (simp add: op)
qed simp

lemma stray_completion_negative:
  assumes "\<forall>i<length ops. (if i = 0 then c0 else snd (ops ! (i - 1))) < fst (ops ! i)"
  shows "\<forall>x\<in>set (shifted c0 ops). x < 0"
  using assms
proof (induction ops arbitrary: c0)
  case (Cons op ops)
  obtain t c where op: "op = (t, c)" by (cases op)
  have "\<forall>i<length ops. (if i = 0 then c else snd (ops ! (i - 1))) < fst (ops ! i)"
  proof (intro allI impI)
    fix i assume "i < length ops"
    then show "(if i = 0 then c else snd (ops ! (i - 1))) < fst (ops ! i)"
      using Cons.prems[rule_format, of "Suc i"] by (cases i) (simp_all add: op)
  qed
  then show ?case using Cons.IH[of c] Cons.prems[rule_format, of 0] by (simp add: op)
qed simp

subsection \<open>The function that appends\<close>

text \<open>\<open>TestManager.__init__\<close> sets \<open>appendFunction\<close> by the algorithm; for any other
  algorithm the attribute is missing.  The daemon is started with two quotes or nothing as its
  host on one machine.\<close>

datatype append_function =
    Rethinkdb_Append string           \<comment> \<open>port of the local driver\<close>
  | Cluster_Append string             \<comment> \<open>host of the node that is asked\<close>
  | Datastore_Append

definition append_function_of :: "string \<Rightarrow> string \<Rightarrow> string \<Rightarrow> append_function option" where
  "append_function_of algorithm_host algorithm algorithm_port =
     (if algorithm = ''rethinkdb'' then Some (Rethinkdb_Append algorithm_port)
      else if algorithm = ''paxos'' \<or> algorithm = ''pso'' then
        Some (Cluster_Append (if algorithm_host = [CHR 39, CHR 39] \<or> algorithm_host = []
          then ''127.0.0.1'' else algorithm_host))
      else if algorithm = ''datastore'' then Some Datastore_Append
      else None)"

text \<open>\<open>rethinkdb_append_entry\<close>, with what the insert and the read that follows it do and the
  two times of the clock: \<open>return\<close> in \<open>finally\<close> hides the exception.  \<open>ITERATION\<close> is the
  value that is written next.\<close>

definition rethinkdb_append_entry :: "unit outcome \<Rightarrow> unit outcome \<Rightarrow> rat \<Rightarrow> rat \<Rightarrow> nat \<Rightarrow> rat outcome \<times> nat" where
  "rethinkdb_append_entry inserted selected t t' iteration =
     (Ret (t' - t), if raises inserted \<or> raises selected then iteration else (iteration + 1) mod 100)"

text \<open>\<open>datastore_append_entry\<close>: the service answers with the time, \<open>float\<close> of other text
  raises.\<close>

definition datastore_append_entry :: "(string \<Rightarrow> rat option) \<Rightarrow> string outcome \<Rightarrow> rat outcome" where
  "datastore_append_entry float resp =
     (case resp of
        Raise e \<Rightarrow> Raise e
      | Ret t \<Rightarrow> (case float t of Some x \<Rightarrow> Ret x | None \<Rightarrow> Raise ValueError))"

text \<open>\<open>TestManager.run\<close>, where the i-th call of \<open>appendFunction\<close> has the outcome \<open>f i\<close>; the
  result is the list and how many calls were made.  It may never end.\<close>

partial_function (option) run :: "(nat \<Rightarrow> rat outcome) \<Rightarrow> int \<Rightarrow> rat list \<Rightarrow> nat \<Rightarrow> (rat list \<times> nat) option" where
  "run f n res i =
     (if int (length res) < n
      then (case f i of Ret t \<Rightarrow> run f n (res @ [t]) (Suc i) | Raise e \<Rightarrow> run f n res (Suc i))
      else Some (res, i))"

fun rets :: "'a outcome list \<Rightarrow> 'a list" where
  "rets [] = []"
| "rets (Ret t # xs) = t # rets xs"
| "rets (Raise e # xs) = rets xs"

lemma run_ends:
  assumes "i \<le> k" "int (length res + length (rets (map f [i..<k]))) = n" "i = k \<or> \<not> raises (f (k - 1))"
  shows "run f n res i = Some (res @ rets (map f [i..<k]), k)"
  using assms
proof (induction "k - i" arbitrary: i res)
  case 0
  then show ?case by (subst run.simps) simp
next
  case (Suc d)
  then have ik: "i < k" by simp
  have up: "[i..<k] = i # [Suc i..<k]" using ik by (simp add: upt_rec)
  have last: "\<not> raises (f (k - 1))" using Suc.prems ik by simp
  have more: "0 < length (rets (map f [i..<k]))"
  proof -
    obtain t where "f (k - 1) = Ret t" using last by (cases "f (k - 1)") auto
    moreover have "[i..<k] = [i..<k - 1] @ [k - 1]" using ik by (cases k) auto
    moreover have "rets (xs @ [Ret t]) = rets xs @ [t]" for xs and t :: rat by (induction xs rule: rets.induct) auto
    ultimately show ?thesis by simp
  qed
  have less: "int (length res) < n" using more Suc.prems(2) by linarith
  show ?case
  proof (cases "f i")
    case (Ret t)
    then have "run f n res i = run f n (res @ [t]) (Suc i)" using less by (subst run.simps) simp
    moreover have "run f n (res @ [t]) (Suc i) = Some ((res @ [t]) @ rets (map f [Suc i..<k]), k)"
      using Suc.hyps Suc.prems last Ret up by (intro Suc.hyps(1)) auto
    ultimately show ?thesis by (simp add: up Ret)
  next
    case (Raise e)
    then have "run f n res i = run f n res (Suc i)" using less by (subst run.simps) simp
    moreover have "run f n res (Suc i) = Some (res @ rets (map f [Suc i..<k]), k)"
      using Suc.hyps Suc.prems last Raise up by (intro Suc.hyps(1)) auto
    ultimately show ?thesis by (simp add: up Raise)
  qed
qed

text \<open>An algorithm that is not known: the missing attribute raises in the loop, which logs it and
  tries again.\<close>

lemma run_unknown:
  assumes "run f n res i = Some r" "int (length res) < n"
  shows "\<exists>j\<ge>i. \<not> raises (f j)"
proof -
  have "int (length res) < n \<longrightarrow> (\<exists>j\<ge>i. \<not> raises (f j))"
  proof (rule run.raw_induct[OF _ assms(1), of "\<lambda>f n res i r. int (length res) < n \<longrightarrow> (\<exists>j\<ge>i. \<not> raises (f j))"])
    fix run' :: "(nat \<Rightarrow> rat outcome) \<Rightarrow> int \<Rightarrow> rat list \<Rightarrow> nat \<Rightarrow> (rat list \<times> nat) option" and g m l k y
    assume IH: "\<And>g m l k y. run' g m l k = Some y \<Longrightarrow> int (length l) < m \<longrightarrow> (\<exists>j\<ge>k. \<not> raises (g j))"
      and step: "(if int (length l) < m
        then (case g k of Ret t \<Rightarrow> run' g m (l @ [t]) (Suc k) | Raise e \<Rightarrow> run' g m l (Suc k))
        else Some (l, k)) = Some y"
    show "int (length l) < m \<longrightarrow> (\<exists>j\<ge>k. \<not> raises (g j))"
    proof
      assume "int (length l) < m"
      then show "\<exists>j\<ge>k. \<not> raises (g j)"
        using IH[of g m l "Suc k" y] step by (cases "g k") (auto dest: Suc_leD)
    qed
  qed
  then show ?thesis using assms(2) by simp
qed

text \<open>A measurement that failed counts as one: with \<open>rethinkdb\<close> the run ends after \<open>n\<close>
  inserts, whether they succeed or not.\<close>

lemma rethinkdb_counts_failures:
  "run (\<lambda>i. fst (rethinkdb_append_entry (ins i) (tab i) (t i) (t' i) (it i))) (int n) [] 0 =
     Some (map (\<lambda>i. t' i - t i) [0..<n], n)"
proof -
  have "rets (map (\<lambda>i. fst (rethinkdb_append_entry (ins i) (tab i) (t i) (t' i) (it i))) xs) = map (\<lambda>i. t' i - t i) xs" for xs
    by (induction xs) (simp_all add: rethinkdb_append_entry_def)
  then show ?thesis
    using run_ends[of 0 n "[]" "\<lambda>i. fst (rethinkdb_append_entry (ins i) (tab i) (t i) (t' i) (it i))" "int n"]
    by (simp add: rethinkdb_append_entry_def)
qed

text \<open>What the daemon measures.  Asked one after the other, with one completion for each
  request, the operations are measured from their own request to their own completion; with one
  completion too many at the beginning, each is measured from its request to the completion of
  the one before it, and if requests come after those completions every measured time is
  negative.\<close>

lemma measured_times:
  assumes "length ops \<le> n"
  shows "results (fold measuring_step (in_turn (map (\<lambda>(t, c). (t, k, c)) ops)) (init_measuring n)) =
      map (\<lambda>(t, c). c - t) ops \<and>
    ((\<forall>i<length ops. (if i = 0 then c0 else snd (ops ! (i - 1))) < fst (ops ! i)) \<longrightarrow>
     (\<forall>x\<in>set (results (fold measuring_step
        (Completed c0 # concat (map (\<lambda>(t, c). [Appended (Ret t), Looks, Completed c]) ops)) (init_measuring n))). x < 0))"
proof -
  have "results (fold measuring_step (in_turn (map (\<lambda>(t, c). (t, k, c)) ops)) (init_measuring n)) =
      map (\<lambda>(t, c). c - t) ops"
    using measures_operations[of "init_measuring n" "map (\<lambda>(t, c). (t, k, c)) ops"] assms
    by (simp add: init_measuring_def comp_def split_beta)
  moreover have "results (fold measuring_step
        (Completed c0 # concat (map (\<lambda>(t, c). [Appended (Ret t), Looks, Completed c]) ops)) (init_measuring n)) =
      shifted c0 ops"
    using stray_completion_shifts[of "measuring_step (Completed c0) (init_measuring n)" ops c0] assms
    by (simp add: init_measuring_def)
  ultimately show ?thesis using stray_completion_negative[of ops c0] by simp
qed

end
