(* ===== verification/Cluster_Config.thy ===== *)
theory Cluster_Config
  imports Prelude "HOL-Library.Word"
begin

section \<open>Clusters and the configuration of their nodes\<close>

text \<open>
  The data that \<open>provisioner.py\<close> hands around: the dictionary of a node, the configuration
  file each node gets, and the free ports of a local cluster.  What the operating system answers
  to \<open>bind\<close> on port 0 is an argument: \<open>os k\<close> is the port it picks at the k-th call.  Ports
  and ids are natural numbers; \<open>str\<close> prints them.
\<close>

subsection \<open>Numbers as strings\<close>

fun str :: "nat \<Rightarrow> string" where
  "str n = (if n < 10 then [char_of (48 + n)] else str (n div 10) @ [char_of (48 + n mod 10)])"

declare str.simps [simp del]

definition number_of :: "string \<Rightarrow> nat" where
  "number_of s = foldl (\<lambda>n c. 10 * n + (of_char c - 48)) 0 s"

lemma number_of_str: "number_of (str n) = n"
proof (induction n rule: str.induct)
  case (1 n)
  have d: "of_char (char_of (48 + k) :: char) - (48::nat) = k" if "k < 10" for k :: nat
    using that by simp
  show ?case
  proof (cases "n < 10")
    case True
    then show ?thesis using d[of n] by (simp add: str.simps[of n] number_of_def)
  next
    case False
    then show ?thesis using 1 d[of "n mod 10"] by (simp add: str.simps[of n] number_of_def)
  qed
qed

lemma str_inject [simp]: "str m = str n \<longleftrightarrow> m = n"
  by (metis number_of_str)

lemma str_chars: "(\<And>k::nat. k < 10 \<Longrightarrow> char_of (48 + k) \<in> D) \<Longrightarrow> str n \<noteq> [] \<and> set (str n) \<subseteq> D"
proof (induction n rule: str.induct)
  case (1 n)
  then show ?case by (cases "n < 10") (auto simp: str.simps[of n])
qed

lemma str_is_digits: "str n \<noteq> [] \<and> set (str n) \<subseteq> set ''0123456789''"
proof (rule str_chars)
  fix k :: nat assume "k < 10"
  have "list_all (\<lambda>k::nat. char_of (48 + k) \<in> set ''0123456789'') [0..<10]" by code_simp
  then show "char_of (48 + k) \<in> set ''0123456789''"
    using \<open>k < 10\<close> unfolding list_all_iff by (metis atLeast0LessThan atLeast_upt lessThan_iff)
qed

lemma str_digits: "c \<in> set (str n) \<Longrightarrow> c \<noteq> CHR '':''"
  using str_is_digits[of n] by auto

lemma str_no_dash: "CHR ''-'' \<notin> set (str n)"
  using str_is_digits[of n] by auto

subsection \<open>Nodes and their configuration\<close>

record cluster_node =
  node_id :: nat
  node_host :: string
  node_port :: nat
  rpc_port :: nat
  node_interface :: string
  internal_ip :: string
  vm_id :: string             \<comment> \<open>gce only\<close>

record peer_entry =
  peer_address :: string
  peer_port :: nat
  peer_no :: nat
  lock_addresses :: "string list"
  lock_ports :: "nat list"

record node_config =
  config_mode :: string
  config_interface :: string
  config_rpc_port :: nat
  host_port :: nat
  host_address :: string
  host_id :: nat
  config_peers :: "peer_entry list"

text \<open>A Python set as a list: in which order is not specified, here the internal address first.\<close>

definition get_node_config :: "cluster_node list \<Rightarrow> cluster_node \<Rightarrow> string \<Rightarrow> nat list \<Rightarrow> node_config" where
  "get_node_config cluster n mode additional =
     \<lparr>config_mode = mode, config_interface = node_interface n, config_rpc_port = rpc_port n,
      host_port = node_port n, host_address = node_host n, host_id = node_id n,
      config_peers = map (\<lambda>p. \<lparr>peer_address = node_host p, peer_port = node_port p, peer_no = node_id p,
           lock_addresses = remdups [internal_ip p, node_host p], lock_ports = node_port p # additional\<rparr>)
         (filter (\<lambda>p. node_id p \<noteq> node_id n) cluster)\<rparr>"

subsection \<open>Free ports\<close>

text \<open>\<open>os k\<close> is the port, a number of 16 bits, that the system gives the \<open>k\<close>-th socket that is bound to
  port 0.\<close>

type_synonym port_source = "nat \<Rightarrow> 16 word"

record port_pool =
  given_out :: "nat set"        \<comment> \<open>RANDOM_PORTS_POOL\<close>
  asked :: nat                  \<comment> \<open>calls of bind so far\<close>

definition empty_pool :: port_pool where
  "empty_pool = \<lparr>given_out = {}, asked = 0\<rparr>"

partial_function (option) get_free_random_port :: "port_source \<Rightarrow> port_pool \<Rightarrow> (nat \<times> port_pool) option" where
  "get_free_random_port os p =
     (let port = unat (os (asked p)); p1 = p\<lparr>asked := asked p + 1\<rparr> in
      if port \<notin> given_out p1 then Some (port, p1\<lparr>given_out := insert port (given_out p1)\<rparr>)
      else get_free_random_port os p1)"

definition local_node :: "port_source \<Rightarrow> nat \<Rightarrow> port_pool \<Rightarrow> (cluster_node \<times> port_pool) option" where
  "local_node os i p =
     Option.bind (get_free_random_port os p) (\<lambda>(port, p1).
       Option.bind (get_free_random_port os p1) (\<lambda>(rpc, p2).
         Some (\<lparr>node_id = i, node_host = ''127.0.0.1'', node_port = port, rpc_port = rpc,
                node_interface = ''lo'', internal_ip = ''127.0.0.1'', vm_id = []\<rparr>, p2)))"

fun local_nodes :: "port_source \<Rightarrow> nat list \<Rightarrow> port_pool \<Rightarrow> (cluster_node list \<times> port_pool) option" where
  "local_nodes os [] p = Some ([], p)"
| "local_nodes os (i # is) p =
     Option.bind (local_node os i p) (\<lambda>(n, p1).
       Option.bind (local_nodes os is p1) (\<lambda>(ns, p2). Some (n # ns, p2)))"

text \<open>The nodes have the ids 1 to \<open>nodes_num\<close>.\<close>

definition local_cluster :: "port_source \<Rightarrow> nat \<Rightarrow> (cluster_node list \<times> port_pool) option" where
  "local_cluster os nodes_num = local_nodes os [1..<nodes_num + 1] empty_pool"

subsection \<open>The ports of a local cluster\<close>

text \<open>\<open>supplies\<close>: as long as fewer than \<open>m\<close> ports are given out, the system always comes to offer
  another one.\<close>

definition supplies :: "nat \<Rightarrow> port_source \<Rightarrow> bool" where
  "supplies m os \<longleftrightarrow> (\<forall>S k. finite S \<and> card S < m \<longrightarrow> (\<exists>j\<ge>k. unat (os j) \<notin> S))"

lemma free_port:
  assumes "supplies m os" "finite (given_out p)" "card (given_out p) < m"
  shows "\<exists>port q. get_free_random_port os p = Some (port, q) \<and> port \<notin> given_out p \<and>
    given_out q = insert port (given_out p) \<and> port \<in> unat ` range os"
proof -
  obtain j where j: "asked p \<le> j" "unat (os j) \<notin> given_out p"
    using assms unfolding supplies_def by blast
  then show ?thesis
  proof (induction "j - asked p" arbitrary: p)
    case 0
    then show ?case by (simp add: get_free_random_port.simps[of os p] Let_def)
  next
    case (Suc k)
    show ?case
    proof (cases "unat (os (asked p)) \<in> given_out p")
      case True
      let ?p = "p\<lparr>asked := asked p + 1\<rparr>"
      have "k = j - asked ?p" "asked ?p \<le> j" "unat (os j) \<notin> given_out ?p" using Suc by simp_all
      from Suc.hyps(1)[OF this] show ?thesis using True
        by (simp add: get_free_random_port.simps[of os p] Let_def)
    next
      case False
      then show ?thesis by (simp add: get_free_random_port.simps[of os p] Let_def)
    qed
  qed
qed

definition ports_of :: "cluster_node list \<Rightarrow> nat list" where
  "ports_of ns = concat (map (\<lambda>n. [node_port n, rpc_port n]) ns)"

lemma local_nodes_ports:
  assumes "supplies m os" "finite (given_out p)" "card (given_out p) + 2 * length is \<le> m"
  shows "\<exists>ns q. local_nodes os is p = Some (ns, q) \<and> map node_id ns = is \<and> distinct (ports_of ns) \<and>
    set (ports_of ns) \<inter> given_out p = {} \<and> given_out q = given_out p \<union> set (ports_of ns) \<and>
    set (ports_of ns) \<subseteq> unat ` range os \<and>
    (\<forall>n\<in>set ns. node_host n = ''127.0.0.1'' \<and> internal_ip n = ''127.0.0.1'' \<and> node_interface n = ''lo'')"
  using assms(2,3)
proof (induction "is" arbitrary: p)
  case Nil
  then show ?case by (simp add: ports_of_def)
next
  case (Cons i "is")
  obtain a q where a: "get_free_random_port os p = Some (a, q)" "a \<notin> given_out p" "given_out q = insert a (given_out p)" "a \<in> unat ` range os"
    using free_port[OF assms(1) Cons.prems(1)] Cons.prems(2) by auto
  obtain b r where b: "get_free_random_port os q = Some (b, r)" "b \<notin> given_out q" "given_out r = insert b (given_out q)"
    "b \<in> unat ` range os"
    using free_port[OF assms(1), of q] a Cons.prems by auto
  have "finite (given_out r)" "card (given_out r) + 2 * length is \<le> m" using a b Cons.prems by simp_all
  from Cons.IH[OF this] obtain ns s where ns: "local_nodes os is r = Some (ns, s)" "map node_id ns = is"
    "distinct (ports_of ns)" "set (ports_of ns) \<inter> given_out r = {}" "given_out s = given_out r \<union> set (ports_of ns)"
    "set (ports_of ns) \<subseteq> unat ` range os"
    "\<forall>n\<in>set ns. node_host n = ''127.0.0.1'' \<and> internal_ip n = ''127.0.0.1'' \<and> node_interface n = ''lo''" by blast
  let ?n = "\<lparr>node_id = i, node_host = ''127.0.0.1'', node_port = a, rpc_port = b, node_interface = ''lo'',
      internal_ip = ''127.0.0.1'', vm_id = []\<rparr>"
  have "local_nodes os (i # is) p = Some (?n # ns, s)" using a b ns by (simp add: local_node_def)
  then show ?case using a b ns by (intro exI[of _ "?n # ns"] exI[of _ s]) (auto simp: ports_of_def)
qed

lemma local_nodes_ids: "local_nodes os is p = Some (ns, q) \<Longrightarrow> map node_id ns = is"
  by (induction "is" arbitrary: p ns) (auto simp: bind_eq_Some_conv local_node_def)

lemma local_cluster_ids: "local_cluster os k = Some (ns, q) \<Longrightarrow> map node_id ns = [1..<k + 1]"
  unfolding local_cluster_def by (rule local_nodes_ids)

lemma supplies_words:
  assumes "\<forall>S i. card S < m \<longrightarrow> (\<exists>j\<ge>i. os j \<notin> S)"
  shows "supplies m os"
  unfolding supplies_def
proof (intro allI impI)
  fix S :: "nat set" and k assume S: "finite S \<and> card S < m"
  let ?T = "{w :: 16 word. unat w \<in> S}"
  have "card ?T \<le> card S" using S by (intro card_inj_on_le[of unat]) (auto simp: inj_on_def intro: unsigned_word_eqI)
  then obtain j where "j \<ge> k" "os j \<notin> ?T" using assms S by (meson le_less_trans)
  then show "\<exists>j\<ge>k. unat (os j) \<notin> S" by auto
qed

text \<open>C27: the ports of a local cluster.  Ports are numbers of 16 bits.  If the system, as long as
  fewer ports are given out than the nodes need, comes to offer one that is not, then laying out
  the cluster ends, with the nodes numbered from 1, and all ports of all nodes are different,
  though the same port may be offered again and again, and are ports the system has offered.\<close>

theorem local_cluster_ports:
  assumes "\<forall>S i. card S < 2 * k \<longrightarrow> (\<exists>j\<ge>i. os j \<notin> S)"
  shows "\<exists>ns q. local_cluster os k = Some (ns, q) \<and> map node_id ns = [1..<k + 1] \<and>
    distinct (concat (map (\<lambda>n. [node_port n, rpc_port n]) ns)) \<and>
    (\<forall>n\<in>set ns. node_port n \<in> unat ` range os \<and> rpc_port n \<in> unat ` range os \<and> node_port n < 65536 \<and> rpc_port n < 65536)"
proof -
  have "supplies (2 * k) os" using assms by (rule supplies_words)
  from local_nodes_ports[OF this, of empty_pool "[1..<k + 1]"] obtain ns q where
    "local_cluster os k = Some (ns, q)" "map node_id ns = [1..<k + 1]" "distinct (ports_of ns)"
    "set (ports_of ns) \<subseteq> unat ` range os"
    unfolding local_cluster_def by (auto simp: empty_pool_def simp del: upt_Suc)
  moreover from this(4) have "\<forall>n\<in>set ns. node_port n \<in> unat ` range os \<and> rpc_port n \<in> unat ` range os"
    by (auto simp: ports_of_def)
  moreover have "x < 65536" if "x \<in> unat ` range os" for x using that unsigned_less[of "_ :: 16 word"] by auto
  ultimately show ?thesis unfolding ports_of_def by blast
qed

text \<open>A system that goes through the ports from 32768 to 60999, each offered three times.\<close>

definition ephemeral_ports :: port_source where
  "ephemeral_ports i = word_of_nat (32768 + (i div 3) mod 28232)"

lemma unat_ephemeral: "unat (ephemeral_ports i) = 32768 + (i div 3) mod 28232"
proof -
  have "32768 + (i div 3) mod 28232 < 65536" using mod_less_divisor[of 28232 "i div 3"] by simp
  then show ?thesis by (simp only: ephemeral_ports_def unat_of_nat len_num1 len_bit0 len_num0) simp
qed

theorem local_cluster_ports_witness:
  "\<exists>ns q. local_cluster ephemeral_ports 5 = Some (ns, q) \<and> map node_id ns = [1..<6] \<and>
    distinct (concat (map (\<lambda>n. [node_port n, rpc_port n]) ns)) \<and> (\<forall>n\<in>set ns. node_port n < 65536)"
proof -
  have "\<exists>j\<ge>i. ephemeral_ports j \<notin> S" if "card S < 2 * 5" for S i
  proof (rule ccontr)
    assume "\<not> (\<exists>j\<ge>i. ephemeral_ports j \<notin> S)"
    then have in_S: "ephemeral_ports j \<in> S" if "i \<le> j" for j using that by blast
    have "{32768..<61000} \<subseteq> unat ` S"
    proof
      fix p :: nat assume "p \<in> {32768..<61000}"
      then have "p - 32768 < 28232" "32768 \<le> p" by auto
      then have p: "(28232 * i + (p - 32768)) mod 28232 = p - 32768" "32768 \<le> p" by (simp_all only: mod_mult_self3 mod_less mult.commute)
      have "3 * (28232 * i + (p - 32768)) div 3 = 28232 * i + (p - 32768)" by (rule nonzero_mult_div_cancel_left) simp
      then have "unat (ephemeral_ports (3 * (28232 * i + (p - 32768)))) = p" using p by (simp add: unat_ephemeral)
      moreover have "i \<le> 3 * (28232 * i + (p - 32768))" by simp
      ultimately show "p \<in> unat ` S" using in_S by (metis image_eqI)
    qed
    then have "card {32768..<61000 :: nat} \<le> card (unat ` S)" by (intro card_mono) simp_all
    also have "\<dots> \<le> card S" by (rule card_image_le) simp
    finally show False using that by simp
  qed
  then have "\<forall>S i. card S < 2 * 5 \<longrightarrow> (\<exists>j\<ge>i. ephemeral_ports j \<notin> S)" by blast
  from local_cluster_ports[OF this] show ?thesis by auto
qed

text \<open>Ports one after the other.\<close>

definition sample_ports :: port_source where
  "sample_ports i = word_of_nat (40000 + i)"

lemma unat_sample_ports [simp]: "unat (sample_ports i) = (40000 + i) mod 65536"
  by (simp only: sample_ports_def unat_of_nat len_num1 len_bit0 len_num0) simp

lemma port_is_free:
  "unat (os (asked p)) \<notin> given_out p \<Longrightarrow> get_free_random_port os p =
     Some (unat (os (asked p)), p\<lparr>given_out := insert (unat (os (asked p))) (given_out p), asked := asked p + 1\<rparr>)"
  by (simp add: get_free_random_port.simps[of os p] Let_def)

lemma sample_cluster:
  obtains n m q where "local_cluster sample_ports 2 = Some ([n, m], q)"
  by (simp add: local_cluster_def local_node_def port_is_free empty_pool_def upt_rec)

subsection \<open>The configurations fit together\<close>

text \<open>The configuration of a node lists every other node once and not itself, and under the id,
  address and port that this node's own configuration has for itself.\<close>

lemma configs_fit:
  assumes "distinct (map node_id ns)" "n \<in> set ns" "m \<in> set ns"
  shows "filter (\<lambda>p. peer_no p = node_id m) (config_peers (get_node_config ns n mode additional)) =
    (if m = n then []
     else let c = get_node_config ns m mode additional in
       [\<lparr>peer_address = host_address c, peer_port = host_port c, peer_no = host_id c,
         lock_addresses = remdups [internal_ip m, host_address c], lock_ports = host_port c # additional\<rparr>])"
proof -
  have one: "filter (\<lambda>p. node_id p = node_id m) ns = [m]" using assms(1,3)
    by (induction ns) (auto simp: filter_empty_conv image_iff)
  have "filter (\<lambda>p. node_id p \<noteq> node_id n \<and> node_id p = node_id m) ns =
      filter (\<lambda>p. node_id p \<noteq> node_id n) (filter (\<lambda>p. node_id p = node_id m) ns)"
    by (simp add: conj_commute)
  then have two: "filter (\<lambda>p. node_id p \<noteq> node_id n \<and> node_id p = node_id m) ns = (if m = n then [] else [m])"
    using assms by (auto simp: one dest: inj_onD[OF conjunct2[OF iffD1[OF distinct_map]]])
  show ?thesis
    by (simp add: get_node_config_def filter_map comp_def two Let_def)
qed

text \<open>The dictionary \<open>peers\<close> that \<open>paxos/custom_server.py\<close> makes of its configuration.\<close>

definition paxos_peers :: "node_config \<Rightarrow> nat \<Rightarrow> (string \<times> nat) option" where
  "paxos_peers c =
     (fold (\<lambda>p d. d(peer_no p \<mapsto> (peer_address p, peer_port p))) (config_peers c) Map.empty)
       (host_id c \<mapsto> (host_address c, host_port c))"

lemma fold_peers:
  assumes "distinct (map peer_no ps)"
  shows "fold (\<lambda>p d. d(peer_no p \<mapsto> (peer_address p, peer_port p))) ps d i =
    (case find (\<lambda>p. peer_no p = i) ps of Some p \<Rightarrow> Some (peer_address p, peer_port p) | None \<Rightarrow> d i)"
  using assms
proof (induction ps arbitrary: d)
  case (Cons p ps)
  have "find (\<lambda>q. peer_no q = peer_no p) ps = None"
    using Cons.prems by (simp add: find_None_iff) (metis image_eqI)
  then show ?case using Cons by auto
qed simp

text \<open>C28: all nodes of a Paxos cluster have the same idea of it.  In a cluster whose nodes have
  different ids, every node makes of its configuration file the same dictionary of peers, itself
  included: each node's id with the address and port that the node itself is configured with.\<close>

theorem paxos_peers_agree:
  assumes "distinct (map node_id ns)" "n \<in> set ns"
  shows "paxos_peers (get_node_config ns n mode additional) i =
    map_option (\<lambda>m. (node_host m, node_port m)) (find (\<lambda>m. node_id m = i) ns)"
proof -
  let ?c = "get_node_config ns n mode additional"
  have d: "distinct (map peer_no (config_peers ?c))"
    using assms(1) by (simp add: get_node_config_def comp_def distinct_map_filter)
  show ?thesis
  proof (cases "i = node_id n")
    case True
    have "find (\<lambda>m. node_id m = node_id n) ns = Some n"
      using assms by (induction ns) auto
    then show ?thesis using True by (simp add: paxos_peers_def get_node_config_def)
  next
    case False
    have "find (\<lambda>p. peer_no p = i) (config_peers ?c) =
        map_option (\<lambda>p. \<lparr>peer_address = node_host p, peer_port = node_port p, peer_no = node_id p,
           lock_addresses = remdups [internal_ip p, node_host p], lock_ports = node_port p # additional\<rparr>)
          (find (\<lambda>m. node_id m = i) ns)"
      using False unfolding get_node_config_def node_config.simps by (induction ns) auto
    then show ?thesis using False fold_peers[OF d, of Map.empty i]
      by (simp add: paxos_peers_def get_node_config_def split: option.split)
  qed
qed

definition two_local_nodes :: "cluster_node list" where
  "two_local_nodes = map (\<lambda>i. \<lparr>node_id = i, node_host = ''127.0.0.1'', node_port = 4000 + i, rpc_port = 5000 + i,
     node_interface = ''lo'', internal_ip = ''127.0.0.1'', vm_id = []\<rparr>) [1, 2]"

theorem paxos_peers_agree_witness:
  "paxos_peers (get_node_config two_local_nodes (hd two_local_nodes) ''local'' []) 2 = Some (''127.0.0.1'', 4002)"
  using paxos_peers_agree[of two_local_nodes "hd two_local_nodes" "''local''" "[]" 2]
  by (simp add: two_local_nodes_def)

end
