(* ===== verification/Paxos_Programs.thy ===== *)
theory Paxos_Programs
  imports Messenger_Text Test_Daemon Cluster_Config
begin

section \<open>The programs around a Paxos node\<close>

text \<open>
  \<open>paxos/config.py\<close>, the command lines of \<open>paxos/client.py\<close>, \<open>paxos/custom_client.py\<close> and
  \<open>paxos/server.py\<close>, and the side of \<open>paxos/custom_server.py\<close> that the test daemon talks to.
\<close>

subsection \<open>Configuration\<close>

definition peers_config :: "(uid \<times> address) list" where
  "peers_config =
     [(UStr ''A'', ''127.0.0.1'', 1234), (UStr ''B'', ''127.0.0.1'', 1235), (UStr ''C'', ''127.0.0.1'', 1236)]"

definition state_files :: "(uid \<times> string) list" where
  "state_files = [(UStr ''A'', ''/tmp/A.json''), (UStr ''B'', ''/tmp/B.json''), (UStr ''C'', ''/tmp/C.json'')]"

subsection \<open>Clients\<close>

text \<open>\<open>client.py\<close>, with the arguments after the name of the program: the datagram, and where to.\<close>

definition client_main :: "string list \<Rightarrow> (datagram \<times> address) outcome" where
  "client_main args =
     (case args of
        [u, new_value] \<Rightarrow>
          (case map_of peers_config (UStr u) of
             None \<Rightarrow> Raise SystemExit
           | Some a \<Rightarrow> Ret (client_datagram new_value, a))
      | _ \<Rightarrow> Raise SystemExit)"

text \<open>Whom a client names gets its value: the datagram goes to the address that the messenger of this
  node has for itself and listens at, and the node proposes the value.\<close>

lemma client_reaches_node:
  assumes "u \<in> {''A'', ''B'', ''C''}"
  shows "\<exists>a. client_main [u, v] = Ret (Proposal_Text v, a) \<and> address_of (init_messenger peers_config) (UStr u) = Some a \<and>
    (\<forall>rnd from n. datagram_received (uid_at (init_messenger peers_config)) rnd (Proposal_Text v) from n = propose_update (Some v) n)"
  using assms by (auto simp: client_main_def peers_config_def init_messenger_def client_datagram_def datagram_received_def)

lemma client_rejects: "length args \<noteq> 2 \<or> hd args \<notin> {''A'', ''B'', ''C''} \<Longrightarrow> client_main args = Raise SystemExit"
  by (auto simp: client_main_def peers_config_def split: list.split)

text \<open>\<open>custom_client.py\<close>: what its thread gets to do between the calls of \<open>main\<close>.\<close>

definition custom_client_main :: "nat \<Rightarrow> nat \<Rightarrow> nat \<Rightarrow> nat \<Rightarrow> thread_event list" where
  "custom_client_main k0 k1 k2 k3 =
     replicate k0 Loop_Turn @ Add_Item ''111'' # replicate k1 Loop_Turn @ Add_Item ''222'' # replicate k2 Loop_Turn @
     Add_Item ''444'' # replicate k3 Loop_Turn @ [Stop_Thread]"

text \<open>The last value is only sent if the thread gets a turn before \<open>stop\<close>, which follows at once.\<close>

lemma idle_turns: "queue r = [] \<Longrightarrow> fold thread_step (replicate k Loop_Turn) r = r"
  by (induction k) simp_all

lemma one_turn_sends:
  assumes "spin r" "queue r = []" "0 < k"
  shows "fold thread_step (Add_Item v # replicate k Loop_Turn) r = r\<lparr>written := written r @ [client_datagram v]\<rparr>"
proof -
  obtain j where k: "k = Suc j" using assms(3) by (cases k) auto
  have q: "r\<lparr>queue := [], written := w\<rparr> = r\<lparr>written := w\<rparr>" for w using assms(2) by (cases r) simp
  show ?thesis using k assms(1,2) idle_turns[of "r\<lparr>written := written r @ [client_datagram v]\<rparr>" j] by (simp add: q)
qed

lemma last_value_is_lost:
  assumes "0 < k1" "0 < k2"
  shows "written (fold thread_step (custom_client_main k0 k1 k2 k3 @ replicate k Loop_Turn) init_thread) =
    map client_datagram ([''111'', ''222''] @ (if 0 < k3 then [''444''] else []))"
proof -
  let ?r = "\<lambda>w. init_thread\<lparr>written := map client_datagram w\<rparr>"
  have r: "spin (?r w)" "queue (?r w) = []" for w by (simp_all add: init_thread_def)
  have first: "fold thread_step (replicate k0 Loop_Turn) init_thread = ?r []"
    using idle_turns[of init_thread k0] by (simp add: init_thread_def)
  have step: "fold thread_step (Add_Item v # replicate j Loop_Turn) (?r w) = ?r (w @ [v])" if "0 < j" for v j w
    using one_turn_sends[OF r that, of v w] by simp
  have parts: "custom_client_main k0 k1 k2 k3 @ replicate k Loop_Turn = replicate k0 Loop_Turn @
      (Add_Item ''111'' # replicate k1 Loop_Turn) @ (Add_Item ''222'' # replicate k2 Loop_Turn) @
      (Add_Item ''444'' # replicate k3 Loop_Turn) @ Stop_Thread # replicate k Loop_Turn"
    by (simp add: custom_client_main_def)
  have stopped: "(thread_step Loop_Turn ^^ k) r = r" if "\<not> spin r" for r
    using that by (induction k) simp_all
  show ?thesis
  proof (cases "0 < k3")
    case True
    then show ?thesis unfolding parts fold_append comp_apply first step[OF assms(1)] step[OF assms(2)] step[OF True]
      by (simp add: stopped)
  next
    case False
    then show ?thesis unfolding parts fold_append comp_apply first step[OF assms(1)] step[OF assms(2)]
      by (simp add: stopped)
  qed
qed

subsection \<open>Servers\<close>

text \<open>A call of a method with four parameters besides \<open>self\<close>.\<close>

definition call_init :: "'a list \<Rightarrow> ('a \<Rightarrow> 'a \<Rightarrow> 'a \<Rightarrow> 'a \<Rightarrow> 'b) \<Rightarrow> 'b outcome" where
  "call_init args init = (case args of [a, b, c, d] \<Rightarrow> Ret (init a b c d) | _ \<Rightarrow> Raise TypeError)"

text \<open>What can be given to \<open>BaseReplicatedValue.__init__\<close>.\<close>

datatype init_argument = Own_Uid uid | Peer_Uids "uid list" | State_File string | Update_Callback "string option"

text \<open>\<open>server.py\<close>: the name must be one of three; then the replicated value is made of a name, the
  peers and the file.  Both classes, with and without \<open>--master\<close>, inherit the same \<open>__init__\<close>
  or hand their arguments on to it.\<close>

definition server_main :: "string \<Rightarrow> bool \<Rightarrow> (init_argument \<Rightarrow> init_argument \<Rightarrow> init_argument \<Rightarrow> init_argument \<Rightarrow> 'b) \<Rightarrow> 'b outcome" where
  "server_main u master init =
     (if u \<notin> {''A'', ''B'', ''C''} then Raise SystemExit
      else
        case map_of state_files (UStr u) of
          None \<Rightarrow> Raise KeyError
        | Some file \<Rightarrow> call_init [Own_Uid (UStr u), Peer_Uids (map fst peers_config), State_File file] init)"

lemma server_never_starts: "server_main u master init = Raise SystemExit \<or> server_main u master init = Raise TypeError"
  by (auto simp: server_main_def state_files_def call_init_def)

text \<open>\<open>custom_server.py\<close> gives it all four; the callback is \<open>onUpdateFunction\<close> with the
  address of the test daemon, or \<open>noop\<close>.\<close>

definition custom_server_main :: "int \<Rightarrow> uid list \<Rightarrow> string list \<Rightarrow> (init_argument \<Rightarrow> init_argument \<Rightarrow> init_argument \<Rightarrow> init_argument \<Rightarrow> 'b) \<Rightarrow> 'b outcome" where
  "custom_server_main i ps args init =
     (let callback = (case args of [configuration, daemon] \<Rightarrow> Some daemon | _ \<Rightarrow> None);
          file = ''./paxos_state_'' @ str (nat i) @ ''.json'' in
      call_init [Own_Uid (UInt i), Peer_Uids ps, State_File file, Update_Callback callback] init)"

subsection \<open>Measuring\<close>

text \<open>The node that the test daemon appends to: \<open>paxos_append\<close> takes the time and proposes; every value
  that is appended to \<open>updates\<close> is a call of \<open>onUpdateFunction\<close>.\<close>

record measured_paxos =
  paxos_node :: "string node"
  paxos_daemon :: measuring
  paxos_answering :: "rat option"

datatype paxos_measured_event = Paxos_Asks rat string | Paxos_Answer | Paxos_Event rat "string event" | Paxos_Look

definition paxos_on_update :: "rat \<Rightarrow> string option \<Rightarrow> measuring \<Rightarrow> measuring" where
  "paxos_on_update now new_current_value = measuring_step (Completed now)"

definition paxos_becomes :: "rat \<Rightarrow> string node \<Rightarrow> measured_paxos \<Rightarrow> measured_paxos" where
  "paxos_becomes now n s =
     s\<lparr>paxos_node := n,
       paxos_daemon := fold (paxos_on_update now) (drop (length (updates (paxos_node s))) (updates n)) (paxos_daemon s)\<rparr>"

fun paxos_measured_step :: "paxos_measured_event \<Rightarrow> measured_paxos \<Rightarrow> measured_paxos" where
  "paxos_measured_step (Paxos_Asks t v) s =
     (if paxos_answering s = None \<and> asked_at (paxos_daemon s) = None \<and>
         length (results (paxos_daemon s)) < wanted (paxos_daemon s)
      then paxos_becomes t (fst (node_step (Propose v) (paxos_node s))) (s\<lparr>paxos_answering := Some t\<rparr>)
      else s)"
| "paxos_measured_step Paxos_Answer s =
     (case paxos_answering s of
        None \<Rightarrow> s
      | Some t \<Rightarrow> s\<lparr>paxos_answering := None, paxos_daemon := measuring_step (Appended (Ret t)) (paxos_daemon s)\<rparr>)"
| "paxos_measured_step (Paxos_Event now ev) s = paxos_becomes now (fst (node_step ev (paxos_node s))) s"
| "paxos_measured_step Paxos_Look s = s\<lparr>paxos_daemon := measuring_step Looks (paxos_daemon s)\<rparr>"

text \<open>The node need not have appended anything: here it learns at 4 from a peer what the others have
  agreed on, is asked at 5, and the append has taken less than no time.\<close>

lemma catchup_measured:
  "results (paxos_daemon (fold paxos_measured_step
     [Paxos_Event 4 (Receive 0 (UStr ''B'') (WCatchup 1 (Some ''theirs''))), Paxos_Asks 5 ''value'', Paxos_Answer, Paxos_Look]
     \<lparr>paxos_node = init_driven (UStr ''A'') [UStr ''A'', UStr ''B'', UStr ''C''] None,
      paxos_daemon = init_measuring 1, paxos_answering = None\<rparr>)) = [-1]"
  by code_simp

end
