(* ===== verification/Raft_Log.thy ===== *)
theory Raft_Log
  imports Prelude
begin

section \<open>The replicated log\<close>

text \<open>
  \<open>self.__raftLog\<close> of \<open>pysyncobj/syncobj.py\<close> and the private methods that read and cut
  it.  An entry is the tuple (command, logID, term); the log is a Python list whose first entry
  has the index the last compaction left.
\<close>

datatype 'c entry = Entry (entry_cmd: 'c) (entry_idx: int) (entry_term: int)

type_synonym 'c log = "'c entry list"

definition get_current_log_index :: "'c log \<Rightarrow> int outcome" where
  "get_current_log_index log = (if log = [] then Raise IndexError else Ret (entry_idx (last log)))"

definition get_current_log_term :: "'c log \<Rightarrow> int outcome" where
  "get_current_log_term log = (if log = [] then Raise IndexError else Ret (entry_term (last log)))"

definition get_entries :: "int \<Rightarrow> int option \<Rightarrow> 'c log \<Rightarrow> 'c log outcome" where
  "get_entries from_idx count log =
     (if log = [] then Raise IndexError
      else
        let first = entry_idx (hd log) in
        if from_idx < first then Ret []
        else
          let diff = from_idx - first in
          (case count of
             None \<Rightarrow> Ret (py_from log diff)
           | Some n \<Rightarrow> Ret (py_slice log diff (diff + n))))"

text \<open>The pair of \<open>None\<close>s is \<open>None\<close>.\<close>

definition get_prev_log_index_term :: "int \<Rightarrow> 'c log \<Rightarrow> (int \<times> int) option outcome" where
  "get_prev_log_index_term next_idx log =
     (case get_entries (next_idx - 1) (Some 1) log of
        Raise e \<Rightarrow> Raise e
      | Ret es \<Rightarrow> Ret (if es \<noteq> [] then Some (next_idx - 1, entry_term (hd es)) else None))"

definition delete_entries_from :: "int \<Rightarrow> 'c log \<Rightarrow> 'c log outcome" where
  "delete_entries_from from_idx log =
     (if log = [] then Raise IndexError
      else
        let diff = from_idx - entry_idx (hd log) in
        if diff < 0 then Ret log else Ret (py_upto log diff))"

definition delete_entries_to :: "int \<Rightarrow> 'c log \<Rightarrow> 'c log outcome" where
  "delete_entries_to to_idx log =
     (if log = [] then Raise IndexError
      else
        let diff = to_idx - entry_idx (hd log) in
        if diff < 0 then Ret log else Ret (py_from log diff))"

lemmas log_ops = get_current_log_index_def get_current_log_term_def get_entries_def
  get_prev_log_index_term_def delete_entries_from_def delete_entries_to_def

subsection \<open>Consecutive indices\<close>

text \<open>The entries of a well-formed log, or of a piece of one from index \<open>i\<close>, follow each other.\<close>

fun numbered :: "int \<Rightarrow> 'c log \<Rightarrow> bool" where
  "numbered i [] \<longleftrightarrow> True"
| "numbered i (e # es) \<longleftrightarrow> entry_idx e = i \<and> numbered (i + 1) es"

definition contiguous :: "'c log \<Rightarrow> bool" where
  "contiguous log \<longleftrightarrow> log \<noteq> [] \<and> numbered (entry_idx (hd log)) log"

lemma numbered_append: "numbered i (xs @ ys) \<longleftrightarrow> numbered i xs \<and> numbered (i + int (length xs)) ys"
  by (induction xs arbitrary: i) (auto simp: algebra_simps)

lemma numbered_take: "numbered i xs \<Longrightarrow> numbered i (take k xs)"
  by (metis append_take_drop_id numbered_append)

lemma numbered_drop: "numbered i xs \<Longrightarrow> k \<le> length xs \<Longrightarrow> numbered (i + int k) (drop k xs)"
  using numbered_append[of i "take k xs" "drop k xs"] by simp

lemma numbered_nth: "numbered i xs \<Longrightarrow> k < length xs \<Longrightarrow> entry_idx (xs ! k) = i + int k"
proof (induction xs arbitrary: i k)
  case (Cons x xs)
  then show ?case by (cases k) auto
qed simp

lemma numbered_hd: "numbered i xs \<Longrightarrow> xs \<noteq> [] \<Longrightarrow> entry_idx (hd xs) = i"
  by (cases xs) auto

lemma numbered_last: "numbered i xs \<Longrightarrow> xs \<noteq> [] \<Longrightarrow> entry_idx (last xs) = i + int (length xs) - 1"
proof -
  assume n: "numbered i xs" and ne: "xs \<noteq> []"
  then have "length xs = Suc (length xs - 1)" by (cases xs) simp_all
  then have "int (length xs - 1) = int (length xs) - 1" by linarith
  then show "entry_idx (last xs) = i + int (length xs) - 1"
    using numbered_nth[OF n, of "length xs - 1"] ne by (simp add: last_conv_nth)
qed

lemma contiguous_last:
  "contiguous log \<Longrightarrow> entry_idx (last log) = entry_idx (hd log) + int (length log) - 1"
  using numbered_last unfolding contiguous_def by blast

lemma contiguous_append:
  assumes "contiguous log" "numbered (entry_idx (last log) + 1) es"
  shows "contiguous (log @ es)"
proof -
  have "entry_idx (last log) + 1 = entry_idx (hd log) + int (length log)"
    using contiguous_last[OF assms(1)] by simp
  then show ?thesis using assms by (simp add: contiguous_def numbered_append)
qed

text \<open>\<open>at_index log i\<close>: the entry with index \<open>i\<close>, if the log still has it.\<close>

definition at_index :: "'c log \<Rightarrow> int \<Rightarrow> 'c entry option" where
  "at_index log i =
     (let k = i - entry_idx (hd log) in
      if log \<noteq> [] \<and> 0 \<le> k \<and> k < int (length log) then Some (log ! nat k) else None)"

lemma at_index_idx: "contiguous log \<Longrightarrow> at_index log i = Some e \<Longrightarrow> entry_idx e = i"
  using numbered_nth[of "entry_idx (hd log)" log "nat (i - entry_idx (hd log))"]
  by (auto simp: at_index_def contiguous_def Let_def split: if_splits)

lemma get_entries_from:
  assumes "log \<noteq> []" "entry_idx (hd log) \<le> i"
  shows "get_entries i None log = Ret (drop (nat (i - entry_idx (hd log))) log)"
  using assms by (simp add: get_entries_def py_from_nonneg Let_def)

lemma get_entries_count:
  assumes "log \<noteq> []" "entry_idx (hd log) \<le> i" "0 \<le> n"
  shows "get_entries i (Some n) log = Ret (take (nat n) (drop (nat (i - entry_idx (hd log))) log))"
proof -
  have "nat (i - entry_idx (hd log) + n) - nat (i - entry_idx (hd log)) = nat n"
    using assms(2,3) by (simp add: nat_add_distrib)
  then show ?thesis using assms by (simp add: get_entries_def py_slice_nonneg Let_def)
qed

lemma delete_from:
  assumes "log \<noteq> []" "entry_idx (hd log) \<le> i"
  shows "delete_entries_from i log = Ret (take (nat (i - entry_idx (hd log))) log)"
  using assms by (simp add: delete_entries_from_def py_upto_nonneg Let_def)

lemma delete_to:
  assumes "log \<noteq> []" "entry_idx (hd log) \<le> i"
  shows "delete_entries_to i log = Ret (drop (nat (i - entry_idx (hd log))) log)"
  using assms by (simp add: delete_entries_to_def py_from_nonneg Let_def)

subsection \<open>The log as a map from indices\<close>

lemma contiguousD: "contiguous l \<Longrightarrow> l \<noteq> []" "contiguous l \<Longrightarrow> numbered (entry_idx (hd l)) l"
  by (simp_all add: contiguous_def)

lemma contiguous_hd_le_last: "contiguous l \<Longrightarrow> entry_idx (hd l) \<le> entry_idx (last l)"
  using contiguous_last[of l] contiguousD(1)[of l] by (cases l) auto

lemma at_index_dom:
  assumes "contiguous l"
  shows "at_index l i \<noteq> None \<longleftrightarrow> entry_idx (hd l) \<le> i \<and> i \<le> entry_idx (last l)"
  using contiguous_last[OF assms] contiguousD(1)[OF assms] by (auto simp: at_index_def Let_def)

lemma at_index_last: 
  assumes "contiguous l" shows "at_index l (entry_idx (last l)) = Some (last l)"
proof -
  have l: "l \<noteq> []" by (rule contiguousD(1)[OF assms])
  have "nat (entry_idx (last l) - entry_idx (hd l)) = length l - 1"
    using contiguous_last[OF assms] l by (simp add: nat_diff_distrib')
  then show ?thesis using l contiguous_last[OF assms]
    by (cases l rule: rev_cases) (simp_all add: at_index_def Let_def)
qed

lemma at_index_hd: "l \<noteq> [] \<Longrightarrow> at_index l (entry_idx (hd l)) = Some (hd l)"
  by (simp add: at_index_def Let_def hd_conv_nth)

lemma contiguous_take:
  assumes "contiguous l" "entry_idx (hd l) < q"
  shows "contiguous (take (nat (q - entry_idx (hd l))) l)"
  using assms contiguousD[OF assms(1)] by (simp add: contiguous_def numbered_take)

lemma at_index_take:
  assumes "contiguous l" "entry_idx (hd l) < q"
  shows "at_index (take (nat (q - entry_idx (hd l))) l) i = (if i < q then at_index l i else None)"
  using assms(2) contiguousD(1)[OF assms(1)] by (auto simp: at_index_def Let_def hd_take)

lemma at_index_append:
  assumes "contiguous l"
  shows "at_index (l @ es) i =
    (if i \<le> entry_idx (last l) then at_index l i
     else if i \<le> entry_idx (last l) + int (length es) then Some (es ! nat (i - entry_idx (last l) - 1))
     else None)"
proof -
  have l: "l \<noteq> []" by (rule contiguousD(1)[OF assms])
  have last: "entry_idx (last l) = entry_idx (hd l) + int (length l) - 1" by (rule contiguous_last[OF assms])
  show ?thesis
  proof (cases "i \<le> entry_idx (last l)")
    case True
    then show ?thesis using l last by (auto simp: at_index_def Let_def nth_append)
  next
    case False
    then have "nat (i - entry_idx (hd l)) - length l = nat (i - entry_idx (last l) - 1)"
      using last by simp
    then show ?thesis using False l last by (auto simp: at_index_def Let_def nth_append)
  qed
qed

lemma last_append_numbered:
  assumes "contiguous l" "numbered (entry_idx (last l) + 1) es"
  shows "entry_idx (last (l @ es)) = entry_idx (last l) + int (length es)"
  using numbered_last[OF assms(2)] by (cases "es = []") simp_all

lemma contiguous_drop:
  assumes "contiguous l" "entry_idx (hd l) \<le> q" "q \<le> entry_idx (last l)"
  shows "contiguous (drop (nat (q - entry_idx (hd l))) l)" "entry_idx (hd (drop (nat (q - entry_idx (hd l))) l)) = q"
proof -
  let ?k = "nat (q - entry_idx (hd l))"
  have k: "?k < length l" using assms contiguous_last[OF assms(1)] by simp
  have "numbered (entry_idx (hd l) + int ?k) (drop ?k l)"
    by (rule numbered_drop[OF contiguousD(2)[OF assms(1)]]) (use k in simp)
  then have n: "numbered q (drop ?k l)" using assms(2) by simp
  then show "entry_idx (hd (drop ?k l)) = q" using numbered_hd k by fastforce
  then show "contiguous (drop ?k l)" using n k by (simp add: contiguous_def)
qed

lemma at_index_drop:
  assumes "contiguous l" "entry_idx (hd l) \<le> q" "q \<le> entry_idx (last l)"
  shows "at_index (drop (nat (q - entry_idx (hd l))) l) i = (if i < q then None else at_index l i)"
proof -
  have k: "nat (q - entry_idx (hd l)) < length l" using assms contiguous_last[OF assms(1)] by simp
  show ?thesis
  proof (cases "i < q")
    case False
    have "nat (q - entry_idx (hd l)) + nat (i - q) = nat (i - entry_idx (hd l))"
      using False assms(2) by simp
    then show ?thesis using False k assms(2) contiguousD(1)[OF assms(1)]
      by (auto simp: at_index_def Let_def contiguous_drop(2)[OF assms])
  qed (auto simp: at_index_def Let_def contiguous_drop(2)[OF assms])
qed

text \<open>Entries from an index on, read through the map.\<close>

lemma get_entries_at:
  assumes "contiguous l"
  shows "at_index l p = Some e \<Longrightarrow> \<exists>es. get_entries p None l = Ret (e # es)"
    "at_index l p = None \<Longrightarrow> get_entries p None l = Ret []"
proof -
  have l: "l \<noteq> []" by (rule contiguousD(1)[OF assms])
  show "\<exists>es. get_entries p None l = Ret (e # es)" if "at_index l p = Some e"
  proof -
    have "entry_idx (hd l) \<le> p" "nat (p - entry_idx (hd l)) < length l" "l ! nat (p - entry_idx (hd l)) = e"
      using that l by (auto simp: at_index_def Let_def split: if_splits)
    then show ?thesis using l Cons_nth_drop_Suc[of "nat (p - entry_idx (hd l))" l]
      by (simp add: get_entries_from) (metis)
  qed
  show "get_entries p None l = Ret []" if "at_index l p = None"
  proof (cases "p < entry_idx (hd l)")
    case True
    then show ?thesis using l by (simp add: get_entries_def)
  next
    case False
    then show ?thesis using that l by (auto simp: get_entries_from at_index_def Let_def split: if_splits)
  qed
qed

lemma get_prev_at:
  assumes "contiguous l"
  shows "get_prev_log_index_term i l = Ret (map_option (\<lambda>e. (i - 1, entry_term e)) (at_index l (i - 1)))"
proof -
  have l: "l \<noteq> []" by (rule contiguousD(1)[OF assms])
  show ?thesis
  proof (cases "i - 1 < entry_idx (hd l)")
    case True
    then show ?thesis using l by (simp add: get_prev_log_index_term_def get_entries_def at_index_def)
  next
    case first: False
    let ?k = "nat (i - 1 - entry_idx (hd l))"
    have g: "get_entries (i - 1) (Some 1) l = Ret (take 1 (drop ?k l))"
      using get_entries_count[OF l, of "i - 1" 1] first by simp
    show ?thesis
    proof (cases "?k < length l")
      case True
      then have "take 1 (drop ?k l) = [l ! ?k]" by (simp add: take_Suc_conv_app_nth hd_drop_conv_nth take_Suc)
      then show ?thesis using True first l by (simp add: get_prev_log_index_term_def g at_index_def Let_def)
    next
      case False
      then have "\<not> i - 1 - entry_idx (hd l) < int (length l)" using first by (simp add: nat_less_iff)
      then show ?thesis using False l by (simp add: get_prev_log_index_term_def g at_index_def Let_def)
    qed
  qed
qed

end
