(* ===== verification/Serializer.thy ===== *)
theory Serializer
  imports Prelude
begin

section \<open>The serializer of full dumps\<close>

text \<open>
  Class \<open>Serializer\<close> of \<open>pysyncobj/serializer.py\<close>: it stores the dump of the replicated
  object, in memory or in a file, and moves it to other nodes in chunks.  Strings are Python 2
  byte strings.  The object's record also holds the content of the file \<open>fileName\<close>
  (\<open>disk\<close>); an open file handle is the content it was opened on and the position in it.
  The packed bytes of a dump (\<open>cPickle\<close> and \<open>zlib\<close>, or \<open>gzip\<close> for the file)
  are arguments, as are the results of the file operations and of \<open>os.fork\<close>.
\<close>

subsection \<open>State\<close>

datatype serializer_state = NOT_SERIALIZING | SERIALIZING | SUCCESS | FAILED

record transmission =
  transmitted :: nat
  payload :: string                        \<comment> \<open>'data', or what the open 'file' reads\<close>

record 'a serializer =
  file_name :: "string option"
  batch_size :: nat                        \<comment> \<open>transmissionBatchSize\<close>
  ser_pid :: int
  current_id :: int
  transmissions :: "'a \<rightharpoonup> transmission"
  incoming :: "string option"              \<comment> \<open>incomingTransmissionFile\<close>
  memory :: "string option"                \<comment> \<open>inMemorySerializedData\<close>
  disk :: "string option"                  \<comment> \<open>content of the file, None: it does not exist\<close>

definition init_serializer :: "string option \<Rightarrow> nat \<Rightarrow> string option \<Rightarrow> 'a serializer" where
  "init_serializer name n content =
     \<lparr>file_name = name, batch_size = n, ser_pid = 0, current_id = 0,
      transmissions = Map.empty, incoming = None, memory = None, disk = content\<rparr>"

subsection \<open>Storing a dump\<close>

text \<open>What \<open>os.waitpid(pid, WNOHANG)\<close> says of the child.\<close>

datatype wait_result = WaitError | Running | Exited int

definition check_serializing ::
  "wait_result \<Rightarrow> 'a serializer \<Rightarrow> 'a serializer \<times> serializer_state \<times> int option" where
  "check_serializing wait s =
     (if file_name s = None then
        if ser_pid s = - 1 then
          (s\<lparr>ser_pid := 0, transmissions := Map.empty\<rparr>, SUCCESS, Some (current_id s))
        else (s, NOT_SERIALIZING, None)
      else if ser_pid s = 0 then (s, NOT_SERIALIZING, None)
      else
        (case wait of
           WaitError \<Rightarrow> (s\<lparr>ser_pid := 0\<rparr>, FAILED, Some (current_id s))
         | Exited status \<Rightarrow>
             if status = 0 then (s\<lparr>transmissions := Map.empty, ser_pid := 0\<rparr>, SUCCESS, Some (current_id s))
             else (s\<lparr>ser_pid := 0\<rparr>, FAILED, Some (current_id s))
         | Running \<Rightarrow> (s, SERIALIZING, Some (current_id s))))"

text \<open>\<open>fork_pid\<close> is the child's pid; what the child does to the file is \<open>child_writes\<close>.\<close>

definition serialize :: "int \<Rightarrow> string \<Rightarrow> int \<Rightarrow> 'a serializer \<Rightarrow> 'a serializer" where
  "serialize fork_pid packed i s =
     (if ser_pid s \<noteq> 0 then s
      else
        let s1 = s\<lparr>current_id := i\<rparr> in
        if file_name s1 = None then s1\<lparr>memory := Some packed, ser_pid := - 1\<rparr>
        else s1\<lparr>ser_pid := fork_pid\<rparr>)"

definition child_writes :: "string \<Rightarrow> 'a serializer \<Rightarrow> 'a serializer" where
  "child_writes packed s = s\<lparr>disk := Some packed\<rparr>"

text \<open>The bytes \<open>deserialize\<close> unpacks; \<open>None\<close> when there are none, and it raises.\<close>

definition stored :: "'a serializer \<Rightarrow> string option" where
  "stored s = (if file_name s = None then memory s else disk s)"

subsection \<open>Sending a dump\<close>

datatype chunk_result =
    NoData                                  \<comment> \<open>None\<close>
  | ReadError                               \<comment> \<open>False\<close>
  | Chunk string bool bool                  \<comment> \<open>data, isFirst, isLast\<close>

definition get_transmission_data :: "bool \<Rightarrow> 'a \<Rightarrow> 'a serializer \<Rightarrow> 'a serializer \<times> chunk_result" where
  "get_transmission_data read_ok tid s =
     (if ser_pid s \<noteq> 0 then (s, NoData)
      else
        (case (case transmissions s tid of
                 Some t \<Rightarrow> Some t
               | None \<Rightarrow> map_option (\<lambda>d. \<lparr>transmitted = 0, payload = d\<rparr>) (stored s)) of
           None \<Rightarrow> (s\<lparr>transmissions := (transmissions s)(tid := None)\<rparr>, NoData)
         | Some t \<Rightarrow>
             let isFirst = (transmitted t = 0) in
             if file_name s \<noteq> None \<and> \<not> read_ok then
               (s\<lparr>transmissions := (transmissions s)(tid := None)\<rparr>, ReadError)
             else
               let chunk = take (batch_size s) (drop (transmitted t) (payload t));
                   t1 = t\<lparr>transmitted := transmitted t + length chunk\<rparr>;
                   isLast = (length chunk = 0) in
               (s\<lparr>transmissions := (if isLast then (transmissions s)(tid := None)
                                     else (transmissions s)(tid \<mapsto> t1))\<rparr>,
                Chunk chunk isFirst isLast)))"

definition cancel_transmission :: "'a \<Rightarrow> 'a serializer \<Rightarrow> 'a serializer" where
  "cancel_transmission tid s = s\<lparr>transmissions := (transmissions s)(tid := None)\<rparr>"

subsection \<open>Receiving a dump\<close>

text \<open>Whether \<open>open\<close>, \<open>write\<close> and \<open>os.rename\<close> succeed.\<close>

record file_io = open_ok :: bool  write_ok :: bool  rename_ok :: bool

definition set_transmission_data ::
  "file_io \<Rightarrow> (string \<times> bool \<times> bool) option \<Rightarrow> 'a serializer \<Rightarrow> 'a serializer \<times> bool" where
  "set_transmission_data io data s =
     (case data of
        None \<Rightarrow> (s, False)
      | Some (d, isFirst, isLast) \<Rightarrow>
          if file_name s = None then
            (case (if isFirst then Some [] else incoming s) of
               None \<Rightarrow> (s, False)
             | Some got \<Rightarrow>
                 if isLast then (s\<lparr>memory := Some (got @ d), incoming := None\<rparr>, True)
                 else (s\<lparr>incoming := Some (got @ d)\<rparr>, False))
          else
            (case (if isFirst then (if open_ok io then Some [] else None) else incoming s) of
               None \<Rightarrow> (s\<lparr>incoming := None\<rparr>, False)
             | Some got \<Rightarrow>
                 if \<not> write_ok io then (s\<lparr>incoming := None\<rparr>, False)
                 else if isLast then
                   if rename_ok io then (s\<lparr>incoming := None, disk := Some (got @ d)\<rparr>, True)
                   else (s\<lparr>incoming := None\<rparr>, False)
                 else (s\<lparr>incoming := Some (got @ d)\<rparr>, False)))"

subsection \<open>A whole transmission\<close>

text \<open>
  What the loop of \<open>SyncObj.__sendAppendEntries\<close> and the receiving node do with one
  transmission over a connection that loses nothing and file operations that succeed: chunk
  after chunk, until the last one.  \<open>fuel\<close> bounds the number of chunks.
\<close>

definition all_ok :: file_io where
  "all_ok = \<lparr>open_ok = True, write_ok = True, rename_ok = True\<rparr>"

fun transfer :: "nat \<Rightarrow> 'a \<Rightarrow> 'a serializer \<Rightarrow> 'b serializer \<Rightarrow> ('a serializer \<times> 'b serializer \<times> bool) option" where
  "transfer 0 tid s r = None"
| "transfer (Suc fuel) tid s r =
     (case get_transmission_data True tid s of
        (s1, Chunk d isFirst isLast) \<Rightarrow>
          (let (r1, complete) = set_transmission_data all_ok (Some (d, isFirst, isLast)) r in
           if isLast then Some (s1, r1, complete) else transfer fuel tid s1 r1)
      | _ \<Rightarrow> None)"

lemma set_first:
  "set_transmission_data all_ok (Some (d, True, False)) r = (r\<lparr>incoming := Some d\<rparr>, False)"
  by (simp add: set_transmission_data_def all_ok_def)

lemma set_next:
  "incoming r = Some got \<Longrightarrow>
   set_transmission_data all_ok (Some (d, False, False)) r = (r\<lparr>incoming := Some (got @ d)\<rparr>, False)"
  by (simp add: set_transmission_data_def all_ok_def)

lemma set_last:
  assumes "(if f then Some [] else incoming r) = Some got"
  shows "\<exists>r'. set_transmission_data all_ok (Some (d, f, True)) r = (r', True) \<and>
    stored r' = Some (got @ d) \<and> incoming r' = None \<and> file_name r' = file_name r"
proof (cases "file_name r")
  case None
  then show ?thesis using assms
    by (intro exI[of _ "r\<lparr>memory := Some (got @ d), incoming := None\<rparr>"])
       (simp add: set_transmission_data_def stored_def)
next
  case (Some name)
  then show ?thesis using assms
    by (intro exI[of _ "r\<lparr>incoming := None, disk := Some (got @ d)\<rparr>"])
       (simp add: set_transmission_data_def stored_def all_ok_def split: if_splits)
qed

lemma get_running:
  assumes "ser_pid s = 0" "transmissions s tid = Some \<lparr>transmitted = t, payload = D\<rparr>" "t < length D"
    "0 < batch_size s"
  shows "get_transmission_data True tid s =
    (s\<lparr>transmissions := (transmissions s)(tid \<mapsto> \<lparr>transmitted = min (t + batch_size s) (length D), payload = D\<rparr>)\<rparr>,
     Chunk (take (batch_size s) (drop t D)) (t = 0) False)"
proof -
  have "t + min (length D - t) (batch_size s) = min (t + batch_size s) (length D)"
    using assms(3) by auto
  then show ?thesis using assms by (auto simp: get_transmission_data_def Let_def min.commute)
qed

lemma get_finished:
  assumes "ser_pid s = 0" "transmissions s tid = Some \<lparr>transmitted = length D, payload = D\<rparr>"
  shows "get_transmission_data True tid s =
    (cancel_transmission tid s, Chunk [] (D = []) True)"
  using assms by (simp add: get_transmission_data_def cancel_transmission_def Let_def)

text \<open>The number of chunks, the empty one that ends the transmission included.\<close>

definition chunks :: "nat \<Rightarrow> nat \<Rightarrow> nat" where
  "chunks b n = (n + b - 1) div b + 1"

lemma chunks_next:
  assumes "0 < b" "0 < n" shows "chunks b n = Suc (chunks b (n - b))"
proof -
  have "(n + b - 1) div b = Suc ((n - 1) div b)"
    using assms le_div_geq[of b "n + b - 1"] by simp
  moreover have "(n - b + b - 1) div b = (n - 1) div b"
  proof (cases "b \<le> n")
    case False
    then show ?thesis using assms by simp
  qed simp
  ultimately show ?thesis by (simp add: chunks_def)
qed

lemma transfer_running:
  assumes "ser_pid s = 0" "transmissions s tid = Some \<lparr>transmitted = t, payload = D\<rparr>" "0 < batch_size s"
    "0 < t" "t \<le> length D" "incoming r = Some (take t D)" "chunks (batch_size s) (length D - t) \<le> fuel"
  shows "\<exists>r'. transfer fuel tid s r = Some (cancel_transmission tid s, r', True) \<and>
    stored r' = Some D \<and> incoming r' = None \<and> file_name r' = file_name r"
  using assms
proof (induction fuel arbitrary: s r t)
  case (Suc fuel)
  show ?case
  proof (cases "t = length D")
    case True
    have g: "get_transmission_data True tid s =
        (cancel_transmission tid s, Chunk [] (D = []) True)"
      using Suc.prems True by (intro get_finished) simp_all
    have "D \<noteq> []" using Suc.prems(4) True by auto
    then have "(if D = [] then Some [] else incoming r) = Some D" using Suc.prems(6) True by simp
    from set_last[OF this, of "[]"] obtain r' where
      "set_transmission_data all_ok (Some ([], D = [], True)) r = (r', True)"
      "stored r' = Some D" "incoming r' = None" "file_name r' = file_name r" by auto
    then show ?thesis using g by simp
  next
    case False
    let ?b = "batch_size s"
    let ?t = "min (t + ?b) (length D)"
    let ?s = "s\<lparr>transmissions := (transmissions s)(tid \<mapsto> \<lparr>transmitted = ?t, payload = D\<rparr>)\<rparr>"
    let ?r = "r\<lparr>incoming := Some (take t D @ take ?b (drop t D))\<rparr>"
    have lt: "t < length D" "D \<noteq> []" using False Suc.prems(4,5) by auto
    have g: "get_transmission_data True tid s = (?s, Chunk (take ?b (drop t D)) (t = 0) False)"
      using Suc.prems lt by (intro get_running) simp_all
    have step: "transfer (Suc fuel) tid s r = transfer fuel tid ?s ?r"
      using g Suc.prems(4) set_next[OF Suc.prems(6)] by simp
    have inc: "incoming ?r = Some (take ?t D)"
      by (simp add: take_add[symmetric] min_def)
    have "length D - ?t = length D - t - ?b" by simp
    then have "chunks ?b (length D - ?t) \<le> fuel"
      using chunks_next[of ?b "length D - t"] Suc.prems(3,7) lt by simp
    then have "\<exists>r'. transfer fuel tid ?s ?r = Some (cancel_transmission tid ?s, r', True) \<and>
        stored r' = Some D \<and> incoming r' = None \<and> file_name r' = file_name ?r"
      using Suc.prems(1-4) lt inc by (intro Suc.IH[where t = ?t]) simp_all
    moreover have "cancel_transmission tid ?s = cancel_transmission tid s"
      by (simp add: cancel_transmission_def)
    ultimately show ?thesis unfolding step by simp
  qed
qed (simp add: chunks_def)

lemma transfer_whole:
  assumes "ser_pid s = 0" "stored s = Some D" "transmissions s tid = None" "0 < batch_size s"
  shows "\<exists>r'. transfer (chunks (batch_size s) (length D)) tid s r = Some (s, r', True) \<and>
    stored r' = Some D \<and> incoming r' = None"
proof (cases "D = []")
  case True
  have c: "s\<lparr>transmissions := (transmissions s)(tid := None)\<rparr> = s"
    using assms(3) by (simp add: fun_upd_idem)
  have g: "get_transmission_data True tid s = (s, Chunk [] True True)"
    using assms True c by (simp add: get_transmission_data_def Let_def)
  obtain r' where "set_transmission_data all_ok (Some ([], True, True)) r = (r', True)"
    "stored r' = Some []" "incoming r' = None"
    using set_last[of True r "[]" "[]"] by auto
  then show ?thesis using g True assms(4) by (simp add: chunks_def)
next
  case False
  let ?b = "batch_size s"
  let ?t = "min ?b (length D)"
  let ?s = "s\<lparr>transmissions := (transmissions s)(tid \<mapsto> \<lparr>transmitted = ?t, payload = D\<rparr>)\<rparr>"
  let ?r = "r\<lparr>incoming := Some (take ?b D)\<rparr>"
  have g: "get_transmission_data True tid s = (?s, Chunk (take ?b D) True False)"
    using assms False by (auto simp: get_transmission_data_def Let_def min.commute)
  have fuel: "chunks ?b (length D) = Suc (chunks ?b (length D - ?b))"
    using chunks_next[OF assms(4), of "length D"] False by simp
  have n: "length D - ?t = length D - ?b" by simp
  have t: "0 < ?t" "?t \<le> length D" "incoming ?r = Some (take ?t D)"
    using assms(4) False by (simp_all add: min_def)
  have sp: "ser_pid ?s = 0" "transmissions ?s tid = Some \<lparr>transmitted = ?t, payload = D\<rparr>"
    "batch_size ?s = ?b" using assms(1) by simp_all
  obtain r' where "transfer (chunks ?b (length D - ?b)) tid ?s ?r = Some (cancel_transmission tid ?s, r', True)"
    "stored r' = Some D" "incoming r' = None"
    using transfer_running[OF sp(1,2) _ t, of "chunks ?b (length D - ?b)"] sp(3) assms(4) n by auto
  moreover have "cancel_transmission tid ?s = s"
    using assms(3) by (simp add: cancel_transmission_def fun_upd_idem)
  ultimately show ?thesis unfolding fuel by (simp add: g set_first)
qed

subsection \<open>Properties\<close>

text \<open>C11: a dump arrives whole.  From a node that has one and is not busy storing another, a
  transmission started from the beginning, whatever the chunk size and in memory or through
  files on either side, takes no more than \<open>chunks\<close> of them, leaves the receiver
  with exactly the sender's bytes, is reported complete at the last chunk, discards whatever the
  receiver had from an earlier, broken transmission, and leaves nothing behind at the sender.\<close>

theorem transmission_roundtrip:
  assumes "ser_pid s = 0" "stored s = Some D" "transmissions s tid = None" "0 < batch_size s"
  shows "\<exists>r'. transfer (chunks (batch_size s) (length D)) tid s r = Some (s, r', True) \<and>
    stored r' = Some D \<and> incoming r' = None"
  by (rule transfer_whole[OF assms])

theorem transmission_roundtrip_witness:
  "\<exists>r'. transfer 3 ''10.0.0.2:4321'' ((init_serializer None 4 None)\<lparr>memory := Some ''abcdefg''\<rparr>)
     (init_serializer (Some ''dump'') 4 None :: string serializer) =
       Some ((init_serializer None 4 None)\<lparr>memory := Some ''abcdefg''\<rparr>, r', True) \<and>
     stored r' = Some ''abcdefg''"
  using transmission_roundtrip[of "(init_serializer None 4 None)\<lparr>memory := Some ''abcdefg''\<rparr>"
      "''abcdefg''" "''10.0.0.2:4321''" "init_serializer (Some ''dump'') 4 None :: string serializer"]
  by (auto simp: init_serializer_def stored_def chunks_def)

text \<open>Storing a dump is a transaction.  From the moment \<open>serialize\<close> starts until
  \<open>checkSerializing\<close> reports the end, no second dump is started and nothing is transmitted;
  then success is reported once, with the id of this dump, the stored bytes are those of this
  dump, and every transmission of an older dump is dropped.\<close>

lemma store_dump:
  assumes "ser_pid s = 0" "0 < fork_pid"
  shows "let s1 = serialize fork_pid packed i s;
      s2 = (if file_name s = None then s1 else child_writes packed s1);
      (s3, state, n) = check_serializing (Exited 0) s2 in
    state = SUCCESS \<and> n = Some i \<and> stored s3 = Some packed \<and> transmissions s3 = Map.empty \<and>
    (\<forall>w. snd (check_serializing w s3) = (NOT_SERIALIZING, None)) \<and>
    (\<forall>ok tid. get_transmission_data ok tid s1 = (s1, NoData)) \<and>
    (\<forall>pid' other j. serialize pid' other j s1 = s1) \<and>
    (file_name s \<noteq> None \<longrightarrow> check_serializing Running s1 = (s1, SERIALIZING, Some i))"
  using assms
  by (cases "file_name s")
     (auto simp: serialize_def check_serializing_def child_writes_def stored_def
       get_transmission_data_def Let_def)

end
