(* ===== verification/Raft_Node.thy ===== *)
theory Raft_Node
  imports Raft_Log Serializer Complex_Main
begin

section \<open>The Raft node of PySyncObj\<close>

text \<open>
  Class \<open>SyncObj\<close> of \<open>pysyncobj/syncobj.py\<close>, once its socket is bound: elections, log
  replication, commands and log compaction.  Node addresses are strings; a callback is the
  number it was registered under, and \<open>callbacks\<close> lists the calls made, in order.  What the
  replicated object is (its attributes, and what \<open>__doApplyCommand\<close> does to them) and how a
  dump is packed are arguments, as are the clock (one reading per event), the random numbers,
  the results of \<open>os.waitpid\<close> and \<open>os.fork\<close>, and how often the sending loop runs for a
  node before its time is up.  \<open>node_up\<close> is \<open>Node.isConnected\<close>.
\<close>

subsection \<open>Configuration, messages and state\<close>

text \<open>
  The dictionary \<open>__commandsWaitingCommit\<close> of lists is kept as one list of its
  subscriptions: those of a log index, in order, are its list.  The keys of
  \<open>__commandsWaitingReply\<close> are the successive values of a counter, so its list of pairs is
  in the order of the keys and no key occurs twice.
\<close>

datatype raft_role = FOLLOWER | CANDIDATE | LEADER

datatype fail_reason =
    SUCCEEDED | QUEUE_FULL | MISSING_LEADER | DISCARDED | NOT_LEADER | LEADER_CHANGED

record raft_conf =
  auto_tick :: bool
  auto_tick_period :: rat
  commands_queue_size :: nat
  max_commands_per_tick :: nat
  raft_min_timeout :: rat
  raft_max_timeout :: rat
  append_entries_period :: rat
  connection_timeout :: rat
  connection_retry_time :: rat
  append_entries_batch_size :: nat
  append_entries_use_batch :: bool
  send_buffer_size :: nat
  recv_buffer_size :: nat
  dns_cache_time :: rat
  dns_fail_cache_time :: rat
  log_compaction_min_entries :: nat
  log_compaction_min_time :: rat
  log_compaction_batch_size :: nat
  commands_wait_leader :: bool
  full_dump_file :: "string option"
  bind_retry_time :: rat

text \<open>\<open>SyncObjConf()\<close> without keyword arguments.\<close>

definition default_conf :: raft_conf where
  "default_conf =
     \<lparr>auto_tick = True, auto_tick_period = 5 / 100, commands_queue_size = 1000,
      max_commands_per_tick = 100, raft_min_timeout = 1, raft_max_timeout = 3,
      append_entries_period = 3 / 10, connection_timeout = 35 / 10, connection_retry_time = 5,
      append_entries_batch_size = 1000, append_entries_use_batch = True, send_buffer_size = 2 ^ 13,
      recv_buffer_size = 2 ^ 13, dns_cache_time = 600, dns_fail_cache_time = 30,
      log_compaction_min_entries = 5000, log_compaction_min_time = 60,
      log_compaction_batch_size = 2 ^ 13, commands_wait_leader = True, full_dump_file = None,
      bind_retry_time = 1\<rparr>"

text \<open>\<open>r\<close> is what \<open>random.random()\<close> returns.\<close>

definition generate_raft_timeout :: "raft_conf \<Rightarrow> rat \<Rightarrow> rat" where
  "generate_raft_timeout conf r =
     raft_min_timeout conf + (raft_max_timeout conf - raft_min_timeout conf) * r"

type_synonym addr = string

datatype 'c raft_msg =
    RequestVote int int int                  \<comment> \<open>term, last_log_index, last_log_term\<close>
  | ResponseVote int
  | AppendEntries int int "'c log" "(int \<times> int) option"
      \<comment> \<open>term, commit_index, entries, prevLogIdx and prevLogTerm\<close>
  | AppendSerialized int int chunk_result    \<comment> \<open>term, commit_index, serialized\<close>
  | ApplyCommand 'c "int option"             \<comment> \<open>command, request_id\<close>
  | ApplyRefused int fail_reason             \<comment> \<open>apply_command_response: request_id, error\<close>
  | ApplyTaken int int int                   \<comment> \<open>apply_command_response: request_id, log_idx, log_term\<close>
  | NextNodeIdx int bool                     \<comment> \<open>next_node_idx, reset\<close>

datatype command_callback = NoCallback | LocalCallback nat | RemoteCallback addr int

record ('c, 'r, 's) raft =
  self_addr :: addr
  other_addrs :: "addr list"
  node_up :: "addr \<Rightarrow> bool"
  role :: raft_role
  current_term :: int
  votes_count :: int
  raft_leader :: "addr option"
  election_deadline :: rat
  raft_log :: "'c log"
  commit_index :: int
  last_applied :: int
  next_index :: "addr \<Rightarrow> int"
  match_index :: "addr \<Rightarrow> int"
  new_append_time :: rat
  commands_queue :: "('c \<times> command_callback) list"
  waiting_commit :: "(int \<times> int \<times> nat) list"      \<comment> \<open>(logID, termID, callback), ...\<close>
  local_counter :: int
  waiting_reply :: "(int \<times> nat) list"          \<comment> \<open>commandLocalCounter => callback\<close>
  app_state :: 's
  serializer_of :: "addr serializer"
  need_load_dump :: bool
  last_serialized_time :: rat
  force_compaction :: bool
  raft_outbox :: "(addr \<times> 'c raft_msg) list"
  callbacks :: "(nat \<times> 'r option \<times> fail_reason) list"

definition init_raft :: "addr \<Rightarrow> addr list \<Rightarrow> 'c \<Rightarrow> 's \<Rightarrow> addr serializer \<Rightarrow> rat \<Rightarrow> rat \<Rightarrow> ('c, 'r, 's) raft" where
  "init_raft a others none s ser now timeout =
     \<lparr>self_addr = a, other_addrs = others, node_up = (\<lambda>_. False), role = FOLLOWER, current_term = 0,
      votes_count = 0, raft_leader = None, election_deadline = now + timeout,
      raft_log = [Entry none 1 0], commit_index = 1, last_applied = 1, next_index = (\<lambda>_. 0),
      match_index = (\<lambda>_. 0), new_append_time = 0, commands_queue = [], waiting_commit = [],
      local_counter = 0, waiting_reply = [], app_state = s, serializer_of = ser,
      need_load_dump = True, last_serialized_time = now, force_compaction = False,
      raft_outbox = [], callbacks = []\<rparr>"

type_synonym ('c, 'r, 's) raft_result = "('c, 'r, 's) raft \<times> unit outcome"

text \<open>Doing one thing after another, unless the first raised.\<close>

definition and_then :: "('c, 'r, 's) raft_result \<Rightarrow> (('c, 'r, 's) raft \<Rightarrow> ('c, 'r, 's) raft_result)
    \<Rightarrow> ('c, 'r, 's) raft_result" where
  "and_then r f = (case r of (n, Ret _) \<Rightarrow> f n | (n, Raise e) \<Rightarrow> (n, Raise e))"

definition reading :: "'x outcome \<Rightarrow> ('x \<Rightarrow> ('c, 'r, 's) raft_result) \<Rightarrow> ('c, 'r, 's) raft
    \<Rightarrow> ('c, 'r, 's) raft_result" where
  "reading x f n = (case x of Ret v \<Rightarrow> f v | Raise e \<Rightarrow> (n, Raise e))"

subsection \<open>Sending and callbacks\<close>

definition raft_send :: "addr \<Rightarrow> 'c raft_msg \<Rightarrow> ('c, 'r, 's) raft \<Rightarrow> ('c, 'r, 's) raft" where
  "raft_send a m n =
     (if a \<in> set (other_addrs n) \<and> node_up n a then n\<lparr>raft_outbox := raft_outbox n @ [(a, m)]\<rparr> else n)"

definition call :: "nat \<Rightarrow> 'r option \<Rightarrow> fail_reason \<Rightarrow> ('c, 'r, 's) raft \<Rightarrow> ('c, 'r, 's) raft" where
  "call cb res reason n = n\<lparr>callbacks := callbacks n @ [(cb, res, reason)]\<rparr>"

text \<open>Calling \<open>None\<close> or the pair of a remote request raises.\<close>

definition call_failed :: "command_callback \<Rightarrow> fail_reason \<Rightarrow> ('c, 'r, 's) raft \<Rightarrow> ('c, 'r, 's) raft_result" where
  "call_failed cb reason n =
     (case cb of LocalCallback k \<Rightarrow> (call k None reason n, Ret ()) | _ \<Rightarrow> (n, Raise TypeError))"

definition on_leader_changed :: "('c, 'r, 's) raft \<Rightarrow> ('c, 'r, 's) raft" where
  "on_leader_changed n =
     (fold (\<lambda>(i, cb). call cb None LEADER_CHANGED) (waiting_reply n) n)\<lparr>waiting_reply := []\<rparr>"

definition raft_apply_command :: "raft_conf \<Rightarrow> 'c \<Rightarrow> command_callback \<Rightarrow> ('c, 'r, 's) raft
    \<Rightarrow> ('c, 'r, 's) raft_result" where
  "raft_apply_command conf c cb n =
     (if commands_queue_size conf = 0 \<or> length (commands_queue n) < commands_queue_size conf
      then (n\<lparr>commands_queue := commands_queue n @ [(c, cb)]\<rparr>, Ret ())
      else call_failed cb QUEUE_FULL n)"

definition send_next_node_idx :: "addr \<Rightarrow> bool \<Rightarrow> ('c, 'r, 's) raft \<Rightarrow> ('c, 'r, 's) raft_result" where
  "send_next_node_idx a reset n =
     reading (get_current_log_index (raft_log n))
       (\<lambda>last. (raft_send a (NextNodeIdx (last + 1) reset) n, Ret ())) n"

subsection \<open>The dump\<close>

text \<open>The object that is replicated: what a command does to it and returns or raises
  (\<open>__doApplyCommand\<close>), and how a dump of it is packed and unpacked.\<close>

record ('c, 'r, 's) raft_app =
  app_apply :: "'c \<Rightarrow> 's \<Rightarrow> 's \<times> 'r outcome"
  app_pack :: "'s \<times> 'c entry \<times> 'c entry \<Rightarrow> string"
  app_unpack :: "string \<Rightarrow> ('s \<times> 'c entry \<times> 'c entry) option"

text \<open>\<open>app_unpack\<close> gives the object's attributes, the last applied entry and the one before it;
  whatever goes wrong is logged and forgotten.\<close>

definition load_dump_file :: "('c, 'r, 's) raft_app \<Rightarrow> ('c, 'r, 's) raft \<Rightarrow> ('c, 'r, 's) raft" where
  "load_dump_file app n =
     (case Option.bind (stored (serializer_of n)) (app_unpack app) of
        None \<Rightarrow> n
      | Some (s, applied, before) \<Rightarrow>
          n\<lparr>app_state := s, raft_log := [before, applied], last_applied := entry_idx applied\<rparr>)"

subsection \<open>Replication\<close>

text \<open>
  One pass of the loop for one node; the boolean is \<open>sendingSerialized\<close> afterwards.
\<close>

definition send_one :: "raft_conf \<Rightarrow> bool \<Rightarrow> addr \<Rightarrow> ('c, 'r, 's) raft
    \<Rightarrow> ('c, 'r, 's) raft \<times> bool outcome" where
  "send_one conf read_ok a n =
     (if raft_log n = [] then (n, Raise IndexError)
      else
        let first = entry_idx (hd (raft_log n)); next_idx = next_index n a;
            current = returned (get_current_log_index (raft_log n)) in
        if next_idx \<ge> first then
          let prev = returned (get_prev_log_index_term next_idx (raft_log n));
              batch = returned (get_entries next_idx (Some (int (append_entries_batch_size conf))) (raft_log n));
              entries = (if next_idx \<le> current then batch else []) in
          if next_idx \<le> current \<and> entries = [] then (n, Raise IndexError)  \<comment> \<open>entries[-1]\<close>
          else
            let n1 = (if next_idx \<le> current
                      then n\<lparr>next_index := (next_index n)(a := entry_idx (last entries) + 1)\<rparr> else n) in
            (raft_send a (AppendEntries (current_term n1) (commit_index n1) entries prev) n1, Ret False)
        else
          let (ser, data) = get_transmission_data read_ok a (serializer_of n);
              n1 = raft_send a (AppendSerialized (current_term n) (commit_index n) data)
                     (n\<lparr>serializer_of := ser\<rparr>) in
          (case data of
             NoData \<Rightarrow> (n1, Ret False)
           | ReadError \<Rightarrow> (n1, Raise TypeError)  \<comment> \<open>False[2]\<close>
           | Chunk d isFirst isLast \<Rightarrow>
               if isLast then (n1\<lparr>next_index := (next_index n1)(a := first)\<rparr>, Ret False)
               else (n1, Ret True)))"

text \<open>
  The loop for one node: \<open>passes\<close> is how many passes it makes before the clock has moved
  by \<open>appendEntriesPeriod\<close> and it breaks, \<open>go\<close> is \<open>sendSingle or sendingSerialized\<close>.
\<close>

fun send_loop :: "raft_conf \<Rightarrow> bool \<Rightarrow> addr \<Rightarrow> nat \<Rightarrow> bool \<Rightarrow> ('c, 'r, 's) raft
    \<Rightarrow> ('c, 'r, 's) raft_result" where
  "send_loop conf read_ok a 0 go n = (n, Ret ())"
| "send_loop conf read_ok a (Suc passes) go n =
     (if raft_log n = [] then (n, Raise IndexError)
      else if next_index n a \<le> returned (get_current_log_index (raft_log n)) \<or> go then
        (case send_one conf read_ok a n of
           (n1, Raise e) \<Rightarrow> (n1, Raise e)
         | (n1, Ret serialized) \<Rightarrow> send_loop conf read_ok a passes serialized n1)
      else (n, Ret ()))"

fun send_to_nodes :: "raft_conf \<Rightarrow> bool \<Rightarrow> (addr \<Rightarrow> nat) \<Rightarrow> addr list \<Rightarrow> ('c, 'r, 's) raft
    \<Rightarrow> ('c, 'r, 's) raft_result" where
  "send_to_nodes conf read_ok budget [] n = (n, Ret ())"
| "send_to_nodes conf read_ok budget (a # as) n =
     (if \<not> node_up n a
      then send_to_nodes conf read_ok budget as
             (n\<lparr>serializer_of := cancel_transmission a (serializer_of n)\<rparr>)
      else and_then (send_loop conf read_ok a (Suc (budget a)) True n)
             (send_to_nodes conf read_ok budget as))"

record raft_env =
  env_now :: rat
  env_random :: rat                         \<comment> \<open>what random.random() returns\<close>
  env_budget :: "addr \<Rightarrow> nat"
  env_read_ok :: bool
  env_io :: file_io
  env_wait :: wait_result
  env_fork :: int

definition send_append_entries :: "raft_conf \<Rightarrow> raft_env \<Rightarrow> ('c, 'r, 's) raft \<Rightarrow> ('c, 'r, 's) raft_result" where
  "send_append_entries conf env n =
     send_to_nodes conf (env_read_ok env) (env_budget env) (other_addrs n)
       (n\<lparr>new_append_time := env_now env + append_entries_period conf\<rparr>)"

subsection \<open>Elections\<close>

definition on_become_leader :: "raft_conf \<Rightarrow> raft_env \<Rightarrow> ('c, 'r, 's) raft \<Rightarrow> ('c, 'r, 's) raft_result" where
  "on_become_leader conf env n =
     (let n1 = n\<lparr>raft_leader := Some (self_addr n), role := LEADER\<rparr> in
      if raft_log n1 = [] \<and> other_addrs n1 \<noteq> [] then (n1, Raise IndexError)
      else
        let next_idx = returned (get_current_log_index (raft_log n1)) + 1 in
        send_append_entries conf env
          (n1\<lparr>next_index := (\<lambda>a. if a \<in> set (other_addrs n1) then next_idx else next_index n1 a),
             match_index := (\<lambda>a. if a \<in> set (other_addrs n1) then 0 else match_index n1 a)\<rparr>))"

definition majority :: "('c, 'r, 's) raft \<Rightarrow> int" where
  "majority n = (int (length (other_addrs n)) + 1) div 2"

definition receive_response_vote :: "raft_conf \<Rightarrow> raft_env \<Rightarrow> int \<Rightarrow> ('c, 'r, 's) raft
    \<Rightarrow> ('c, 'r, 's) raft_result" where
  "receive_response_vote conf env t n =
     (if role n = CANDIDATE \<and> t = current_term n then
        let n1 = n\<lparr>votes_count := votes_count n + 1\<rparr> in
        if votes_count n1 > majority n1 then on_become_leader conf env n1 else (n1, Ret ())
      else (n, Ret ()))"

definition receive_request_vote :: "raft_conf \<Rightarrow> raft_env \<Rightarrow> addr \<Rightarrow> int \<Rightarrow> int \<Rightarrow> int \<Rightarrow> ('c, 'r, 's) raft
    \<Rightarrow> ('c, 'r, 's) raft_result" where
  "receive_request_vote conf env a t last_log_index last_log_term n =
     (let n1 = (if t > current_term n then n\<lparr>current_term := t, role := FOLLOWER\<rparr> else n) in
      if role n1 \<in> {FOLLOWER, CANDIDATE} \<and> t \<ge> current_term n1 then
        reading (get_current_log_term (raft_log n1)) (\<lambda>my_term.
          reading (get_current_log_index (raft_log n1)) (\<lambda>my_index.
            if last_log_term < my_term then (n1, Ret ())
            else if last_log_term = my_term \<and> last_log_index < my_index then (n1, Ret ())
            else (raft_send a (ResponseVote t)
                    (n1\<lparr>election_deadline := env_now env + generate_raft_timeout conf (env_random env)\<rparr>), Ret ())) n1) n1
      else (n1, Ret ()))"

definition start_election :: "raft_conf \<Rightarrow> raft_env \<Rightarrow> ('c, 'r, 's) raft \<Rightarrow> ('c, 'r, 's) raft_result" where
  "start_election conf env n =
     (let n1 = n\<lparr>election_deadline := env_now env + generate_raft_timeout conf (env_random env), raft_leader := None,
                role := CANDIDATE, current_term := current_term n + 1, votes_count := 1\<rparr> in
      if raft_log n1 = [] \<and> other_addrs n1 \<noteq> [] then (n1, Raise IndexError)
      else
        let m = RequestVote (current_term n1) (returned (get_current_log_index (raft_log n1)))
                  (returned (get_current_log_term (raft_log n1))) in
        (on_leader_changed (fold (\<lambda>a. raft_send a m) (other_addrs n1) n1), Ret ()))"

subsection \<open>Receiving entries\<close>

text \<open>
  The part both kinds of \<open>append_entries\<close> begin with.
\<close>

definition follow_leader :: "raft_conf \<Rightarrow> raft_env \<Rightarrow> addr \<Rightarrow> int \<Rightarrow> ('c, 'r, 's) raft \<Rightarrow> ('c, 'r, 's) raft" where
  "follow_leader conf env a t n =
     (let n1 = n\<lparr>election_deadline := env_now env + generate_raft_timeout conf (env_random env)\<rparr>;
          n2 = (if raft_leader n1 \<noteq> Some a then on_leader_changed n1 else n1) in
      n2\<lparr>raft_leader := Some a, current_term := t, role := FOLLOWER\<rparr>)"

text \<open>The part both end with.\<close>

definition confirm_entries :: "addr \<Rightarrow> int \<Rightarrow> ('c, 'r, 's) raft \<Rightarrow> ('c, 'r, 's) raft_result" where
  "confirm_entries a leader_commit n =
     and_then (send_next_node_idx a False n) (\<lambda>n1.
       reading (get_current_log_index (raft_log n1))
         (\<lambda>last. (n1\<lparr>commit_index := min leader_commit last\<rparr>, Ret ())) n1)"

text \<open>Asking for the entries from \<open>None\<close> gives none: \<open>None\<close> is below every index.\<close>

definition receive_append_entries :: "raft_conf \<Rightarrow> raft_env \<Rightarrow> addr \<Rightarrow> int \<Rightarrow> int \<Rightarrow> 'c log \<Rightarrow> (int \<times> int) option
    \<Rightarrow> ('c, 'r, 's) raft \<Rightarrow> ('c, 'r, 's) raft_result" where
  "receive_append_entries conf env a t leader_commit es prev n =
     (if t < current_term n then (n, Ret ())
      else
        let n1 = follow_leader conf env a t n in
        if raft_log n1 = [] then (n1, Raise IndexError)
        else
          (case prev of
             None \<Rightarrow> send_next_node_idx a True n1
           | Some (prev_idx, prev_term) \<Rightarrow>
               let prev_entries = returned (get_entries prev_idx None (raft_log n1)) in
               if prev_entries = [] then send_next_node_idx a True n1
               else if entry_term (hd prev_entries) \<noteq> prev_term then
                 send_next_node_idx a True
                   (n1\<lparr>raft_log := returned (delete_entries_from prev_idx (raft_log n1))\<rparr>)
               else
                 let kept = (if length prev_entries > 1
                             then returned (delete_entries_from (prev_idx + 1) (raft_log n1))
                             else raft_log n1) in
                 confirm_entries a leader_commit (n1\<lparr>raft_log := kept @ es\<rparr>)))"

text \<open>
  The other kind.  Without data the message has no \<open>prevLogIdx\<close> to read, and \<open>False\<close>
  cannot be unpacked.
\<close>

definition receive_serialized :: "raft_conf \<Rightarrow> ('c, 'r, 's) raft_app \<Rightarrow> raft_env \<Rightarrow> addr \<Rightarrow> int \<Rightarrow> int \<Rightarrow> chunk_result
    \<Rightarrow> ('c, 'r, 's) raft \<Rightarrow> ('c, 'r, 's) raft_result" where
  "receive_serialized conf app env a t leader_commit data n =
     (if t < current_term n then (n, Ret ())
      else
        let n1 = follow_leader conf env a t n in
        (case data of
           NoData \<Rightarrow> (n1, Raise KeyError)
         | ReadError \<Rightarrow> (n1, Raise TypeError)
         | Chunk d isFirst isLast \<Rightarrow>
             let (ser, complete) = set_transmission_data (env_io env) (Some (d, isFirst, isLast))
                                     (serializer_of n1);
                 n2 = n1\<lparr>serializer_of := ser\<rparr> in
             confirm_entries a leader_commit (if complete then load_dump_file app n2 else n2)))"

subsection \<open>Commands\<close>

definition receive_apply_command :: "raft_conf \<Rightarrow> addr \<Rightarrow> 'c \<Rightarrow> int option \<Rightarrow> ('c, 'r, 's) raft
    \<Rightarrow> ('c, 'r, 's) raft_result" where
  "receive_apply_command conf a c req n =
     (case req of
        Some r \<Rightarrow> raft_apply_command conf c (RemoteCallback a r) n
      | None \<Rightarrow> raft_apply_command conf c NoCallback n)"

definition receive_refused :: "int \<Rightarrow> fail_reason \<Rightarrow> ('c, 'r, 's) raft \<Rightarrow> ('c, 'r, 's) raft_result" where
  "receive_refused r reason n =
     (case map_of (waiting_reply n) r of
        None \<Rightarrow> (n, Ret ())
      | Some cb \<Rightarrow>
          (call cb None reason (n\<lparr>waiting_reply := remove1 (r, cb) (waiting_reply n)\<rparr>), Ret ()))"

definition receive_taken :: "int \<Rightarrow> int \<Rightarrow> int \<Rightarrow> ('c, 'r, 's) raft \<Rightarrow> ('c, 'r, 's) raft_result" where
  "receive_taken r i t n =
     (case map_of (waiting_reply n) r of
        None \<Rightarrow> (n, Ret ())
      | Some cb \<Rightarrow>
          let n1 = n\<lparr>waiting_reply := remove1 (r, cb) (waiting_reply n)\<rparr> in
          if i > last_applied n1
          then (n1\<lparr>waiting_commit := waiting_commit n1 @ [(i, t, cb)]\<rparr>, Ret ())
          else (n1, Raise AssertionError))"

definition receive_next_node_idx :: "addr \<Rightarrow> int \<Rightarrow> bool \<Rightarrow> ('c, 'r, 's) raft \<Rightarrow> ('c, 'r, 's) raft" where
  "receive_next_node_idx a next_idx reset n =
     (if role n = LEADER then
        let n1 = (if reset then n\<lparr>next_index := (next_index n)(a := next_idx)\<rparr> else n) in
        n1\<lparr>match_index := (match_index n1)(a := next_idx - 1)\<rparr>
      else n)"

text \<open>One command of the queue, and \<open>_checkCommandsToApply\<close>, which takes at most
  \<open>maxCommandsPerTick\<close> of them.\<close>

definition check_command :: "raft_conf \<Rightarrow> raft_env \<Rightarrow> 'c \<Rightarrow> command_callback \<Rightarrow> ('c, 'r, 's) raft
    \<Rightarrow> ('c, 'r, 's) raft_result" where
  "check_command conf env c cb n =
     (if role n = LEADER then
        reading (get_current_log_index (raft_log n)) (\<lambda>last.
          let i = last + 1; t = current_term n;
              n1 = n\<lparr>raft_log := raft_log n @ [Entry c i t]\<rparr>;
              n2 = (case cb of
                      NoCallback \<Rightarrow> n1
                    | LocalCallback k \<Rightarrow> n1\<lparr>waiting_commit := waiting_commit n1 @ [(i, t, k)]\<rparr>
                    | RemoteCallback a r \<Rightarrow> raft_send a (ApplyTaken r i t) n1) in
          if append_entries_use_batch conf then (n2, Ret ()) else send_append_entries conf env n2) n
      else
        (case raft_leader n of
           Some l \<Rightarrow>
             (case cb of
                NoCallback \<Rightarrow> (raft_send l (ApplyCommand c None) n, Ret ())
              | LocalCallback k \<Rightarrow>
                  let i = local_counter n + 1 in
                  (raft_send l (ApplyCommand c (Some i))
                     (n\<lparr>local_counter := i, waiting_reply := waiting_reply n @ [(i, k)]\<rparr>), Ret ())
              | RemoteCallback a r \<Rightarrow> (raft_send a (ApplyRefused r NOT_LEADER) n, Ret ()))
         | None \<Rightarrow>
             (case cb of
                RemoteCallback a r \<Rightarrow> (raft_send a (ApplyRefused r NOT_LEADER) n, Ret ())
              | _ \<Rightarrow> call_failed cb MISSING_LEADER n)))"

fun check_commands :: "raft_conf \<Rightarrow> raft_env \<Rightarrow> nat \<Rightarrow> ('c, 'r, 's) raft \<Rightarrow> ('c, 'r, 's) raft_result" where
  "check_commands conf env 0 n = (n, Ret ())"
| "check_commands conf env (Suc k) n =
     (if raft_leader n = None \<and> commands_wait_leader conf then (n, Ret ())
      else
        (case commands_queue n of
           [] \<Rightarrow> (n, Ret ())
         | (c, cb) # q \<Rightarrow>
             and_then (check_command conf env c cb (n\<lparr>commands_queue := q\<rparr>)) (check_commands conf env k)))"

subsection \<open>Committing and applying\<close>

text \<open>How many nodes have the entry, the leader included.\<close>

definition replicas :: "int \<Rightarrow> ('c, 'r, 's) raft \<Rightarrow> int" where
  "replicas i n = 1 + int (length (filter (\<lambda>a. match_index n a \<ge> i) (other_addrs n)))"

function commit_loop :: "int \<Rightarrow> ('c, 'r, 's) raft \<Rightarrow> int \<Rightarrow> int" where
  "commit_loop current n c =
     (if c < current then
        (if replicas (c + 1) n > majority n then commit_loop current n (c + 1) else c)
      else c)"
  by pat_completeness auto

termination
  by (relation "measure (\<lambda>(current, n, c). nat (current - c))") auto

declare commit_loop.simps [simp del]

definition advance_commit :: "('c, 'r, 's) raft \<Rightarrow> ('c, 'r, 's) raft_result" where
  "advance_commit n =
     reading (get_current_log_index (raft_log n))
       (\<lambda>current. (n\<lparr>commit_index := commit_loop current n (commit_index n)\<rparr>, Ret ())) n"

text \<open>Applying entries: the callbacks that wait for an index are called when its entry is
  applied, with success if the entry is the one they wait for.\<close>

definition notify :: "'r \<Rightarrow> int \<Rightarrow> int \<times> int \<times> nat \<Rightarrow> ('c, 'r, 's) raft \<Rightarrow> ('c, 'r, 's) raft" where
  "notify res t sub n =
     (case sub of (_, t', cb) \<Rightarrow>
        if t' = t then call cb (Some res) SUCCEEDED n else call cb None DISCARDED n)"

definition apply_entry :: "('c, 'r, 's) raft_app \<Rightarrow> 'c entry \<Rightarrow> ('c, 'r, 's) raft \<Rightarrow> ('c, 'r, 's) raft_result" where
  "apply_entry app e n =
     (let subscribers = filter (\<lambda>w. fst w = entry_idx e) (waiting_commit n);
          n1 = n\<lparr>waiting_commit := filter (\<lambda>w. fst w \<noteq> entry_idx e) (waiting_commit n)\<rparr> in
      (case app_apply app (entry_cmd e) (app_state n1) of
         (s, Raise x) \<Rightarrow> (n1\<lparr>app_state := s\<rparr>, Raise x)
       | (s, Ret res) \<Rightarrow>
           let n2 = fold (notify res (entry_term e)) subscribers (n1\<lparr>app_state := s\<rparr>) in
           (n2\<lparr>last_applied := last_applied n2 + 1\<rparr>, Ret ())))"

fun apply_entries :: "('c, 'r, 's) raft_app \<Rightarrow> 'c log \<Rightarrow> ('c, 'r, 's) raft \<Rightarrow> ('c, 'r, 's) raft_result" where
  "apply_entries app [] n = (n, Ret ())"
| "apply_entries app (e # es) n = and_then (apply_entry app e n) (apply_entries app es)"

definition apply_committed :: "('c, 'r, 's) raft_app \<Rightarrow> ('c, 'r, 's) raft \<Rightarrow> ('c, 'r, 's) raft_result" where
  "apply_committed app n =
     (if commit_index n > last_applied n then
        reading (get_entries (last_applied n + 1) (Some (commit_index n - last_applied n)) (raft_log n))
          (\<lambda>es. apply_entries app es n) n
      else (n, Ret ()))"

subsection \<open>Log compaction\<close>

definition start_dump :: "('c, 'r, 's) raft_app \<Rightarrow> raft_env \<Rightarrow> ('c, 'r, 's) raft \<Rightarrow> ('c, 'r, 's) raft_result" where
  "start_dump app env n =
     reading (get_entries (last_applied n - 1) (Some 2) (raft_log n)) (\<lambda>es.
       if es = [] then (n, Ret ())
       else if length es < 2 then (n, Raise IndexError)
       else
         let packed = app_pack app (app_state n, es ! 1, es ! 0) in
         (n\<lparr>serializer_of := serialize (env_fork env) packed (entry_idx (es ! 1)) (serializer_of n)\<rparr>,
          Ret ())) n"

definition try_log_compaction :: "raft_conf \<Rightarrow> ('c, 'r, 's) raft_app \<Rightarrow> raft_env \<Rightarrow> ('c, 'r, 's) raft
    \<Rightarrow> ('c, 'r, 's) raft_result" where
  "try_log_compaction conf app env n =
     (let (ser, state, i) = check_serializing (env_wait env) (serializer_of n);
          n1 = n\<lparr>serializer_of := ser\<rparr> in
      if state = SUCCESS then
        let n2 = n1\<lparr>last_serialized_time := env_now env\<rparr> in
        reading (delete_entries_to (the i) (raft_log n2)) (\<lambda>l. (n2\<lparr>raft_log := l\<rparr>, Ret ())) n2
      else if state \<noteq> NOT_SERIALIZING then (n1, Ret ())
      else if length (raft_log n1) \<le> log_compaction_min_entries conf \<and>
              env_now env - last_serialized_time n1 \<le> log_compaction_min_time conf \<and>
              \<not> force_compaction n1 then (n1, Ret ())
      else start_dump app env (n1\<lparr>force_compaction := False\<rparr>))"

subsection \<open>Ticks and messages\<close>

definition tick_dump :: "('c, 'r, 's) raft_app \<Rightarrow> ('c, 'r, 's) raft \<Rightarrow> ('c, 'r, 's) raft" where
  "tick_dump app n =
     (if need_load_dump n then
        (if file_name (serializer_of n) \<noteq> None \<and> disk (serializer_of n) \<noteq> None
         then load_dump_file app n else n)\<lparr>need_load_dump := False\<rparr>
      else n)"

definition tick_election :: "raft_conf \<Rightarrow> raft_env \<Rightarrow> ('c, 'r, 's) raft \<Rightarrow> ('c, 'r, 's) raft_result" where
  "tick_election conf env n =
     (if role n \<in> {FOLLOWER, CANDIDATE} \<and> election_deadline n < env_now env
      then start_election conf env n else (n, Ret ()))"

definition tick_leader :: "raft_conf \<Rightarrow> raft_env \<Rightarrow> ('c, 'r, 's) raft \<Rightarrow> ('c, 'r, 's) raft_result" where
  "tick_leader conf env n =
     (if role n = LEADER then
        and_then (advance_commit n) (\<lambda>n1.
          if env_now env > new_append_time n1 then send_append_entries conf env n1 else (n1, Ret ()))
      else (n, Ret ()))"

definition on_tick :: "raft_conf \<Rightarrow> ('c, 'r, 's) raft_app \<Rightarrow> raft_env \<Rightarrow> ('c, 'r, 's) raft
    \<Rightarrow> ('c, 'r, 's) raft_result" where
  "on_tick conf app env n =
     and_then (tick_election conf env (tick_dump app n)) (\<lambda>n1.
       and_then (tick_leader conf env n1) (\<lambda>n2.
         and_then (apply_committed app n2) (\<lambda>n3.
           and_then (check_commands conf env (max_commands_per_tick conf) n3)
             (try_log_compaction conf app env))))"

definition on_message :: "raft_conf \<Rightarrow> ('c, 'r, 's) raft_app \<Rightarrow> raft_env \<Rightarrow> addr \<Rightarrow> 'c raft_msg
    \<Rightarrow> ('c, 'r, 's) raft \<Rightarrow> ('c, 'r, 's) raft_result" where
  "on_message conf app env a m n =
     (case m of
        RequestVote t i lt \<Rightarrow> receive_request_vote conf env a t i lt n
      | ResponseVote t \<Rightarrow> receive_response_vote conf env t n
      | AppendEntries t c es prev \<Rightarrow> receive_append_entries conf env a t c es prev n
      | AppendSerialized t c data \<Rightarrow> receive_serialized conf app env a t c data n
      | ApplyCommand c r \<Rightarrow> receive_apply_command conf a c r n
      | ApplyRefused r reason \<Rightarrow> receive_refused r reason n
      | ApplyTaken r i t \<Rightarrow> receive_taken r i t n
      | NextNodeIdx i reset \<Rightarrow> (receive_next_node_idx a i reset n, Ret ()))"

text \<open>
  What can happen to a node: a tick, a message, a command from the program that uses it,
  a connection that opens or breaks, a forced compaction, and the end of the child that
  writes a dump.
\<close>

datatype 'c raft_event =
    Tick raft_env
  | Received raft_env addr "'c raft_msg"
  | Submitted 'c "nat option"
  | Link addr bool
  | Force_Compaction
  | Child_Wrote string

definition raft_step :: "raft_conf \<Rightarrow> ('c, 'r, 's) raft_app \<Rightarrow> 'c raft_event \<Rightarrow> ('c, 'r, 's) raft
    \<Rightarrow> ('c, 'r, 's) raft_result" where
  "raft_step conf app ev n =
     (case ev of
        Tick env \<Rightarrow> on_tick conf app env n
      | Received env a m \<Rightarrow> on_message conf app env a m n
      | Submitted c cb \<Rightarrow>
          raft_apply_command conf c (case cb of None \<Rightarrow> NoCallback | Some k \<Rightarrow> LocalCallback k) n
      | Link a up \<Rightarrow> (n\<lparr>node_up := (node_up n)(a := up)\<rparr>, Ret ())
      | Force_Compaction \<Rightarrow> (n\<lparr>force_compaction := True\<rparr>, Ret ())
      | Child_Wrote packed \<Rightarrow> (n\<lparr>serializer_of := child_writes packed (serializer_of n)\<rparr>, Ret ()))"

end
