(* ===== verification/Raft_Frames.thy ===== *)
theory Raft_Frames
  imports Raft_Node "HOL-Library.Multiset"
begin

section \<open>What the Raft operations leave alone\<close>

text \<open>
  The operations of \<open>Raft_Node\<close> come in groups that write different fields.  Sending
  entries writes what \<open>sent_only\<close> lists; from that and from how \<open>and_then\<close> composes, every
  other group's frame follows.  The second half keeps the books on callbacks.
\<close>

subsection \<open>Composition\<close>

lemma and_then_Ret [simp]: "and_then (n, Ret u) f = f n"
  by (simp add: and_then_def)

lemma and_then_Raise [simp]: "and_then (n, Raise e) f = (n, Raise e)"
  by (simp add: and_then_def)

lemma reading_Ret [simp]: "reading (Ret v) f n = f v"
  by (simp add: reading_def)

lemma reading_Raise [simp]: "reading (Raise e) f n = (n, Raise e)"
  by (simp add: reading_def)

lemma and_then_cases:
  obtains m where "r = (m, Ret ())" "and_then r f = f m"
  | m e where "r = (m, Raise e)" "and_then r f = (m, Raise e)"
proof (cases r)
  case (Pair m v)
  then show ?thesis using that by (cases v) auto
qed

lemma reading_cases:
  obtains v where "x = Ret v" "reading x f n = f v"
  | e where "x = Raise e" "reading x f n = (n, Raise e)"
  using that by (cases x) auto

text \<open>A reflexive and transitive relation between states passes through \<open>and_then\<close>.\<close>

lemma and_then_rel:
  assumes "R n (fst r)" "\<And>m. r = (m, Ret ()) \<Longrightarrow> R m (fst (f m))" "\<And>a b c. R a b \<Longrightarrow> R b c \<Longrightarrow> R a c"
  shows "R n (fst (and_then r f))"
proof (cases rule: and_then_cases[of r f])
  case (1 m)
  then show ?thesis using assms(1) assms(2)[of m] assms(3) by auto
next
  case (2 m e)
  then show ?thesis using assms(1) by simp
qed

lemma reading_rel:
  assumes "R n n" "\<And>v. x = Ret v \<Longrightarrow> R n (fst (f v))"
  shows "R n (fst (reading x f n))"
  using assms by (cases x) auto

subsection \<open>Sending\<close>

text \<open>\<open>m\<close> is \<open>n\<close> after some sending of entries.\<close>

definition sent_only :: "('c, 'r, 's) raft \<Rightarrow> ('c, 'r, 's) raft \<Rightarrow> bool" where
  "sent_only n m \<longleftrightarrow>
     self_addr m = self_addr n \<and> other_addrs m = other_addrs n \<and> node_up m = node_up n \<and>
     role m = role n \<and> current_term m = current_term n \<and> votes_count m = votes_count n \<and>
     raft_leader m = raft_leader n \<and> election_deadline m = election_deadline n \<and>
     raft_log m = raft_log n \<and> commit_index m = commit_index n \<and> last_applied m = last_applied n \<and>
     match_index m = match_index n \<and> commands_queue m = commands_queue n \<and>
     waiting_commit m = waiting_commit n \<and> waiting_reply m = waiting_reply n \<and>
     app_state m = app_state n \<and> callbacks m = callbacks n \<and> local_counter m = local_counter n"

lemma sent_only_refl [simp]: "sent_only n n"
  by (simp add: sent_only_def)

lemma sent_only_trans: "sent_only a b \<Longrightarrow> sent_only b c \<Longrightarrow> sent_only a c"
  by (simp add: sent_only_def)

lemma sent_only_fields:
  assumes "sent_only n m"
  shows "self_addr m = self_addr n" "other_addrs m = other_addrs n" "node_up m = node_up n"
    "role m = role n" "current_term m = current_term n" "votes_count m = votes_count n"
    "raft_leader m = raft_leader n" "election_deadline m = election_deadline n"
    "raft_log m = raft_log n" "commit_index m = commit_index n" "last_applied m = last_applied n"
    "match_index m = match_index n" "commands_queue m = commands_queue n"
    "waiting_commit m = waiting_commit n" "waiting_reply m = waiting_reply n"
    "app_state m = app_state n" "callbacks m = callbacks n" "local_counter m = local_counter n"
  using assms by (simp_all add: sent_only_def)

lemma sent_only_updates [simp]:
  "sent_only n (n\<lparr>raft_outbox := out\<rparr>)" "sent_only n (n\<lparr>next_index := nx\<rparr>)"
  "sent_only n (n\<lparr>serializer_of := ser\<rparr>)" "sent_only n (n\<lparr>new_append_time := t\<rparr>)"
  by (simp_all add: sent_only_def)

lemma sent_only_raft_send [simp]: "sent_only n (raft_send a m n)"
  by (simp add: raft_send_def)

lemma sent_only_send_one: "sent_only n (fst (send_one conf ok a n))"
proof -
  have send: "sent_only n m \<Longrightarrow> sent_only n (raft_send a x m)" for m x
    by (rule sent_only_trans[OF _ sent_only_raft_send])
  have nx: "sent_only n m \<Longrightarrow> sent_only n (m\<lparr>next_index := f\<rparr>)" for m f
    by (rule sent_only_trans[OF _ sent_only_updates(2)])
  have ser: "sent_only n (n\<lparr>serializer_of := s\<rparr>)" for s by simp
  show ?thesis
    by (simp add: send_one_def Let_def split_beta send nx ser split: chunk_result.split)
qed

lemma sent_only_send_loop: "sent_only n (fst (send_loop conf ok a k go n))"
proof (induction k arbitrary: go n)
  case (Suc k)
  obtain m r where one: "send_one conf ok a n = (m, r)" by (cases "send_one conf ok a n")
  have m: "sent_only n m" using sent_only_send_one[of n conf ok a] one by simp
  show ?case
    by (cases r) (simp_all add: one m sent_only_trans[OF m Suc.IH])
qed simp

lemma sent_only_send_to_nodes: "sent_only n (fst (send_to_nodes conf ok budget as n))"
proof (induction as arbitrary: n)
  case (Cons a as)
  show ?case
  proof (cases "node_up n a")
    case True
    have "sent_only n (fst (and_then (send_loop conf ok a (Suc (budget a)) True n)
        (send_to_nodes conf ok budget as)))"
      by (rule and_then_rel[where R = sent_only, OF sent_only_send_loop Cons.IH]) (rule sent_only_trans)
    then show ?thesis using True by (simp del: send_loop.simps)
  next
    case False
    then show ?thesis using sent_only_trans[OF sent_only_updates(3) Cons.IH] by simp
  qed
qed simp

lemma sent_only_send_append: "sent_only n (fst (send_append_entries conf env n))"
  unfolding send_append_entries_def
  by (rule sent_only_trans[OF sent_only_updates(4) sent_only_send_to_nodes])

lemma sent_only_next_node_idx: "sent_only n (fst (send_next_node_idx a reset n))"
  unfolding send_next_node_idx_def by (rule reading_rel[where R = sent_only]) simp_all

lemmas sending_fields = sent_only_fields[OF sent_only_send_append]
  sent_only_fields[OF sent_only_next_node_idx] sent_only_fields[OF sent_only_raft_send]

lemma sent_only_fold_send: "sent_only n (fold (\<lambda>a. raft_send a m) as n)"
proof (induction as arbitrary: n)
  case (Cons a as)
  show ?case using sent_only_trans[OF sent_only_raft_send Cons.IH] by simp
qed simp

subsection \<open>Calling back\<close>

lemma call_fields [simp]:
  "self_addr (call k r x n) = self_addr n" "other_addrs (call k r x n) = other_addrs n"
  "role (call k r x n) = role n" "current_term (call k r x n) = current_term n"
  "raft_log (call k r x n) = raft_log n" "commit_index (call k r x n) = commit_index n"
  "last_applied (call k r x n) = last_applied n" "app_state (call k r x n) = app_state n"
  "waiting_commit (call k r x n) = waiting_commit n" "waiting_reply (call k r x n) = waiting_reply n"
  "commands_queue (call k r x n) = commands_queue n" "raft_leader (call k r x n) = raft_leader n"
  "callbacks (call k r x n) = callbacks n @ [(k, r, x)]" "serializer_of (call k r x n) = serializer_of n"
  "raft_outbox (call k r x n) = raft_outbox n" "votes_count (call k r x n) = votes_count n"
  "node_up (call k r x n) = node_up n" "next_index (call k r x n) = next_index n"
  "match_index (call k r x n) = match_index n" "local_counter (call k r x n) = local_counter n"
  by (simp_all add: call_def)

lemma fold_call: "fold (\<lambda>(i, cb). call cb None x) ws n =
    n\<lparr>callbacks := callbacks n @ map (\<lambda>(i, cb). (cb, None, x)) ws\<rparr>"
  by (induction ws arbitrary: n) (auto simp: call_def)

lemma on_leader_changed_eq:
  "on_leader_changed n =
     n\<lparr>callbacks := callbacks n @ map (\<lambda>(i, cb). (cb, None, LEADER_CHANGED)) (waiting_reply n),
       waiting_reply := []\<rparr>"
  by (simp add: on_leader_changed_def fold_call)

lemma fold_notify: "fold (notify res t) ws n =
    n\<lparr>callbacks := callbacks n @
       map (\<lambda>(i, t', cb). if t' = t then (cb, Some res, SUCCEEDED) else (cb, None, DISCARDED)) ws\<rparr>"
  by (induction ws arbitrary: n) (auto simp: notify_def call_def)

lemma call_failed_fields [simp]:
  "role (fst (call_failed cb x n)) = role n" "current_term (fst (call_failed cb x n)) = current_term n"
  "raft_log (fst (call_failed cb x n)) = raft_log n" "other_addrs (fst (call_failed cb x n)) = other_addrs n"
  "votes_count (fst (call_failed cb x n)) = votes_count n" "last_applied (fst (call_failed cb x n)) = last_applied n"
  "commit_index (fst (call_failed cb x n)) = commit_index n" "app_state (fst (call_failed cb x n)) = app_state n"
  by (simp_all add: call_failed_def split: command_callback.splits)

lemma raft_apply_command_fields [simp]:
  "role (fst (raft_apply_command conf c cb n)) = role n"
  "current_term (fst (raft_apply_command conf c cb n)) = current_term n"
  "raft_log (fst (raft_apply_command conf c cb n)) = raft_log n"
  "other_addrs (fst (raft_apply_command conf c cb n)) = other_addrs n"
  "votes_count (fst (raft_apply_command conf c cb n)) = votes_count n"
  by (simp_all add: raft_apply_command_def)

subsection \<open>Terms and roles\<close>

text \<open>Between two states of a node, if it does not win an election: the term does not go down,
  it is leader only if it was, in this very term, and a candidate has the votes it had or its
  own only.\<close>

definition term_step :: "('c, 'r, 's) raft \<Rightarrow> ('c, 'r, 's) raft \<Rightarrow> bool" where
  "term_step n m \<longleftrightarrow> current_term n \<le> current_term m \<and> other_addrs m = other_addrs n \<and>
     (role m = LEADER \<longrightarrow> role n = LEADER \<and> current_term m = current_term n) \<and>
     (role m = CANDIDATE \<longrightarrow> votes_count m = 1 \<or>
        role n = CANDIDATE \<and> current_term m = current_term n \<and> votes_count m = votes_count n)"

lemma term_step_refl [simp]: "term_step n n"
  by (simp add: term_step_def)

lemma term_step_trans: "term_step a b \<Longrightarrow> term_step b c \<Longrightarrow> term_step a c"
  by (auto simp: term_step_def)

lemma term_step_same:
  "role m = role n \<Longrightarrow> current_term m = current_term n \<Longrightarrow> other_addrs m = other_addrs n \<Longrightarrow>
   votes_count m = votes_count n \<Longrightarrow> term_step n m"
  by (simp add: term_step_def)

lemma term_step_sent: "sent_only n m \<Longrightarrow> term_step n m"
  by (intro term_step_same) (simp_all add: sent_only_fields)

lemma term_step_election: "term_step n (fst (tick_election conf env n))"
  by (auto simp: tick_election_def start_election_def term_step_def Let_def on_leader_changed_eq
      sent_only_fields[OF sent_only_fold_send])

lemma term_step_dump: "term_step n (tick_dump app n)"
  by (auto simp: tick_dump_def load_dump_file_def term_step_def split: option.splits)

lemma term_step_tick_leader: "term_step n (fst (tick_leader conf env n))"
proof -
  have "term_step n (fst (advance_commit n))"
    unfolding advance_commit_def by (rule reading_rel[where R = term_step]) (simp_all add: term_step_same)
  moreover have "term_step m (fst (if env_now env > new_append_time m then send_append_entries conf env m
      else (m, Ret ())))" for m :: "('a, 'b, 'c) raft"
    by (simp add: term_step_sent[OF sent_only_send_append])
  ultimately have "term_step n (fst (and_then (advance_commit n) (\<lambda>n1.
      if env_now env > new_append_time n1 then send_append_entries conf env n1 else (n1, Ret ()))))"
    by (rule and_then_rel[where R = term_step]) (rule term_step_trans)
  then show ?thesis by (simp add: tick_leader_def)
qed

lemma term_step_apply_entries: "term_step n (fst (apply_entries app es n))"
proof (induction es arbitrary: n)
  case (Cons e es)
  have "term_step n (fst (apply_entry app e n))"
    by (auto simp: apply_entry_def Let_def fold_notify intro!: term_step_same split: prod.splits outcome.splits)
  then show ?case by (auto intro!: and_then_rel[where R = term_step] Cons.IH intro: term_step_trans)
qed simp

lemma term_step_apply_committed: "term_step n (fst (apply_committed app n))"
  by (auto simp: apply_committed_def intro!: reading_rel[where R = term_step] term_step_apply_entries)

lemma term_step_check_command: "term_step n (fst (check_command conf env c cb n))"
proof (cases "role n = LEADER")
  case True
  show ?thesis
  proof (cases "get_current_log_index (raft_log n)")
    case (Ret l)
    then show ?thesis using True
      by (auto simp: check_command_def Let_def term_step_def sending_fields split: command_callback.splits)
  qed (simp add: True check_command_def)
next
  case False
  then show ?thesis
    by (auto simp: check_command_def call_failed_def Let_def sending_fields intro!: term_step_same
        split: option.splits command_callback.splits)
qed

lemma term_step_check_commands: "term_step n (fst (check_commands conf env k n))"
proof (induction k arbitrary: n)
  case (Suc k)
  have "term_step n (fst (check_command conf env c cb (n\<lparr>commands_queue := q\<rparr>)))" for c cb q
    using term_step_check_command[of "n\<lparr>commands_queue := q\<rparr>" conf env c cb] by (simp add: term_step_def)
  then show ?case
    by (auto intro!: and_then_rel[where R = term_step] Suc.IH intro: term_step_trans
        split: list.splits)
qed simp

lemma term_step_compaction: "term_step n (fst (try_log_compaction conf app env n))"
proof -
  have "term_step m (fst (start_dump app env m))" for m :: "('a, 'b, 'c) raft"
    unfolding start_dump_def
    by (rule reading_rel[where R = term_step]) (simp_all add: Let_def term_step_same)
  from this[of "n\<lparr>serializer_of := s, force_compaction := False\<rparr>" for s]
  have d: "term_step n (fst (start_dump app env (n\<lparr>serializer_of := s, force_compaction := False\<rparr>)))" for s
    by (simp add: term_step_def)
  show ?thesis
    by (auto simp: try_log_compaction_def Let_def split_beta reading_def d term_step_same split: outcome.splits)
qed

lemma term_step_on_tick: "term_step n (fst (on_tick conf app env n))"
  unfolding on_tick_def
  by (intro and_then_rel[where R = term_step] term_step_trans[OF term_step_dump term_step_election]
      term_step_tick_leader term_step_apply_committed term_step_check_commands term_step_compaction)
     (blast intro: term_step_trans)+

lemma follow_leader_fields [simp]:
  "current_term (follow_leader conf env a t n) = t" "role (follow_leader conf env a t n) = FOLLOWER"
  "raft_leader (follow_leader conf env a t n) = Some a" "raft_log (follow_leader conf env a t n) = raft_log n"
  "serializer_of (follow_leader conf env a t n) = serializer_of n" "commit_index (follow_leader conf env a t n) = commit_index n"
  "last_applied (follow_leader conf env a t n) = last_applied n" "app_state (follow_leader conf env a t n) = app_state n"
  "waiting_commit (follow_leader conf env a t n) = waiting_commit n" "commands_queue (follow_leader conf env a t n) = commands_queue n"
  "node_up (follow_leader conf env a t n) = node_up n" "other_addrs (follow_leader conf env a t n) = other_addrs n"
  "raft_outbox (follow_leader conf env a t n) = raft_outbox n"
  by (simp_all add: follow_leader_def Let_def on_leader_changed_eq)

lemma confirm_fields:
  "role (fst (confirm_entries a c n)) = role n" "current_term (fst (confirm_entries a c n)) = current_term n"
  "raft_log (fst (confirm_entries a c n)) = raft_log n" "other_addrs (fst (confirm_entries a c n)) = other_addrs n"
  "votes_count (fst (confirm_entries a c n)) = votes_count n"
  by (auto simp: confirm_entries_def send_next_node_idx_def reading_def and_then_def sending_fields split: outcome.splits)

lemma load_dump_fields [simp]:
  "role (load_dump_file app n) = role n" "current_term (load_dump_file app n) = current_term n"
  "other_addrs (load_dump_file app n) = other_addrs n" "votes_count (load_dump_file app n) = votes_count n"
  by (auto simp: load_dump_file_def split: option.splits)

lemma term_step_append: "term_step n (fst (receive_append_entries conf env a t c es prev n))"
  by (auto simp: receive_append_entries_def Let_def term_step_def sending_fields confirm_fields split: option.splits)

lemma term_step_serialized: "term_step n (fst (receive_serialized conf app env a t c d n))"
  by (auto simp: receive_serialized_def Let_def term_step_def confirm_fields split_beta split: chunk_result.splits)

lemma term_step_request_vote: "term_step n (fst (receive_request_vote conf env a t i lt n))"
  by (auto simp: receive_request_vote_def Let_def term_step_def reading_def sending_fields split: outcome.splits)

lemma term_step_next_node_idx: "term_step n (receive_next_node_idx a i reset n)"
  by (auto simp: receive_next_node_idx_def Let_def intro!: term_step_same)

lemma term_step_apply_command: "term_step n (fst (raft_apply_command conf c cb n))"
  by (intro term_step_same) simp_all

lemma term_step_refused: "term_step n (fst (receive_refused r x n))"
  by (auto simp: receive_refused_def intro!: term_step_same split: option.splits)

lemma term_step_taken: "term_step n (fst (receive_taken r i t n))"
  by (auto simp: receive_taken_def Let_def intro!: term_step_same split: option.splits)

text \<open>Every event but a vote is such a step.\<close>

lemma term_step_event:
  assumes "\<And>env a t. ev \<noteq> Received env a (ResponseVote t)"
  shows "term_step n (fst (raft_step conf app ev n))"
proof (cases ev)
  case (Received env a m)
  then show ?thesis using assms
    by (cases m) (auto simp: raft_step_def on_message_def receive_apply_command_def
        term_step_request_vote term_step_append term_step_serialized term_step_apply_command
        term_step_refused term_step_taken term_step_next_node_idx split: option.splits)
qed (auto simp: raft_step_def term_step_on_tick term_step_apply_command intro: term_step_same)

text \<open>And what a vote does.\<close>

lemma vote_event:
  assumes "fst (receive_response_vote conf env t n) = m"
  shows "m = n \<or> role n = CANDIDATE \<and> t = current_term n \<and> current_term m = current_term n \<and>
    other_addrs m = other_addrs n \<and>
    (role m = CANDIDATE \<and> votes_count m = votes_count n + 1 \<or>
     role m = LEADER \<and> votes_count n + 1 > majority n)"
  using assms
  by (auto simp: receive_response_vote_def on_become_leader_def Let_def sending_fields majority_def
      split: if_splits)

subsection \<open>The books on callbacks\<close>

text \<open>The callbacks that still wait for an answer, and those that were called.\<close>

fun local_callback :: "command_callback \<Rightarrow> nat option" where
  "local_callback (LocalCallback k) = Some k"
| "local_callback cb = None"

definition pending :: "('c, 'r, 's) raft \<Rightarrow> nat multiset" where
  "pending n = mset (List.map_filter (\<lambda>(c, cb). local_callback cb) (commands_queue n)) +
     mset (map snd (waiting_reply n)) + mset (map (\<lambda>(i, t, cb). cb) (waiting_commit n))"

definition called :: "('c, 'r, 's) raft \<Rightarrow> nat multiset" where
  "called n = mset (map fst (callbacks n))"

definition account :: "('c, 'r, 's) raft \<Rightarrow> nat multiset" where
  "account n = pending n + called n"

lemma account_same:
  assumes "commands_queue m = commands_queue n" "waiting_reply m = waiting_reply n"
    "waiting_commit m = waiting_commit n" "callbacks m = callbacks n"
  shows "account m = account n"
  using assms by (simp add: account_def pending_def called_def)

lemma account_sent: "sent_only n m \<Longrightarrow> account m = account n"
  by (intro account_same) (simp_all add: sent_only_fields)

text \<open>A result keeps the books if no callback appears twice, and none is lost unless it raises.\<close>

definition keeps :: "nat multiset \<Rightarrow> ('c, 'r, 's) raft_result \<Rightarrow> bool" where
  "keeps A r \<longleftrightarrow> account (fst r) \<subseteq># A \<and> (snd r = Ret () \<longrightarrow> account (fst r) = A)"

lemma keepsI: "account (fst r) = A \<Longrightarrow> keeps A r"
  by (simp add: keeps_def)

lemma keeps_raise: "account n \<subseteq># A \<Longrightarrow> keeps A (n, Raise e)"
  by (simp add: keeps_def)

lemma keeps_and_then:
  assumes "keeps A r" "\<And>m. r = (m, Ret ()) \<Longrightarrow> keeps (account m) (f m)"
  shows "keeps A (and_then r f)"
proof (cases rule: and_then_cases[of r f])
  case (1 m)
  then show ?thesis using assms by (simp add: keeps_def)
qed (use assms(1) in \<open>simp add: keeps_def\<close>)

lemma keeps_reading:
  assumes "account n \<subseteq># A" "\<And>v. x = Ret v \<Longrightarrow> keeps A (f v)"
  shows "keeps A (reading x f n)"
  using assms by (cases x) (simp_all add: keeps_raise)

lemma account_call: "account (call k r x n) = add_mset k (account n)"
  by (simp add: account_def pending_def called_def call_def)

lemma account_leader_changed: "account (on_leader_changed n) = account n"
  by (simp add: account_def pending_def called_def on_leader_changed_eq split_beta comp_def)

lemma account_queue:
  "account (n\<lparr>commands_queue := commands_queue n @ [(c, cb)]\<rparr>) =
     mset (case local_callback cb of Some k \<Rightarrow> [k] | None \<Rightarrow> []) + account n"
  by (auto simp: account_def pending_def called_def map_filter_def split: option.splits)

lemma keeps_apply_command:
  "keeps (account n + mset (case local_callback cb of Some k \<Rightarrow> [k] | None \<Rightarrow> []))
     (raft_apply_command conf c cb n)"
  by (cases cb) (auto simp: raft_apply_command_def call_failed_def keeps_def account_queue account_call)

end
