(* ===== verification/Raft_Replication.thy ===== *)
theory Raft_Replication
  imports Raft_Frames
begin

section \<open>Replicating, committing, applying and compacting the Raft log\<close>

text \<open>
  What the handlers do to the log, read as the map \<open>at_index\<close> from indices to entries, and
  what follows for a leader and a follower that exchange messages without loss.
\<close>

subsection \<open>The follower\<close>

lemma follow_log: "raft_log (follow_leader conf env a t n) = raft_log n"
  by simp

lemma send_next_eq:
  "contiguous (raft_log n) \<Longrightarrow> send_next_node_idx a reset n =
     (raft_send a (NextNodeIdx (entry_idx (last (raft_log n)) + 1) reset) n, Ret ())"
  by (simp add: send_next_node_idx_def get_current_log_index_def contiguous_def)

lemma confirm_eq:
  "contiguous (raft_log n) \<Longrightarrow> confirm_entries a c n =
     ((raft_send a (NextNodeIdx (entry_idx (last (raft_log n)) + 1) False) n)
        \<lparr>commit_index := min c (entry_idx (last (raft_log n)))\<rparr>, Ret ())"
  by (simp add: confirm_entries_def send_next_eq sending_fields get_current_log_index_def contiguous_def)

text \<open>The log up to \<open>p\<close>, with what comes after it replaced.\<close>

definition spliced :: "'c log \<Rightarrow> int \<Rightarrow> 'c log \<Rightarrow> 'c log" where
  "spliced l p es = take (nat (p + 1 - entry_idx (hd l))) l @ es"

lemma append_match_eq:
  assumes l: "contiguous (raft_log n)" and t: "current_term n \<le> t"
    and e: "at_index (raft_log n) p = Some e" "entry_term e = pt"
  shows "receive_append_entries conf env a t c es (Some (p, pt)) n =
    confirm_entries a c ((follow_leader conf env a t n)\<lparr>raft_log := spliced (raft_log n) p es\<rparr>)"
proof -
  let ?l = "raft_log n"
  obtain rest where g: "get_entries p None ?l = Ret (e # rest)"
    using get_entries_at(1)[OF l e(1)] by blast
  have ne: "?l \<noteq> []" by (rule contiguousD(1)[OF l])
  have p: "entry_idx (hd ?l) \<le> p" "nat (p - entry_idx (hd ?l)) < length ?l"
    using e(1) ne by (auto simp: at_index_def Let_def split: if_splits)
  have rest: "rest = drop (nat (p + 1 - entry_idx (hd ?l))) ?l"
  proof -
    have "e # rest = drop (nat (p - entry_idx (hd ?l))) ?l" using g get_entries_from[OF ne p(1)] by simp
    then have "rest = drop 1 (drop (nat (p - entry_idx (hd ?l))) ?l)" by (metis One_nat_def drop0 drop_Suc_Cons)
    moreover have "Suc (nat (p - entry_idx (hd ?l))) = nat (p + 1 - entry_idx (hd ?l))" using p(1) by simp
    ultimately show ?thesis by simp
  qed
  have drop: "returned (delete_entries_from (p + 1) ?l) = take (nat (p + 1 - entry_idx (hd ?l))) ?l"
    using delete_from[OF ne, of "p + 1"] p(1) by simp
  have keep: "take (nat (p + 1 - entry_idx (hd ?l))) ?l = ?l" if "rest = []" using that rest by simp
  show ?thesis
    by (cases "rest = []") (use t ne in \<open>simp_all add: receive_append_entries_def Let_def g e(2) drop keep spliced_def\<close>)
qed

lemma spliced_log:
  assumes l: "contiguous l" and e: "at_index l p = Some e" and es: "numbered (p + 1) es"
  shows "contiguous (spliced l p es)" "entry_idx (last (spliced l p es)) = p + int (length es)"
    "at_index (spliced l p es) i =
      (if i \<le> p then at_index l i else if i \<le> p + int (length es) then Some (es ! nat (i - p - 1)) else None)"
proof -
  let ?k = "take (nat (p + 1 - entry_idx (hd l))) l"
  have p: "entry_idx (hd l) \<le> p" "p \<le> entry_idx (last l)" using at_index_dom[OF l, of p] e by auto
  then have k: "contiguous ?k" by (intro contiguous_take[OF l]) simp
  have "at_index ?k p = Some e" "at_index ?k (p + 1) = None"
    using at_index_take[OF l, of "p + 1"] p e by simp_all
  then have last: "entry_idx (last ?k) = p"
    using at_index_dom[OF k, of p] at_index_dom[OF k, of "p + 1"] contiguous_hd_le_last[OF k] by auto
  show "contiguous (spliced l p es)" "entry_idx (last (spliced l p es)) = p + int (length es)"
    unfolding spliced_def using contiguous_append[OF k] last_append_numbered[OF k] es last by simp_all
  show "at_index (spliced l p es) i =
      (if i \<le> p then at_index l i else if i \<le> p + int (length es) then Some (es ! nat (i - p - 1)) else None)"
    unfolding spliced_def at_index_append[OF k] last
    using at_index_take[OF l, of "p + 1" i] p by simp
qed

text \<open>C15: the follower takes what the leader sends when the logs match.  If it has the entry
  before the new ones, with the same term, then afterwards its log is, index by index, its own
  up to there, the new entries, and nothing else; the log stays contiguous, the commit
  index is the leader's or the end of the log, the answer tells the leader this end, and nothing
  is raised.\<close>

theorem append_entries_matching:
  assumes "contiguous (raft_log n)" "current_term n \<le> t" "at_index (raft_log n) p = Some e"
    "entry_term e = pt" "numbered (p + 1) es" "a \<in> set (other_addrs n)" "node_up n a"
  shows "\<exists>m. receive_append_entries conf env a t c es (Some (p, pt)) n = (m, Ret ()) \<and>
    contiguous (raft_log m) \<and>
    (\<forall>i. at_index (raft_log m) i =
       (if i \<le> p then at_index (raft_log n) i
        else if i \<le> p + int (length es) then Some (es ! nat (i - p - 1)) else None)) \<and>
    commit_index m = min c (p + int (length es)) \<and>
    raft_outbox m = raft_outbox n @ [(a, NextNodeIdx (p + int (length es) + 1) False)] \<and>
    current_term m = t \<and> role m = FOLLOWER \<and> raft_leader m = Some a \<and>
    app_state m = app_state n \<and> last_applied m = last_applied n"
  using spliced_log[OF assms(1,3,5)] assms(6,7)
  by (simp add: append_match_eq[OF assms(1-4)] confirm_eq sending_fields) (simp add: raft_send_def)

text \<open>A log of three entries of term 1, which the witnesses of this theory use.\<close>

definition three :: "string log" where
  "three = [Entry ''none'' 1 0, Entry ''x'' 2 1, Entry ''y'' 3 1]"

definition sample :: "string log \<Rightarrow> (string, unit, string) raft" where
  "sample l = (init_raft ''b'' [''a'', ''c''] ''none'' [] (init_serializer None 4 None) 0 1)
     \<lparr>current_term := 1, raft_log := l, node_up := (\<lambda>_. True)\<rparr>"

definition sample_env :: raft_env where
  "sample_env = \<lparr>env_now = 5, env_random = 0, env_budget = (\<lambda>_. 2), env_read_ok = True, env_io = all_ok,
     env_wait = Running, env_fork = 7\<rparr>"

lemma sample_fields [simp]:
  "raft_log (sample l) = l" "current_term (sample l) = 1" "other_addrs (sample l) = [''a'', ''c'']"
  "node_up (sample l) a" "commit_index (sample l) = 1" "last_applied (sample l) = 1"
  "raft_outbox (sample l) = []" "app_state (sample l) = []" "role (sample l) = FOLLOWER"
  "waiting_commit (sample l) = []" "callbacks (sample l) = []"
  by (simp_all add: sample_def init_raft_def)

theorem append_entries_matching_witness:
  "\<exists>m. receive_append_entries default_conf sample_env ''a'' 2 3 [Entry ''z'' 3 2] (Some (2, 1)) (sample three) = (m, Ret ()) \<and>
     at_index (raft_log m) 3 = Some (Entry ''z'' 3 2) \<and> at_index (raft_log m) 2 = Some (Entry ''x'' 2 1) \<and>
     commit_index m = 3"
proof -
  have "\<exists>m. receive_append_entries default_conf sample_env ''a'' 2 3 [Entry ''z'' 3 2] (Some (2, 1)) (sample three) = (m, Ret ()) \<and>
     contiguous (raft_log m) \<and>
     (\<forall>i. at_index (raft_log m) i =
       (if i \<le> 2 then at_index (raft_log (sample three)) i
        else if i \<le> 2 + int (length [Entry ''z'' 3 2]) then Some ([Entry ''z'' 3 2] ! nat (i - 2 - 1)) else None)) \<and>
     commit_index m = min 3 (2 + int (length [Entry ''z'' 3 2])) \<and>
     raft_outbox m = raft_outbox (sample three) @ [(''a'', NextNodeIdx (2 + int (length [Entry ''z'' 3 2]) + 1) False)] \<and>
     current_term m = 2 \<and> role m = FOLLOWER \<and> raft_leader m = Some ''a'' \<and>
     app_state m = app_state (sample three) \<and> last_applied m = last_applied (sample three)"
    by (rule append_entries_matching[where e = "Entry ''x'' 2 1"])
       (simp_all add: three_def contiguous_def at_index_def)
  then obtain m where "receive_append_entries default_conf sample_env ''a'' 2 3 [Entry ''z'' 3 2] (Some (2, 1)) (sample three) = (m, Ret ())"
    "\<forall>i. at_index (raft_log m) i =
       (if i \<le> 2 then at_index three i
        else if i \<le> 3 then Some ([Entry ''z'' 3 2] ! nat (i - 2 - 1)) else None)" "commit_index m = 3" by auto
  then show ?thesis by (auto simp: three_def at_index_def)
qed

text \<open>Entries that do not fit, but for a conflict at the first entry of the log.\<close>

lemma append_entries_refused:
  assumes "contiguous (raft_log n)" "current_term n \<le> t" "a \<in> set (other_addrs n)" "node_up n a"
    "prev = None \<or> (\<exists>p pt. prev = Some (p, pt) \<and> p \<noteq> entry_idx (hd (raft_log n)) \<and>
       (\<forall>e. at_index (raft_log n) p = Some e \<longrightarrow> entry_term e \<noteq> pt))"
  shows "\<exists>m. receive_append_entries conf env a t c es prev n = (m, Ret ()) \<and>
    contiguous (raft_log m) \<and>
    (\<forall>i. at_index (raft_log m) i =
       (case prev of
          Some (p, pt) \<Rightarrow> if at_index (raft_log n) p = None \<or> i < p then at_index (raft_log n) i else None
        | None \<Rightarrow> at_index (raft_log n) i)) \<and>
    commit_index m = commit_index n \<and> app_state m = app_state n \<and> last_applied m = last_applied n \<and>
    raft_leader m = Some a \<and> current_term m = t \<and> role m = FOLLOWER \<and>
    raft_outbox m = raft_outbox n @ [(a, NextNodeIdx (entry_idx (last (raft_log m)) + 1) True)]"
proof -
  let ?l = "raft_log n" and ?f = "follow_leader conf env a t n"
  have ne: "?l \<noteq> []" by (rule contiguousD(1)[OF assms(1)])
  have send: "contiguous (raft_log m) \<Longrightarrow> other_addrs m = other_addrs n \<Longrightarrow> node_up m = node_up n \<Longrightarrow>
      raft_outbox m = raft_outbox n \<Longrightarrow>
      \<exists>m'. send_next_node_idx a True m = (m', Ret ()) \<and> raft_log m' = raft_log m \<and>
        commit_index m' = commit_index m \<and> app_state m' = app_state m \<and> last_applied m' = last_applied m \<and>
        raft_leader m' = raft_leader m \<and> current_term m' = current_term m \<and> role m' = role m \<and>
        raft_outbox m' = raft_outbox n @ [(a, NextNodeIdx (entry_idx (last (raft_log m)) + 1) True)]"
    for m :: "('a, 'b, 'c) raft"
    using assms(3,4) by (simp add: send_next_eq sending_fields) (simp add: raft_send_def)
  consider (none) "prev = None"
    | (missing) p pt where "prev = Some (p, pt)" "at_index ?l p = None"
    | (conflict) p pt e where "prev = Some (p, pt)" "at_index ?l p = Some e" "entry_term e \<noteq> pt"
        "p \<noteq> entry_idx (hd ?l)"
    using assms(5) by (metis option.exhaust)
  then show ?thesis
  proof cases
    case none
    then show ?thesis using send[of ?f] assms(1,2) ne by (auto simp: receive_append_entries_def Let_def)
  next
    case missing
    then show ?thesis using send[of ?f] assms(1,2) ne get_entries_at(2)[OF assms(1)]
      by (auto simp: receive_append_entries_def Let_def)
  next
    case conflict
    have p: "entry_idx (hd ?l) < p" "p \<le> entry_idx (last ?l)"
      using at_index_dom[OF assms(1), of p] conflict(2,4) by auto
    let ?m = "?f\<lparr>raft_log := take (nat (p - entry_idx (hd ?l))) ?l\<rparr>"
    obtain rest where "get_entries p None ?l = Ret (e # rest)"
      using get_entries_at(1)[OF assms(1) conflict(2)] by blast
    then have r: "receive_append_entries conf env a t c es (Some (p, pt)) n = send_next_node_idx a True ?m"
      using conflict assms(2) ne p(1) by (simp add: receive_append_entries_def Let_def delete_from)
    have "contiguous (raft_log ?m)" using contiguous_take[OF assms(1) p(1)] by simp
    then show ?thesis
      using send[of ?m] conflict at_index_take[OF assms(1) p(1)] by (auto simp: r)
  qed
qed

text \<open>A conflict at the first entry of the log deletes the whole log, whose last index cannot be
  read for the answer.\<close>

lemma conflict_at_first:
  assumes "contiguous (raft_log n)" "current_term n \<le> t" "entry_term (hd (raft_log n)) \<noteq> pt"
  shows "receive_append_entries conf env a t c es (Some (entry_idx (hd (raft_log n)), pt)) n =
    ((follow_leader conf env a t n)\<lparr>raft_log := []\<rparr>, Raise IndexError)"
proof -
  let ?l = "raft_log n"
  have ne: "?l \<noteq> []" by (rule contiguousD(1)[OF assms(1)])
  then have "at_index ?l (entry_idx (hd ?l)) = Some (hd ?l)" by (simp add: at_index_def hd_conv_nth)
  then obtain rest where "get_entries (entry_idx (hd ?l)) None ?l = Ret (hd ?l # rest)"
    using get_entries_at(1)[OF assms(1)] by blast
  then show ?thesis using assms(2,3) ne
    by (simp add: receive_append_entries_def Let_def delete_from send_next_node_idx_def get_current_log_index_def reading_def)
qed

text \<open>What of a message does not fit the log: there is no previous entry in the message or in the
  log, or it has another term.\<close>

definition does_not_fit :: "'c log \<Rightarrow> (int \<times> int) option \<Rightarrow> bool" where
  "does_not_fit l prev \<longleftrightarrow>
     (case prev of None \<Rightarrow> True | Some (p, pt) \<Rightarrow> (\<forall>e. at_index l p = Some e \<longrightarrow> entry_term e \<noteq> pt))"

text \<open>C16: what the follower does with entries it cannot take.  A message of an old term changes
  nothing and is not answered.  Otherwise, if the entry before the new ones is missing or has
  another term, the sender is taken for the leader and nothing of the message's entries is taken:
  the log keeps its entries, but for a conflicting one and those after it; the commit index and
  the object do not change; and the answer, marked as a reset, carries the end of the follower's
  log.  Except when the conflict is at the first entry of the log: then the log is emptied, no
  answer is sent, and an \<open>IndexError\<close> escapes.\<close>

theorem append_entries_rejecting:
  assumes "contiguous (raft_log n)" "a \<in> set (other_addrs n)" "node_up n a"
    "t < current_term n \<or> does_not_fit (raft_log n) prev"
  shows "\<exists>m r. receive_append_entries conf env a t c es prev n = (m, r) \<and>
    commit_index m = commit_index n \<and> app_state m = app_state n \<and> last_applied m = last_applied n \<and>
    (if t < current_term n then m = n \<and> r = Ret ()
     else raft_leader m = Some a \<and> current_term m = t \<and> role m = FOLLOWER \<and>
       (if \<exists>pt. prev = Some (entry_idx (hd (raft_log n)), pt)
        then raft_log m = [] \<and> r = Raise IndexError \<and> raft_outbox m = raft_outbox n
        else r = Ret () \<and> contiguous (raft_log m) \<and>
          (\<forall>i. at_index (raft_log m) i =
             (case prev of
                Some (p, pt) \<Rightarrow> if at_index (raft_log n) p = None \<or> i < p then at_index (raft_log n) i else None
              | None \<Rightarrow> at_index (raft_log n) i)) \<and>
          raft_outbox m = raft_outbox n @ [(a, NextNodeIdx (entry_idx (last (raft_log m)) + 1) True)]))"
proof -
  consider (old) "t < current_term n"
    | (first) pt where "\<not> t < current_term n" "prev = Some (entry_idx (hd (raft_log n)), pt)"
    | (later) "\<not> t < current_term n" "\<nexists>pt. prev = Some (entry_idx (hd (raft_log n)), pt)"
    by blast
  then show ?thesis
  proof cases
    case old
    then show ?thesis by (simp add: receive_append_entries_def)
  next
    case first
    have "raft_log n \<noteq> []" by (rule contiguousD(1)[OF assms(1)])
    then have "at_index (raft_log n) (entry_idx (hd (raft_log n))) = Some (hd (raft_log n))"
      by (simp add: at_index_def hd_conv_nth)
    then have "entry_term (hd (raft_log n)) \<noteq> pt" using assms(4) first by (simp add: does_not_fit_def)
    then show ?thesis using conflict_at_first[OF assms(1)] first
      by (simp add: follow_leader_def Let_def on_leader_changed_eq)
  next
    case later
    have "prev = None \<or> (\<exists>p pt. prev = Some (p, pt) \<and> p \<noteq> entry_idx (hd (raft_log n)) \<and>
       (\<forall>e. at_index (raft_log n) p = Some e \<longrightarrow> entry_term e \<noteq> pt))"
      using assms(4) later by (auto simp: does_not_fit_def split: option.splits)
    from append_entries_refused[OF assms(1) _ assms(2,3) this, where t = t and conf = conf and env = env and c = c and es = es] later
    show ?thesis by (simp add: not_less) blast
  qed
qed

theorem append_entries_rejecting_witness:
  "(\<exists>m. receive_append_entries default_conf sample_env ''a'' 2 3 [Entry ''z'' 4 2] (Some (3, 2)) (sample three) = (m, Ret ()) \<and>
     at_index (raft_log m) 3 = None \<and> at_index (raft_log m) 2 = Some (Entry ''x'' 2 1) \<and> commit_index m = 1) \<and>
   (\<exists>m. receive_append_entries default_conf sample_env ''a'' 2 3 [Entry ''z'' 2 2] (Some (1, 2)) (sample three) = (m, Raise IndexError) \<and>
     raft_log m = [])"
proof -
  have c: "contiguous (raft_log (sample three))" "''a'' \<in> set (other_addrs (sample three))" "node_up (sample three) ''a''"
    by (simp_all add: three_def contiguous_def)
  have t: "\<not> (2 :: int) < current_term (sample three)" by simp
  have f: "does_not_fit (raft_log (sample three)) (Some (3, 2))" "does_not_fit (raft_log (sample three)) (Some (1, 2))"
    by (simp_all add: three_def at_index_def does_not_fit_def)
  have h: "entry_idx (hd (raft_log (sample three))) = 1" by (simp add: three_def)
  from append_entries_rejecting[OF c disjI2[OF f(1)], where t = 2 and conf = default_conf and env = sample_env and c = 3 and es = "[Entry ''z'' 4 2]"]
  obtain m where "receive_append_entries default_conf sample_env ''a'' 2 3 [Entry ''z'' 4 2] (Some (3, 2)) (sample three) = (m, Ret ())"
    "\<forall>i. at_index (raft_log m) i =
       (if at_index (raft_log (sample three)) 3 = None \<or> i < 3 then at_index (raft_log (sample three)) i else None)"
    "commit_index m = commit_index (sample three)"
    unfolding if_not_P[OF t] h by auto
  moreover from append_entries_rejecting[OF c disjI2[OF f(2)], where t = 2 and conf = default_conf and env = sample_env and c = 3 and es = "[Entry ''z'' 2 2]"]
  have "\<exists>m. receive_append_entries default_conf sample_env ''a'' 2 3 [Entry ''z'' 2 2] (Some (1, 2)) (sample three) = (m, Raise IndexError) \<and>
     raft_log m = []"
    unfolding if_not_P[OF t] h by auto
  ultimately show ?thesis by (auto simp: three_def at_index_def)
qed

subsection \<open>Committing\<close>

lemma replicas_antimono: "i \<le> j \<Longrightarrow> replicas j n \<le> replicas i n"
proof -
  assume "i \<le> j"
  then have "length (filter (\<lambda>a. match_index n a \<ge> j) as) \<le> length (filter (\<lambda>a. match_index n a \<ge> i) as)" for as
    by (induction as) auto
  then show ?thesis by (simp add: replicas_def)
qed

lemma commit_loop_spec:
  assumes "c \<le> current"
  shows "c \<le> commit_loop current n c \<and> commit_loop current n c \<le> current \<and>
    (commit_loop current n c \<noteq> c \<longrightarrow> replicas (commit_loop current n c) n > majority n) \<and>
    (commit_loop current n c < current \<longrightarrow> \<not> replicas (commit_loop current n c + 1) n > majority n)"
  using assms
proof (induction current n c rule: commit_loop.induct)
  case (1 current n c)
  show ?case
  proof (cases "c < current \<and> replicas (c + 1) n > majority n")
    case True
    then have e: "commit_loop current n c = commit_loop current n (c + 1)"
      by (simp add: commit_loop.simps[of current n c])
    show ?thesis using 1 True unfolding e by fastforce
  next
    case False
    then show ?thesis using 1(2) by (auto simp: commit_loop.simps[of current n c])
  qed
qed

text \<open>C17: the leader commits exactly what a majority has.  Its new commit index is the highest
  index, from the old one to the end of its log, that it counts on more than half of the nodes;
  the loop that finds it ends, and commits nothing beyond the log.\<close>

theorem commit_is_majority:
  assumes "contiguous (raft_log n)" "commit_index n \<le> i" "i \<le> entry_idx (last (raft_log n))"
  shows "\<exists>m. advance_commit n = (m, Ret ()) \<and> commit_index m \<le> entry_idx (last (raft_log n)) \<and>
    (i \<le> commit_index m \<longleftrightarrow> i = commit_index n \<or>
       1 + card {k. k < length (other_addrs n) \<and> match_index n (other_addrs n ! k) \<ge> i} >
       (length (other_addrs n) + 1) div 2)"
proof -
  let ?cur = "entry_idx (last (raft_log n))"
  let ?c = "commit_loop ?cur n (commit_index n)"
  have e: "advance_commit n = (n\<lparr>commit_index := ?c\<rparr>, Ret ())"
    using contiguousD(1)[OF assms(1)] by (simp add: advance_commit_def get_current_log_index_def)
  have cnt: "replicas i n > majority n \<longleftrightarrow>
      1 + card {k. k < length (other_addrs n) \<and> match_index n (other_addrs n ! k) \<ge> i} >
      (length (other_addrs n) + 1) div 2"
    by (simp add: replicas_def majority_def length_filter_conv_card zdiv_int[symmetric]) linarith
  note spec = commit_loop_spec[of "commit_index n" ?cur n]
  have "i \<le> ?c \<longleftrightarrow> i = commit_index n \<or> replicas i n > majority n"
  proof
    assume le: "i \<le> ?c"
    show "i = commit_index n \<or> replicas i n > majority n"
    proof (cases "?c = commit_index n")
      case True
      then show ?thesis using le assms(2) by simp
    next
      case False
      then have "replicas ?c n > majority n" using spec assms by simp
      then show ?thesis using replicas_antimono[OF le, of n] by linarith
    qed
  next
    assume "i = commit_index n \<or> replicas i n > majority n"
    then show "i \<le> ?c"
    proof
      assume "i = commit_index n"
      then show ?thesis using spec assms by simp
    next
      assume m: "replicas i n > majority n"
      show ?thesis
      proof (rule ccontr)
        assume "\<not> i \<le> ?c"
        then have "?c + 1 \<le> i" "?c < ?cur" using assms(3) by auto
        then show False using spec assms m replicas_antimono[of "?c + 1" i n] by simp
      qed
    qed
  qed
  then show ?thesis using e spec assms cnt by simp
qed

theorem commit_is_majority_witness:
  "\<exists>m. advance_commit ((sample three)\<lparr>match_index := (\<lambda>_. 0)(''a'' := 3)\<rparr>) = (m, Ret ()) \<and> commit_index m = 3"
proof -
  let ?n = "(sample three)\<lparr>match_index := (\<lambda>_. 0)(''a'' := 3)\<rparr>"
  have c: "contiguous (raft_log ?n)" by (simp add: three_def contiguous_def)
  have a: "0 \<in> {k. k < length (other_addrs ?n) \<and> match_index ?n (other_addrs ?n ! k) \<ge> 3}" by simp
  have "card {0::nat} \<le> card {k. k < length (other_addrs ?n) \<and> match_index ?n (other_addrs ?n ! k) \<ge> 3}"
    using a by (intro card_mono) auto
  then show ?thesis using commit_is_majority[OF c, of 3] by (auto simp: three_def)
qed

subsection \<open>Applying\<close>

text \<open>The object after a list of commands, and the answer to the command \<open>c\<close>.\<close>

definition applied :: "('c, 'r, 's) raft_app \<Rightarrow> 'c log \<Rightarrow> 's \<Rightarrow> 's" where
  "applied app es s = fold (\<lambda>e s. fst (app_apply app (entry_cmd e) s)) es s"

text \<open>What \<open>apply_entry\<close> tells the callbacks that waited for the entry.\<close>

definition notices :: "'r \<Rightarrow> 'c entry \<Rightarrow> (int \<times> int \<times> nat) list \<Rightarrow> (nat \<times> 'r option \<times> fail_reason) list" where
  "notices res e ws =
     map (\<lambda>(i, t, cb). if t = entry_term e then (cb, Some res, SUCCEEDED) else (cb, None, DISCARDED))
       (filter (\<lambda>w. fst w = entry_idx e) ws)"

lemma apply_entry_eq:
  assumes "snd (app_apply app (entry_cmd e) (app_state n)) = Ret res"
  shows "apply_entry app e n =
    (n\<lparr>app_state := applied app [e] (app_state n), last_applied := last_applied n + 1,
       callbacks := callbacks n @ notices res e (waiting_commit n),
       waiting_commit := filter (\<lambda>w. fst w \<noteq> entry_idx e) (waiting_commit n)\<rparr>, Ret ())"
proof -
  obtain s where a: "app_apply app (entry_cmd e) (app_state n) = (s, Ret res)"
    using assms by (cases "app_apply app (entry_cmd e) (app_state n)") simp
  show ?thesis by (simp add: apply_entry_def a applied_def notices_def fold_notify Let_def)
qed

text \<open>\<open>never_raises\<close>: the methods of the object return.\<close>

definition never_raises :: "('c, 'r, 's) raft_app \<Rightarrow> bool" where
  "never_raises app \<longleftrightarrow> (\<forall>c s. \<exists>res. snd (app_apply app c s) = Ret res)"

definition told :: "'c log \<Rightarrow> (int \<times> int \<times> nat) list \<Rightarrow> nat \<times> 'r option \<times> fail_reason \<Rightarrow> bool" where
  "told es ws c \<longleftrightarrow>
     (case c of (cb, res, reason) \<Rightarrow>
        \<exists>e\<in>set es. \<exists>t. (entry_idx e, t, cb) \<in> set ws \<and>
          (if t = entry_term e then reason = SUCCEEDED \<and> res \<noteq> None else reason = DISCARDED \<and> res = None))"

lemma told_notices: "c \<in> set (notices res e ws) \<Longrightarrow> told (e # es) ws c"
  unfolding notices_def told_def by (fastforce split: if_splits)

lemma told_mono: "told es ws' c \<Longrightarrow> set es \<subseteq> set es' \<Longrightarrow> set ws' \<subseteq> set ws \<Longrightarrow> told es' ws c"
  unfolding told_def by (cases c; simp only: prod.case) blast

text \<open>All that the callbacks are told while the entries \<open>es\<close> are applied to the object \<open>s\<close>.\<close>

fun answers :: "('c, 'r, 's) raft_app \<Rightarrow> 'c log \<Rightarrow> (int \<times> int \<times> nat) list \<Rightarrow> 's \<Rightarrow> (nat \<times> 'r option \<times> fail_reason) list" where
  "answers app [] ws s = []"
| "answers app (e # es) ws s =
     (case app_apply app (entry_cmd e) s of
        (s1, Raise x) \<Rightarrow> []
      | (s1, Ret res) \<Rightarrow> notices res e ws @ answers app es (filter (\<lambda>w. fst w \<noteq> entry_idx e) ws) s1)"

lemma answers_told: "c \<in> set (answers app es ws s) \<Longrightarrow> told es ws c"
proof (induction app es ws s rule: answers.induct)
  case (2 app e es ws s)
  obtain s1 res where r: "app_apply app (entry_cmd e) s = (s1, Ret res)"
  proof (cases "app_apply app (entry_cmd e) s")
    case (Pair s1 x)
    then show thesis using 2(2) that by (cases x) auto
  qed
  then consider "c \<in> set (notices res e ws)" | "c \<in> set (answers app es (filter (\<lambda>w. fst w \<noteq> entry_idx e) ws) s1)"
    using 2(2) by auto
  then show ?case
  proof cases
    case 1
    then show ?thesis by (rule told_notices)
  next
    case 2
    with "2.IH"[OF r[symmetric] refl] have "told es (filter (\<lambda>w. fst w \<noteq> entry_idx e) ws) c" by blast
    then show ?thesis by (rule told_mono) auto
  qed
qed simp

text \<open>If the methods return, everybody who waited for one of the entries is told, once.\<close>

lemma answers_complete:
  assumes "never_raises app"
  shows "mset (map fst (answers app es ws s)) =
    mset (map (\<lambda>(i, t, cb). cb) (filter (\<lambda>w. fst w \<in> entry_idx ` set es) ws))"
proof (induction es arbitrary: ws s)
  case (Cons e es)
  obtain s1 res where r: "app_apply app (entry_cmd e) s = (s1, Ret res)"
    using assms unfolding never_raises_def by (metis prod.collapse)
  have n: "map fst (notices res e ws) = map (\<lambda>(i, t, cb). cb) (filter (\<lambda>w. fst w = entry_idx e) ws)"
    unfolding notices_def by (induction ws) auto
  have two: "filter_mset (\<lambda>w. fst w \<in> entry_idx ` set (e # es)) (mset ws) =
      filter_mset (\<lambda>w. fst w = entry_idx e) (mset ws) +
      filter_mset (\<lambda>w. fst w \<noteq> entry_idx e \<and> fst w \<in> entry_idx ` set es) (mset ws)"
    by (induction ws) auto
  show ?case
    using Cons.IH[of "filter (\<lambda>w. fst w \<noteq> entry_idx e) ws" s1] arg_cong[OF two, of "image_mset (\<lambda>(i, t, cb). cb)"]
    by (simp add: r n)
qed simp

lemma apply_entries_spec:
  assumes "never_raises app"
  shows "\<exists>m. apply_entries app es n = (m, Ret ()) \<and> app_state m = applied app es (app_state n) \<and>
    last_applied m = last_applied n + int (length es) \<and>
    callbacks m = callbacks n @ answers app es (waiting_commit n) (app_state n) \<and>
    raft_log m = raft_log n \<and> commit_index m = commit_index n \<and>
    waiting_commit m = filter (\<lambda>w. fst w \<notin> entry_idx ` set es) (waiting_commit n)"
proof (induction es arbitrary: n)
  case Nil
  show ?case by (intro exI[of _ n]) (simp add: applied_def)
next
  case (Cons e es)
  obtain s1 res where r: "app_apply app (entry_cmd e) (app_state n) = (s1, Ret res)"
    using assms unfolding never_raises_def by (metis prod.collapse)
  then have r': "snd (app_apply app (entry_cmd e) (app_state n)) = Ret res" by simp
  define k where "k = fst (apply_entry app e n)"
  have k: "apply_entry app e n = (k, Ret ())" "app_state k = applied app [e] (app_state n)"
    "last_applied k = last_applied n + 1" "callbacks k = callbacks n @ notices res e (waiting_commit n)"
    "raft_log k = raft_log n" "commit_index k = commit_index n"
    "waiting_commit k = filter (\<lambda>w. fst w \<noteq> entry_idx e) (waiting_commit n)"
    unfolding k_def apply_entry_eq[OF r'] by simp_all
  have s1: "app_state k = s1" using k(2) r by (simp add: applied_def)
  obtain m where m: "apply_entries app es k = (m, Ret ())" "app_state m = applied app es (app_state k)"
    "last_applied m = last_applied k + int (length es)"
    "callbacks m = callbacks k @ answers app es (waiting_commit k) (app_state k)"
    "raft_log m = raft_log k" "commit_index m = commit_index k"
    "waiting_commit m = filter (\<lambda>w. fst w \<notin> entry_idx ` set es) (waiting_commit k)"
    using Cons.IH[of k] by auto
  have w: "waiting_commit m = filter (\<lambda>w. fst w \<notin> entry_idx ` set (e # es)) (waiting_commit n)"
    by (simp add: m(7) k(7) conj_commute cong: filter_cong)
  have c: "callbacks m = callbacks n @ answers app (e # es) (waiting_commit n) (app_state n)"
    using m(4) k(4,7) s1 r by simp
  show ?case using k m w c by (intro exI[of _ m]) (simp add: applied_def del: answers.simps)
qed

text \<open>The entries to apply are those of the log between the two indices.\<close>

lemma to_apply:
  assumes "contiguous l" "entry_idx (hd l) \<le> i + 1" "i \<le> j" "j \<le> entry_idx (last l)"
  shows "\<exists>es. get_entries (i + 1) (Some (j - i)) l = Ret es \<and> map Some es = map (at_index l) [i + 1..j]"
proof -
  have l: "l \<noteq> []" by (rule contiguousD(1)[OF assms(1)])
  let ?k = "nat (i + 1 - entry_idx (hd l))"
  let ?es = "take (nat (j - i)) (drop ?k l)"
  have g: "get_entries (i + 1) (Some (j - i)) l = Ret ?es"
    using assms by (intro get_entries_count[OF l]) simp_all
  have len: "nat (j - i) \<le> length l - ?k" using contiguous_last[OF assms(1)] assms by simp
  have "map Some ?es = map (at_index l) [i + 1..j]"
  proof (rule nth_equalityI)
    fix x assume "x < length (map Some ?es)"
    then have x: "x < nat (j - i)" by simp
    then have "?k + x < length l" using len by simp
    moreover have "nat (i + 1 + int x - entry_idx (hd l)) = ?k + x" using assms(2) by simp
    moreover have "[i + 1..j] ! x = i + 1 + int x" using x by (simp add: nth_upto)
    ultimately show "map Some ?es ! x = map (at_index l) [i + 1..j] ! x"
      using x l assms(2) by (simp add: at_index_def Let_def)
  qed (use len in simp)
  then show ?thesis using g by blast
qed

text \<open>C18: committed entries are applied once, in order, and answered.  If the methods of the object
  return, then a tick applies exactly the entries from the one after the last applied to the
  commit index, in the order of their indices; afterwards these two indices are equal.  Every
  callback that waited for one of these entries is called, exactly once, and no other is; what
  they are told, in order, is \<open>answers\<close>: the result of the entry, and success, if the entry has the
  term the callback waited for, and otherwise that the command was discarded.  Afterwards those
  that waited for other indices still wait, and nobody else.\<close>

theorem apply_in_order:
  assumes "never_raises app" "contiguous (raft_log n)" "entry_idx (hd (raft_log n)) \<le> last_applied n + 1"
    "last_applied n \<le> commit_index n" "commit_index n \<le> entry_idx (last (raft_log n))"
  shows "\<exists>m es cs. apply_committed app n = (m, Ret ()) \<and>
    map Some es = map (at_index (raft_log n)) [last_applied n + 1..commit_index n] \<and>
    app_state m = applied app es (app_state n) \<and> last_applied m = commit_index n \<and>
    raft_log m = raft_log n \<and> callbacks m = callbacks n @ cs \<and>
    cs = answers app es (waiting_commit n) (app_state n) \<and>
    mset (map fst cs) = mset (map (\<lambda>(i, t, cb). cb) (filter (\<lambda>w. fst w \<in> entry_idx ` set es) (waiting_commit n))) \<and>
    (\<forall>c\<in>set cs. told es (waiting_commit n) c) \<and>
    waiting_commit m = filter (\<lambda>w. fst w \<notin> entry_idx ` set es) (waiting_commit n)"
proof (cases "last_applied n = commit_index n")
  case True
  then show ?thesis
    by (intro exI[of _ n] exI[of _ "[]"]) (simp add: apply_committed_def applied_def)
next
  case False
  obtain es where es: "get_entries (last_applied n + 1) (Some (commit_index n - last_applied n)) (raft_log n) = Ret es"
    "map Some es = map (at_index (raft_log n)) [last_applied n + 1..commit_index n]"
    using to_apply[OF assms(2-5)] by blast
  have len: "int (length es) = commit_index n - last_applied n"
    using arg_cong[OF es(2), of length] False assms(4) by simp
  have e: "apply_committed app n = apply_entries app es n"
    using False assms(4) by (simp add: apply_committed_def es(1))
  let ?cs = "answers app es (waiting_commit n) (app_state n)"
  obtain m where m: "apply_entries app es n = (m, Ret ())" "app_state m = applied app es (app_state n)"
    "last_applied m = last_applied n + int (length es)" "callbacks m = callbacks n @ ?cs" "raft_log m = raft_log n"
    "waiting_commit m = filter (\<lambda>w. fst w \<notin> entry_idx ` set es) (waiting_commit n)"
    using apply_entries_spec[OF assms(1), of es n] by blast
  have told: "\<forall>c\<in>set ?cs. told es (waiting_commit n) c" by (intro ballI) (rule answers_told)
  show ?thesis
    using m es(2) len told answers_complete[OF assms(1), of es "waiting_commit n" "app_state n"]
    by (intro exI[of _ m] exI[of _ es] exI[of _ ?cs]) (simp add: e)
qed

definition echo_app :: "(string, nat, string) raft_app" where
  "echo_app = \<lparr>app_apply = (\<lambda>c s. (s @ c, Ret (length s))), app_pack = fst, app_unpack = (\<lambda>_. None)\<rparr>"

definition applying :: "(string, nat, string) raft" where
  "applying = (init_raft ''b'' [''a'', ''c''] ''none'' [] (init_serializer None 4 None) 0 1)
     \<lparr>raft_log := three, commit_index := 3, waiting_commit := [(2, 1, 7), (3, 0, 8)]\<rparr>"

theorem apply_in_order_witness:
  "\<exists>m. apply_committed echo_app applying = (m, Ret ()) \<and> app_state m = ''xy'' \<and> last_applied m = 3 \<and>
     callbacks m = [(7, Some 0, SUCCEEDED), (8, None, DISCARDED)]"
proof -
  have "never_raises echo_app" by (simp add: never_raises_def echo_app_def)
  moreover have "contiguous (raft_log applying)" "entry_idx (hd (raft_log applying)) \<le> last_applied applying + 1"
    "last_applied applying \<le> commit_index applying" "commit_index applying \<le> entry_idx (last (raft_log applying))"
    by (simp_all add: applying_def init_raft_def three_def contiguous_def)
  ultimately obtain m es cs where m: "apply_committed echo_app applying = (m, Ret ())"
    "map Some es = map (at_index (raft_log applying)) [last_applied applying + 1..commit_index applying]"
    "app_state m = applied echo_app es (app_state applying)" "last_applied m = commit_index applying"
    "callbacks m = callbacks applying @ cs" "cs = answers echo_app es (waiting_commit applying) (app_state applying)"
    using apply_in_order by blast
  have "[last_applied applying + 1..commit_index applying] = [2, 3]"
    by (simp add: applying_def init_raft_def upto.simps)
  then have "map Some es = map Some [Entry ''x'' 2 1, Entry ''y'' 3 1]"
    using m(2) by (simp add: applying_def three_def at_index_def)
  then have "es = [Entry ''x'' 2 1, Entry ''y'' 3 1]" by (metis list.inj_map_strong option.inject)
  then show ?thesis using m by (simp add: applied_def echo_app_def applying_def init_raft_def notices_def)
qed

end
