(* ===== verification/Raft_Properties.thy ===== *)
theory Raft_Properties
  imports Raft_Frames
begin

section \<open>Properties of the Raft node\<close>

text \<open>
  Elections, callbacks, replication, commitment, application and compaction of one node, for
  every configuration, every replicated object and every sequence of events; and the transfer of
  a log between two nodes.  \<open>raft_run\<close> also goes on after an event that raised, so its runs
  include those of a node whose tick thread has died.
\<close>

definition raft_run :: "raft_conf \<Rightarrow> ('c, 'r, 's) raft_app \<Rightarrow> 'c raft_event list \<Rightarrow> ('c, 'r, 's) raft
    \<Rightarrow> ('c, 'r, 's) raft" where
  "raft_run conf app evs n = fold (\<lambda>ev n. fst (raft_step conf app ev n)) evs n"

lemma raft_run_snoc [simp]:
  "raft_run conf app (evs @ [ev]) n = fst (raft_step conf app ev (raft_run conf app evs n))"
  by (simp add: raft_run_def)

lemma raft_run_Nil [simp]: "raft_run conf app [] n = n"
  by (simp add: raft_run_def)

subsection \<open>Elections\<close>

text \<open>The votes for a term among the events.\<close>

fun is_vote :: "int \<Rightarrow> 'c raft_event \<Rightarrow> bool" where
  "is_vote t (Received env a (ResponseVote t')) \<longleftrightarrow> t' = t"
| "is_vote t ev \<longleftrightarrow> False"

definition votes_in :: "int \<Rightarrow> 'c raft_event list \<Rightarrow> nat" where
  "votes_in t evs = length (filter (is_vote t) evs)"

lemma votes_in_snoc: "votes_in t (evs @ [ev]) = votes_in t evs + (if is_vote t ev then 1 else 0)"
  by (simp add: votes_in_def)

definition elected_by :: "'c raft_event list \<Rightarrow> ('c, 'r, 's) raft \<Rightarrow> bool" where
  "elected_by evs n \<longleftrightarrow>
     (role n = CANDIDATE \<longrightarrow> votes_count n \<le> 1 + int (votes_in (current_term n) evs)) \<and>
     (role n = LEADER \<longrightarrow> 1 + int (votes_in (current_term n) evs) > majority n)"

lemma elected_by_step:
  assumes "elected_by evs n"
  shows "elected_by (evs @ [ev]) (fst (raft_step conf app ev n))"
proof (cases "\<exists>env a t. ev = Received env a (ResponseVote t)")
  case False
  then have "term_step n (fst (raft_step conf app ev n))" by (intro term_step_event) blast
  then show ?thesis using assms
    by (auto simp: elected_by_def term_step_def votes_in_snoc majority_def)
next
  case True
  then obtain env a t where ev: "ev = Received env a (ResponseVote t)" by blast
  have s: "fst (raft_step conf app ev n) = fst (receive_response_vote conf env t n)"
    by (simp add: ev raft_step_def on_message_def)
  show ?thesis unfolding s
    using vote_event[OF refl, of conf env t n] assms
    by (auto simp: elected_by_def votes_in_snoc majority_def ev)
qed

lemma elected_by_run:
  assumes "role n = FOLLOWER" shows "elected_by evs (raft_run conf app evs n)"
proof (induction evs rule: rev_induct)
  case Nil
  then show ?case using assms by (simp add: elected_by_def)
next
  case (snoc ev evs)
  then show ?case by (simp add: elected_by_step)
qed

lemma others_run: "other_addrs (raft_run conf app evs n) = other_addrs n"
proof (induction evs rule: rev_induct)
  case (snoc ev evs)
  let ?n = "raft_run conf app evs n"
  have "other_addrs (fst (raft_step conf app ev ?n)) = other_addrs ?n"
  proof (cases "\<exists>env a t. ev = Received env a (ResponseVote t)")
    case False
    then have "term_step ?n (fst (raft_step conf app ev ?n))" by (intro term_step_event) blast
    then show ?thesis by (simp add: term_step_def)
  next
    case True
    then obtain env a t where ev: "ev = Received env a (ResponseVote t)" by blast
    have s: "fst (raft_step conf app ev ?n) = fst (receive_response_vote conf env t ?n)"
      by (simp add: ev raft_step_def on_message_def)
    show ?thesis unfolding s using vote_event[OF refl, of conf env t ?n] by auto
  qed
  then show ?case using snoc by simp
qed simp

text \<open>C13: a node that leads has been elected: counting itself, more than half of the cluster
  answered its request for votes of its current term.  Whatever messages arrive, in whatever order,
  a node that has run from its start and is the leader of a term received enough votes for
  this term and no other.\<close>

theorem leader_was_elected:
  assumes "role (raft_run conf app evs (init_raft a others none s ser now timeout)) = LEADER"
  shows "1 + int (votes_in (current_term (raft_run conf app evs (init_raft a others none s ser now timeout))) evs)
    > (int (length others) + 1) div 2"
proof -
  let ?i = "init_raft a others none s ser now timeout"
  have "elected_by evs (raft_run conf app evs ?i)"
    by (rule elected_by_run) (simp add: init_raft_def)
  moreover have "majority (raft_run conf app evs ?i) = (int (length others) + 1) div 2"
    by (simp add: majority_def others_run) (simp add: init_raft_def)
  ultimately show ?thesis using assms by (simp add: elected_by_def)
qed

text \<open>A node of three that stands for election and wins, for the witnesses.\<close>

definition sample_app :: "(string, unit, string) raft_app" where
  "sample_app = \<lparr>app_apply = (\<lambda>c s. (s @ c, Ret ())), app_pack = (\<lambda>(s, a, b). s), app_unpack = (\<lambda>_. None)\<rparr>"

definition env_at :: "rat \<Rightarrow> raft_env" where
  "env_at now = \<lparr>env_now = now, env_random = 0, env_budget = (\<lambda>_. 2), env_read_ok = True,
     env_io = all_ok, env_wait = Running, env_fork = 7\<rparr>"

text \<open>Small bounds, which evaluate fast.\<close>

definition small_conf :: raft_conf where
  "small_conf =
     \<lparr>auto_tick = False, auto_tick_period = 0, commands_queue_size = 4,
      max_commands_per_tick = 3, raft_min_timeout = 1, raft_max_timeout = 3,
      append_entries_period = 1 / 2, connection_timeout = 4, connection_retry_time = 5,
      append_entries_batch_size = 4, append_entries_use_batch = True, send_buffer_size = 4,
      recv_buffer_size = 4, dns_cache_time = 600, dns_fail_cache_time = 30,
      log_compaction_min_entries = 20, log_compaction_min_time = 60,
      log_compaction_batch_size = 4, commands_wait_leader = True, full_dump_file = None,
      bind_retry_time = 1\<rparr>"

definition elected :: "string raft_event list" where
  "elected = [Link ''b'' True, Tick (env_at 10), Received (env_at 11) ''b'' (ResponseVote 1)]"

theorem leader_was_elected_witness:
  "1 + int (votes_in 1 elected) > (int (length [''b'', ''c'']) + 1) div 2"
proof -
  let ?n = "raft_run small_conf sample_app elected
      (init_raft ''a'' [''b'', ''c''] ''none'' [] (init_serializer None 4 None) 0 1)"
  have "role ?n = LEADER" "current_term ?n = 1" by code_simp+
  then show ?thesis using leader_was_elected[of small_conf sample_app elected "''a''" "[''b'', ''c'']" "''none''" "[]"
      "init_serializer None 4 None" 0 1] by simp
qed

text \<open>The term of a node never goes down, and within a term a node does not become leader
  a second time by anything but a vote for that term while it is a candidate.\<close>

lemma term_only_grows:
  "current_term n \<le> current_term (fst (raft_step conf app ev n)) \<and>
   (role (fst (raft_step conf app ev n)) \<noteq> LEADER \<or> 
    current_term (fst (raft_step conf app ev n)) = current_term n \<and>
    (role n = LEADER \<or> role n = CANDIDATE \<and> is_vote (current_term n) ev))"
proof (cases "\<exists>env a t. ev = Received env a (ResponseVote t)")
  case False
  then have "term_step n (fst (raft_step conf app ev n))" by (intro term_step_event) blast
  then show ?thesis by (auto simp: term_step_def)
next
  case True
  then obtain env a t where ev: "ev = Received env a (ResponseVote t)" by blast
  have s: "fst (raft_step conf app ev n) = fst (receive_response_vote conf env t n)"
    by (simp add: ev raft_step_def on_message_def)
  show ?thesis unfolding s
    using vote_event[OF refl, of conf env t n] by (auto simp: ev)
qed

subsection \<open>Callbacks\<close>

lemma keeps_sent: "sent_only n (fst r) \<Longrightarrow> keeps (account n) r"
  by (simp add: keepsI account_sent)

lemma account_dump: "account (tick_dump app n) = account n"
  by (rule account_same) (auto simp: tick_dump_def load_dump_file_def split: option.splits)

lemma keeps_election: "keeps (account n) (tick_election conf env n)"
proof (rule keepsI)
  have "account (n\<lparr>election_deadline := d, raft_leader := l, role := x, current_term := t, votes_count := v\<rparr>) =
      account n" for d l x t v
    by (rule account_same) simp_all
  then show "account (fst (tick_election conf env n)) = account n"
    by (simp add: tick_election_def start_election_def Let_def account_leader_changed
        account_sent[OF sent_only_fold_send])
qed

lemma keeps_tick_leader: "keeps (account n) (tick_leader conf env n)"
proof -
  have "account (fst (advance_commit n)) = account n"
    unfolding advance_commit_def
    by (rule account_same) (auto simp: reading_def split: outcome.splits)
  moreover have "keeps (account m) (if env_now env > new_append_time m then send_append_entries conf env m
      else (m, Ret ()))" for m :: "('a, 'b, 'c) raft"
    by (simp add: keepsI account_sent[OF sent_only_send_append])
  ultimately show ?thesis by (auto simp: tick_leader_def keepsI intro!: keeps_and_then simp del: if_split)
qed

text \<open>An applied entry calls exactly the callbacks it takes off the list.\<close>

lemma mset_map_split:
  "mset (map f xs) = mset (map f (filter P xs)) + mset (map f (filter (\<lambda>x. \<not> P x) xs))"
  by (induction xs) auto

lemma mset_map_remove1:
  "x \<in> set xs \<Longrightarrow> mset (map f xs) = add_mset (f x) (mset (map f (remove1 x xs)))"
  by (induction xs) auto

lemma keeps_apply_entry: "keeps (account n) (apply_entry app e n)"
proof -
  let ?yes = "filter (\<lambda>w. fst w = entry_idx e) (waiting_commit n)"
  let ?no = "filter (\<lambda>w. fst w \<noteq> entry_idx e) (waiting_commit n)"
  let ?cb = "\<lambda>(i::int, t::int, cb::nat). cb"
  have w: "mset (map ?cb (waiting_commit n)) = mset (map ?cb ?yes) + mset (map ?cb ?no)"
    by (rule mset_map_split)
  have subs: "map fst (map (\<lambda>(i, t', cb). if t' = t then (cb, Some r, SUCCEEDED) else (cb, None, DISCARDED)) ws)
      = map ?cb ws" for t :: int and r :: 'b and ws
    by (induction ws) auto
  obtain s x where ap: "app_apply app (entry_cmd e) (app_state n) = (s, x)" by fastforce
  have rest: "account (n\<lparr>waiting_commit := ?no, app_state := s\<rparr>) \<subseteq># account n"
    by (simp add: account_def pending_def called_def image_mset_subseteq_mono)
  have all: "account (n\<lparr>waiting_commit := ?no, app_state := s,
      callbacks := callbacks n @ map (\<lambda>(i, t', cb). if t' = t then (cb, Some r, SUCCEEDED) else (cb, None, DISCARDED)) ?yes,
      last_applied := l\<rparr>) = account n" for t :: int and r l
  proof -
    have acc: "account (n\<lparr>waiting_commit := wc, app_state := s, callbacks := cs, last_applied := l\<rparr>) =
        mset (List.map_filter (\<lambda>(c, cb). local_callback cb) (commands_queue n)) +
        mset (map snd (waiting_reply n)) + mset (map ?cb wc) + mset (map fst cs)" for wc cs
      by (simp add: account_def pending_def called_def)
    have n: "account n = mset (List.map_filter (\<lambda>(c, cb). local_callback cb) (commands_queue n)) +
        mset (map snd (waiting_reply n)) + (mset (map ?cb ?yes) + mset (map ?cb ?no)) + mset (map fst (callbacks n))"
      unfolding account_def pending_def called_def w by (rule refl)
    show ?thesis unfolding acc n map_append mset_append subs by (simp only: ac_simps)
  qed
  show ?thesis
  proof (cases x)
    case (Ret r)
    then show ?thesis using all by (simp add: apply_entry_def ap fold_notify Let_def keepsI)
  next
    case (Raise e)
    then show ?thesis using rest by (simp add: apply_entry_def ap Let_def keeps_raise)
  qed
qed

lemma keeps_apply_entries: "keeps (account n) (apply_entries app es n)"
proof (induction es arbitrary: n)
  case (Cons e es)
  then show ?case by (simp add: keeps_and_then keeps_apply_entry)
qed (simp add: keepsI)

lemma keeps_apply_committed: "keeps (account n) (apply_committed app n)"
  by (auto simp: apply_committed_def keepsI intro!: keeps_reading keeps_apply_entries)

lemma keeps_check_command:
  "keeps (account n + mset (case local_callback cb of Some k \<Rightarrow> [k] | None \<Rightarrow> []))
     (check_command conf env c cb n)"
proof (cases "role n = LEADER")
  case True
  have log: "account (n\<lparr>raft_log := l\<rparr>) = account n" for l by (rule account_same) simp_all
  have wait: "account (n\<lparr>raft_log := l, waiting_commit := waiting_commit n @ [(i, t, k)]\<rparr>) =
      add_mset k (account n)" for l i t k
    by (simp add: account_def pending_def called_def)
  show ?thesis
  proof (cases "get_current_log_index (raft_log n)")
    case (Ret l)
    then show ?thesis using True
      by (cases cb) (auto simp: check_command_def Let_def keeps_def account_sent[OF sent_only_send_append]
          account_sent[OF sent_only_raft_send] log wait)
  qed (auto simp: True check_command_def keeps_raise split: option.splits)
next
  case False
  have wait: "account (n\<lparr>local_counter := i, waiting_reply := waiting_reply n @ [(i, k)]\<rparr>) =
      add_mset k (account n)" for i k
    by (simp add: account_def pending_def called_def)
  show ?thesis using False
    by (cases cb) (auto simp: check_command_def call_failed_def Let_def keeps_def wait account_call
        account_sent[OF sent_only_raft_send] split: option.splits)
qed

lemma account_dequeue:
  assumes "commands_queue n = (c, cb) # q"
  shows "account n = account (n\<lparr>commands_queue := q\<rparr>) + mset (case local_callback cb of Some k \<Rightarrow> [k] | None \<Rightarrow> [])"
  using assms by (cases cb) (simp_all add: account_def pending_def called_def List.map_filter_simps)

lemma keeps_check_commands: "keeps (account n) (check_commands conf env k n)"
proof (induction k arbitrary: n)
  case (Suc k)
  have "keeps (account n) (and_then (check_command conf env c cb (n\<lparr>commands_queue := q\<rparr>))
      (check_commands conf env k))" if q: "commands_queue n = (c, cb) # q" for c cb q
    unfolding account_dequeue[OF q] by (rule keeps_and_then[OF keeps_check_command Suc.IH])
  then show ?case by (auto simp: keepsI split: list.splits)
qed (simp add: keepsI)

lemma account_compaction: "account (fst (try_log_compaction conf app env n)) = account n"
proof -
  have d: "account (fst (start_dump app env m)) = account m" for m :: "('a, 'b, 'c) raft"
    by (rule account_same) (auto simp: start_dump_def reading_def Let_def split: outcome.splits)
  have f: "account (n\<lparr>serializer_of := s, force_compaction := b\<rparr>) = account n"
    "account (n\<lparr>serializer_of := s\<rparr>) = account n"
    "account (n\<lparr>serializer_of := s, last_serialized_time := t, raft_log := l\<rparr>) = account n"
    "account (n\<lparr>serializer_of := s, last_serialized_time := t\<rparr>) = account n" for s b t l
    by (rule account_same; simp)+
  show ?thesis
    by (auto simp: try_log_compaction_def Let_def split_beta d f reading_def split: outcome.splits)
qed

lemma keeps_on_tick: "keeps (account n) (on_tick conf app env n)"
  unfolding on_tick_def
  using keeps_election[of "tick_dump app n" conf env]
  by (intro keeps_and_then keeps_tick_leader keeps_apply_committed keeps_check_commands
      keepsI[OF account_compaction]) (simp add: account_dump)

text \<open>Messages.\<close>

lemma account_follow: "account (follow_leader conf env a t n) = account n"
proof -
  have f: "account (m\<lparr>raft_leader := l, current_term := t, role := x\<rparr>) = account m"
    "account (m\<lparr>election_deadline := d\<rparr>) = account m" for m :: "('a, 'b, 'c) raft" and l t x d
    by (rule account_same; simp)+
  show ?thesis by (simp add: follow_leader_def Let_def f account_leader_changed)
qed

lemma account_confirm: "account (fst (confirm_entries a c n)) = account n"
proof -
  have f: "account (m\<lparr>commit_index := i\<rparr>) = account m" for m :: "('a, 'b, 'c) raft" and i
    by (rule account_same; simp)
  show ?thesis
    by (auto simp: confirm_entries_def send_next_node_idx_def reading_def and_then_def f
        account_sent[OF sent_only_raft_send] split: outcome.splits)
qed

lemma account_append: "account (fst (receive_append_entries conf env a t c es prev n)) = account n"
proof -
  have f: "account (m\<lparr>raft_log := l\<rparr>) = account m" for m :: "('a, 'b, 'c) raft" and l
    by (rule account_same; simp)
  show ?thesis
    by (auto simp: receive_append_entries_def Let_def f account_follow account_confirm
        account_sent[OF sent_only_next_node_idx] split: option.splits)
qed

lemma account_serialized: "account (fst (receive_serialized conf app env a t c d n)) = account n"
proof -
  have f: "account (m\<lparr>serializer_of := s\<rparr>) = account m" "account (load_dump_file app m) = account m"
    for m :: "('a, 'b, 'c) raft" and s
    by (rule account_same; auto simp: load_dump_file_def split: option.splits)+
  show ?thesis
    by (auto simp: receive_serialized_def Let_def split_beta f account_follow account_confirm
        split: chunk_result.splits)
qed

lemma account_request_vote: "account (fst (receive_request_vote conf env a t i lt n)) = account n"
proof -
  have f: "account (m\<lparr>election_deadline := d\<rparr>) = account m" "account (m\<lparr>current_term := d', role := x\<rparr>) = account m"
    for m :: "('a, 'b, 'c) raft" and d d' x
    by (rule account_same; simp)+
  show ?thesis
    by (auto simp: receive_request_vote_def Let_def reading_def f account_sent[OF sent_only_raft_send]
        split: outcome.splits)
qed

lemma account_response_vote: "account (fst (receive_response_vote conf env t n)) = account n"
proof -
  have f: "account (m\<lparr>votes_count := d\<rparr>) = account m" "account (m\<lparr>raft_leader := l, role := x\<rparr>) = account m"
    "account (m\<lparr>next_index := g, match_index := h\<rparr>) = account m"
    for m :: "('a, 'b, 'c) raft" and d l x g h
    by (rule account_same; simp)+
  show ?thesis
    by (simp add: receive_response_vote_def on_become_leader_def Let_def f account_sent[OF sent_only_send_append])
qed

lemma account_next_node_idx: "account (receive_next_node_idx a i reset n) = account n"
  by (rule account_same) (auto simp: receive_next_node_idx_def Let_def)

lemma answered:
  assumes "map_of (waiting_reply n) r = Some k"
  shows "account n = add_mset k (account (n\<lparr>waiting_reply := remove1 (r, k) (waiting_reply n)\<rparr>))"
proof -
  have "mset (map snd (waiting_reply n)) = add_mset k (mset (map snd (remove1 (r, k) (waiting_reply n))))"
    using mset_map_remove1[OF map_of_SomeD[OF assms], of snd] by simp
  then show ?thesis by (simp add: account_def pending_def called_def)
qed

lemma keeps_refused: "keeps (account n) (receive_refused r x n)"
proof (cases "map_of (waiting_reply n) r")
  case (Some k)
  then show ?thesis using answered[OF Some] by (simp add: receive_refused_def keepsI account_call)
qed (simp add: receive_refused_def keepsI)

lemma keeps_taken: "keeps (account n) (receive_taken r i t n)"
proof (cases "map_of (waiting_reply n) r")
  case (Some k)
  let ?n = "n\<lparr>waiting_reply := remove1 (r, k) (waiting_reply n)\<rparr>"
  have "account (?n\<lparr>waiting_commit := waiting_commit ?n @ [(i, t, k)]\<rparr>) = add_mset k (account ?n)"
    by (simp add: account_def pending_def called_def)
  then show ?thesis using answered[OF Some] Some
    by (auto simp: receive_taken_def Let_def keeps_def)
qed (simp add: receive_taken_def keepsI)

text \<open>What an event hands in.\<close>

fun handed_in :: "'c raft_event \<Rightarrow> nat list" where
  "handed_in (Submitted c (Some k)) = [k]"
| "handed_in ev = []"

lemma keeps_event: "keeps (account n + mset (handed_in ev)) (raft_step conf app ev n)"
proof (cases ev)
  case (Received env a m)
  have ap: "keeps (account n) (receive_apply_command conf a c req n)" for c req
    using keeps_apply_command[of n NoCallback conf c] keeps_apply_command[of n "RemoteCallback a r" conf c for r]
    by (auto simp: receive_apply_command_def split: option.splits)
  show ?thesis using Received
    by (cases m) (auto simp: raft_step_def on_message_def ap keeps_refused keeps_taken keepsI
        account_request_vote account_response_vote account_append account_serialized account_next_node_idx)
next
  case (Submitted c cb)
  then show ?thesis
    using keeps_apply_command[of n NoCallback conf c] keeps_apply_command[of n "LocalCallback k" conf c for k]
    by (cases cb) (auto simp: raft_step_def)
next
  case (Link a up)
  have "account (n\<lparr>node_up := f\<rparr>) = account n" for f by (rule account_same) simp_all
  then show ?thesis using Link by (simp add: raft_step_def keepsI)
next
  case Force_Compaction
  have "account (n\<lparr>force_compaction := f\<rparr>) = account n" for f by (rule account_same) simp_all
  then show ?thesis using Force_Compaction by (simp add: raft_step_def keepsI)
next
  case (Child_Wrote d)
  have "account (n\<lparr>serializer_of := f\<rparr>) = account n" for f by (rule account_same) simp_all
  then show ?thesis using Child_Wrote by (simp add: raft_step_def keepsI)
qed (simp add: raft_step_def keeps_on_tick)

text \<open>C14: no callback is doubled, and none is lost unless something raises.  Whatever the event, the
  callbacks that wait or were called afterwards are at most those that did before and the one the
  event handed in, each at most as often; and if no exception escapes from the event they are
  exactly these.\<close>

theorem callbacks_conserved:
  "pending (fst (raft_step conf app ev n)) + called (fst (raft_step conf app ev n))
     \<subseteq># pending n + called n + mset (handed_in ev) \<and>
   (snd (raft_step conf app ev n) = Ret () \<longrightarrow>
     pending (fst (raft_step conf app ev n)) + called (fst (raft_step conf app ev n)) =
       pending n + called n + mset (handed_in ev))"
  using keeps_event[of n ev conf app] by (simp add: keeps_def account_def)

theorem callbacks_conserved_witness:
  "pending (fst (raft_step default_conf sample_app (Submitted ''x'' (Some 5))
      (init_raft ''a'' [''b'', ''c''] ''none'' [] (init_serializer None 4 None) 0 1))) = {#5#}"
  using callbacks_conserved[of default_conf sample_app "Submitted ''x'' (Some 5)"
      "init_raft ''a'' [''b'', ''c''] ''none'' [] (init_serializer None 4 None) 0 1"]
  by (simp add: raft_step_def raft_apply_command_def default_conf_def init_raft_def pending_def called_def
      map_filter_def)

text \<open>With an exception a callback can be lost: when the leader's answer tells of an entry that has
  been applied already, the callback has been taken off the waiting ones before the assertion fails.\<close>

lemma late_answer_loses_callback:
  assumes "waiting_reply n = [(r, cb)]" "i \<le> last_applied n"
  shows "\<exists>m. receive_taken r i t n = (m, Raise AssertionError) \<and>
    pending n + called n = add_mset cb (pending m + called m)"
  using assms by (simp add: receive_taken_def Let_def pending_def called_def)

text \<open>A callback is called at most as often as it was handed in, in every run, also if
  events raised.\<close>

lemma callback_called_once:
  "count (called (raft_run conf app evs (init_raft a others none s ser now timeout))) k
     \<le> count_list (concat (map handed_in evs)) k"
proof -
  let ?i = "init_raft a others none s ser now timeout"
  have "account (raft_run conf app evs ?i) \<subseteq># mset (concat (map handed_in evs))"
  proof (induction evs rule: rev_induct)
    case Nil
    then show ?case by (simp add: account_def pending_def called_def init_raft_def map_filter_def)
  next
    case (snoc ev evs)
    let ?n = "raft_run conf app evs ?i"
    have "account (fst (raft_step conf app ev ?n)) \<subseteq># account ?n + mset (handed_in ev)"
      using keeps_event[of ?n ev conf app] by (auto simp: keeps_def)
    also have "\<dots> \<subseteq># mset (concat (map handed_in evs)) + mset (handed_in ev)"
      using snoc by (rule mset_subset_eq_mono_add) simp
    finally show ?case by simp
  qed
  then have "called (raft_run conf app evs ?i) \<subseteq># mset (concat (map handed_in evs))"
    unfolding account_def by (metis add.commute mset_subset_eq_add_left subset_mset.order_trans)
  then have "count (called (raft_run conf app evs ?i)) k \<le> count (mset (concat (map handed_in evs))) k"
    by (rule mset_subset_eq_count)
  then show ?thesis by (simp add: count_mset)
qed

end
