(* ===== verification/Raft_Transfer.thy ===== *)
theory Raft_Transfer
  imports Raft_Replication Raft_Properties
begin

section \<open>From the leader's log to the follower's\<close>

text \<open>
  One call of \<open>__sendAppendEntries\<close> towards one node, and the node that receives what was
  sent: by batches, when the leader knows where the logs meet, and by a dump of the object, when
  it has thrown the entries away.  The last section shows where the two do not meet.
\<close>

subsection \<open>Batches\<close>

text \<open>The batch after index \<open>p\<close>.\<close>

definition batch :: "raft_conf \<Rightarrow> 'c log \<Rightarrow> int \<Rightarrow> 'c log" where
  "batch conf l p = take (append_entries_batch_size conf) (drop (nat (p + 1 - entry_idx (hd l))) l)"

lemma batch_numbered:
  assumes "contiguous l" "entry_idx (hd l) \<le> p" "p \<le> entry_idx (last l)"
  shows "numbered (p + 1) (batch conf l p)"
    "int (length (batch conf l p)) = min (int (append_entries_batch_size conf)) (entry_idx (last l) - p)"
proof -
  let ?k = "nat (p + 1 - entry_idx (hd l))"
  have k: "?k \<le> length l" using assms contiguous_last[OF assms(1)] by simp
  have "numbered (entry_idx (hd l) + int ?k) (drop ?k l)"
    by (rule numbered_drop[OF contiguousD(2)[OF assms(1)] k])
  then show "numbered (p + 1) (batch conf l p)" using assms(2) by (simp add: batch_def numbered_take)
  have "int (length l - ?k) = entry_idx (last l) - p"
    using k assms(2) contiguous_last[OF assms(1)] by (simp add: of_nat_diff)
  then show "int (length (batch conf l p)) = min (int (append_entries_batch_size conf)) (entry_idx (last l) - p)"
    by (simp add: batch_def min_def)
qed

lemma batch_at:
  assumes "contiguous l" "entry_idx (hd l) \<le> p" "j < length (batch conf l p)"
  shows "at_index l (p + 1 + int j) = Some (batch conf l p ! j)"
proof -
  let ?k = "nat (p + 1 - entry_idx (hd l))"
  have "j < length l - ?k" using assms(3) by (simp add: batch_def)
  then have "?k + j < length l" by linarith
  moreover have "nat (p + 1 + int j - entry_idx (hd l)) = ?k + j" using assms(2) by simp
  ultimately show ?thesis using assms contiguousD(1)[OF assms(1)]
    by (simp add: at_index_def Let_def batch_def)
qed

lemma send_one_batch:
  assumes l: "contiguous (raft_log n)" and p: "entry_idx (hd (raft_log n)) \<le> p" "p \<le> entry_idx (last (raft_log n))"
    and nx: "next_index n a = p + 1" and b: "0 < append_entries_batch_size conf"
    and e: "at_index (raft_log n) p = Some e"
  shows "send_one conf ok a n =
    (let es = batch conf (raft_log n) p in
     (raft_send a (AppendEntries (current_term n) (commit_index n) es (Some (p, entry_term e)))
        (n\<lparr>next_index := (next_index n)(a := p + 1 + int (length es))\<rparr>), Ret False))"
proof -
  let ?l = "raft_log n" and ?es = "batch conf (raft_log n) p"
  have ne: "?l \<noteq> []" by (rule contiguousD(1)[OF l])
  have prev: "get_prev_log_index_term (p + 1) ?l = Ret (Some (p, entry_term e))"
    using get_prev_at[OF l, of "p + 1"] e by simp
  have cur: "get_current_log_index ?l = Ret (entry_idx (last ?l))"
    using ne by (simp add: get_current_log_index_def)
  have g: "get_entries (p + 1) (Some (int (append_entries_batch_size conf))) ?l = Ret ?es"
    using get_entries_count[OF ne, of "p + 1"] p(1) by (simp add: batch_def)
  note len = batch_numbered(2)[OF l p, of conf]
  show ?thesis
  proof (cases "p + 1 \<le> entry_idx (last ?l)")
    case True
    then have es: "?es \<noteq> []" using len b by auto
    have "entry_idx (last ?es) + 1 = p + 1 + int (length ?es)"
      using numbered_last[OF batch_numbered(1)[OF l p] es] by simp
    moreover have c: "p + int (length ?es) + 1 = p + 1 + int (length ?es)" by simp
    ultimately show ?thesis using True es p(1) ne nx
      by (simp add: send_one_def Let_def prev cur g) (simp only: c)
  next
    case False
    then have "int (length ?es) = 0" using len p(2) by linarith
    then have "?es = []" by simp
    then show ?thesis using False p(1) ne nx
      by (simp add: send_one_def Let_def prev cur g fun_upd_idem)
  qed
qed

text \<open>Messages that arrive in the order they were sent.\<close>

definition deliver :: "raft_conf \<Rightarrow> ('c, 'r, 's) raft_app \<Rightarrow> raft_env \<Rightarrow> addr \<Rightarrow> 'c raft_msg list
    \<Rightarrow> ('c, 'r, 's) raft \<Rightarrow> ('c, 'r, 's) raft" where
  "deliver conf app env a ms f = fold (\<lambda>m f. fst (on_message conf app env a m f)) ms f"

text \<open>\<open>linked\<close>: a leader and a follower with open connections and logs that agree at \<open>p\<close>,
  the index before the next one the leader will send.\<close>

definition linked :: "addr \<Rightarrow> int \<Rightarrow> ('c, 'r, 's) raft \<Rightarrow> ('c, 'r, 's) raft \<Rightarrow> bool" where
  "linked a p n f \<longleftrightarrow>
     contiguous (raft_log n) \<and> contiguous (raft_log f) \<and> current_term f \<le> current_term n \<and>
     a \<in> set (other_addrs n) \<and> node_up n a \<and> self_addr n \<in> set (other_addrs f) \<and> node_up f (self_addr n) \<and>
     next_index n a = p + 1 \<and> at_index (raft_log n) p \<noteq> None \<and> at_index (raft_log f) p = at_index (raft_log n) p"

text \<open>One batch.\<close>

lemma send_batch:
  assumes "linked a p n f" "0 < append_entries_batch_size conf"
  shows "\<exists>m n1 f1. send_one conf ok a n = (n1, Ret False) \<and> raft_outbox n1 = raft_outbox n @ [(a, m)] \<and>
    fst (on_message conf app env (self_addr n) m f) = f1 \<and>
    linked a (p + int (length (batch conf (raft_log n) p))) n1 f1 \<and> sent_only n n1 \<and>
    (\<forall>i. at_index (raft_log f1) i =
       (if i \<le> p then at_index (raft_log f) i
        else if i \<le> p + int (length (batch conf (raft_log n) p)) then at_index (raft_log n) i else None)) \<and>
    raft_outbox f1 = raft_outbox f @
      [(self_addr n, NextNodeIdx (p + int (length (batch conf (raft_log n) p)) + 1) False)]"
proof -
  let ?es = "batch conf (raft_log n) p" and ?q = "p + int (length (batch conf (raft_log n) p))"
  have l: "contiguous (raft_log n)" and lf: "contiguous (raft_log f)" and t: "current_term f \<le> current_term n"
    and up: "a \<in> set (other_addrs n)" "node_up n a" "self_addr n \<in> set (other_addrs f)" "node_up f (self_addr n)"
    and nx: "next_index n a = p + 1"
    using assms(1) by (simp_all add: linked_def)
  obtain e where e: "at_index (raft_log n) p = Some e" "at_index (raft_log f) p = Some e"
    using assms(1) by (auto simp: linked_def)
  have p: "entry_idx (hd (raft_log n)) \<le> p" "p \<le> entry_idx (last (raft_log n))"
    using at_index_dom[OF l, of p] e(1) by auto
  note num = batch_numbered[OF l p, of conf]
  let ?m = "AppendEntries (current_term n) (commit_index n) ?es (Some (p, entry_term e))"
  define n1 where "n1 = raft_send a ?m (n\<lparr>next_index := (next_index n)(a := p + 1 + int (length ?es))\<rparr>)"
  have s: "send_one conf ok a n = (n1, Ret False)"
    using send_one_batch[OF l p nx assms(2) e(1)] by (simp add: n1_def Let_def)
  have n1: "raft_outbox n1 = raft_outbox n @ [(a, ?m)]" "next_index n1 a = ?q + 1" "sent_only n n1"
    using up sent_only_send_one[of n conf ok a] s by (simp_all add: n1_def raft_send_def)
  define g where "g = (follow_leader conf env (self_addr n) (current_term n) f)\<lparr>raft_log := spliced (raft_log f) p ?es\<rparr>"
  note sp = spliced_log[OF lf e(2) num(1)]
  have om: "on_message conf app env (self_addr n) ?m f = confirm_entries (self_addr n) (commit_index n) g"
    using append_match_eq[OF lf t e(2) refl] by (simp add: on_message_def g_def)
  define f1 where "f1 = fst (on_message conf app env (self_addr n) ?m f)"
  have lg: "contiguous (raft_log g)" using sp(1) by (simp add: g_def)
  have f1: "raft_log f1 = spliced (raft_log f) p ?es" "current_term f1 = current_term n"
    "other_addrs f1 = other_addrs f" "node_up f1 = node_up f"
    "raft_outbox f1 = raft_outbox f @ [(self_addr n, NextNodeIdx (?q + 1) False)]"
    unfolding f1_def om confirm_eq[OF lg] using up sp(2)
    by (simp_all add: g_def sending_fields) (simp add: raft_send_def)
  have at: "at_index (raft_log f1) i =
      (if i \<le> p then at_index (raft_log f) i else if i \<le> ?q then at_index (raft_log n) i else None)" for i
  proof (cases "i \<le> p \<or> ?q < i")
    case True
    then show ?thesis using sp(3)[of i] by (auto simp: f1(1))
  next
    case False
    then have "p + 1 + int (nat (i - p - 1)) = i" "nat (i - p - 1) < length ?es" by auto
    then show ?thesis using batch_at[OF l p(1), of "nat (i - p - 1)" conf] False sp(3)[of i] by (simp add: f1(1))
  qed
  have q: "?q \<le> entry_idx (last (raft_log n))" using num(2) by linarith
  have "at_index (raft_log n) ?q \<noteq> None" using at_index_dom[OF l, of ?q] q p(1) by simp
  moreover have "at_index (raft_log f1) ?q = at_index (raft_log n) ?q" using at[of ?q] e by simp
  ultimately have "linked a ?q n1 f1"
    using n1 f1 sp(1) l up by (simp add: linked_def sent_only_fields[OF n1(3)])
  then show ?thesis using s n1 f1(5) at f1_def by blast
qed

text \<open>The loop after its first pass.\<close>

lemma send_batches:
  assumes "linked a p n f" "0 < append_entries_batch_size conf"
    "entry_idx (last (raft_log n)) - p \<le> int k * int (append_entries_batch_size conf)"
    "\<forall>i>p. at_index (raft_log f) i = None"
  shows "\<exists>ms n1. send_loop conf ok a k False n = (n1, Ret ()) \<and> raft_outbox n1 = raft_outbox n @ map (Pair a) ms \<and>
    next_index n1 a = entry_idx (last (raft_log n)) + 1 \<and> sent_only n n1 \<and>
    (let f1 = deliver conf app env (self_addr n) ms f in
     (\<forall>i. at_index (raft_log f1) i = (if i \<le> p then at_index (raft_log f) i else at_index (raft_log n) i)) \<and>
     (ms = [] \<and> p = entry_idx (last (raft_log n)) \<or> ms \<noteq> [] \<and> raft_outbox f1 \<noteq> [] \<and>
       last (raft_outbox f1) = (self_addr n, NextNodeIdx (entry_idx (last (raft_log n)) + 1) False)))"
  using assms
proof (induction k arbitrary: p n f)
  case 0
  have l: "contiguous (raft_log n)" using 0(1) by (simp add: linked_def)
  have p: "p = entry_idx (last (raft_log n))"
    using at_index_dom[OF l, of p] 0 by (simp add: linked_def)
  have "at_index (raft_log n) i = None" if "p < i" for i using at_index_dom[OF l, of i] that p by force
  then show ?case using 0 p
    by (intro exI[of _ "[]"] exI[of _ n]) (simp add: deliver_def linked_def Let_def)
next
  case (Suc k)
  have l: "contiguous (raft_log n)" and nx: "next_index n a = p + 1" using Suc.prems(1) by (simp_all add: linked_def)
  have p: "entry_idx (hd (raft_log n)) \<le> p" "p \<le> entry_idx (last (raft_log n))"
    using at_index_dom[OF l, of p] Suc.prems(1) by (auto simp: linked_def)
  have ne: "raft_log n \<noteq> []" "get_current_log_index (raft_log n) = Ret (entry_idx (last (raft_log n)))"
    using contiguousD(1)[OF l] by (simp_all add: get_current_log_index_def)
  show ?case
  proof (cases "p = entry_idx (last (raft_log n))")
    case True
    have "at_index (raft_log n) i = None" if "p < i" for i using at_index_dom[OF l, of i] that True by force
    then show ?thesis using Suc.prems True ne nx
      by (intro exI[of _ "[]"] exI[of _ n]) (simp add: deliver_def Let_def)
  next
    case False
    let ?q = "p + int (length (batch conf (raft_log n) p))"
    obtain m n1 f1 where s: "send_one conf ok a n = (n1, Ret False)" "raft_outbox n1 = raft_outbox n @ [(a, m)]"
      "fst (on_message conf app env (self_addr n) m f) = f1" "linked a ?q n1 f1" "sent_only n n1"
      "\<forall>i. at_index (raft_log f1) i = (if i \<le> p then at_index (raft_log f) i
        else if i \<le> ?q then at_index (raft_log n) i else None)"
      "raft_outbox f1 = raft_outbox f @ [(self_addr n, NextNodeIdx (?q + 1) False)]"
      using send_batch[OF Suc.prems(1,2), of ok app env] by blast
    note same = sent_only_fields[OF s(5)]
    note len = batch_numbered(2)[OF l p, of conf]
    have "entry_idx (last (raft_log n1)) - ?q \<le> int k * int (append_entries_batch_size conf)"
      using Suc.prems(3) len p(2) by (simp add: same algebra_simps min_def split: if_splits)
    moreover have "\<forall>i>?q. at_index (raft_log f1) i = None" using s(6) by simp
    ultimately obtain ms n2 where r: "send_loop conf ok a k False n1 = (n2, Ret ())"
      "raft_outbox n2 = raft_outbox n1 @ map (Pair a) ms"
      "next_index n2 a = entry_idx (last (raft_log n1)) + 1" "sent_only n1 n2"
      "\<forall>i. at_index (raft_log (deliver conf app env (self_addr n1) ms f1)) i =
        (if i \<le> ?q then at_index (raft_log f1) i else at_index (raft_log n1) i)"
      "ms = [] \<and> ?q = entry_idx (last (raft_log n1)) \<or> ms \<noteq> [] \<and>
        raft_outbox (deliver conf app env (self_addr n1) ms f1) \<noteq> [] \<and>
        last (raft_outbox (deliver conf app env (self_addr n1) ms f1)) =
          (self_addr n1, NextNodeIdx (entry_idx (last (raft_log n1)) + 1) False)"
      using Suc.IH[OF s(4) Suc.prems(2)] unfolding Let_def by blast
    have d: "deliver conf app env (self_addr n) (m # ms) f = deliver conf app env (self_addr n1) ms f1"
      using s(3) by (simp add: deliver_def same)
    have loop: "send_loop conf ok a (Suc k) False n = (n2, Ret ())"
      using s(1) r(1) ne nx p False by simp
    have at: "\<forall>i. at_index (raft_log (deliver conf app env (self_addr n) (m # ms) f)) i =
        (if i \<le> p then at_index (raft_log f) i else at_index (raft_log n) i)"
      unfolding d using r(5) s(6) by (simp add: same)
    have last: "raft_outbox (deliver conf app env (self_addr n) (m # ms) f) \<noteq> [] \<and>
        last (raft_outbox (deliver conf app env (self_addr n) (m # ms) f)) =
          (self_addr n, NextNodeIdx (entry_idx (last (raft_log n)) + 1) False)"
    proof (cases "ms = []")
      case True
      then show ?thesis using r(6) s(7) unfolding d by (simp add: deliver_def same)
    next
      case False
      then show ?thesis using r(6) unfolding d by (simp add: same)
    qed
    show ?thesis
      using loop s(2) r(2,3) at last sent_only_trans[OF s(5) r(4)]
      by (intro exI[of _ "m # ms"] exI[of _ n2]) (simp add: Let_def same)
  qed
qed

text \<open>C19: one round replicates the log.  A leader and a follower are connected, and their
  logs agree at the index before the next one the leader will send; the round has time for enough
  batches.  When the follower has received what the leader sent, whatever it had after that index
  is gone and its log continues as the leader's, to the end; its last answer, which is no reset,
  makes the leader count the whole log as replicated there.\<close>

theorem round_replicates:
  assumes "linked a p n f" "0 < append_entries_batch_size conf" "role n = LEADER"
    "entry_idx (last (raft_log n)) - p \<le> int k * int (append_entries_batch_size conf)" "0 < k"
  shows "\<exists>ms n1. send_loop conf ok a k True n = (n1, Ret ()) \<and> raft_outbox n1 = raft_outbox n @ map (Pair a) ms \<and>
    (let f1 = deliver conf app env (self_addr n) ms f in
     (\<forall>i. at_index (raft_log f1) i = (if i \<le> p then at_index (raft_log f) i else at_index (raft_log n) i)) \<and>
     (\<exists>answer. last (raft_outbox f1) = (self_addr n, answer) \<and>
       match_index (fst (on_message conf app env a answer n1)) a = entry_idx (last (raft_log n)) \<and>
       next_index (fst (on_message conf app env a answer n1)) a = entry_idx (last (raft_log n)) + 1))"
proof -
  let ?q = "p + int (length (batch conf (raft_log n) p))"
  obtain j where k: "k = Suc j" using assms(5) by (cases k) auto
  have l: "contiguous (raft_log n)" using assms(1) by (simp add: linked_def)
  have p: "entry_idx (hd (raft_log n)) \<le> p" "p \<le> entry_idx (last (raft_log n))"
    using at_index_dom[OF l, of p] assms(1) by (auto simp: linked_def)
  obtain m n1 f1 where s: "send_one conf ok a n = (n1, Ret False)" "raft_outbox n1 = raft_outbox n @ [(a, m)]"
    "fst (on_message conf app env (self_addr n) m f) = f1" "linked a ?q n1 f1" "sent_only n n1"
    "\<forall>i. at_index (raft_log f1) i = (if i \<le> p then at_index (raft_log f) i
      else if i \<le> ?q then at_index (raft_log n) i else None)"
    "raft_outbox f1 = raft_outbox f @ [(self_addr n, NextNodeIdx (?q + 1) False)]"
    using send_batch[OF assms(1,2), of ok app env] by blast
  note same = sent_only_fields[OF s(5)]
  note len = batch_numbered(2)[OF l p, of conf]
  have "entry_idx (last (raft_log n1)) - ?q \<le> int j * int (append_entries_batch_size conf)"
    using assms(4) len p(2) by (simp add: k same algebra_simps min_def split: if_splits)
  moreover have "\<forall>i>?q. at_index (raft_log f1) i = None" using s(6) by simp
  ultimately obtain ms n2 where r: "send_loop conf ok a j False n1 = (n2, Ret ())"
    "raft_outbox n2 = raft_outbox n1 @ map (Pair a) ms"
    "next_index n2 a = entry_idx (last (raft_log n1)) + 1" "sent_only n1 n2"
    "\<forall>i. at_index (raft_log (deliver conf app env (self_addr n1) ms f1)) i =
      (if i \<le> ?q then at_index (raft_log f1) i else at_index (raft_log n1) i)"
    "ms = [] \<and> ?q = entry_idx (last (raft_log n1)) \<or> ms \<noteq> [] \<and>
      raft_outbox (deliver conf app env (self_addr n1) ms f1) \<noteq> [] \<and>
      last (raft_outbox (deliver conf app env (self_addr n1) ms f1)) =
        (self_addr n1, NextNodeIdx (entry_idx (last (raft_log n1)) + 1) False)"
    using send_batches[OF s(4) assms(2)] unfolding Let_def by blast
  have d: "deliver conf app env (self_addr n) (m # ms) f = deliver conf app env (self_addr n1) ms f1"
    using s(3) by (simp add: deliver_def same)
  have loop: "send_loop conf ok a k True n = (n2, Ret ())"
    using s(1) r(1) contiguousD(1)[OF l] by (simp add: k)
  have at: "\<forall>i. at_index (raft_log (deliver conf app env (self_addr n) (m # ms) f)) i =
      (if i \<le> p then at_index (raft_log f) i else at_index (raft_log n) i)"
    unfolding d using r(5) s(6) by (simp add: same)
  have last: "last (raft_outbox (deliver conf app env (self_addr n) (m # ms) f)) =
        (self_addr n, NextNodeIdx (entry_idx (last (raft_log n)) + 1) False)"
    using r(6) s(7) unfolding d by (auto simp: deliver_def same)
  have "role n2 = LEADER" using sent_only_fields[OF sent_only_trans[OF s(5) r(4)]] assms(3) by simp
  then show ?thesis using loop s(2) r(2,3) at last
    by (intro exI[of _ "m # ms"] exI[of _ n2])
       (simp add: Let_def on_message_def receive_next_node_idx_def same)
qed

definition three_leader :: "(string, unit, string) raft" where
  "three_leader = (init_raft ''a'' [''b'', ''c''] ''none'' [] (init_serializer None 4 None) 0 1)
     \<lparr>current_term := 1, role := LEADER, raft_log := three, node_up := (\<lambda>_. True), next_index := (\<lambda>_. 2)\<rparr>"

theorem round_replicates_witness:
  "\<exists>ms n1. send_loop default_conf True ''b'' 3 True three_leader = (n1, Ret ()) \<and>
     (let f1 = deliver default_conf sample_app sample_env ''a'' ms (sample [Entry ''none'' 1 0, Entry ''z'' 2 0]) in
      at_index (raft_log f1) 2 = Some (Entry ''x'' 2 1) \<and> at_index (raft_log f1) 3 = Some (Entry ''y'' 3 1))"
proof -
  let ?f = "sample [Entry ''none'' 1 0, Entry ''z'' 2 0]"
  have "linked ''b'' 1 three_leader ?f"
    by (simp add: linked_def three_leader_def init_raft_def three_def contiguous_def at_index_def)
  moreover have "0 < append_entries_batch_size default_conf" "role three_leader = LEADER"
    "entry_idx (last (raft_log three_leader)) - 1 \<le> int 3 * int (append_entries_batch_size default_conf)"
    by (simp_all add: default_conf_def three_leader_def three_def)
  ultimately obtain ms n1 where m: "send_loop default_conf True ''b'' 3 True three_leader = (n1, Ret ())"
    "let f1 = deliver default_conf sample_app sample_env (self_addr three_leader) ms ?f in
     \<forall>i. at_index (raft_log f1) i = (if i \<le> 1 then at_index (raft_log ?f) i else at_index (raft_log three_leader) i)"
    using round_replicates[of "''b''" 1 three_leader ?f default_conf 3 True sample_app sample_env]
    unfolding Let_def by auto
  have "self_addr three_leader = ''a''" by (simp add: three_leader_def init_raft_def)
  then show ?thesis using m
    by (intro exI[of _ ms] exI[of _ n1]) (simp add: Let_def three_leader_def three_def at_index_def)
qed

subsection \<open>Dumps\<close>

lemma to_dump:
  assumes "contiguous l" "entry_idx (hd l) \<le> i - 1" "i \<le> entry_idx (last l)"
  shows "\<exists>b e. get_entries (i - 1) (Some 2) l = Ret [b, e] \<and> at_index l (i - 1) = Some b \<and> at_index l i = Some e \<and>
    entry_idx b = i - 1 \<and> entry_idx e = i"
proof -
  have "\<exists>es. get_entries (i - 2 + 1) (Some (i - (i - 2))) l = Ret es \<and> map Some es = map (at_index l) [i - 2 + 1..i]"
    using assms by (intro to_apply) simp_all
  moreover have "[i - 2 + 1..i] = [i - 1, i]" by (simp add: upto.simps)
  ultimately obtain es where es: "get_entries (i - 1) (Some 2) l = Ret es"
    "map Some es = [at_index l (i - 1), at_index l i]" by auto
  then obtain b e where "es = [b, e]" "at_index l (i - 1) = Some b" "at_index l i = Some e"
    by (auto simp: map_eq_Cons_conv)
  then show ?thesis using es(1) at_index_idx[OF assms(1)] by auto
qed

text \<open>C20: a dump brings a follower to the leader's state.  A node that keeps its dumps in
  memory and is not storing one starts a dump and, one tick later, compacts its log.  Then the
  log starts at the last applied entry and lacks nothing after it; and when the dump is sent
  chunk by chunk to any node, this node ends up with the object's state of the moment the dump
  was taken, the same last applied index, and a log of the last applied entry and the one before
  it.  The hypothesis on packing is that what was packed is unpacked again.\<close>

theorem dump_installs:
  assumes log: "contiguous (raft_log n)" "at_index (raft_log n) (last_applied n - 1) = Some b"
      "at_index (raft_log n) (last_applied n) = Some e"
    and ser: "file_name (serializer_of n) = None" "ser_pid (serializer_of n) = 0" "0 < batch_size (serializer_of n)"
    and pack: "app_unpack app (app_pack app (app_state n, e, b)) = Some (app_state n, e, b)"
  shows "\<exists>n1 n2 s r fuel.
    start_dump app env n = (n1, Ret ()) \<and> try_log_compaction conf app env' n1 = (n2, Ret ()) \<and>
    app_state n2 = app_state n \<and>
    (\<forall>i. at_index (raft_log n2) i = (if i < last_applied n then None else at_index (raft_log n) i)) \<and>
    transfer fuel a (serializer_of n2) (serializer_of f) = Some (s, r, True) \<and>
    (let f1 = load_dump_file app (f\<lparr>serializer_of := r\<rparr>) in
     app_state f1 = app_state n \<and> last_applied f1 = last_applied n \<and> contiguous (raft_log f1) \<and>
     (\<forall>i. at_index (raft_log f1) i =
        (if i = last_applied n - 1 \<or> i = last_applied n then at_index (raft_log n) i else None)))"
proof -
  let ?la = "last_applied n"
  have range: "entry_idx (hd (raft_log n)) \<le> ?la - 1" "?la \<le> entry_idx (last (raft_log n))"
    using at_index_dom[OF log(1), of "?la - 1"] at_index_dom[OF log(1), of ?la] log(2,3) by auto
  have be: "get_entries (?la - 1) (Some 2) (raft_log n) = Ret [b, e]"
    "at_index (raft_log n) (?la - 1) = Some b" "at_index (raft_log n) ?la = Some e"
    "entry_idx b = ?la - 1" "entry_idx e = ?la"
    using to_dump[OF log(1) range] log(2,3) by auto
  let ?D = "app_pack app (app_state n, e, b)"
  let ?s1 = "(serializer_of n)\<lparr>current_id := ?la, memory := Some ?D, ser_pid := - 1\<rparr>"
  let ?n1 = "n\<lparr>serializer_of := ?s1\<rparr>"
  have n1: "start_dump app env n = (?n1, Ret ())"
    by (simp add: start_dump_def be serialize_def ser Let_def)
  let ?s2 = "?s1\<lparr>ser_pid := 0, transmissions := Map.empty\<rparr>"
  let ?l2 = "drop (nat (?la - entry_idx (hd (raft_log n)))) (raft_log n)"
  let ?n2 = "n\<lparr>serializer_of := ?s2, last_serialized_time := env_now env', raft_log := ?l2\<rparr>"
  have ne: "raft_log n \<noteq> []" by (rule contiguousD(1)[OF log(1)])
  have "delete_entries_to ?la (raft_log n) = Ret ?l2" using delete_to[OF ne, of ?la] range by simp
  then have n2: "try_log_compaction conf app env' ?n1 = (?n2, Ret ())"
    using ser(1) by (simp add: try_log_compaction_def check_serializing_def Let_def)
  have at2: "at_index ?l2 i = (if i < ?la then None else at_index (raft_log n) i)" for i
    using at_index_drop[OF log(1), of ?la i] range by simp
  have "ser_pid ?s2 = 0" "stored ?s2 = Some ?D" "transmissions ?s2 a = None" "0 < batch_size ?s2"
    using ser by (simp_all add: stored_def)
  from transfer_whole[OF this, of "serializer_of f"] obtain r where
    r: "transfer (chunks (batch_size ?s2) (length ?D)) a ?s2 (serializer_of f) = Some (?s2, r, True)"
    "stored r = Some ?D" by blast
  let ?f1 = "load_dump_file app (f\<lparr>serializer_of := r\<rparr>)"
  have f1: "app_state ?f1 = app_state n" "last_applied ?f1 = ?la" "raft_log ?f1 = [b, e]"
    using r(2) pack be(5) by (simp_all add: load_dump_file_def)
  have "contiguous [b, e]" using be(4,5) by (simp add: contiguous_def)
  moreover have "at_index [b, e] i = (if i = ?la - 1 \<or> i = ?la then at_index (raft_log n) i else None)" for i
  proof -
    consider "i = ?la - 1" | "i = ?la" | "i < ?la - 1" | "?la < i" by linarith
    then show ?thesis by cases (simp_all add: at_index_def[of "[b, e]"] be)
  qed
  ultimately show ?thesis using n1 n2 r(1) f1 at2 unfolding Let_def
    by (intro exI[of _ ?n1] exI[of _ ?n2] exI[of _ ?s2] exI[of _ r] exI) auto
qed

definition dumping :: "(string, nat, string) raft" where
  "dumping = applying\<lparr>last_applied := 3, app_state := ''xy''\<rparr>"

definition dump_app :: "(string, nat, string) raft_app" where
  "dump_app = echo_app\<lparr>app_pack := (\<lambda>_. ''dump''),
     app_unpack := (\<lambda>d. if d = ''dump'' then Some (''xy'', Entry ''y'' 3 1, Entry ''x'' 2 1) else None)\<rparr>"

theorem dump_installs_witness:
  "\<exists>n1 s r fuel. start_dump dump_app sample_env dumping = (n1, Ret ()) \<and>
     transfer fuel ''a'' (serializer_of (fst (try_log_compaction default_conf dump_app sample_env n1)))
       (serializer_of applying) = Some (s, r, True) \<and>
     app_state (load_dump_file dump_app (applying\<lparr>serializer_of := r\<rparr>)) = ''xy''"
proof -
  have "contiguous (raft_log dumping)" "at_index (raft_log dumping) (last_applied dumping - 1) = Some (Entry ''x'' 2 1)"
    "at_index (raft_log dumping) (last_applied dumping) = Some (Entry ''y'' 3 1)"
    "file_name (serializer_of dumping) = None" "ser_pid (serializer_of dumping) = 0"
    "0 < batch_size (serializer_of dumping)"
    "app_unpack dump_app (app_pack dump_app (app_state dumping, Entry ''y'' 3 1, Entry ''x'' 2 1)) =
       Some (app_state dumping, Entry ''y'' 3 1, Entry ''x'' 2 1)"
    by (simp_all add: dumping_def applying_def three_def contiguous_def at_index_def init_raft_def
        init_serializer_def dump_app_def)
  from dump_installs[OF this, of sample_env default_conf sample_env "''a''" applying]
  obtain n1 n2 s r fuel where "start_dump dump_app sample_env dumping = (n1, Ret ())"
    "try_log_compaction default_conf dump_app sample_env n1 = (n2, Ret ())"
    "transfer fuel ''a'' (serializer_of n2) (serializer_of applying) = Some (s, r, True)"
    "app_state (load_dump_file dump_app (applying\<lparr>serializer_of := r\<rparr>)) = app_state dumping"
    unfolding Let_def by blast
  then show ?thesis by (intro exI[of _ n1] exI[of _ s] exI[of _ r] exI[of _ fuel]) (simp add: dumping_def)
qed

subsection \<open>Where the two do not meet\<close>

text \<open>
  One round with room for one batch, and its answer.
\<close>

definition exchange :: "raft_conf \<Rightarrow> ('c, 'r, 's) raft_app \<Rightarrow> raft_env \<Rightarrow> bool \<Rightarrow> addr
    \<Rightarrow> ('c, 'r, 's) raft \<times> ('c, 'r, 's) raft \<Rightarrow> ('c, 'r, 's) raft \<times> ('c, 'r, 's) raft" where
  "exchange conf app env ok a s =
     (case s of (n, f) \<Rightarrow>
        let n1 = fst (send_loop conf ok a 1 True n);
            f1 = fst (on_message conf app env (self_addr n) (snd (last (raft_outbox n1))) f);
            n2 = fst (on_message conf app env a (snd (last (raft_outbox f1))) n1)
        in (n2, f1))"

text \<open>The leader is about to send from the very first entry it has kept, and the follower's log
  ends just before it.\<close>

definition gap :: "addr \<Rightarrow> ('c, 'r, 's) raft \<Rightarrow> ('c, 'r, 's) raft \<Rightarrow> bool" where
  "gap a n f \<longleftrightarrow>
     role n = LEADER \<and> contiguous (raft_log n) \<and> contiguous (raft_log f) \<and> current_term f \<le> current_term n \<and>
     a \<in> set (other_addrs n) \<and> node_up n a \<and> self_addr n \<in> set (other_addrs f) \<and> node_up f (self_addr n) \<and>
     next_index n a = entry_idx (hd (raft_log n)) \<and> entry_idx (last (raft_log f)) + 1 = entry_idx (hd (raft_log n))"

lemma gap_exchange:
  assumes "gap a n f" "0 < append_entries_batch_size conf"
  shows "\<exists>n1 f1. exchange conf app env ok a (n, f) = (n1, f1) \<and> gap a n1 f1 \<and> raft_log f1 = raft_log f \<and>
    raft_log n1 = raft_log n \<and> app_state f1 = app_state f \<and> commit_index f1 = commit_index f"
proof -
  let ?l = "raft_log n" and ?first = "entry_idx (hd (raft_log n))"
  have g: "role n = LEADER" "contiguous ?l" "contiguous (raft_log f)" "current_term f \<le> current_term n"
    "a \<in> set (other_addrs n)" "node_up n a" "self_addr n \<in> set (other_addrs f)" "node_up f (self_addr n)"
    "next_index n a = ?first" "entry_idx (last (raft_log f)) + 1 = ?first"
    using assms(1) by (simp_all add: gap_def)
  have ne: "?l \<noteq> []" "raft_log f \<noteq> []" using contiguousD(1) g(2,3) by auto
  have cur: "get_current_log_index ?l = Ret (entry_idx (last ?l))" "?first \<le> entry_idx (last ?l)"
    using ne contiguous_hd_le_last[OF g(2)] by (simp_all add: get_current_log_index_def)
  have prev: "get_prev_log_index_term ?first ?l = Ret None"
    using ne by (simp add: get_prev_log_index_term_def get_entries_def)
  let ?es = "take (append_entries_batch_size conf) ?l"
  have es: "get_entries ?first (Some (int (append_entries_batch_size conf))) ?l = Ret ?es" "?es \<noteq> []"
    using get_entries_count[OF ne(1), of ?first] assms(2) ne by simp_all
  define n1 where "n1 = fst (send_one conf ok a n)"
  have s: "send_one conf ok a n = (n1, Ret False)"
    "raft_outbox n1 = raft_outbox n @ [(a, AppendEntries (current_term n) (commit_index n) ?es None)]"
    unfolding n1_def using ne cur es g(5,6,9) by (simp_all add: send_one_def Let_def prev raft_send_def)
  have loop: "fst (send_loop conf ok a 1 True n) = n1" using s(1) ne by simp
  have m: "snd (last (raft_outbox n1)) = AppendEntries (current_term n) (commit_index n) ?es None"
    by (simp add: s(2))
  have same: "sent_only n n1" using sent_only_send_one[of n conf ok a] s(1) by simp
  let ?f0 = "follow_leader conf env (self_addr n) (current_term n) f"
  let ?f1 = "raft_send (self_addr n) (NextNodeIdx ?first True) ?f0"
  have f1: "fst (on_message conf app env (self_addr n) (AppendEntries (current_term n) (commit_index n) ?es None) f) = ?f1"
    using g(3,4,10) ne(2) send_next_eq[of ?f0 "self_addr n" True]
    by (simp add: on_message_def receive_append_entries_def Let_def)
  have out: "snd (last (raft_outbox ?f1)) = NextNodeIdx ?first True"
    using g(7,8) by (simp add: raft_send_def)
  let ?n2 = "fst (on_message conf app env a (NextNodeIdx ?first True) n1)"
  have "exchange conf app env ok a (n, f) = (?n2, ?f1)"
    unfolding exchange_def prod.case loop Let_def m f1 out by (rule refl)
  moreover have "gap a ?n2 ?f1"
    using g sent_only_fields[OF same]
    by (simp add: gap_def on_message_def receive_next_node_idx_def Let_def sending_fields)
  ultimately show ?thesis using sent_only_fields[OF same] g(1)
    by (simp add: on_message_def receive_next_node_idx_def Let_def sending_fields)
qed

text \<open>A follower that lags by exactly the compacted entries never catches up.  If its log
  ends just before the first entry the leader has kept, then the leader neither has the previous
  entry to send along nor falls back to a dump; each round the follower refuses the batch and
  asks for the very same index, and after any number of rounds nothing of its log, its state or
  its commit index has changed.\<close>

lemma follower_stays_behind:
  assumes "gap a n f" "0 < append_entries_batch_size conf"
  shows "\<exists>n' f'. (exchange conf app env ok a ^^ k) (n, f) = (n', f') \<and> next_index n' a = entry_idx (hd (raft_log n)) \<and>
    raft_log f' = raft_log f \<and> app_state f' = app_state f \<and> commit_index f' = commit_index f"
proof -
  have "\<exists>n' f'. (exchange conf app env ok a ^^ k) (n, f) = (n', f') \<and> gap a n' f' \<and> raft_log n' = raft_log n \<and>
    raft_log f' = raft_log f \<and> app_state f' = app_state f \<and> commit_index f' = commit_index f"
  proof (induction k)
    case 0
    then show ?case using assms(1) by simp
  next
    case (Suc k)
    then obtain n' f' where k: "(exchange conf app env ok a ^^ k) (n, f) = (n', f')" "gap a n' f'"
      "raft_log n' = raft_log n" "raft_log f' = raft_log f" "app_state f' = app_state f"
      "commit_index f' = commit_index f" by blast
    show ?case using gap_exchange[OF k(2) assms(2), of app env ok] k by auto
  qed
  then show ?thesis by (auto simp: gap_def)
qed

end
