(* ===== verification/Raft_Runs.thy ===== *)
theory Raft_Runs
  imports Raft_Transfer "HOL-Library.AList"
begin

section \<open>Runs of a Raft cluster that go wrong\<close>

text \<open>
  A cluster is a node per address.  The outbox of a node holds what it has sent and what is still
  on its way; on each connection the messages arrive in order, or are lost when it breaks.
  No node of these runs is restarted.
\<close>

datatype 'c cluster_event =
    At addr "'c raft_event"
  | Pass raft_env addr             \<comment> \<open>the oldest message in the node's outbox arrives\<close>
  | Pass_To raft_env addr addr     \<comment> \<open>the oldest message on the connection from one node to another arrives\<close>
  | Lose addr                      \<comment> \<open>the oldest message in the outbox is lost\<close>

type_synonym ('c, 'r, 's) cluster = "(addr \<times> ('c, 'r, 's) raft) list"

definition node_of :: "('c, 'r, 's) cluster \<Rightarrow> addr \<Rightarrow> ('c, 'r, 's) raft" where
  "node_of c a = the (map_of c a)"

definition cluster_step :: "raft_conf \<Rightarrow> ('c, 'r, 's) raft_app \<Rightarrow> 'c cluster_event
    \<Rightarrow> ('c, 'r, 's) cluster \<Rightarrow> ('c, 'r, 's) cluster" where
  "cluster_step conf app ev c =
     (case ev of
        At a e \<Rightarrow> AList.update a (fst (raft_step conf app e (node_of c a))) c
      | Pass env a \<Rightarrow>
          (case raft_outbox (node_of c a) of
             [] \<Rightarrow> c
           | (b, m) # ms \<Rightarrow>
               let c1 = AList.update a ((node_of c a)\<lparr>raft_outbox := ms\<rparr>) c in
               AList.update b (fst (raft_step conf app (Received env a m) (node_of c1 b))) c1)
      | Pass_To env a b \<Rightarrow>
          (case filter (\<lambda>x. fst x = b) (raft_outbox (node_of c a)) of
             [] \<Rightarrow> c
           | x # xs \<Rightarrow>
               let c1 = AList.update a ((node_of c a)\<lparr>raft_outbox := remove1 x (raft_outbox (node_of c a))\<rparr>) c in
               AList.update b (fst (raft_step conf app (Received env a (snd x)) (node_of c1 b))) c1)
      | Lose a \<Rightarrow> AList.update a ((node_of c a)\<lparr>raft_outbox := tl (raft_outbox (node_of c a))\<rparr>) c)"

definition cluster_run :: "raft_conf \<Rightarrow> ('c, 'r, 's) raft_app \<Rightarrow> 'c cluster_event list
    \<Rightarrow> ('c, 'r, 's) cluster \<Rightarrow> ('c, 'r, 's) cluster" where
  "cluster_run conf app evs c = fold (cluster_step conf app) evs c"

subsection \<open>Two leaders\<close>

definition abc :: "(string, nat, string) cluster" where
  "abc = map (\<lambda>a. (a, (init_raft a (filter (\<lambda>b. b \<noteq> a) [''a'', ''b'', ''c'']) ''none'' []
     (init_serializer None 4 None) 0 1)\<lparr>node_up := (\<lambda>_. True)\<rparr>)) [''a'', ''b'', ''c'']"

text \<open>Nodes a and b stand for election at the same time, and c answers both.  Each leads, takes a
  command and replicates it to c.  Nothing is lost and every connection keeps its order; only
  what a and b send each other is still on its way when the run ends, one second after it
  began.\<close>

definition two_elections :: "string cluster_event list" where
  "two_elections =
     (let env = env_at 10 in
      [At ''a'' (Tick env), At ''b'' (Tick env),
       Pass_To env ''a'' ''c'', Pass_To env ''b'' ''c'', Pass_To env ''c'' ''a'', Pass_To env ''c'' ''b''])"

definition two_commits :: "string cluster_event list" where
  "two_commits =
     (let env = env_at (43 / 4) in
      [At ''a'' (Submitted ''x'' (Some 1)), At ''b'' (Submitted ''y'' (Some 2)),
       At ''a'' (Tick (env_at (41 / 4))), At ''b'' (Tick (env_at (41 / 4))),
       At ''a'' (Tick env), At ''b'' (Tick env),
       Pass_To env ''a'' ''c'', Pass_To env ''a'' ''c'', Pass_To env ''c'' ''a'', Pass_To env ''c'' ''a'',
       Pass_To env ''b'' ''c'', Pass_To env ''b'' ''c'', Pass_To env ''c'' ''b'', Pass_To env ''c'' ''b'',
       At ''a'' (Tick (env_at 11)), At ''b'' (Tick (env_at 11))])"

lemma nothing_lost: "Lose a \<notin> set (two_elections @ two_commits)"
  by (simp add: two_elections_def two_commits_def Let_def)

text \<open>C21: two nodes can lead the same term, and commit different commands at the same index,
  although no node stops, no message is lost and none overtakes another on its connection.  A
  node keeps no record of the vote it gave, so it answers every candidate of a term whose log
  is no shorter than its own.  At the end of this run nodes a and b lead term 1; both have
  applied a command at index 2 and reported success for it, and the replicated objects
  differ.\<close>

theorem two_leaders_diverge:
  "map (\<lambda>(a, n). (a, role n, current_term n, last_applied n, app_state n, callbacks n))
     (cluster_run small_conf echo_app (two_elections @ two_commits) abc) =
   [(''a'', LEADER, 1, 2, ''x'', [(1, Some 0, SUCCEEDED)]),
    (''b'', LEADER, 1, 2, ''y'', [(2, Some 0, SUCCEEDED)]),
    (''c'', FOLLOWER, 1, 1, [], [])]"
  by code_simp

subsection \<open>A commit nobody else has\<close>

text \<open>b leads term 1 and takes two commands that reach nobody; a leads term 2, takes two others,
  and the connection breaks while they are sent.\<close>

definition lost_entries :: "string cluster_event list" where
  "lost_entries =
     [At ''b'' (Tick (env_at 10)), Pass (env_at 10) ''b'', Lose ''b'', Pass (env_at 10) ''a'', Lose ''b'', Lose ''b'',
      At ''b'' (Submitted ''u'' None), At ''b'' (Submitted ''v'' None), At ''b'' (Tick (env_at 11)),
      Lose ''b'', Lose ''b'',
      At ''a'' (Tick (env_at 20)), Lose ''a'', Pass (env_at 20) ''a'', Pass (env_at 20) ''c'', Lose ''a'', Lose ''a'',
      At ''a'' (Submitted ''x'' None), At ''a'' (Submitted ''y'' None), At ''a'' (Tick (env_at 21)),
      Lose ''a'', Lose ''a'', At ''a'' (Tick (env_at 22)), Lose ''a'', Lose ''a'',
      At ''a'' (Tick (env_at 23)), Pass (env_at 23) ''a'', Lose ''a'', Pass (env_at 23) ''b'',
      At ''a'' (Tick (env_at 24))]"

text \<open>A leader can commit an entry that no other node has.  The answer of a node that
  refuses entries carries the end of its log, and the leader takes it as the end of what it
  has in common with it, also if it is marked as a reset.  At the end of this run a has
  committed and applied its entry at index 2, b has another entry there, and c has none.\<close>

lemma commit_without_majority:
  "map (\<lambda>(a, n). (a, commit_index n, last_applied n, at_index (raft_log n) 2))
     (cluster_run small_conf echo_app lost_entries abc) =
   [(''a'', 2, 2, Some (Entry ''x'' 2 2)), (''b'', 1, 1, Some (Entry ''u'' 2 1)), (''c'', 1, 1, None)]"
  by code_simp

subsection \<open>Exceptions that end the tick thread\<close>

text \<open>A leader that has no dump to send stops its follower.  If the next entry for a node
  has been compacted away while a dump is being stored, or when there is none, then what the leader sends
  has neither entries nor data, and the follower, which takes it for entries, raises a \<open>KeyError\<close>
  on the previous index.\<close>

lemma no_dump_stops_follower:
  assumes "raft_log n \<noteq> []" "next_index n a < entry_idx (hd (raft_log n))" "a \<in> set (other_addrs n)" "node_up n a"
    "ser_pid (serializer_of n) \<noteq> 0 \<or> transmissions (serializer_of n) a = None \<and> stored (serializer_of n) = None"
    "current_term f \<le> current_term n"
  shows "\<exists>n1 m. send_one conf ok a n = (n1, Ret False) \<and> raft_outbox n1 = raft_outbox n @ [(a, m)] \<and>
    snd (on_message conf app env (self_addr n) m f) = Raise KeyError"
proof -
  have "snd (get_transmission_data ok a (serializer_of n)) = NoData"
    using assms(5) by (auto simp: get_transmission_data_def)
  then obtain ser where d: "get_transmission_data ok a (serializer_of n) = (ser, NoData)"
    by (cases "get_transmission_data ok a (serializer_of n)") simp
  let ?m = "AppendSerialized (current_term n) (commit_index n) NoData"
  have "send_one conf ok a n = (raft_send a ?m (n\<lparr>serializer_of := ser\<rparr>), Ret False)"
    using assms(1,2) by (simp add: send_one_def Let_def d)
  moreover have "raft_outbox (raft_send a ?m (n\<lparr>serializer_of := ser\<rparr>)) = raft_outbox n @ [(a, ?m)]"
    using assms(3,4) by (simp add: raft_send_def)
  moreover have "snd (on_message conf app env (self_addr n) ?m f) = Raise KeyError"
    using assms(6) by (simp add: on_message_def receive_serialized_def Let_def)
  ultimately show ?thesis by blast
qed

text \<open>A full queue and a forwarded command stop a node, too.  When the commands queue is full,
  a command that another node forwarded, whose callback is an address and a request id or
  nothing, makes the node call what is no function: it raises a \<open>TypeError\<close>, and the sender
  gets no answer.\<close>

lemma full_queue_stops_node:
  assumes "0 < commands_queue_size conf" "length (commands_queue n) \<ge> commands_queue_size conf"
  shows "on_message conf app env a (ApplyCommand cmd req) n = (n, Raise TypeError)"
  using assms
  by (auto simp: on_message_def receive_apply_command_def raft_apply_command_def call_failed_def split: option.splits)

end
