(* ===== verification/Raft_Rebind.thy ===== *)
theory Raft_Rebind
  imports Raft_Runs
begin

section \<open>A node that listens again\<close>

text \<open>
  The beginning of \<open>_onTick\<close> (\<open>pysyncobj/syncobj.py\<close>): a node that does not listen for
  connections tries to bind its address, at first and whenever accepting has failed, and does
  nothing else until it succeeds.  Binding makes new \<open>Node\<close> objects, forgets what the peers have,
  and asks for the dump file to be loaded, also in a node that has been running; the rest of the
  tick is \<open>on_tick\<close>.
\<close>

record ('c, 'r, 's) sync_obj =
  raft_part :: "('c, 'r, 's) raft"
  is_initialised :: bool
  last_init_try_time :: rat

text \<open>\<open>__initInTickThread\<close>; \<open>bound\<close> is whether \<open>__bind\<close> succeeds, what it raises is logged.\<close>

definition new_nodes :: "('c, 'r, 's) raft \<Rightarrow> ('c, 'r, 's) raft" where
  "new_nodes n =
     n\<lparr>node_up := (\<lambda>_. False),
       next_index := fold (\<lambda>a f. f(a := 0)) (other_addrs n) (next_index n),
       match_index := fold (\<lambda>a f. f(a := 0)) (other_addrs n) (match_index n)\<rparr>"

definition init_in_tick_thread :: "rat \<Rightarrow> bool \<Rightarrow> ('c, 'r, 's) sync_obj \<Rightarrow> ('c, 'r, 's) sync_obj" where
  "init_in_tick_thread now bound o1 =
     (if bound then
        o1\<lparr>last_init_try_time := now, raft_part := (new_nodes (raft_part o1))\<lparr>need_load_dump := True\<rparr>,
           is_initialised := True\<rparr>
      else o1\<lparr>last_init_try_time := now\<rparr>)"

text \<open>\<open>_onTick\<close>.\<close>

definition try_init :: "raft_conf \<Rightarrow> raft_env \<Rightarrow> bool \<Rightarrow> ('c, 'r, 's) sync_obj \<Rightarrow> ('c, 'r, 's) sync_obj" where
  "try_init conf env bound o1 =
     (if \<not> is_initialised o1 \<and> env_now env \<ge> last_init_try_time o1 + bind_retry_time conf
      then init_in_tick_thread (env_now env) bound o1 else o1)"

definition tick_initialised :: "raft_conf \<Rightarrow> ('c, 'r, 's) raft_app \<Rightarrow> raft_env
    \<Rightarrow> ('c, 'r, 's) sync_obj \<Rightarrow> ('c, 'r, 's) sync_obj \<times> unit outcome" where
  "tick_initialised conf app env o1 =
     (if \<not> is_initialised o1 then (o1, Ret ())
      else case on_tick conf app env (raft_part o1) of (n, r) \<Rightarrow> (o1\<lparr>raft_part := n\<rparr>, r))"

definition whole_tick :: "raft_conf \<Rightarrow> ('c, 'r, 's) raft_app \<Rightarrow> raft_env \<Rightarrow> bool
    \<Rightarrow> ('c, 'r, 's) sync_obj \<Rightarrow> ('c, 'r, 's) sync_obj \<times> unit outcome" where
  "whole_tick conf app env bound o1 = tick_initialised conf app env (try_init conf env bound o1)"

text \<open>What happens to the object: its constructor, or its thread, initialises it; it ticks; accepting a
  connection fails, or the poller reports an error of the listening socket
  (\<open>__onNewConnection\<close>); the rest is as before.\<close>

definition start_sync_obj :: "rat \<Rightarrow> bool \<Rightarrow> ('c, 'r, 's) raft \<Rightarrow> ('c, 'r, 's) sync_obj" where
  "start_sync_obj now bound n =
     init_in_tick_thread now bound \<lparr>raft_part = n, is_initialised = False, last_init_try_time = 0\<rparr>"

datatype 'c sync_event = Whole_Tick raft_env bool | Listener_Fails | Other_Event "'c raft_event"

fun sync_step :: "raft_conf \<Rightarrow> ('c, 'r, 's) raft_app \<Rightarrow> 'c sync_event \<Rightarrow> ('c, 'r, 's) sync_obj
    \<Rightarrow> ('c, 'r, 's) sync_obj" where
  "sync_step conf app (Whole_Tick env bound) o1 = fst (whole_tick conf app env bound o1)"
| "sync_step conf app Listener_Fails o1 = o1\<lparr>is_initialised := False\<rparr>"
| "sync_step conf app (Other_Event ev) o1 = o1\<lparr>raft_part := fst (raft_step conf app ev (raft_part o1))\<rparr>"

definition sync_run :: "raft_conf \<Rightarrow> ('c, 'r, 's) raft_app \<Rightarrow> 'c sync_event list \<Rightarrow> ('c, 'r, 's) sync_obj
    \<Rightarrow> ('c, 'r, 's) sync_obj" where
  "sync_run conf app evs o1 = fold (sync_step conf app) evs o1"

subsection \<open>Waiting for the address\<close>

text \<open>Until it can bind, a node does nothing, whatever time passes.\<close>

lemma unbound_waits:
  assumes "\<not> is_initialised o1"
  shows "raft_part (sync_run conf app (map (\<lambda>env. Whole_Tick env False) envs) o1) = raft_part o1 \<and>
    \<not> is_initialised (sync_run conf app (map (\<lambda>env. Whole_Tick env False) envs) o1)"
  using assms
proof (induction envs arbitrary: o1)
  case (Cons env envs)
  let ?o = "fst (whole_tick conf app env False o1)"
  have "raft_part ?o = raft_part o1 \<and> \<not> is_initialised ?o"
    using Cons.prems by (simp add: whole_tick_def tick_initialised_def try_init_def init_in_tick_thread_def)
  then show ?case using Cons.IH[of ?o] by (simp add: sync_run_def)
qed (simp add: sync_run_def)

subsection \<open>Loading an old dump\<close>

text \<open>After binding again a node goes on from its dump: what it had appended since is gone, but its
  role, its term and its commit index are those it had.\<close>

lemma rebind_rewinds:
  assumes "file_name (serializer_of (raft_part o1)) \<noteq> None" "disk (serializer_of (raft_part o1)) = Some d"
    "app_unpack app d = Some (s, e, e')" "tick_dump app (raft_part (init_in_tick_thread now True o1)) = m"
  shows "raft_log m = [e', e] \<and> last_applied m = entry_idx e \<and> app_state m = s \<and>
    role m = role (raft_part o1) \<and> current_term m = current_term (raft_part o1) \<and>
    commit_index m = commit_index (raft_part o1)"
  using assms by (auto simp: tick_dump_def load_dump_file_def stored_def init_in_tick_thread_def new_nodes_def)

subsection \<open>A committed entry overwritten\<close>

text \<open>An application whose dump can be read back: commands are single characters.\<close>

definition pack_entry :: "string entry \<Rightarrow> string" where
  "pack_entry e = [hd (entry_cmd e), char_of (nat (entry_idx e)), char_of (nat (entry_term e))]"

definition dumping_app :: "(string, nat, string) raft_app" where
  "dumping_app =
     \<lparr>app_apply = (\<lambda>c s. (s @ c, Ret (length s))),
      app_pack = (\<lambda>(s, e, e'). pack_entry e @ pack_entry e' @ s),
      app_unpack = (\<lambda>d. case d of
         c # i # t # c' # i' # t' # s \<Rightarrow> Some (s, Entry [c] (of_char i) (of_char t), Entry [c'] (of_char i') (of_char t'))
       | _ \<Rightarrow> None)\<rparr>"

definition abc_dumping :: "(string, nat, string) cluster" where
  "abc_dumping = map (\<lambda>a. (a, (init_raft a (filter (\<lambda>b. b \<noteq> a) [''a'', ''b'', ''c'']) ''-'' []
     (init_serializer (Some ''dump'') 64 None) 0 1)\<lparr>node_up := (\<lambda>_. True)\<rparr>)) [''a'', ''b'', ''c'']"

text \<open>a is elected; its entry \<open>x\<close> is committed and a dump is stored; then its entry \<open>y\<close> is
  committed and applied everywhere.\<close>

definition dump_and_commit :: "string cluster_event list" where
  "dump_and_commit =
     [At ''a'' (Tick (env_at 10)), Pass (env_at 10) ''a'', Lose ''a'', Pass (env_at 10) ''b'', Lose ''a'', Lose ''a'',
      At ''a'' (Submitted ''x'' (Some 1)), At ''a'' (Tick (env_at 11)), Lose ''a'', Lose ''a'',
      At ''a'' (Tick (env_at 12)), Pass (env_at 12) ''a'', Pass (env_at 12) ''a'', Pass (env_at 12) ''b'', Pass (env_at 12) ''c'',
      At ''a'' (Tick (env_at 13)), Lose ''a'', Lose ''a'',
      At ''a'' Force_Compaction, At ''a'' (Tick (env_at (131 / 10))),
      At ''a'' (Child_Wrote (app_pack dumping_app (''x'', Entry ''x'' 2 1, Entry ''-'' 1 0))),
      At ''a'' (Tick ((env_at (132 / 10))\<lparr>env_wait := Exited 0\<rparr>)),
      At ''a'' (Submitted ''y'' (Some 2)), At ''a'' (Tick (env_at 14)), Lose ''a'', Lose ''a'',
      At ''a'' (Tick (env_at 15)), Pass (env_at 15) ''a'', Pass (env_at 15) ''a'', Pass (env_at 15) ''b'', Pass (env_at 15) ''c'',
      At ''a'' (Tick (env_at 16)), Pass (env_at 16) ''a'', Pass (env_at 16) ''a'', Lose ''b'', Lose ''c'',
      At ''b'' (Tick (env_at 16)), At ''c'' (Tick (env_at 16))]"

definition summary :: "('c, 'r, 's) raft \<Rightarrow> raft_role \<times> int \<times> int \<times> 'c entry option \<times> 's \<times> (nat \<times> 'r option \<times> fail_reason) list" where
  "summary n = (role n, current_term n, last_applied n, at_index (raft_log n) 3, app_state n, callbacks n)"

text \<open>Then accepting a connection fails at a, which binds again, with one attempt in vain, and takes \<open>z\<close>.\<close>

definition listens_again :: "string sync_event list" where
  "listens_again =
     [Listener_Fails, Whole_Tick (env_at 17) False, Whole_Tick (env_at 18) True,
      Other_Event (Submitted ''z'' (Some 3)), Whole_Tick (env_at 19) True, Whole_Tick (env_at 20) True]"

definition at_leader :: "string sync_event list \<Rightarrow> (string, nat, string) cluster \<Rightarrow> (string, nat, string) cluster" where
  "at_leader evs c =
     AList.update ''a'' (raft_part (sync_run small_conf dumping_app evs
       \<lparr>raft_part = node_of c ''a'', is_initialised = True, last_init_try_time = 0\<rparr>)) c"

lemma committed_everywhere:
  "map (\<lambda>(a, n). (a, summary n)) (cluster_run small_conf dumping_app dump_and_commit abc_dumping) =
     [(''a'', LEADER, 1, 3, Some (Entry ''y'' 3 1), ''xy'', [(1, Some 0, SUCCEEDED), (2, Some 1, SUCCEEDED)]),
      (''b'', FOLLOWER, 1, 3, Some (Entry ''y'' 3 1), ''xy'', []),
      (''c'', FOLLOWER, 1, 3, Some (Entry ''y'' 3 1), ''xy'', [])]"
  by code_simp

text \<open>C31: a leader that listens again overwrites what it has committed.  In this run \<open>y\<close> has been
  committed at index 3 in term 1, applied by all three nodes and reported as done.  Accepting a
  connection fails at the leader; when it has bound its address again it is back at its dump, but still
  the leader of term 1 with commit index 3, so the next command, \<open>z\<close>, becomes the entry at index 3
  in term 1, and is applied and reported as done before any other node has heard of it: the
  replicated objects differ.\<close>

theorem rebind_overwrites:
  "map (\<lambda>(a, n). (a, summary n))
     (at_leader listens_again (cluster_run small_conf dumping_app dump_and_commit abc_dumping)) =
     [(''a'', LEADER, 1, 3, Some (Entry ''z'' 3 1), ''xz'',
         [(1, Some 0, SUCCEEDED), (2, Some 1, SUCCEEDED), (3, Some 1, SUCCEEDED)]),
      (''b'', FOLLOWER, 1, 3, Some (Entry ''y'' 3 1), ''xy'', []),
      (''c'', FOLLOWER, 1, 3, Some (Entry ''y'' 3 1), ''xy'', [])]"
  by code_simp

end
