(* ===== verification/Raft_Network.thy ===== *)
theory Raft_Network
  imports Raft_Properties
begin

section \<open>A Raft cluster, and the shape of its logs\<close>

text \<open>
  Nodes exchange what they put into their outboxes.  A message that was sent may arrive at any
  later time, any number of times or never, which is more than TCP connections allow.  The
  well-formedness of logs and messages is kept by every step.
\<close>

record ('c, 'r, 's) raft_net =
  raft_at :: "addr \<Rightarrow> ('c, 'r, 's) raft"
  posted_msgs :: "(addr \<times> addr \<times> 'c raft_msg) set"   \<comment> \<open>sender, receiver, message\<close>

definition start_net :: "(addr \<Rightarrow> addr list) \<Rightarrow> 'c \<Rightarrow> 's \<Rightarrow> (addr \<Rightarrow> addr serializer) \<Rightarrow> rat \<Rightarrow> (addr \<Rightarrow> rat)
    \<Rightarrow> ('c, 'r, 's) raft_net" where
  "start_net others none s ser now timeout =
     \<lparr>raft_at = (\<lambda>a. init_raft a (others a) none s (ser a) now (timeout a)), posted_msgs = {}\<rparr>"

text \<open>An event at node \<open>a\<close>; what it sends is taken out of its outbox.\<close>

definition net_event :: "raft_conf \<Rightarrow> ('c, 'r, 's) raft_app \<Rightarrow> addr \<Rightarrow> 'c raft_event
    \<Rightarrow> ('c, 'r, 's) raft_net \<Rightarrow> ('c, 'r, 's) raft_net" where
  "net_event conf app a ev s =
     (let n = fst (raft_step conf app ev (raft_at s a)) in
      \<lparr>raft_at = (raft_at s)(a := n\<lparr>raft_outbox := []\<rparr>),
       posted_msgs = posted_msgs s \<union> (\<lambda>(b, m). (a, b, m)) ` set (raft_outbox n)\<rparr>)"

text \<open>A node receives only what was sent to it.\<close>

definition possible :: "addr \<Rightarrow> 'c raft_event \<Rightarrow> ('c, 'r, 's) raft_net \<Rightarrow> bool" where
  "possible a ev s = (case ev of Received env b m \<Rightarrow> (b, a, m) \<in> posted_msgs s | _ \<Rightarrow> True)"

inductive raft_reachable :: "raft_conf \<Rightarrow> ('c, 'r, 's) raft_app \<Rightarrow> ('c, 'r, 's) raft_net \<Rightarrow> ('c, 'r, 's) raft_net \<Rightarrow> bool"
  for conf app s0 where
  net_start: "raft_reachable conf app s0 s0"
| net_next: "raft_reachable conf app s0 s \<Longrightarrow> possible a ev s \<Longrightarrow> raft_reachable conf app s0 (net_event conf app a ev s)"

subsection \<open>Well-formed logs and messages\<close>

text \<open>A log is empty or has consecutive indices; the entries of a message follow the index that
  precedes them.\<close>

definition log_wf :: "'c log \<Rightarrow> bool" where
  "log_wf l \<longleftrightarrow> l = [] \<or> contiguous l"

fun msg_wf :: "'c raft_msg \<Rightarrow> bool" where
  "msg_wf (AppendEntries t c es (Some (i, pt))) \<longleftrightarrow> numbered (i + 1) es"
| "msg_wf _ \<longleftrightarrow> True"

definition node_wf :: "('c, 'r, 's) raft \<Rightarrow> bool" where
  "node_wf n \<longleftrightarrow> log_wf (raft_log n) \<and> (\<forall>(b, m)\<in>set (raft_outbox n). msg_wf m)"

text \<open>What \<open>app_unpack\<close> accepts is the dump of a log with consecutive indices; \<open>start_dump\<close>
  packs no other.\<close>

definition dumps_wf :: "('c, 'r, 's) raft_app \<Rightarrow> bool" where
  "dumps_wf app \<longleftrightarrow> (\<forall>d s applied before. app_unpack app d = Some (s, applied, before) \<longrightarrow>
     entry_idx applied = entry_idx before + 1)"

subsection \<open>Cutting logs\<close>

lemma log_wf_numbered: "log_wf l \<longleftrightarrow> l = [] \<or> numbered (entry_idx (hd l)) l"
  by (auto simp: log_wf_def contiguous_def)

lemma numbered_wf: "numbered i l \<Longrightarrow> log_wf l"
  by (cases l) (auto simp: log_wf_numbered)

lemma log_wf_from: "log_wf l \<Longrightarrow> delete_entries_from i l = Ret l' \<Longrightarrow> log_wf l'"
  using numbered_take[of "entry_idx (hd l)" l] numbered_wf[of "entry_idx (hd l)"]
  by (cases "l = []") (auto simp: delete_entries_from_def py_upto_nonneg log_wf_numbered Let_def split: if_splits)

lemma numbered_drop_any: "numbered i l \<Longrightarrow> numbered (i + int k) (drop k l)"
  using numbered_drop[of i l k] by (cases "k \<le> length l") simp_all

lemma log_wf_to: "log_wf l \<Longrightarrow> delete_entries_to i l = Ret l' \<Longrightarrow> log_wf l'"
  using numbered_drop_any[of "entry_idx (hd l)" l] numbered_wf
  by (cases "l = []") (auto simp: delete_entries_to_def py_from_nonneg log_wf_numbered Let_def split: if_splits)

lemma entries_numbered:
  assumes "log_wf l" "get_entries i (Some (int c)) l = Ret es" shows "numbered i es"
proof (cases "l = [] \<or> i < entry_idx (hd l)")
  case True
  then show ?thesis using assms(2) by (auto simp: get_entries_def Let_def split: if_splits)
next
  case False
  then have "numbered (entry_idx (hd l) + int (nat (i - entry_idx (hd l)))) (drop (nat (i - entry_idx (hd l))) l)"
    using assms(1) by (intro numbered_drop_any) (simp add: log_wf_numbered)
  then have "numbered i (drop (nat (i - entry_idx (hd l))) l)" using False by simp
  then show ?thesis using assms(2) False get_entries_count[of l i "int c"] numbered_take by auto
qed

lemma log_wf_append:
  assumes "log_wf l" "numbered (entry_idx (last l) + 1) es" "l \<noteq> []"
  shows "log_wf (l @ es)"
  using assms contiguous_append by (auto simp: log_wf_def)

subsection \<open>Every step keeps the shape\<close>

lemma wf_fields: "node_wf n \<Longrightarrow> raft_log m = raft_log n \<Longrightarrow> raft_outbox m = raft_outbox n \<Longrightarrow> node_wf m"
  by (simp add: node_wf_def)

lemma wf_log: "node_wf n \<Longrightarrow> log_wf l \<Longrightarrow> node_wf (n\<lparr>raft_log := l\<rparr>)"
  by (simp add: node_wf_def)

lemma wf_send: "node_wf n \<Longrightarrow> msg_wf m \<Longrightarrow> node_wf (raft_send a m n)"
  by (auto simp: node_wf_def raft_send_def)

lemma wf_and_then:
  assumes "node_wf (fst r)" "\<And>m. node_wf m \<Longrightarrow> node_wf (fst (f m))" shows "node_wf (fst (and_then r f))"
  using assms by (cases rule: and_then_cases[of r f]) auto

lemma wf_reading:
  assumes "node_wf n" "\<And>v. x = Ret v \<Longrightarrow> node_wf (fst (f v))" shows "node_wf (fst (reading x f n))"
  using assms by (cases x) auto

lemma wf_update [simp]:
  "node_wf (n\<lparr>next_index := v1\<rparr>) = node_wf n" "node_wf (n\<lparr>serializer_of := v2\<rparr>) = node_wf n"
  "node_wf (n\<lparr>new_append_time := v3\<rparr>) = node_wf n" "node_wf (n\<lparr>commit_index := v4\<rparr>) = node_wf n"
  "node_wf (n\<lparr>match_index := v5\<rparr>) = node_wf n" "node_wf (n\<lparr>waiting_commit := v6\<rparr>) = node_wf n"
  "node_wf (n\<lparr>waiting_reply := v7\<rparr>) = node_wf n" "node_wf (n\<lparr>commands_queue := v8\<rparr>) = node_wf n"
  "node_wf (n\<lparr>callbacks := v9\<rparr>) = node_wf n" "node_wf (n\<lparr>app_state := w1\<rparr>) = node_wf n"
  "node_wf (n\<lparr>last_applied := w2\<rparr>) = node_wf n" "node_wf (n\<lparr>role := w3\<rparr>) = node_wf n"
  "node_wf (n\<lparr>raft_leader := w4\<rparr>) = node_wf n" "node_wf (n\<lparr>current_term := w5\<rparr>) = node_wf n"
  "node_wf (n\<lparr>votes_count := w6\<rparr>) = node_wf n" "node_wf (n\<lparr>election_deadline := w7\<rparr>) = node_wf n"
  "node_wf (n\<lparr>local_counter := w8\<rparr>) = node_wf n" "node_wf (n\<lparr>need_load_dump := w9\<rparr>) = node_wf n"
  "node_wf (n\<lparr>force_compaction := x1\<rparr>) = node_wf n" "node_wf (n\<lparr>last_serialized_time := x2\<rparr>) = node_wf n"
  "node_wf (n\<lparr>node_up := x3\<rparr>) = node_wf n"
  by (simp_all add: node_wf_def)

lemma wf_called [simp]:
  "node_wf (call k r x n) = node_wf n" "node_wf (on_leader_changed n) = node_wf n"
  "node_wf (fst (call_failed cb x n)) = node_wf n" "node_wf (follow_leader conf env a t n) = node_wf n"
  by (simp_all add: call_def on_leader_changed_eq call_failed_def follow_leader_def Let_def split: command_callback.split)

lemma wf_send_one:
  assumes "node_wf n" shows "node_wf (fst (send_one conf ok a n))"
proof (cases "raft_log n = [] \<or> next_index n a < entry_idx (hd (raft_log n))")
  case True
  then show ?thesis
    using assms by (auto simp: send_one_def Let_def split_beta split: chunk_result.split intro!: wf_send)
next
  case False
  let ?i = "next_index n a"
  let ?batch = "returned (get_entries ?i (Some (int (append_entries_batch_size conf))) (raft_log n))"
  have l: "log_wf (raft_log n)" using assms by (simp add: node_wf_def)
  obtain es where "get_entries ?i (Some (int (append_entries_batch_size conf))) (raft_log n) = Ret es"
    using False get_entries_count[of "raft_log n" ?i "int (append_entries_batch_size conf)"] by auto
  then have b: "numbered ?i ?batch" using entries_numbered[OF l] by simp
  have "msg_wf (AppendEntries t c es (returned (get_prev_log_index_term ?i (raft_log n))))" if "numbered ?i es" for t c es
  proof -
    obtain p where p: "get_prev_log_index_term ?i (raft_log n) = Ret p" "p = None \<or> (\<exists>t. p = Some (?i - 1, t))"
    proof (cases "at_index (raft_log n) (?i - 1)")
    qed (use False l in \<open>auto simp: log_wf_def get_prev_at intro!: that\<close>)
    then show ?thesis using that by auto
  qed
  then show ?thesis using False b assms by (auto simp: send_one_def Let_def intro!: wf_send)
qed

lemma wf_send_loop: "node_wf n \<Longrightarrow> node_wf (fst (send_loop conf ok a k go n))"
proof (induction k arbitrary: go n)
  case (Suc k)
  obtain m r where one: "send_one conf ok a n = (m, r)" by fastforce
  then have "node_wf m" using wf_send_one[OF Suc.prems, of conf ok a] by simp
  then show ?case using Suc by (cases r) (simp_all add: one)
qed simp

lemma wf_send_to_nodes: "node_wf n \<Longrightarrow> node_wf (fst (send_to_nodes conf ok budget as n))"
proof (induction as arbitrary: n)
  case (Cons a as)
  then show ?case using wf_and_then[OF wf_send_loop Cons.IH] by (cases "node_up n a") (simp_all del: send_loop.simps)
qed simp

lemma wf_send_append: "node_wf n \<Longrightarrow> node_wf (fst (send_append_entries conf env n))"
  by (simp add: send_append_entries_def wf_send_to_nodes)

lemma wf_next_node_idx: "node_wf n \<Longrightarrow> node_wf (fst (send_next_node_idx a reset n))"
  unfolding send_next_node_idx_def by (rule wf_reading) (simp_all add: wf_send)

lemma wf_become_leader: "node_wf n \<Longrightarrow> node_wf (fst (on_become_leader conf env n))"
  by (simp add: on_become_leader_def Let_def wf_send_append)

lemma wf_response_vote: "node_wf n \<Longrightarrow> node_wf (fst (receive_response_vote conf env t n))"
  by (simp add: receive_response_vote_def Let_def wf_become_leader)

lemma wf_request_vote: "node_wf n \<Longrightarrow> node_wf (fst (receive_request_vote conf env a t i lt n))"
  by (auto simp: receive_request_vote_def Let_def intro!: wf_reading wf_send)

lemma wf_fold_send: "node_wf n \<Longrightarrow> msg_wf m \<Longrightarrow> node_wf (fold (\<lambda>a. raft_send a m) as n)"
  by (induction as arbitrary: n) (simp_all add: wf_send)

lemma wf_election: "node_wf n \<Longrightarrow> node_wf (fst (tick_election conf env n))"
  by (simp add: tick_election_def start_election_def Let_def wf_fold_send)

lemma wf_confirm: "node_wf n \<Longrightarrow> node_wf (fst (confirm_entries a c n))"
  unfolding confirm_entries_def by (intro wf_and_then wf_next_node_idx wf_reading) simp_all

text \<open>Entries that a well-formed message brings continue the log where it is cut.\<close>

lemma spliced_wf:
  assumes "log_wf l" "l \<noteq> []" "get_entries i None l = Ret prev" "prev \<noteq> []" "numbered (i + 1) es"
  shows "log_wf ((if length prev > 1 then returned (delete_entries_from (i + 1) l) else l) @ es)"
proof -
  let ?f = "entry_idx (hd l)"
  have i: "?f \<le> i" using assms(2-4) by (auto simp: get_entries_def Let_def split: if_splits)
  have c: "contiguous l" using assms(1,2) by (simp add: log_wf_def)
  have prev: "prev = drop (nat (i - ?f)) l" using get_entries_from[OF assms(2) i] assms(3) by simp
  have lt: "nat (i - ?f) < length l" using prev assms(4) by simp
  have len: "entry_idx (last l) = ?f + int (length l) - 1" by (rule contiguous_last[OF c])
  show ?thesis
  proof (cases "length prev > 1")
    case True
    let ?k = "take (nat (i + 1 - ?f)) l"
    have "contiguous ?k" using contiguous_take[OF c, of "i + 1"] i by simp
    moreover have "entry_idx (last ?k) = i"
      using contiguous_last[OF \<open>contiguous ?k\<close>] i lt assms(2) by (simp add: hd_take min_def) arith
    ultimately show ?thesis
      using True assms(5) delete_from[OF assms(2), of "i + 1"] i contiguous_append[of ?k es]
      by (simp add: log_wf_def)
  next
    case False
    then have "length l = Suc (nat (i - ?f))" using prev lt by simp
    then have "entry_idx (last l) = i" using len i by simp
    then show ?thesis using False assms by (simp add: log_wf_append)
  qed
qed

lemma wf_append:
  assumes "node_wf n" "msg_wf (AppendEntries t c es prev)"
  shows "node_wf (fst (receive_append_entries conf env a t c es prev n))"
proof -
  let ?n = "follow_leader conf env a t n" and ?l = "raft_log n"
  have n: "node_wf ?n" "log_wf ?l" using assms(1) by (simp_all add: node_wf_def)
  show ?thesis
  proof (cases "t < current_term n \<or> ?l = [] \<or> prev = None")
    case True
    then show ?thesis using assms(1) n wf_next_node_idx[OF n(1)]
      by (auto simp: receive_append_entries_def Let_def)
  next
    case False
    then obtain i pt where p: "prev = Some (i, pt)" by auto
    obtain ps where ps: "get_entries i None ?l = Ret ps"
      using False by (cases "i < entry_idx (hd ?l)") (auto simp: get_entries_def Let_def)
    obtain l where l: "delete_entries_from i ?l = Ret l"
      using False by (cases "i - entry_idx (hd ?l) < 0") (auto simp: delete_entries_from_def Let_def)
    have cut: "node_wf (?n\<lparr>raft_log := l\<rparr>)" by (rule wf_log[OF n(1) log_wf_from[OF n(2) l]])
    define spliced where "spliced = (if length ps > 1 then returned (delete_entries_from (i + 1) ?l) else ?l) @ es"
    have "node_wf (fst (confirm_entries a c (?n\<lparr>raft_log := spliced\<rparr>)))" if "ps \<noteq> []"
      unfolding spliced_def using False that assms(2) p
      by (intro wf_confirm wf_log[OF n(1)] spliced_wf[OF n(2) _ ps]) simp_all
    moreover have "receive_append_entries conf env a t c es prev n =
        (if ps = [] then send_next_node_idx a True ?n
         else if entry_term (hd ps) \<noteq> pt then send_next_node_idx a True (?n\<lparr>raft_log := l\<rparr>)
         else confirm_entries a c (?n\<lparr>raft_log := spliced\<rparr>))"
      using False by (simp add: spliced_def receive_append_entries_def Let_def p ps l)
    ultimately show ?thesis using wf_next_node_idx[OF n(1)] wf_next_node_idx[OF cut] by simp
  qed
qed

lemma wf_load_dump: "dumps_wf app \<Longrightarrow> node_wf n \<Longrightarrow> node_wf (load_dump_file app n)"
  by (auto simp: load_dump_file_def dumps_wf_def node_wf_def log_wf_def contiguous_def split: option.split bind_splits)

lemma wf_serialized:
  assumes "dumps_wf app" "node_wf n" shows "node_wf (fst (receive_serialized conf app env a t c data n))"
  using assms by (auto simp: receive_serialized_def Let_def split_beta wf_confirm wf_load_dump split: chunk_result.split)

lemma wf_check_command:
  assumes "node_wf n" shows "node_wf (fst (check_command conf env c cb n))"
proof (cases "role n = LEADER")
  case True
  have "node_wf (n\<lparr>raft_log := raft_log n @ [Entry c (entry_idx (last (raft_log n)) + 1) (current_term n)]\<rparr>)"
    if "raft_log n \<noteq> []"
    using assms that by (intro wf_log log_wf_append) (simp_all add: node_wf_def)
  then show ?thesis using True assms
    by (cases "raft_log n = []")
      (auto simp: check_command_def get_current_log_index_def Let_def wf_send intro!: wf_send_append split: command_callback.split)
next
  case False
  then show ?thesis using assms
    by (auto simp: check_command_def Let_def wf_send split: option.split command_callback.split)
qed

lemma wf_check_commands: "node_wf n \<Longrightarrow> node_wf (fst (check_commands conf env k n))"
proof (induction k arbitrary: n)
  case (Suc k)
  then show ?case using wf_and_then[OF wf_check_command Suc.IH] by (auto split: list.split)
qed simp

lemma wf_apply_entries: "node_wf n \<Longrightarrow> node_wf (fst (apply_entries app es n))"
proof (induction es arbitrary: n)
  case (Cons e es)
  have "node_wf (fst (apply_entry app e n))"
    using Cons.prems by (simp add: apply_entry_def Let_def fold_notify split: prod.split outcome.split)
  from wf_and_then[OF this Cons.IH] show ?case by simp
qed simp

lemma wf_compaction:
  assumes "node_wf n" shows "node_wf (fst (try_log_compaction conf app env n))"
proof -
  obtain ser state i where c: "check_serializing (env_wait env) (serializer_of n) = (ser, state, i)" by (metis prod.exhaust)
  have dump: "node_wf (fst (start_dump app env m))" if "node_wf m" for m
    unfolding start_dump_def using that by (intro wf_reading) (simp_all add: Let_def)
  have cut: "node_wf (fst (reading (delete_entries_to j (raft_log n)) (\<lambda>l. (m\<lparr>raft_log := l\<rparr>, Ret ())) m))"
    if "node_wf m" for m j
    using that assms by (intro wf_reading) (auto simp: node_wf_def log_wf_to)
  show ?thesis using assms
    by (simp add: try_log_compaction_def c Let_def dump cut)
qed

lemma wf_on_tick: 
  assumes "dumps_wf app" "node_wf n" shows "node_wf (fst (on_tick conf app env n))"
proof -
  have dump: "node_wf (tick_dump app n)" using assms by (simp add: tick_dump_def wf_load_dump)
  have lead: "node_wf m \<Longrightarrow> node_wf (fst (tick_leader conf env m))" for m
    by (auto simp: tick_leader_def advance_commit_def intro!: wf_and_then wf_reading wf_send_append)
  have app: "node_wf m \<Longrightarrow> node_wf (fst (apply_committed app m))" for m
    by (auto simp: apply_committed_def intro!: wf_reading wf_apply_entries)
  show ?thesis unfolding on_tick_def
    by (intro wf_and_then wf_election dump lead app wf_check_commands wf_compaction)
qed

lemma wf_apply_command: "node_wf n \<Longrightarrow> node_wf (fst (raft_apply_command conf c cb n))"
  by (simp add: raft_apply_command_def)

lemma wf_event:
  assumes "dumps_wf app" "node_wf n" "\<And>env b m. ev = Received env b m \<Longrightarrow> msg_wf m"
  shows "node_wf (fst (raft_step conf app ev n))"
proof (cases ev)
  case (Received env b m)
  then have m: "msg_wf m" by (rule assms(3))
  show ?thesis
    using assms(1,2) m unfolding Received raft_step_def raft_event.case on_message_def
    by (cases m) (simp_all add: wf_request_vote wf_response_vote wf_append wf_serialized receive_apply_command_def
        wf_apply_command receive_refused_def receive_taken_def receive_next_node_idx_def Let_def split: option.split)
qed (use assms in \<open>simp_all add: raft_step_def wf_on_tick wf_apply_command\<close>)

lemma reachable_wf:
  assumes "dumps_wf app" "raft_reachable conf app (start_net others none s ser now timeout) net"
  shows "(\<forall>a. node_wf (raft_at net a)) \<and> (\<forall>(b, d, m)\<in>posted_msgs net. msg_wf m)"
  using assms(2)
proof (induction rule: raft_reachable.induct)
  case net_start
  then show ?case by (simp add: start_net_def init_raft_def node_wf_def log_wf_def contiguous_def)
next
  case (net_next s a ev)
  have "msg_wf m" if "ev = Received env b m" for env b m
    using that net_next by (auto simp: possible_def)
  then have "node_wf (fst (raft_step conf app ev (raft_at s a)))"
    using net_next.IH by (intro wf_event[OF assms(1)]) auto
  then show ?case using net_next.IH by (fastforce simp: net_event_def Let_def node_wf_def)
qed

text \<open>C25: logs have no gaps.  In a cluster of any nodes whose messages may be lost, repeated and
  reordered, whatever happens at the nodes, the log of every node has consecutive indices or is
  empty, and the entries of every message ever sent continue at the index after the one that the
  message names.  The hypothesis is about what is taken for a dump.\<close>

theorem logs_have_no_gaps:
  assumes "\<forall>d s applied before. app_unpack app d = Some (s, applied, before) \<longrightarrow> entry_idx applied = entry_idx before + 1"
    "raft_reachable conf app (start_net others none s ser now timeout) net"
  shows "(\<forall>a k. k < length (raft_log (raft_at net a)) \<longrightarrow>
        entry_idx (raft_log (raft_at net a) ! k) = entry_idx (hd (raft_log (raft_at net a))) + int k) \<and>
    (\<forall>b d t c es i pt k. (b, d, AppendEntries t c es (Some (i, pt))) \<in> posted_msgs net \<longrightarrow> k < length es \<longrightarrow>
        entry_idx (es ! k) = i + 1 + int k)"
proof -
  have "(\<forall>a. log_wf (raft_log (raft_at net a))) \<and> (\<forall>(b, d, m)\<in>posted_msgs net. msg_wf m)"
    using reachable_wf[OF _ assms(2)] assms(1) by (auto simp: dumps_wf_def node_wf_def)
  then have l: "log_wf (raft_log (raft_at net a))" and m: "(b, d, m) \<in> posted_msgs net \<Longrightarrow> msg_wf m" for a b d m
    by auto
  have "entry_idx (raft_log (raft_at net a) ! k) = entry_idx (hd (raft_log (raft_at net a))) + int k"
    if "k < length (raft_log (raft_at net a))" for a k
    using l[of a] that numbered_nth by (auto simp: log_wf_numbered)
  then show ?thesis using m numbered_nth by fastforce
qed

theorem logs_have_no_gaps_witness:
  "entry_idx (raft_log (raft_at (net_event small_conf
     sample_app ''a'' (Submitted ''x'' None)
     (start_net (\<lambda>a. [''b'', ''c'']) ''none'' [] (\<lambda>a. init_serializer None 4 None) 0 (\<lambda>a. 1))) ''a'') ! 0) = 1"
proof -
  let ?start = "start_net (\<lambda>a. [''b'', ''c'']) ''none'' [] (\<lambda>a. init_serializer None 4 None) 0 (\<lambda>a. 1)"
  let ?net = "net_event small_conf sample_app ''a'' (Submitted ''x'' None) ?start"
  have r: "raft_reachable small_conf sample_app ?start ?net"
    by (rule net_next[OF raft_reachable.net_start]) (simp add: possible_def)
  have log: "raft_log (raft_at ?net ''a'') = [Entry ''none'' 1 0]"
    by (simp add: net_event_def raft_step_def raft_apply_command_def start_net_def init_raft_def small_conf_def
        default_conf_def Let_def)
  have "entry_idx (raft_log (raft_at ?net ''a'') ! 0) = entry_idx (hd (raft_log (raft_at ?net ''a''))) + int 0"
    using logs_have_no_gaps[OF _ r] log by (simp add: sample_app_def)
  then show ?thesis by (simp add: log)
qed

end
