(* ===== verification/Connection.thy ===== *)
theory Connection
  imports Prelude Complex_Main "HOL-Library.Word"
begin

section \<open>Framed messages over a TCP stream\<close>

text \<open>
  Class \<open>Connection\<close> of \<open>pysyncobj/connection.py\<close>: every message is packed (\<open>cPickle\<close>
  and \<open>zlib\<close>, an argument here), preceded by its length as a C \<open>int\<close>
  (\<open>struct.pack('i', n)\<close>, 4 bytes, little-endian), and the socket moves bytes in pieces of
  any size.  What the kernel answers to \<open>send\<close> and \<open>recv\<close> is an argument; \<open>wire_out\<close>
  records the bytes it has taken.
\<close>

type_synonym byte = "8 word"

record connection =
  read_buffer :: "byte list"
  write_buffer :: "byte list"
  last_read_time :: rat
  conn_timeout :: rat
  disconnected :: bool
  conn_fileno :: "int option"
  wire_out :: "byte list"

definition init_connection :: "int option \<Rightarrow> rat \<Rightarrow> rat \<Rightarrow> connection" where
  "init_connection sock timeout now =
     \<lparr>read_buffer = [], write_buffer = [], last_read_time = now, conn_timeout = timeout,
      disconnected = (sock = None), conn_fileno = sock, wire_out = []\<rparr>"

definition is_disconnected :: "rat \<Rightarrow> connection \<Rightarrow> bool" where
  "is_disconnected now c \<longleftrightarrow> disconnected c \<or> now - last_read_time c > conn_timeout c"

text \<open>\<open>sock\<close>: the descriptor of the new socket, \<open>refused\<close>: connecting failed at once.\<close>

definition conn_connect :: "rat \<Rightarrow> int \<Rightarrow> bool \<Rightarrow> connection \<Rightarrow> connection \<times> bool" where
  "conn_connect now sock refused c =
     (let c1 = c\<lparr>read_buffer := [], write_buffer := [], last_read_time := now\<rparr> in
      if refused then (c1, False)
      else (c1\<lparr>conn_fileno := Some sock, disconnected := False\<rparr>, True))"

definition conn_close :: "connection \<Rightarrow> connection" where
  "conn_close c = c\<lparr>disconnected := True\<rparr>"

subsection \<open>Sending\<close>

datatype send_result = Sent int | Again | SocketError

definition pack_int :: "int \<Rightarrow> byte list option" where
  "pack_int n =
     (if - (2 ^ 31) \<le> n \<and> n < 2 ^ 31
      then Some [word_of_int n, word_of_int (n div 2 ^ 8), word_of_int (n div 2 ^ 16), word_of_int (n div 2 ^ 24)]
      else None)"

definition unpack_int :: "byte list \<Rightarrow> int" where
  "unpack_int bs =
     (let x = foldr (\<lambda>b acc. uint b + 256 * acc) bs 0 in if x < 2 ^ 31 then x else x - 2 ^ 32)"

definition drop_connection :: "connection \<Rightarrow> connection" where
  "drop_connection c = c\<lparr>write_buffer := [], read_buffer := [], disconnected := True\<rparr>"

definition process_send :: "send_result \<Rightarrow> connection \<Rightarrow> connection \<times> bool" where
  "process_send sock c =
     (if write_buffer c = [] then (c, False)
      else
        (case sock of
           Sent res \<Rightarrow>
             if res < 0 then (drop_connection c, False)
             else if res = 0 then (c, False)
             else (c\<lparr>write_buffer := py_from (write_buffer c) res,
                     wire_out := wire_out c @ py_upto (write_buffer c) res\<rparr>, True)
         | SocketError \<Rightarrow> (drop_connection c, False)
         | Again \<Rightarrow> (c, False)))"

lemma process_send_more:
  "(c1, True) = process_send r c \<Longrightarrow> length (write_buffer c1) < length (write_buffer c)"
  by (auto simp: process_send_def py_from_nonneg split: if_splits send_result.splits)

text \<open>\<open>sock k\<close> is the kernel's answer to the k-th call.\<close>

function try_send_buffer :: "(nat \<Rightarrow> send_result) \<Rightarrow> nat \<Rightarrow> connection \<Rightarrow> connection" where
  "try_send_buffer sock k c =
     (let (c1, again) = process_send (sock k) c in
      if again then try_send_buffer sock (Suc k) c1 else c1)"
  by auto

termination
  by (relation "measure (\<lambda>(sock, k, c). length (write_buffer c))") (auto dest: process_send_more)

declare try_send_buffer.simps [simp del]

definition frame :: "byte list \<Rightarrow> byte list" where
  "frame packed = the (pack_int (int (length packed))) @ packed"

definition conn_send :: "(nat \<Rightarrow> send_result) \<Rightarrow> byte list \<Rightarrow> connection \<Rightarrow> connection outcome" where
  "conn_send sock packed c =
     (case pack_int (int (length packed)) of
        None \<Rightarrow> Raise ValueError  \<comment> \<open>struct.error\<close>
      | Some header \<Rightarrow>
          Ret (try_send_buffer sock 0 (c\<lparr>write_buffer := write_buffer c @ header @ packed\<rparr>)))"

definition get_send_buffer_size :: "connection \<Rightarrow> nat" where
  "get_send_buffer_size c = length (write_buffer c)"

subsection \<open>Receiving\<close>

datatype recv_result = RecvAgain | RecvError | Received "byte list"

definition conn_read :: "rat \<Rightarrow> recv_result \<Rightarrow> bool \<Rightarrow> connection \<Rightarrow> connection \<times> bool" where
  "conn_read now sock so_error c =
     (case sock of
        RecvAgain \<Rightarrow> (c, False)
      | RecvError \<Rightarrow> (c\<lparr>disconnected := True\<rparr>, False)
      | Received incoming \<Rightarrow>
          if so_error then (c\<lparr>disconnected := True\<rparr>, False)
          else if incoming = [] then (c, False)
          else (c\<lparr>last_read_time := now, read_buffer := read_buffer c @ incoming\<rparr>, True))"

text \<open>\<open>unpack\<close>: \<open>cPickle.loads\<close> of the decompressed bytes, which may be Python's \<open>None\<close>.  Of what it
  raises two exceptions are caught; any other leaves \<open>getMessage\<close> and ends the loop that called it.\<close>

definition caught :: "py_error \<Rightarrow> bool" where
  "caught e \<longleftrightarrow> e = ZlibError \<or> e = UnpicklingError"

definition get_message :: "(byte list \<Rightarrow> 'm option outcome) \<Rightarrow> connection \<Rightarrow> connection \<times> 'm option outcome" where
  "get_message unpack c =
     (if length (read_buffer c) < 4 then (c, Ret None)
      else
        let l = unpack_int (py_upto (read_buffer c) 4) in
        if int (length (read_buffer c)) - 4 < l then (c, Ret None)
        else
          (case unpack (py_slice (read_buffer c) 4 (4 + l)) of
             Raise e \<Rightarrow> if caught e then (c\<lparr>disconnected := True\<rparr>, Ret None) else (c, Raise e)
           | Ret m \<Rightarrow> (c\<lparr>read_buffer := py_from (read_buffer c) (4 + l)\<rparr>, Ret m)))"

text \<open>
  The loop of \<open>Node.__processConnection\<close>: every message that is complete.  \<open>fuel\<close>
  bounds the messages taken; each takes at least four bytes off the buffer when the length in
  front of it is not negative.
\<close>

fun drain :: "nat \<Rightarrow> (byte list \<Rightarrow> 'm option outcome) \<Rightarrow> connection
    \<Rightarrow> (connection \<times> 'm list \<times> unit outcome) option" where
  "drain 0 unpack c = None"
| "drain (Suc fuel) unpack c =
     (case get_message unpack c of
        (c1, Raise e) \<Rightarrow> Some (c1, [], Raise e)
      | (c1, Ret None) \<Rightarrow> Some (c1, [], Ret ())
      | (c1, Ret (Some m)) \<Rightarrow> map_option (\<lambda>(c2, ms, r). (c2, m # ms, r)) (drain fuel unpack c1))"

text \<open>One readable event, and a sequence of them, up to one that raises.\<close>

definition on_readable :: "(byte list \<Rightarrow> 'm option outcome) \<Rightarrow> rat \<Rightarrow> byte list \<Rightarrow> connection
    \<Rightarrow> (connection \<times> 'm list \<times> unit outcome) option" where
  "on_readable unpack now incoming c =
     (case conn_read now (Received incoming) False c of
        (c1, True) \<Rightarrow> drain (Suc (length (read_buffer c1))) unpack c1
      | (c1, False) \<Rightarrow> Some (c1, [], Ret ()))"

fun receive_pieces :: "(byte list \<Rightarrow> 'm option outcome) \<Rightarrow> byte list list \<Rightarrow> connection
    \<Rightarrow> (connection \<times> 'm list \<times> unit outcome) option" where
  "receive_pieces unpack [] c = Some (c, [], Ret ())"
| "receive_pieces unpack (p # ps) c =
     (case on_readable unpack 0 p c of
        None \<Rightarrow> None
      | Some (c1, ms, Raise e) \<Rightarrow> Some (c1, ms, Raise e)
      | Some (c1, ms, Ret u) \<Rightarrow> map_option (\<lambda>(c2, ms', r). (c2, ms @ ms', r)) (receive_pieces unpack ps c1))"

subsection \<open>What is sent is what was framed\<close>

lemma length_pack: "pack_int n = Some h \<Longrightarrow> length h = 4"
  by (auto simp: pack_int_def split: if_splits)

lemma unpack_pack:
  assumes "pack_int n = Some h" shows "unpack_int h = n"
proof -
  have n: "- (2 ^ 31) \<le> n" "n < 2 ^ 31"
    and h: "h = [word_of_int n, word_of_int (n div 2 ^ 8), word_of_int (n div 2 ^ 16), word_of_int (n div 2 ^ 24)]"
    using assms by (auto simp: pack_int_def split: if_splits)
  have u: "uint (word_of_int k :: 8 word) = k mod 256" for k by (simp add: uint_word_of_int)
  have step: "k mod (256 * m) = k mod 256 + 256 * ((k div 256) mod m)" if "0 \<le> m" for k m :: int
    using zmod_zmult2_eq[OF that, of k 256] by simp
  have p8: "(2::int) ^ 8 = 256" by simp
  have d: "n div 2 ^ 16 = n div 256 div 256" "n div 2 ^ 24 = n div 256 div 256 div 256"
    by (simp_all add: zdiv_zmult2_eq[symmetric])
  have "n mod 2 ^ 32 = n mod (256 * (256 * (256 * 256)))" by simp
  also have "\<dots> = n mod 256 + 256 * ((n div 256) mod 256 + 256 *
      ((n div 256 div 256) mod 256 + 256 * ((n div 256 div 256 div 256) mod 256)))"
    by (simp only: step[of "256 * (256 * 256)"] step[of "256 * 256"] step[of 256])
  finally have e: "n mod 256 + 256 * ((n div 2 ^ 8) mod 256 + 256 * ((n div 2 ^ 16) mod 256 + 256 * ((n div 2 ^ 24) mod 256)))
      = n mod 2 ^ 32" unfolding d p8 by (rule sym)
  have "foldr (\<lambda>b acc. uint b + 256 * acc) h 0 =
      n mod 256 + 256 * ((n div 2 ^ 8) mod 256 + 256 * ((n div 2 ^ 16) mod 256 + 256 * ((n div 2 ^ 24) mod 256)))"
    unfolding h by (simp only: list.simps foldr.simps comp_apply id_apply u mult_zero_right add_0_right)
  then have x: "foldr (\<lambda>b acc. uint b + 256 * acc) h 0 = n mod 2 ^ 32" using e by (rule trans)
  have "n mod 2 ^ 32 = (if 0 \<le> n then n else n + 2 ^ 32)"
  proof (cases "0 \<le> n")
    case True
    then show ?thesis using n by (simp add: mod_pos_pos_trivial)
  next
    case False
    have "n mod 2 ^ 32 = (n + 2 ^ 32) mod 2 ^ 32" by simp
    also have "\<dots> = n + 2 ^ 32" using n False by (intro mod_pos_pos_trivial) simp_all
    finally show ?thesis using False by simp
  qed
  then show ?thesis using n by (auto simp: unpack_int_def x Let_def)
qed

lemma process_send_bytes:
  assumes "process_send r c = (c1, again)" "\<not> disconnected c1"
  shows "wire_out c1 @ write_buffer c1 = wire_out c @ write_buffer c \<and> \<not> disconnected c \<and>
    read_buffer c1 = read_buffer c"
  using assms
  by (auto simp: process_send_def drop_connection_def py_from_nonneg py_upto_nonneg
      split: if_splits send_result.splits)

lemma try_send_bytes:
  assumes "\<not> disconnected (try_send_buffer sock k c)"
  shows "wire_out (try_send_buffer sock k c) @ write_buffer (try_send_buffer sock k c)
      = wire_out c @ write_buffer c \<and> \<not> disconnected c"
  using assms
proof (induction sock k c rule: try_send_buffer.induct)
  case (1 sock k c)
  obtain c1 again where p: "process_send (sock k) c = (c1, again)" by fastforce
  show ?case
  proof (cases again)
    case True
    then have e: "try_send_buffer sock k c = try_send_buffer sock (Suc k) c1"
      using p by (simp add: try_send_buffer.simps[of sock k c])
    then have "wire_out (try_send_buffer sock (Suc k) c1) @ write_buffer (try_send_buffer sock (Suc k) c1)
        = wire_out c1 @ write_buffer c1 \<and> \<not> disconnected c1"
      using 1(1)[OF refl p[symmetric] True] 1(2) e by simp
    then show ?thesis using process_send_bytes[OF p] e by simp
  next
    case False
    then have e: "try_send_buffer sock k c = c1"
      using p by (simp add: try_send_buffer.simps[of sock k c])
    then show ?thesis using process_send_bytes[OF p] 1(2) by simp
  qed
qed

subsection \<open>What arrives is what was sent\<close>

lemma frame_length:
  assumes "length packed < 2 ^ 31"
  obtains h where "frame packed = h @ packed" "length h = 4" "unpack_int h = int (length packed)"
    "pack_int (int (length packed)) = Some h"
proof -
  have "int (length packed) < 2 ^ 31" using assms by simp
  then obtain h where "pack_int (int (length packed)) = Some h" by (simp add: pack_int_def)
  then show ?thesis using that length_pack unpack_pack by (simp add: frame_def)
qed

text \<open>
  \<open>sendable\<close>: messages whose packed form is unpacked again and whose length fits a C
  \<open>int\<close>.  A buffer that holds a prefix of a stream of frames yields the messages whose
  frames are complete and keeps the rest.
\<close>

definition sendable :: "('m \<Rightarrow> byte list) \<Rightarrow> (byte list \<Rightarrow> 'm option outcome) \<Rightarrow> 'm list \<Rightarrow> bool" where
  "sendable pack unpack ms \<longleftrightarrow> (\<forall>m\<in>set ms. unpack (pack m) = Ret (Some m) \<and> length (pack m) < 2 ^ 31)"

definition stream :: "('m \<Rightarrow> byte list) \<Rightarrow> 'm list \<Rightarrow> byte list" where
  "stream pack ms = concat (map (\<lambda>m. frame (pack m)) ms)"

lemma get_message_complete:
  assumes "unpack p = Ret (Some m)" "length p < 2 ^ 31" "read_buffer c = frame p @ rest"
  shows "get_message unpack c = (c\<lparr>read_buffer := rest\<rparr>, Ret (Some m))"
proof -
  obtain h where f: "frame p = h @ p" "length h = 4" "unpack_int h = int (length p)"
    using frame_length[OF assms(2)] by metis
  have u: "py_upto (read_buffer c) 4 = h" using f by (simp add: assms(3) py_upto_nonneg)
  have l: "nat (4 + int (length p)) = 4 + length p" by simp
  have d: "py_slice (read_buffer c) 4 (4 + int (length p)) = p"
    using f by (simp add: assms(3) py_slice_nonneg l)
  have r: "py_from (read_buffer c) (4 + int (length p)) = rest"
    using f by (simp add: assms(3) py_from_nonneg l)
  have n: "length (read_buffer c) = 4 + length p + length rest" using f by (simp add: assms(3))
  show ?thesis using f(3) assms(1) by (simp add: get_message_def u d r n Let_def)
qed

lemma frame_at_least: "length p < 2 ^ 31 \<Longrightarrow> 4 \<le> length (frame p)"
  by (erule frame_length) simp

lemma get_message_partial:
  assumes "length p < 2 ^ 31" "read_buffer c @ rest = frame p @ tail"
    "length (read_buffer c) < length (frame p)"
  shows "get_message unpack c = (c, Ret None)"
proof (cases "length (read_buffer c) < 4")
  case False
  obtain h where f: "frame p = h @ p" "length h = 4" "unpack_int h = int (length p)"
    using frame_length[OF assms(1)] by metis
  have "take 4 (read_buffer c) = take 4 (read_buffer c @ rest)" using False by simp
  also have "\<dots> = h" using f by (simp add: assms(2))
  finally have "py_upto (read_buffer c) 4 = h" by (simp add: py_upto_nonneg)
  then show ?thesis using f assms(3) by (simp add: get_message_def Let_def)
qed (simp add: get_message_def)

definition settled :: "('m \<Rightarrow> byte list) \<Rightarrow> 'm list \<Rightarrow> connection \<Rightarrow> bool" where
  "settled pack ms c \<longleftrightarrow>
     (case ms of [] \<Rightarrow> True | m # _ \<Rightarrow> length (read_buffer c) < length (frame (pack m)))"

lemma drain_stream:
  assumes "sendable pack unpack ms" "read_buffer c @ rest = stream pack ms"
    "length (read_buffer c) < fuel"
  shows "\<exists>k c'. drain fuel unpack c = Some (c', take k ms, Ret ()) \<and>
    read_buffer c' @ rest = stream pack (drop k ms) \<and> disconnected c' = disconnected c \<and> settled pack (drop k ms) c'"
  using assms
proof (induction fuel arbitrary: c ms)
  case (Suc fuel)
  show ?case
  proof (cases ms)
    case Nil
    then have "get_message unpack c = (c, Ret None)"
      using Suc.prems(2) by (simp add: stream_def get_message_def)
    then show ?thesis using Nil Suc.prems(2)
      by (intro exI[of _ 0] exI[of _ c]) (simp add: settled_def)
  next
    case (Cons m ms')
    have m: "unpack (pack m) = Ret (Some m)" "length (pack m) < 2 ^ 31" and ms': "sendable pack unpack ms'"
      using Suc.prems(1) Cons by (auto simp: sendable_def)
    have st: "read_buffer c @ rest = frame (pack m) @ stream pack ms'"
      using Suc.prems(2) Cons by (simp add: stream_def)
    show ?thesis
    proof (cases "length (read_buffer c) < length (frame (pack m))")
      case True
      then have "get_message unpack c = (c, Ret None)"
        by (rule get_message_partial[OF m(2) st])
      then show ?thesis using Suc.prems(2) True Cons
        by (intro exI[of _ 0] exI[of _ c]) (simp add: settled_def)
    next
      case False
      let ?k = "length (frame (pack m))"
      define b where "b = drop ?k (read_buffer c)"
      have "take ?k (read_buffer c) = take ?k (read_buffer c @ rest)" using False by simp
      then have "take ?k (read_buffer c) = frame (pack m)" by (simp add: st)
      then have b1: "read_buffer c = frame (pack m) @ b"
        unfolding b_def by (metis append_take_drop_id)
      then have b: "read_buffer c = frame (pack m) @ b" "b @ rest = stream pack ms'"
        using st by simp_all
      let ?c = "c\<lparr>read_buffer := b\<rparr>"
      have "length b < fuel"
        using Suc.prems(3) b(1) frame_at_least[OF m(2)] by simp
      then obtain k c' where "drain fuel unpack ?c = Some (c', take k ms', Ret ())"
        "read_buffer c' @ rest = stream pack (drop k ms')" "disconnected c' = disconnected c"
        "settled pack (drop k ms') c'"
        using Suc.IH[OF ms', of ?c] b(2) by auto
      then show ?thesis
        using get_message_complete[where unpack = unpack and p = "pack m" and m = m, OF m b(1)] Cons by (intro exI[of _ "Suc k"] exI[of _ c']) simp
    qed
  qed
qed simp

lemma sendable_drop: "sendable pack unpack ms \<Longrightarrow> sendable pack unpack (drop k ms)"
  by (auto simp: sendable_def dest: in_set_dropD)

lemma on_readable_stream:
  assumes "sendable pack unpack ms" "read_buffer c @ p @ rest = stream pack ms" "p \<noteq> []"
  shows "\<exists>k c'. on_readable unpack now p c = Some (c', take k ms, Ret ()) \<and>
    read_buffer c' @ rest = stream pack (drop k ms) \<and> disconnected c' = disconnected c \<and> settled pack (drop k ms) c'"
proof -
  let ?c = "c\<lparr>last_read_time := now, read_buffer := read_buffer c @ p\<rparr>"
  have "conn_read now (Received p) False c = (?c, True)" using assms(3) by (simp add: conn_read_def)
  moreover have "\<exists>k c'. drain (Suc (length (read_buffer ?c))) unpack ?c = Some (c', take k ms, Ret ()) \<and>
    read_buffer c' @ rest = stream pack (drop k ms) \<and> disconnected c' = disconnected ?c \<and> settled pack (drop k ms) c'"
    using assms(1,2) by (intro drain_stream) simp_all
  ultimately show ?thesis by (simp add: on_readable_def)
qed

lemma receive_pieces_stream:
  assumes "sendable pack unpack ms" "read_buffer c @ concat ps @ rest = stream pack ms" "[] \<notin> set ps"
    "settled pack ms c"
  shows "\<exists>k c'. receive_pieces unpack ps c = Some (c', take k ms, Ret ()) \<and>
    read_buffer c' @ rest = stream pack (drop k ms) \<and> disconnected c' = disconnected c \<and>
    settled pack (drop k ms) c'"
  using assms
proof (induction ps arbitrary: c ms)
  case Nil
  then show ?case by (intro exI[of _ 0] exI[of _ c]) simp
next
  case (Cons p ps)
  obtain k c' where r: "on_readable unpack 0 p c = Some (c', take k ms, Ret ())"
    "read_buffer c' @ concat ps @ rest = stream pack (drop k ms)" "disconnected c' = disconnected c"
    "settled pack (drop k ms) c'"
    using on_readable_stream[of pack unpack ms c p "concat ps @ rest" 0] Cons.prems by auto
  obtain j c'' where "receive_pieces unpack ps c' = Some (c'', take j (drop k ms), Ret ())"
    "read_buffer c'' @ rest = stream pack (drop j (drop k ms))" "disconnected c'' = disconnected c'"
    "settled pack (drop j (drop k ms)) c''"
    using Cons.IH[OF sendable_drop[OF Cons.prems(1)] r(2) _ r(4)] Cons.prems(3) by auto
  moreover have "take k ms @ take j (drop k ms) = take (k + j) ms" by (simp only: take_add)
  moreover have "drop j (drop k ms) = drop (k + j) ms" by (simp add: add.commute)
  ultimately show ?case using r by (intro exI[of _ "k + j"] exI[of _ c'']) simp
qed

text \<open>The sending side: messages handed to \<open>send\<close> one after the other.\<close>

fun send_all :: "(nat \<Rightarrow> nat \<Rightarrow> send_result) \<Rightarrow> byte list list \<Rightarrow> connection \<Rightarrow> connection outcome" where
  "send_all sock [] c = Ret c"
| "send_all sock (p # ps) c =
     (case conn_send (sock (length ps)) p c of
        Ret c1 \<Rightarrow> send_all sock ps c1
      | Raise e \<Rightarrow> Raise e)"

lemma send_all_bytes:
  assumes "send_all sock ps c = Ret c'" "\<not> disconnected c'"
  shows "wire_out c' @ write_buffer c' = wire_out c @ write_buffer c @ concat (map frame ps) \<and> \<not> disconnected c"
  using assms
proof (induction ps arbitrary: c)
  case (Cons p ps)
  obtain h where h: "pack_int (int (length p)) = Some h"
    using Cons.prems(1) by (auto simp: conn_send_def split: option.splits)
  let ?c = "c\<lparr>write_buffer := write_buffer c @ h @ p\<rparr>"
  let ?c1 = "try_send_buffer (sock (length ps)) 0 ?c"
  have "send_all sock ps ?c1 = Ret c'" using Cons.prems(1) h by (simp add: conn_send_def)
  note ih = Cons.IH[OF this Cons.prems(2)]
  then have "wire_out ?c1 @ write_buffer ?c1 = wire_out ?c @ write_buffer ?c \<and> \<not> disconnected ?c"
    by (intro try_send_bytes) simp
  then show ?case using ih h by (simp add: frame_def append_assoc[symmetric] del: append_assoc)
qed simp

subsection \<open>Properties\<close>

text \<open>C12: messages arrive whole, in order and once.  The messages are sent over a connection
  whose kernel takes the bytes in pieces of any size, or none for a while, and the bytes it has
  taken reach the other side cut into pieces of any size.  As long as neither side has lost the
  connection, the receiver has decoded a prefix of the messages and holds exactly the bytes of
  the next ones that have arrived, less than one message; once everything sent has arrived, it
  has decoded all of them.\<close>

theorem connection_roundtrip:
  assumes "\<forall>m\<in>set ms. unpack (pack m) = Ret (Some m) \<and> length (pack m) < 2 ^ 31"
    "send_all sock (map pack ms) (init_connection (Some fd) t now) = Ret c" "\<not> disconnected c"
    "concat ps @ rest = wire_out c" "[] \<notin> set ps"
  shows "\<exists>k r. receive_pieces unpack ps (init_connection (Some fd') t' now') = Some (r, take k ms, Ret ()) \<and>
    read_buffer r @ rest @ write_buffer c = stream pack (drop k ms) \<and> \<not> disconnected r \<and>
    (rest = [] \<and> write_buffer c = [] \<longrightarrow> take k ms = ms \<and> read_buffer r = [])"
proof -
  have s: "sendable pack unpack ms" using assms(1) by (simp add: sendable_def)
  have "wire_out c @ write_buffer c = stream pack ms"
    using send_all_bytes[OF assms(2,3)] by (simp add: init_connection_def stream_def comp_def)
  then have st: "concat ps @ rest @ write_buffer c = stream pack ms"
    unfolding append_assoc[symmetric] assms(4) .
  let ?r = "init_connection (Some fd') t' now'"
  have e: "read_buffer ?r = []" "\<not> disconnected ?r" by (simp_all add: init_connection_def)
  have st': "read_buffer ?r @ concat ps @ (rest @ write_buffer c) = stream pack ms"
    using st e by simp
  have "settled pack ms ?r"
  proof (cases ms)
    case (Cons m ms')
    then have "4 \<le> length (frame (pack m))" using s by (intro frame_at_least) (simp add: sendable_def)
    moreover have "frame (pack m) \<noteq> []" using calculation by auto
    ultimately show ?thesis using Cons e by (simp add: settled_def)
  qed (simp add: settled_def)
  from receive_pieces_stream[OF s st' assms(5) this] obtain k r where
    r: "receive_pieces unpack ps ?r = Some (r, take k ms, Ret ())"
    "read_buffer r @ rest @ write_buffer c = stream pack (drop k ms)" "disconnected r = disconnected ?r"
    "settled pack (drop k ms) r" by blast
  have "drop k ms = []" if "rest = []" "write_buffer c = []"
  proof (cases "drop k ms")
    case (Cons m ms')
    then have "length (read_buffer r) = length (frame (pack m)) + length (stream pack ms')"
      using r(2) that by (simp add: stream_def)
    then show ?thesis using r(4) Cons by (simp add: settled_def)
  qed simp
  moreover have "read_buffer r = []" if "drop k ms = []"
    using r(2) that by (simp add: stream_def)
  ultimately show ?thesis using r(1-3) e by (intro exI[of _ k] exI[of _ r]) simp
qed

theorem connection_roundtrip_witness:
  "\<exists>r. receive_pieces (\<lambda>b. Ret (Some b)) [[2, 0, 0], [0, 7, 8, 1, 0], [0, 0, 9]] (init_connection (Some 4) 10 0)
     = Some (r, [[7, 8], [9 :: byte]], Ret ())"
proof -
  let ?sock = "\<lambda>(i::nat) k. if k = 0 then Sent 3 else Sent 100"
  let ?ms = "[[7, 8], [9 :: byte]]"
  let ?c = "(init_connection (Some 5) 10 0)\<lparr>wire_out := [2, 0, 0, 0, 7, 8, 1, 0, 0, 0, 9]\<rparr>"
  let ?ps = "[[2, 0, 0], [0, 7, 8, 1, 0], [0, 0, 9 :: byte]]"
  have 1: "send_all ?sock (map (\<lambda>m. m) ?ms) (init_connection (Some 5) 10 0) = Ret ?c"
    by code_simp
  have 2: "\<not> disconnected ?c" "concat ?ps @ [] = wire_out ?c" "write_buffer ?c = []"
    by (simp_all add: init_connection_def)
  have 3: "\<forall>m\<in>set ?ms. Ret (Some ((\<lambda>m. m) m)) = Ret (Some m) \<and> length ((\<lambda>m. m) m) < 2 ^ 31" by simp
  from connection_roundtrip[of ?ms "\<lambda>b. Ret (Some b)" "\<lambda>m. m", OF 3 1 2(1) 2(2), of 4 10 0] obtain k r where
    "receive_pieces (\<lambda>b. Ret (Some b)) ?ps (init_connection (Some 4) 10 0) = Some (r, take k ?ms, Ret ())" "take k ?ms = ?ms"
    using 2(3) by auto
  then show ?thesis by auto
qed

subsection \<open>Any bytes at all\<close>

text \<open>Each message that is taken shortens the buffer, also if its length is negative.\<close>

lemma get_message_shorter:
  assumes "unpack [] = Raise ZlibError" "get_message unpack c = (c1, Ret (Some m))"
  shows "length (read_buffer c1) < length (read_buffer c)"
proof -
  let ?b = "read_buffer c" and ?l = "unpack_int (py_upto (read_buffer c) 4)"
  have len: "4 \<le> length ?b" using assms(2) by (auto simp: get_message_def split: if_splits)
  have u: "unpack (py_slice ?b 4 (4 + ?l)) = Ret (Some m)" and c1: "read_buffer c1 = py_from ?b (4 + ?l)"
    using assms(2) by (auto simp: get_message_def Let_def split: if_splits outcome.splits)
  have "py_slice ?b 4 (4 + ?l) \<noteq> []" using u assms(1) by auto
  then have "py_clip (length ?b) 4 < py_clip (length ?b) (4 + ?l)" by (auto simp: py_slice_def)
  then have "0 < py_clip (length ?b) (4 + ?l)" by simp
  then show ?thesis using len by (simp add: c1 py_from_def)
qed

lemma drain_total:
  assumes "unpack [] = Raise ZlibError" "length (read_buffer c) < fuel"
  shows "\<exists>c1 ms r. drain fuel unpack c = Some (c1, ms, r) \<and> length ms \<le> length (read_buffer c)"
  using assms(2)
proof (induction fuel arbitrary: c)
  case (Suc fuel)
  obtain c1 r where g: "get_message unpack c = (c1, r)" by fastforce
  show ?case
  proof (cases "\<exists>m. r = Ret (Some m)")
    case False
    then show ?thesis using g by (auto split: outcome.splits option.splits)
  next
    case True
    then obtain m where m: "r = Ret (Some m)" by blast
    then have lt: "length (read_buffer c1) < length (read_buffer c)"
      using get_message_shorter[where unpack = unpack, OF assms(1)] g by simp
    then obtain c2 ms r' where "drain fuel unpack c1 = Some (c2, ms, r')" "length ms \<le> length (read_buffer c1)"
      using Suc.IH[of c1] Suc.prems by auto
    then show ?thesis using g m lt by simp
  qed
qed simp

text \<open>C22: taking messages off the buffer ends.  Whatever bytes the other side has sent, wrong
  lengths included, the loop of \<open>__processConnection\<close> stops after no more messages than
  there are bytes, normally or with the exception of the object that could not be unpacked.  The
  hypothesis says that no bytes are not a compressed object.\<close>

theorem drain_ends:
  assumes "unpack [] = Raise ZlibError" "length (read_buffer c) < fuel"
  shows "\<exists>c1 ms r. drain fuel unpack c = Some (c1, ms, r) \<and> length ms \<le> length (read_buffer c)"
  using drain_total[where unpack = unpack, OF assms] .

theorem drain_ends_witness:
  "\<exists>c1 ms r. drain 9 (\<lambda>b. if b = [] then Raise ZlibError else Ret (Some b))
     ((init_connection (Some 3) 10 0)\<lparr>read_buffer := [246, 255, 255, 255, 1, 2, 3, 4]\<rparr>) = Some (c1, ms, r)"
  using drain_ends[of "\<lambda>b. if b = [] then Raise ZlibError else Ret (Some b)"
      "(init_connection (Some 3) 10 0)\<lparr>read_buffer := [246, 255, 255, 255, 1, 2, 3, 4]\<rparr>" 9]
  by auto

subsection \<open>The descriptor stays\<close>

lemma fileno_process_send: "conn_fileno (fst (process_send r c)) = conn_fileno c"
  by (auto simp: process_send_def drop_connection_def split: send_result.split)

lemma fileno_try_send [simp]: "conn_fileno (try_send_buffer sock k c) = conn_fileno c"
proof (induction sock k c rule: try_send_buffer.induct)
  case (1 sock k c)
  obtain c1 again where p: "process_send (sock k) c = (c1, again)" by fastforce
  then show ?case
    using 1[OF refl p[symmetric]] fileno_process_send[of "sock k" c]
    by (cases again) (simp_all add: try_send_buffer.simps[of sock k c])
qed

lemma fileno_send: "conn_send sock packed c = Ret c1 \<Longrightarrow> conn_fileno c1 = conn_fileno c"
  by (auto simp: conn_send_def split: option.splits)

lemma fileno_read [simp]: "conn_fileno (fst (conn_read now r e c)) = conn_fileno c"
  by (auto simp: conn_read_def split: recv_result.split)

lemma fileno_message [simp]: "conn_fileno (fst (get_message unpack c)) = conn_fileno c"
  by (auto simp: get_message_def Let_def split: outcome.split)

lemma fileno_drain: "drain fuel unpack c = Some (c1, ms, r) \<Longrightarrow> conn_fileno c1 = conn_fileno c"
proof (induction fuel arbitrary: c ms)
  case (Suc fuel)
  obtain c' r' where g: "get_message unpack c = (c', r')" by fastforce
  then have "conn_fileno c' = conn_fileno c" using fileno_message[of unpack c] by simp
  then show ?case using Suc g by (auto split: outcome.splits option.splits)
qed simp

end
