(* ===== verification/Poller.thy ===== *)
theory Poller
  imports Main
begin

section \<open>Waiting for events on descriptors\<close>

text \<open>
  The classes of \<open>pysyncobj/poller.py\<close>.  \<open>PollPoller\<close> keeps a \<open>select.poll()\<close>
  object, here the map \<open>registered\<close> from descriptors to what is watched, and
  \<open>SelectPoller\<close> keeps three sets.  What the kernel reports is an argument, one descriptor
  at a time, because a callback may change what is subscribed.  The locale is the
  contract that a user of \<open>Poller\<close> relies on; \<open>PollPoller\<close> keeps it.
\<close>

unbundle bit_operations_syntax

subsection \<open>Event masks\<close>

definition READ :: int where "READ = 1"
definition WRITE :: int where "WRITE = 2"
definition ERROR :: int where "ERROR = 4"

text \<open>The constants of the module \<open>select\<close> on Linux.\<close>

definition POLLIN :: int where "POLLIN = 1"
definition POLLOUT :: int where "POLLOUT = 4"
definition POLLERR :: int where "POLLERR = 8"
definition POLLHUP :: int where "POLLHUP = 16"

lemmas masks = READ_def WRITE_def ERROR_def POLLIN_def POLLOUT_def POLLERR_def POLLHUP_def

definition has :: "int \<Rightarrow> int \<Rightarrow> bool" where
  "has x bits \<longleftrightarrow> x AND bits \<noteq> 0"

text \<open>A mask made of the three event types.\<close>

definition mask_of :: "bool \<Rightarrow> bool \<Rightarrow> bool \<Rightarrow> int" where
  "mask_of r w e = (if r then READ else 0) OR (if w then WRITE else 0) OR (if e then ERROR else 0)"

lemma has_mask [simp]:
  "has (mask_of r w e) READ \<longleftrightarrow> r" "has (mask_of r w e) WRITE \<longleftrightarrow> w" "has (mask_of r w e) ERROR \<longleftrightarrow> e"
  by (simp_all add: has_def mask_of_def masks)

subsection \<open>\<open>PollPoller\<close>\<close>

record 'cb poll_poller =
  registered :: "int \<Rightarrow> int option"
  poll_callbacks :: "int \<Rightarrow> 'cb option"

definition init_poll :: "'cb poll_poller" where
  "init_poll = \<lparr>registered = Map.empty, poll_callbacks = Map.empty\<rparr>"

definition to_poll :: "int \<Rightarrow> int" where
  "to_poll em =
     (if has em READ then POLLIN else 0) OR (if has em WRITE then POLLOUT else 0) OR
     (if has em ERROR then POLLERR else 0)"

definition from_poll :: "int \<Rightarrow> int" where
  "from_poll event =
     mask_of (has event POLLIN) (has event POLLOUT) (has event POLLERR \<or> has event POLLHUP)"

definition poll_subscribe :: "int \<Rightarrow> 'cb \<Rightarrow> int \<Rightarrow> 'cb poll_poller \<Rightarrow> 'cb poll_poller" where
  "poll_subscribe d cb em p =
     p\<lparr>poll_callbacks := (poll_callbacks p)(d \<mapsto> cb), registered := (registered p)(d \<mapsto> to_poll em)\<rparr>"

definition poll_unsubscribe :: "int \<Rightarrow> 'cb poll_poller \<Rightarrow> 'cb poll_poller" where
  "poll_unsubscribe d p = p\<lparr>registered := (registered p)(d := None)\<rparr>"

text \<open>What \<open>poll\<close> calls for one reported pair; \<open>None\<close> is a \<open>KeyError\<close>.\<close>

definition poll_call :: "int \<Rightarrow> int \<Rightarrow> 'cb poll_poller \<Rightarrow> ('cb \<times> int \<times> int) option" where
  "poll_call d event p = map_option (\<lambda>cb. (cb, d, from_poll event)) (poll_callbacks p d)"

text \<open>Which events of a descriptor are waited for.\<close>

definition poll_interest :: "'cb poll_poller \<Rightarrow> int \<Rightarrow> int" where
  "poll_interest p d = (case registered p d of None \<Rightarrow> 0 | Some x \<Rightarrow> from_poll x)"

lemma from_to_poll [simp]: "from_poll (to_poll (mask_of r w e)) = mask_of r w e"
  by (cases r; cases w; cases e) (simp_all add: from_poll_def to_poll_def has_def mask_of_def masks)

subsection \<open>\<open>SelectPoller\<close>\<close>

record 'cb select_poller =
  descrs_read :: "int set"
  descrs_write :: "int set"
  descrs_error :: "int set"
  select_callbacks :: "int \<Rightarrow> 'cb option"

definition init_select :: "'cb select_poller" where
  "init_select = \<lparr>descrs_read = {}, descrs_write = {}, descrs_error = {}, select_callbacks = Map.empty\<rparr>"

definition select_subscribe :: "int \<Rightarrow> 'cb \<Rightarrow> int \<Rightarrow> 'cb select_poller \<Rightarrow> 'cb select_poller" where
  "select_subscribe d cb em p =
     p\<lparr>descrs_read := (if has em READ then insert d (descrs_read p) else descrs_read p),
       descrs_write := (if has em WRITE then insert d (descrs_write p) else descrs_write p),
       descrs_error := (if has em ERROR then insert d (descrs_error p) else descrs_error p),
       select_callbacks := (select_callbacks p)(d \<mapsto> cb)\<rparr>"

definition select_unsubscribe :: "int \<Rightarrow> 'cb select_poller \<Rightarrow> 'cb select_poller" where
  "select_unsubscribe d p =
     p\<lparr>descrs_read := descrs_read p - {d}, descrs_write := descrs_write p - {d},
       descrs_error := descrs_error p - {d}, select_callbacks := (select_callbacks p)(d := None)\<rparr>"

text \<open>What \<open>poll\<close> calls for a descriptor of the three lists that \<open>select\<close> returns.\<close>

definition select_call :: "int list \<Rightarrow> int list \<Rightarrow> int list \<Rightarrow> int \<Rightarrow> 'cb select_poller
    \<Rightarrow> ('cb \<times> int \<times> int) option" where
  "select_call rlist wlist xlist d p =
     map_option (\<lambda>cb. (cb, d, mask_of (d \<in> set rlist) (d \<in> set wlist) (d \<in> set xlist))) (select_callbacks p d)"

definition select_interest :: "'cb select_poller \<Rightarrow> int \<Rightarrow> int" where
  "select_interest p d = mask_of (d \<in> descrs_read p) (d \<in> descrs_write p) (d \<in> descrs_error p)"

text \<open>\<open>createPoller\<close>: \<open>has_poll\<close> says whether the module \<open>select\<close> has \<open>poll\<close>.\<close>

datatype 'cb any_poller = Poll "'cb poll_poller" | Select "'cb select_poller"

definition create_poller :: "bool \<Rightarrow> 'cb any_poller" where
  "create_poller has_poll = (if has_poll then Poll init_poll else Select init_select)"

subsection \<open>The contract\<close>

locale event_poller =
  fixes subscribe :: "int \<Rightarrow> 'cb \<Rightarrow> int \<Rightarrow> 'p \<Rightarrow> 'p"
    and unsubscribe :: "int \<Rightarrow> 'p \<Rightarrow> 'p"
    and interest :: "'p \<Rightarrow> int \<Rightarrow> int"
    and callback :: "'p \<Rightarrow> int \<Rightarrow> 'cb option"
  assumes interest_subscribe: "interest (subscribe d cb (mask_of r w e) p) d = mask_of r w e"
    and callback_subscribe: "callback (subscribe d cb em p) d = Some cb"
    and interest_unsubscribe: "interest (unsubscribe d p) d = 0"
    and others_subscribe: "d' \<noteq> d \<Longrightarrow> interest (subscribe d cb em p) d' = interest p d'"
      "d' \<noteq> d \<Longrightarrow> callback (subscribe d cb em p) d' = callback p d'"
    and others_unsubscribe: "d' \<noteq> d \<Longrightarrow> interest (unsubscribe d p) d' = interest p d'"
      "d' \<noteq> d \<Longrightarrow> callback (unsubscribe d p) d' = callback p d'"
begin

text \<open>What a client relies on: the last call on a descriptor says what is watched.\<close>

lemma last_subscription:
  "interest (subscribe d cb (mask_of r w e) (subscribe d cb' em p)) d = mask_of r w e"
  by (rule interest_subscribe)

lemma still_watched:
  "callback p d = Some cb \<Longrightarrow> interest p d \<noteq> 0 \<Longrightarrow> d \<noteq> d' \<Longrightarrow>
   callback (subscribe d' cb' em p) d = Some cb \<and> interest (subscribe d' cb' em p) d \<noteq> 0 \<and>
   callback (unsubscribe d' p) d = Some cb \<and> interest (unsubscribe d' p) d \<noteq> 0"
  by (simp add: others_subscribe others_unsubscribe)

end

interpretation pp: event_poller poll_subscribe poll_unsubscribe poll_interest poll_callbacks
  by unfold_locales (simp_all add: poll_subscribe_def poll_unsubscribe_def poll_interest_def)

text \<open>The poller that is used when the system has no \<open>poll\<close> does not keep the contract:
  subscribing a descriptor again never narrows what is waited for, so once a connection has
  waited for room to write, each wait returns at once, as long as the connection lives.\<close>

lemma select_never_narrows:
  "select_interest (select_subscribe d cb' (mask_of r' w' e') (select_subscribe d cb (mask_of r w e) p)) d =
     mask_of (r \<or> r' \<or> d \<in> descrs_read p) (w \<or> w' \<or> d \<in> descrs_write p) (e \<or> e' \<or> d \<in> descrs_error p)"
  by (auto simp: select_interest_def select_subscribe_def)

end
