(* ===== verification/Peer_Links.thy ===== *)
theory Peer_Links
  imports Connection Poller
begin

section \<open>Connections to the peers\<close>

text \<open>
  Class \<open>Node\<close> of \<open>pysyncobj/node.py\<close>, and the methods of \<open>SyncObj\<close> that accept
  connections and find out who is calling.  The objects that travel are the address a node
  introduces itself with and messages; how they are packed is an argument, as are the results
  of the socket calls (\<open>link_env\<close>).  The poller is the one with \<open>poll\<close>.  What a handler
  passes on to \<open>_onMessageReceived\<close> is returned.
\<close>

datatype 'm obj = Address string | Message 'm

datatype node_status = DISCONNECTED | CONNECTING | CONNECTED

datatype link_callback = OnPeer string | OnUnknown | OnListen

record peer_node =
  node_address :: string
  should_connect :: bool
  node_conn :: connection
  last_connect_attempt :: rat
  status :: node_status

type_synonym poller = "link_callback poll_poller"

record link_env =
  le_now :: rat
  le_sock :: int                        \<comment> \<open>descriptor of a new socket\<close>
  le_refused :: bool                    \<comment> \<open>connect or accept fails\<close>
  le_again :: bool                      \<comment> \<open>accept fails with EAGAIN\<close>
  le_so_error :: bool                   \<comment> \<open>SO_ERROR is set\<close>
  le_recv :: recv_result
  le_send :: "nat \<Rightarrow> send_result"

text \<open>Python compares strings by their characters' codes.\<close>

fun string_less :: "string \<Rightarrow> string \<Rightarrow> bool" where
  "string_less s [] \<longleftrightarrow> False"
| "string_less [] (c # cs) \<longleftrightarrow> True"
| "string_less (b # bs) (c # cs) \<longleftrightarrow>
     (of_char b :: nat) < of_char c \<or> b = c \<and> string_less bs cs"

definition init_node :: "string \<Rightarrow> string \<Rightarrow> rat \<Rightarrow> rat \<Rightarrow> peer_node" where
  "init_node self a timeout now =
     \<lparr>node_address = a, should_connect = string_less a self,
      node_conn = init_connection None timeout now, last_connect_attempt = 0, status = DISCONNECTED\<rparr>"

definition all_events :: int where
  "all_events = mask_of True True True"

definition on_partner_connected :: "connection \<Rightarrow> peer_node \<times> poller \<Rightarrow> peer_node \<times> poller" where
  "on_partner_connected c np =
     (case np of (n, p) \<Rightarrow>
        (n\<lparr>node_conn := c, status := CONNECTED\<rparr>,
         poll_subscribe (the (conn_fileno c)) (OnPeer (node_address n)) all_events p))"

definition hang_up :: "peer_node \<times> poller \<Rightarrow> peer_node \<times> poller" where
  "hang_up np =
     (case np of (n, p) \<Rightarrow>
        (n\<lparr>node_conn := conn_close (node_conn n), status := DISCONNECTED\<rparr>,
         poll_unsubscribe (the (conn_fileno (node_conn n))) p))"

text \<open>\<open>send\<close> of a packed object; the boolean is its result.\<close>

definition node_send :: "link_env \<Rightarrow> byte list \<Rightarrow> peer_node \<times> poller \<Rightarrow> (peer_node \<times> poller) \<times> bool outcome" where
  "node_send env packed np =
     (case np of (n, p) \<Rightarrow>
        if status n \<noteq> CONNECTED then (np, Ret False)
        else
          (case conn_send (le_send env) packed (node_conn n) of
             Raise e \<Rightarrow> (np, Raise e)
           | Ret c \<Rightarrow>
               let n1 = n\<lparr>node_conn := c\<rparr> in
               if is_disconnected (le_now env) c then (hang_up (n1, p), Ret False)
               else ((n1, p), Ret True)))"

definition connect_if_required :: "rat \<Rightarrow> link_env \<Rightarrow> peer_node \<times> poller \<Rightarrow> peer_node \<times> poller" where
  "connect_if_required retry_time env np =
     (case np of (n, p) \<Rightarrow>
        if \<not> should_connect n \<or> status n \<noteq> DISCONNECTED \<or>
           le_now env - last_connect_attempt n < retry_time then np
        else
          let n1 = n\<lparr>status := CONNECTING, last_connect_attempt := le_now env\<rparr>;
              (c, ok) = conn_connect (le_now env) (le_sock env) (le_refused env) (node_conn n1);
              n2 = n1\<lparr>node_conn := c\<rparr> in
          if \<not> ok then (n2\<lparr>status := DISCONNECTED\<rparr>, p)
          else (n2, poll_subscribe (the (conn_fileno c)) (OnPeer (node_address n)) all_events p))"

text \<open>
  \<open>__processConnection\<close>.  \<open>introduce\<close> sends the own address (packed) on a connection that has
  just been made.
\<close>

definition introduce :: "link_env \<Rightarrow> byte list \<Rightarrow> peer_node \<Rightarrow> peer_node outcome" where
  "introduce env own n =
     (if status n = CONNECTING then
        (case conn_send (le_send env) own (node_conn n) of
           Raise e \<Rightarrow> Raise e
         | Ret c \<Rightarrow> Ret (n\<lparr>node_conn := c, status := CONNECTED\<rparr>))
      else Ret n)"

definition flush :: "link_env \<Rightarrow> int \<Rightarrow> peer_node \<times> poller \<Rightarrow> peer_node \<times> poller" where
  "flush env d np =
     (case np of (n, p) \<Rightarrow>
        let c = try_send_buffer (le_send env) 0 (node_conn n); n1 = n\<lparr>node_conn := c\<rparr>;
            event = mask_of True (get_send_buffer_size c > 0) True in
        if is_disconnected (le_now env) c then (n1, p)
        else (n1, poll_subscribe d (OnPeer (node_address n)) event p))"

definition receive_all :: "(byte list \<Rightarrow> 'm obj option outcome) \<Rightarrow> link_env \<Rightarrow> peer_node
    \<Rightarrow> peer_node \<times> 'm obj list \<times> unit outcome" where
  "receive_all unpack env n =
     (case conn_read (le_now env) (le_recv env) (le_so_error env) (node_conn n) of
        (c, False) \<Rightarrow> (n\<lparr>node_conn := c\<rparr>, [], Ret ())
      | (c, True) \<Rightarrow>
          (case the (drain (Suc (length (read_buffer c))) unpack c) of
             (c1, ms, r) \<Rightarrow> (n\<lparr>node_conn := c1\<rparr>, ms, r)))"

text \<open>The messages that were handed over, and how it ended.\<close>

definition process_connection :: "(byte list \<Rightarrow> 'm obj option outcome) \<Rightarrow> link_env \<Rightarrow> byte list \<Rightarrow> int \<Rightarrow> int
    \<Rightarrow> peer_node \<times> poller \<Rightarrow> (peer_node \<times> poller) \<times> 'm obj list \<times> unit outcome" where
  "process_connection unpack env own d ev np =
     (case np of (n, p) \<Rightarrow>
        if conn_fileno (node_conn n) \<noteq> Some d then ((n, poll_unsubscribe d p), [], Ret ())
        else
          let active = has ev READ \<or> has ev WRITE;
              isError = has ev ERROR \<or> active \<and> le_so_error env in
          (case (if active \<and> \<not> le_so_error env then introduce env own n else Ret n) of
             Raise e \<Rightarrow> (np, [], Raise e)
           | Ret n1 \<Rightarrow>
               if isError \<or> is_disconnected (le_now env) (node_conn n1) then (hang_up (n1, p), [], Ret ())
               else
                 let (n2, p2) = (if has ev WRITE then flush env d (n1, p) else (n1, p)) in
                 if has ev READ then
                   (case receive_all unpack env n2 of (n3, ms, r) \<Rightarrow> ((n3, p2), ms, r))
                 else ((n2, p2), [], Ret ())))"

subsection \<open>Who is calling\<close>

record links =
  peer_nodes :: "peer_node list"
  unknown :: "int \<Rightarrow> connection option"
  link_poller :: poller
  link_initialised :: bool

definition set_node :: "peer_node \<Rightarrow> peer_node list \<Rightarrow> peer_node list" where
  "set_node n ns = map (\<lambda>m. if node_address m = node_address n then n else m) ns"

text \<open>\<open>__initInTickThread\<close>: the listening socket is bound, and there is a \<open>Node\<close> per
  peer.\<close>

definition init_links :: "string \<Rightarrow> string list \<Rightarrow> rat \<Rightarrow> rat \<Rightarrow> int \<Rightarrow> links" where
  "init_links self addrs timeout now listener =
     \<lparr>peer_nodes = map (\<lambda>a. init_node self a timeout now) addrs, unknown = Map.empty,
      link_poller = poll_subscribe listener OnListen (mask_of True False True) init_poll,
      link_initialised = True\<rparr>"

definition on_new_connection :: "rat \<Rightarrow> link_env \<Rightarrow> int \<Rightarrow> links \<Rightarrow> links" where
  "on_new_connection timeout env ev l =
     (let l1 =
        (if has ev READ then
           (if le_refused env then (if le_again env then l else l\<lparr>link_initialised := False\<rparr>)
            else l\<lparr>unknown := (unknown l)(le_sock env \<mapsto> init_connection (Some (le_sock env)) timeout (le_now env)),
                   link_poller := poll_subscribe (le_sock env) OnUnknown (mask_of True False True) (link_poller l)\<rparr>)
         else l) in
      if has ev ERROR then l1\<lparr>link_initialised := False\<rparr> else l1)"

definition process_unknown :: "(byte list \<Rightarrow> 'm obj option outcome) \<Rightarrow> link_env \<Rightarrow> int \<Rightarrow> int \<Rightarrow> links
    \<Rightarrow> links \<times> unit outcome" where
  "process_unknown unpack env d ev l =
     (case unknown l d of
        None \<Rightarrow> (l, Raise KeyError)
      | Some c \<Rightarrow>
          (case (if has ev READ
                 then get_message unpack (fst (conn_read (le_now env) (le_recv env) (le_so_error env) c))
                 else (c, Ret None)) of
             (c1, Raise e) \<Rightarrow> (l\<lparr>unknown := (unknown l)(d \<mapsto> c1)\<rparr>, Raise e)
           | (c1, Ret who) \<Rightarrow>
               let partner = (case who of
                                Some (Address a) \<Rightarrow> find (\<lambda>n. node_address n = a) (peer_nodes l)
                              | _ \<Rightarrow> None);
                   remove = who \<noteq> None \<and> partner = None \<or> has ev ERROR;
                   l1 = l\<lparr>unknown := (unknown l)(d \<mapsto> c1)\<rparr> in
               if remove \<or> is_disconnected (le_now env) c1 then
                 (l1\<lparr>unknown := (unknown l1)(d := None), link_poller := poll_unsubscribe d (link_poller l1)\<rparr>, Ret ())
               else
                 (case partner of
                    None \<Rightarrow> (l1, Ret ())
                  | Some n \<Rightarrow>
                      let l2 = l1\<lparr>unknown := (unknown l1)(d := None)\<rparr> in
                      if conn_fileno c1 = None then (l2, Raise AssertionError)
                      else
                        let (n1, p1) = on_partner_connected c1 (n, link_poller l2) in
                        (l2\<lparr>peer_nodes := set_node n1 (peer_nodes l2), link_poller := p1\<rparr>, Ret ()))))"

text \<open>What the poller calls for a pair that the kernel reports: the messages handed to
  \<open>_onMessageReceived\<close>, with the sender.\<close>

definition on_poll :: "(byte list \<Rightarrow> 'm obj option outcome) \<Rightarrow> rat \<Rightarrow> link_env \<Rightarrow> byte list \<Rightarrow> int \<Rightarrow> int \<Rightarrow> links
    \<Rightarrow> links \<times> (string \<times> 'm obj) list \<times> unit outcome" where
  "on_poll unpack timeout env own d event l =
     (case poll_call d event (link_poller l) of
        None \<Rightarrow> (l, [], Raise KeyError)
      | Some (OnListen, _, ev) \<Rightarrow> (on_new_connection timeout env ev l, [], Ret ())
      | Some (OnUnknown, _, ev) \<Rightarrow>
          (case process_unknown unpack env d ev l of (l1, r) \<Rightarrow> (l1, [], r))
      | Some (OnPeer a, _, ev) \<Rightarrow>
          (case find (\<lambda>n. node_address n = a) (peer_nodes l) of
             None \<Rightarrow> (l, [], Ret ())
           | Some n \<Rightarrow>
               (case process_connection unpack env own d ev (n, link_poller l) of
                  ((n1, p1), ms, r) \<Rightarrow>
                    (l\<lparr>peer_nodes := set_node n1 (peer_nodes l), link_poller := p1\<rparr>, map (Pair a) ms, r))))"

subsection \<open>A connection in use is watched\<close>

text \<open>\<open>watched\<close>: the descriptor is registered, and its events go to \<open>cb\<close>.\<close>

definition watched :: "poller \<Rightarrow> int \<Rightarrow> link_callback \<Rightarrow> bool" where
  "watched p d cb \<longleftrightarrow> poll_callbacks p d = Some cb \<and> registered p d \<noteq> None"

definition peer_ok :: "poller \<Rightarrow> peer_node \<Rightarrow> bool" where
  "peer_ok p n \<longleftrightarrow>
     (status n \<noteq> DISCONNECTED \<longrightarrow> (\<exists>d. conn_fileno (node_conn n) = Some d \<and> watched p d (OnPeer (node_address n))))"

definition links_ok :: "links \<Rightarrow> bool" where
  "links_ok l \<longleftrightarrow> distinct (map node_address (peer_nodes l)) \<and>
     (\<forall>n\<in>set (peer_nodes l). peer_ok (link_poller l) n) \<and>
     (\<forall>d c. unknown l d = Some c \<longrightarrow> conn_fileno c = Some d \<and> watched (link_poller l) d OnUnknown)"

text \<open>What a handler does to the poller outside the descriptor \<open>d\<close>: nothing.\<close>

definition touches :: "int \<Rightarrow> poller \<Rightarrow> poller \<Rightarrow> bool" where
  "touches d p q \<longleftrightarrow> (\<forall>x. x \<noteq> d \<longrightarrow> registered q x = registered p x \<and> poll_callbacks q x = poll_callbacks p x)"

lemma touches_refl [simp]: "touches d p p"
  by (simp add: touches_def)

lemma touches_trans: "touches d p q \<Longrightarrow> touches d q r \<Longrightarrow> touches d p r"
  by (simp add: touches_def)

lemma touches_poll [simp]: "touches d p (poll_subscribe d cb em p)" "touches d p (poll_unsubscribe d p)"
  by (simp_all add: touches_def poll_subscribe_def poll_unsubscribe_def)

lemma watched_subscribe [simp]: "watched (poll_subscribe d cb em p) d cb"
  by (simp add: watched_def poll_subscribe_def)

lemma watched_other: "touches d p q \<Longrightarrow> watched p x cb \<Longrightarrow> x \<noteq> d \<Longrightarrow> watched q x cb"
  by (simp add: touches_def watched_def)

lemma peer_ok_other:
  assumes "touches d p q" "peer_ok p m" "status m \<noteq> DISCONNECTED \<longrightarrow> conn_fileno (node_conn m) \<noteq> Some d"
  shows "peer_ok q m"
  using assms watched_other by (fastforce simp: peer_ok_def)

text \<open>The handlers of one peer, on its own descriptor.\<close>

definition peer_step :: "int \<Rightarrow> peer_node \<times> poller \<Rightarrow> peer_node \<times> poller \<Rightarrow> bool" where
  "peer_step d np mq \<longleftrightarrow> node_address (fst mq) = node_address (fst np) \<and> touches d (snd np) (snd mq) \<and>
     peer_ok (snd mq) (fst mq)"

lemma hang_up_step: "conn_fileno (node_conn n) = Some d \<Longrightarrow> peer_step d (n, p) (hang_up (n, p))"
  by (simp add: peer_step_def hang_up_def peer_ok_def)

lemma introduce_ok:
  "introduce env own n = Ret m \<Longrightarrow> node_address m = node_address n \<and> conn_fileno (node_conn m) = conn_fileno (node_conn n) \<and>
     (status m = DISCONNECTED \<longleftrightarrow> status n = DISCONNECTED)"
  by (auto simp: introduce_def split: if_splits outcome.splits dest: fileno_send)

lemma receive_all_fields:
  "status (fst (receive_all unpack env n)) = status n" "node_address (fst (receive_all unpack env n)) = node_address n"
  by (simp_all add: receive_all_def split: prod.split bool.split)

lemma receive_all_fileno:
  assumes "unpack [] = Raise ZlibError"
  shows "conn_fileno (node_conn (fst (receive_all unpack env n))) = conn_fileno (node_conn n)"
proof -
  obtain c ok where r: "conn_read (le_now env) (le_recv env) (le_so_error env) (node_conn n) = (c, ok)" by fastforce
  have c: "conn_fileno c = conn_fileno (node_conn n)"
    using fileno_read[of "le_now env" "le_recv env" "le_so_error env" "node_conn n"] r by simp
  obtain c1 ms r1 where d: "drain (Suc (length (read_buffer c))) unpack c = Some (c1, ms, r1)"
    using drain_total[where unpack = unpack, OF assms, of c "Suc (length (read_buffer c))"] by auto
  show ?thesis
    using c fileno_drain[OF d] by (cases ok) (simp_all add: receive_all_def r d del: drain.simps)
qed

lemma process_connection_eq:
  assumes "conn_fileno (node_conn n) = Some d"
    "(if (has ev READ \<or> has ev WRITE) \<and> \<not> le_so_error env then introduce env own n else Ret n) = Ret n1"
  shows "process_connection unpack env own d ev (n, p) =
    (if (has ev ERROR \<or> (has ev READ \<or> has ev WRITE) \<and> le_so_error env) \<or> is_disconnected (le_now env) (node_conn n1)
     then (hang_up (n1, p), [], Ret ())
     else
       case (if has ev WRITE then flush env d (n1, p) else (n1, p)) of (n2, p2) \<Rightarrow>
         if has ev READ then (case receive_all unpack env n2 of (n3, ms, r) \<Rightarrow> ((n3, p2), ms, r))
         else ((n2, p2), [], Ret ()))"
  unfolding process_connection_def prod.case Let_def assms by simp

lemma process_connection_step:
  assumes "unpack [] = Raise ZlibError" "peer_ok p n" "poll_callbacks p d = Some (OnPeer (node_address n))" "registered p d \<noteq> None"
  shows "peer_step d (n, p) (fst (process_connection unpack env own d ev (n, p)))"
proof (cases "conn_fileno (node_conn n) = Some d")
  case False
  then have "peer_ok (poll_unsubscribe d p) n" by (intro peer_ok_other[OF touches_poll(2) assms(2)]) simp
  then show ?thesis using False by (simp add: process_connection_def peer_step_def)
next
  case True
  let ?active = "has ev READ \<or> has ev WRITE"
  let ?intro = "if ?active \<and> \<not> le_so_error env then introduce env own n else Ret n"
  have w: "watched p d (OnPeer (node_address n))" using assms(3,4) by (simp add: watched_def)
  show ?thesis
  proof (cases ?intro)
    case (Raise e)
    have "fst (process_connection unpack env own d ev (n, p)) = (n, p)"
      unfolding process_connection_def prod.case Let_def Raise using True by simp
    then show ?thesis using assms(2) by (simp add: peer_step_def)
  next
    case (Ret n1)
    have n1: "node_address n1 = node_address n" "conn_fileno (node_conn n1) = Some d"
      using Ret introduce_ok[of env own n n1] True by (auto split: if_splits)
    let ?bad = "has ev ERROR \<or> ?active \<and> le_so_error env \<or> is_disconnected (le_now env) (node_conn n1)"
    show ?thesis
    proof (cases ?bad)
      case True
      then have "fst (process_connection unpack env own d ev (n, p)) = hang_up (n1, p)"
        unfolding process_connection_eq[OF \<open>conn_fileno (node_conn n) = Some d\<close> Ret] by (simp add: disj_assoc)
      then show ?thesis using hang_up_step[OF n1(2)] n1(1) by (simp add: peer_step_def)
    next
      case False
      then have cond: "((has ev ERROR \<or> ?active \<and> le_so_error env) \<or> is_disconnected (le_now env) (node_conn n1)) = False"
        by blast
      obtain n2 p2 where f: "(if has ev WRITE then flush env d (n1, p) else (n1, p)) = (n2, p2)" by fastforce
      have n2: "node_address n2 = node_address n" "conn_fileno (node_conn n2) = Some d" "touches d p p2"
        "watched p2 d (OnPeer (node_address n))"
        using f n1 w by (auto simp: flush_def Let_def split: if_splits)
      have "fst (process_connection unpack env own d ev (n, p)) =
          (if has ev READ then fst (receive_all unpack env n2) else n2, p2)"
        unfolding process_connection_eq[OF \<open>conn_fileno (node_conn n) = Some d\<close> Ret] f cond if_False
        by (simp split: prod.split)
      then show ?thesis
        using n2 receive_all_fields[of unpack env n2] receive_all_fileno[where unpack = unpack, OF assms(1), of env n2]
        by (simp add: peer_step_def peer_ok_def)
    qed
  qed
qed

text \<open>The other ways a peer's connection changes.\<close>

lemma connect_step:
  assumes "peer_ok p n"
  shows "peer_step (le_sock env) (n, p) (connect_if_required t env (n, p))"
  using assms
  by (auto simp: connect_if_required_def conn_connect_def peer_step_def peer_ok_def Let_def)

lemma send_step:
  assumes "peer_ok p n" "conn_fileno (node_conn n) = Some d"
  shows "peer_step d (n, p) (fst (node_send env packed (n, p)))"
proof (cases "status n = CONNECTED")
  case True
  show ?thesis
  proof (cases "conn_send (le_send env) packed (node_conn n)")
    case (Ret c)
    then have c: "conn_fileno c = Some d" using fileno_send assms(2) by metis
    have "peer_ok p (n\<lparr>node_conn := c\<rparr>)" using assms c by (simp add: peer_ok_def)
    then show ?thesis using True Ret hang_up_step[of "n\<lparr>node_conn := c\<rparr>" d p] c
      by (simp add: node_send_def Let_def peer_step_def)
  next
    case (Raise e)
    then show ?thesis using True assms(1) by (simp add: node_send_def peer_step_def)
  qed
qed (simp add: node_send_def peer_step_def assms(1))

subsection \<open>The whole\<close>

text \<open>
  The events of a node's links: the kernel reports an event, the node dials a peer, or sends
  it something.
\<close>

datatype link_event =
    Reported int int
  | Dial string
  | Send_To string "byte list"

definition on_peer :: "string \<Rightarrow> (peer_node \<times> poller \<Rightarrow> peer_node \<times> poller) \<Rightarrow> links \<Rightarrow> links" where
  "on_peer a f l =
     (case find (\<lambda>n. node_address n = a) (peer_nodes l) of
        None \<Rightarrow> l
      | Some n \<Rightarrow>
          (case f (n, link_poller l) of (n1, p1) \<Rightarrow>
             l\<lparr>peer_nodes := set_node n1 (peer_nodes l), link_poller := p1\<rparr>))"

definition link_step :: "(byte list \<Rightarrow> 'm obj option outcome) \<Rightarrow> rat \<Rightarrow> rat \<Rightarrow> byte list \<Rightarrow> link_env \<Rightarrow> link_event \<Rightarrow> links \<Rightarrow> links" where
  "link_step unpack timeout retry_time own env ev l =
     (case ev of
        Reported d event \<Rightarrow> fst (on_poll unpack timeout env own d event l)
      | Dial a \<Rightarrow> on_peer a (connect_if_required retry_time env) l
      | Send_To a packed \<Rightarrow> on_peer a (\<lambda>np. fst (node_send env packed np)) l)"

text \<open>
  What the kernel guarantees: it reports only descriptors that are registered, and the
  descriptor of a new socket is none that is in use.
\<close>

definition kernel_ok :: "link_env \<Rightarrow> link_event \<Rightarrow> links \<Rightarrow> bool" where
  "kernel_ok env ev l \<longleftrightarrow>
     (case ev of Reported d event \<Rightarrow> registered (link_poller l) d \<noteq> None | _ \<Rightarrow> True) \<and>
     unknown l (le_sock env) = None \<and>
     (\<forall>n\<in>set (peer_nodes l). status n \<noteq> DISCONNECTED \<longrightarrow> conn_fileno (node_conn n) \<noteq> Some (le_sock env))"

lemma set_node_addresses:
  "map node_address (set_node n ns) = map node_address ns"
  by (induction ns) (auto simp: set_node_def)

lemma in_set_node: "m \<in> set (set_node n ns) \<Longrightarrow> m = n \<or> m \<in> set ns \<and> node_address m \<noteq> node_address n"
  by (auto simp: set_node_def)

text \<open>A step at one peer, on a descriptor that no other connection uses.\<close>

lemma links_ok_peer:
  assumes ok: "links_ok l" and n: "n \<in> set (peer_nodes l)"
    and st: "peer_step d (n, link_poller l) (n1, p1)"
    and others: "\<forall>m\<in>set (peer_nodes l). node_address m \<noteq> node_address n \<longrightarrow> status m \<noteq> DISCONNECTED \<longrightarrow>
      conn_fileno (node_conn m) \<noteq> Some d" "unknown l d = None"
  shows "links_ok (l\<lparr>peer_nodes := set_node n1 (peer_nodes l), link_poller := p1\<rparr>)"
proof -
  have a: "node_address n1 = node_address n" "touches d (link_poller l) p1" "peer_ok p1 n1"
    using st by (simp_all add: peer_step_def)
  have "peer_ok p1 m" if "m \<in> set (set_node n1 (peer_nodes l))" for m
  proof (cases "m = n1")
    case False
    then have m: "m \<in> set (peer_nodes l)" "node_address m \<noteq> node_address n" using in_set_node[OF that] a(1) by auto
    have "peer_ok (link_poller l) m" using ok m(1) by (simp add: links_ok_def)
    from peer_ok_other[OF a(2) this] show ?thesis using others(1) m by blast
  qed (use a(3) in simp)
  moreover have "conn_fileno c = Some x \<and> watched p1 x OnUnknown" if "unknown l x = Some c" for x c
  proof -
    have "conn_fileno c = Some x" "watched (link_poller l) x OnUnknown" "x \<noteq> d"
      using ok that others(2) by (auto simp: links_ok_def)
    then show ?thesis using watched_other[OF a(2)] by blast
  qed
  ultimately show ?thesis using ok by (simp add: links_ok_def set_node_addresses)
qed

lemma find_peer:
  "find (\<lambda>n. node_address n = a) ns = Some n \<Longrightarrow> n \<in> set ns \<and> node_address n = a"
  by (auto simp: find_Some_iff)

text \<open>No other connection uses the descriptor of a callback.\<close>

lemma other_descriptor:
  assumes "links_ok l" "poll_callbacks (link_poller l) d = Some (OnPeer a)"
  shows "\<forall>m\<in>set (peer_nodes l). node_address m \<noteq> a \<longrightarrow> status m \<noteq> DISCONNECTED \<longrightarrow> conn_fileno (node_conn m) \<noteq> Some d"
    "unknown l d = None"
proof -
  show "\<forall>m\<in>set (peer_nodes l). node_address m \<noteq> a \<longrightarrow> status m \<noteq> DISCONNECTED \<longrightarrow> conn_fileno (node_conn m) \<noteq> Some d"
    using assms by (fastforce simp: links_ok_def peer_ok_def watched_def)
  show "unknown l d = None"
    using assms by (cases "unknown l d") (auto simp: links_ok_def watched_def)
qed

lemma links_ok_on_peer:
  assumes ok: "links_ok l"
    and st: "\<And>n. n \<in> set (peer_nodes l) \<Longrightarrow> node_address n = a \<Longrightarrow> \<exists>d. peer_step d (n, link_poller l) (f (n, link_poller l)) \<and>
      unknown l d = None \<and> (\<forall>m\<in>set (peer_nodes l). node_address m \<noteq> a \<longrightarrow> status m \<noteq> DISCONNECTED \<longrightarrow>
        conn_fileno (node_conn m) \<noteq> Some d)"
  shows "links_ok (on_peer a f l)"
proof (cases "find (\<lambda>n. node_address n = a) (peer_nodes l)")
  case (Some n)
  note n = find_peer[OF Some]
  obtain n1 p1 where f: "f (n, link_poller l) = (n1, p1)" by fastforce
  obtain d where d: "peer_step d (n, link_poller l) (n1, p1)" "unknown l d = None"
    "\<forall>m\<in>set (peer_nodes l). node_address m \<noteq> node_address n \<longrightarrow> status m \<noteq> DISCONNECTED \<longrightarrow> conn_fileno (node_conn m) \<noteq> Some d"
    using st[of n] n f by auto
  show ?thesis using links_ok_peer[OF ok conjunct1[OF n] d(1,3,2)] by (simp add: on_peer_def Some f)
qed (simp add: on_peer_def ok)

lemma links_ok_unknown_dropped:
  assumes "links_ok l" "unknown l d \<noteq> None"
  shows "links_ok (l\<lparr>unknown := (unknown l)(d := None), link_poller := poll_unsubscribe d (link_poller l)\<rparr>)"
proof -
  have n: "peer_ok (poll_unsubscribe d (link_poller l)) m" if "m \<in> set (peer_nodes l)" for m
    using assms that by (intro peer_ok_other[OF touches_poll(2)]) (auto simp: links_ok_def peer_ok_def watched_def)
  have "watched (poll_unsubscribe d (link_poller l)) x OnUnknown" if "unknown l x = Some c" "x \<noteq> d" for x c
    using assms(1) that by (intro watched_other[OF touches_poll(2)]) (auto simp: links_ok_def)
  then show ?thesis using assms n by (auto simp: links_ok_def)
qed

lemma links_ok_process_unknown:
  assumes ok: "links_ok l" and reg: "registered (link_poller l) d \<noteq> None"
  shows "links_ok (fst (process_unknown unpack env d ev l))"
proof (cases "unknown l d")
  case None
  then show ?thesis using ok by (simp add: process_unknown_def)
next
  case (Some c)
  have c: "conn_fileno c = Some d" "watched (link_poller l) d OnUnknown" using ok Some by (auto simp: links_ok_def)
  define r where "r = (if has ev READ
    then get_message unpack (fst (conn_read (le_now env) (le_recv env) (le_so_error env) c)) else (c, Ret None))"
  obtain c1 r2 where r2: "r = (c1, r2)" by fastforce
  have c1: "conn_fileno c1 = Some d"
    using r2 c(1) by (auto simp: r_def split: if_splits) (metis fileno_message fileno_read fst_conv)
  have ok1: "links_ok (l\<lparr>unknown := (unknown l)(d \<mapsto> c1)\<rparr>)" using ok c1 c(2) by (auto simp: links_ok_def)
  show ?thesis
  proof (cases r2)
    case (Raise e)
    have "process_unknown unpack env d ev l = (l\<lparr>unknown := (unknown l)(d \<mapsto> c1)\<rparr>, Raise e)"
      unfolding process_unknown_def Some option.case r_def[symmetric] r2 prod.case Raise outcome.case ..
    then show ?thesis using ok1 by simp
  next
    case (Ret who)
    define partner where "partner = (case who of Some (Address a) \<Rightarrow> find (\<lambda>n. node_address n = a) (peer_nodes l) | _ \<Rightarrow> None)"
    let ?l1 = "l\<lparr>unknown := (unknown l)(d \<mapsto> c1)\<rparr>"
    have e: "process_unknown unpack env d ev l =
        (if (who \<noteq> None \<and> partner = None \<or> has ev ERROR) \<or> is_disconnected (le_now env) c1
         then (?l1\<lparr>unknown := (unknown ?l1)(d := None), link_poller := poll_unsubscribe d (link_poller ?l1)\<rparr>, Ret ())
         else case partner of None \<Rightarrow> (?l1, Ret ())
           | Some n \<Rightarrow> let l2 = ?l1\<lparr>unknown := (unknown ?l1)(d := None)\<rparr>;
               (n1, p1) = on_partner_connected c1 (n, link_poller l2)
               in (l2\<lparr>peer_nodes := set_node n1 (peer_nodes l2), link_poller := p1\<rparr>, Ret ()))"
      unfolding process_unknown_def Some option.case r_def[symmetric] r2 Ret outcome.case Let_def prod.case partner_def[symmetric]
      using c1 by (auto split: option.split)
    show ?thesis
    proof (cases "(who \<noteq> None \<and> partner = None \<or> has ev ERROR) \<or> is_disconnected (le_now env) c1")
      case True
      then show ?thesis using links_ok_unknown_dropped[OF ok1, of d] by (simp add: e)
    next
      case False
      show ?thesis
      proof (cases partner)
        case None
        then show ?thesis using False ok1 by (simp add: e)
      next
        case (Some n)
        have n: "n \<in> set (peer_nodes l)"
          using Some find_peer by (auto simp: partner_def split: option.splits obj.splits)
        let ?l2 = "l\<lparr>unknown := (unknown l)(d := None)\<rparr>"
        let ?n1 = "n\<lparr>node_conn := c1, status := CONNECTED\<rparr>"
        let ?p1 = "poll_subscribe d (OnPeer (node_address n)) all_events (link_poller l)"
        have ok2: "links_ok ?l2" using ok by (auto simp: links_ok_def)
        have "peer_step d (n, link_poller ?l2) (?n1, ?p1)" using c1 by (simp add: peer_step_def peer_ok_def)
        moreover have "\<forall>m\<in>set (peer_nodes ?l2). node_address m \<noteq> node_address n \<longrightarrow> status m \<noteq> DISCONNECTED \<longrightarrow>
            conn_fileno (node_conn m) \<noteq> Some d"
          using ok c(2) by (auto simp: links_ok_def peer_ok_def watched_def)
        ultimately have "links_ok (?l2\<lparr>peer_nodes := set_node ?n1 (peer_nodes ?l2), link_poller := ?p1\<rparr>)"
          using n by (intro links_ok_peer[OF ok2, of n d]) simp_all
        moreover have "fst (process_unknown unpack env d ev l) =
            ?l2\<lparr>peer_nodes := set_node ?n1 (peer_nodes ?l2), link_poller := ?p1\<rparr>"
          using False Some c1 by (simp add: e on_partner_connected_def Let_def)
        ultimately show ?thesis by simp
      qed
    qed
  qed
qed

lemma links_ok_new_connection:
  assumes "links_ok l" "unknown l (le_sock env) = None"
    "\<forall>n\<in>set (peer_nodes l). status n \<noteq> DISCONNECTED \<longrightarrow> conn_fileno (node_conn n) \<noteq> Some (le_sock env)"
  shows "links_ok (on_new_connection timeout env ev l)"
proof -
  let ?c = "init_connection (Some (le_sock env)) timeout (le_now env)"
  let ?l = "l\<lparr>unknown := (unknown l)(le_sock env \<mapsto> ?c),
    link_poller := poll_subscribe (le_sock env) OnUnknown (mask_of True False True) (link_poller l)\<rparr>"
  have "peer_ok (link_poller ?l) m" if "m \<in> set (peer_nodes l)" for m
    using assms(1,3) that by (simp, intro peer_ok_other[OF touches_poll(1)]) (auto simp: links_ok_def)
  moreover have "conn_fileno c = Some x \<and> watched (link_poller ?l) x OnUnknown" if "unknown ?l x = Some c" for x c
  proof (cases "x = le_sock env")
    case True
    then show ?thesis using that by (auto simp: init_connection_def)
  next
    case False
    then have "unknown l x = Some c" using that by simp
    then show ?thesis using assms(1) watched_other[OF touches_poll(1) _ False] by (auto simp: links_ok_def)
  qed
  ultimately have ok: "links_ok ?l" using assms(1) by (simp add: links_ok_def)
  have upd: "links_ok (m\<lparr>link_initialised := b\<rparr>) = links_ok m" for m b by (simp add: links_ok_def)
  show ?thesis using ok assms(1) upd by (auto simp: on_new_connection_def Let_def)
qed

lemma link_step_ok:
  assumes "unpack [] = Raise ZlibError" "links_ok l" "kernel_ok env ev l"
  shows "links_ok (link_step unpack timeout retry_time own env ev l)"
proof (cases ev)
  case (Dial a)
  show ?thesis unfolding link_step_def Dial link_event.case
  proof (rule links_ok_on_peer[OF assms(2)])
    fix n assume "n \<in> set (peer_nodes l)" "node_address n = a"
    moreover have "peer_ok (link_poller l) n" if "n \<in> set (peer_nodes l)" using assms(2) that by (simp add: links_ok_def)
    ultimately show "\<exists>d. peer_step d (n, link_poller l) (connect_if_required retry_time env (n, link_poller l)) \<and>
      unknown l d = None \<and> (\<forall>m\<in>set (peer_nodes l). node_address m \<noteq> a \<longrightarrow> status m \<noteq> DISCONNECTED \<longrightarrow>
        conn_fileno (node_conn m) \<noteq> Some d)"
      using assms(3) connect_step[of "link_poller l" n env retry_time]
      by (intro exI[of _ "le_sock env"]) (simp add: kernel_ok_def)
  qed
next
  case (Send_To a packed)
  show ?thesis unfolding link_step_def Send_To link_event.case
  proof (rule links_ok_on_peer[OF assms(2)])
    fix n assume n: "n \<in> set (peer_nodes l)" "node_address n = a"
    then have p: "peer_ok (link_poller l) n" using assms(2) by (simp add: links_ok_def)
    show "\<exists>d. peer_step d (n, link_poller l) (fst (node_send env packed (n, link_poller l))) \<and>
      unknown l d = None \<and> (\<forall>m\<in>set (peer_nodes l). node_address m \<noteq> a \<longrightarrow> status m \<noteq> DISCONNECTED \<longrightarrow>
        conn_fileno (node_conn m) \<noteq> Some d)"
    proof (cases "status n = DISCONNECTED")
      case True
      then show ?thesis using p assms(3)
        by (intro exI[of _ "le_sock env"]) (simp add: node_send_def peer_step_def kernel_ok_def)
    next
      case False
      then obtain d where d: "conn_fileno (node_conn n) = Some d" "watched (link_poller l) d (OnPeer a)"
        using p n(2) by (auto simp: peer_ok_def)
      then show ?thesis using send_step[OF p d(1)] other_descriptor[OF assms(2), of d a]
        by (intro exI[of _ d]) (simp add: watched_def)
    qed
  qed
next
  case (Reported d event)
  then have reg: "registered (link_poller l) d \<noteq> None" using assms(3) by (simp add: kernel_ok_def)
  show ?thesis
  proof (cases "poll_callbacks (link_poller l) d")
    case None
    then show ?thesis using Reported assms(2) by (simp add: link_step_def on_poll_def poll_call_def)
  next
    case (Some cb)
    show ?thesis
    proof (cases cb)
      case OnListen
      then show ?thesis using Reported Some assms(3) links_ok_new_connection[OF assms(2)]
        by (simp add: link_step_def on_poll_def poll_call_def kernel_ok_def)
    next
      case OnUnknown
      have "fst (on_poll unpack timeout env own d event l) = fst (process_unknown unpack env d (from_poll event) l)"
        using Some OnUnknown by (simp add: on_poll_def poll_call_def split: prod.split outcome.split)
      then show ?thesis using Reported links_ok_process_unknown[OF assms(2) reg]
        by (simp add: link_step_def)
    next
      case (OnPeer a)
      let ?f = "\<lambda>np. fst (process_connection unpack env own d (from_poll event) np)"
      have "fst (on_poll unpack timeout env own d event l) = on_peer a ?f l"
        using Some OnPeer by (simp add: on_poll_def poll_call_def on_peer_def split: option.split prod.split)
      moreover have "links_ok (on_peer a ?f l)"
      proof (rule links_ok_on_peer[OF assms(2)])
        fix n assume n: "n \<in> set (peer_nodes l)" "node_address n = a"
        then have p: "peer_ok (link_poller l) n" using assms(2) by (simp add: links_ok_def)
        have cb: "poll_callbacks (link_poller l) d = Some (OnPeer (node_address n))" using Some OnPeer n(2) by simp
        show "\<exists>d. peer_step d (n, link_poller l) (?f (n, link_poller l)) \<and>
          unknown l d = None \<and> (\<forall>m\<in>set (peer_nodes l). node_address m \<noteq> a \<longrightarrow> status m \<noteq> DISCONNECTED \<longrightarrow>
            conn_fileno (node_conn m) \<noteq> Some d)"
          using process_connection_step[where unpack = unpack, OF assms(1) p cb reg] other_descriptor[OF assms(2), of d a] Some OnPeer
          by (intro exI[of _ d]) simp
      qed
      ultimately show ?thesis using Reported by (simp add: link_step_def)
    qed
  qed
qed

inductive links_reachable :: "(byte list \<Rightarrow> 'm obj option outcome) \<Rightarrow> rat \<Rightarrow> rat \<Rightarrow> byte list \<Rightarrow> links \<Rightarrow> links \<Rightarrow> bool"
  for unpack timeout retry_time own l0 where
  links_start: "links_reachable unpack timeout retry_time own l0 l0"
| links_step: "links_reachable unpack timeout retry_time own l0 l \<Longrightarrow> kernel_ok env ev l \<Longrightarrow>
    links_reachable unpack timeout retry_time own l0 (link_step unpack timeout retry_time own env ev l)"

lemma init_links_ok: "distinct addrs \<Longrightarrow> links_ok (init_links self addrs timeout now listener)"
  by (simp add: links_ok_def init_links_def init_node_def peer_ok_def comp_def)

text \<open>C23: a connection in use is watched, by its owner.  From the start of a node, whatever the
  kernel reports and the node dials or sends, each connection to a peer that is being made or is
  open is registered with the poller and its events go to this peer, and each connection whose
  caller is not yet known is registered for the handshake; no two share a descriptor.\<close>

theorem connections_watched:
  assumes "distinct addrs" "unpack [] = Raise ZlibError"
    "links_reachable unpack timeout retry_time own (init_links self addrs timeout now listener) l"
  shows "(\<forall>n\<in>set (peer_nodes l). status n \<noteq> DISCONNECTED \<longrightarrow>
      (\<exists>d. conn_fileno (node_conn n) = Some d \<and> registered (link_poller l) d \<noteq> None \<and>
           poll_callbacks (link_poller l) d = Some (OnPeer (node_address n)))) \<and>
    (\<forall>d c. unknown l d = Some c \<longrightarrow> conn_fileno c = Some d \<and> registered (link_poller l) d \<noteq> None \<and>
           poll_callbacks (link_poller l) d = Some OnUnknown)"
proof -
  have "links_ok l"
    using assms(3) init_links_ok[OF assms(1)] link_step_ok[where unpack = unpack, OF assms(2)]
    by (induction rule: links_reachable.induct) auto
  then show ?thesis by (auto simp: links_ok_def peer_ok_def watched_def)
qed

subsection \<open>The handshake\<close>

lemma less_irrefl: "\<not> string_less s s"
  by (induction s) simp_all

lemma string_less_cases: "string_less s t \<or> s = t \<or> string_less t s"
proof (induction s t rule: string_less.induct)
  case (3 b bs c cs)
  then show ?case by (metis linorder_neqE_nat of_char_eq_iff string_less.simps(3))
next
  case (1 s)
  then show ?case by (cases s) simp_all
qed simp

lemma string_less_asym: "string_less s t \<Longrightarrow> \<not> string_less t s"
  by (induction s t rule: string_less.induct) auto

text \<open>Of two nodes exactly one dials the other.\<close>

lemma one_side_dials:
  assumes "a \<noteq> b"
  shows "should_connect (init_node a b t now) \<noteq> should_connect (init_node b a t now)"
  using assms string_less_cases[of a b] string_less_asym[of a b] string_less_asym[of b a]
  by (auto simp: init_node_def)

text \<open>The caller: a connection that has just been made, over which the kernel takes the whole
  introduction at once.\<close>

lemma send_at_once:
  assumes "write_buffer c = []" "length own < 2 ^ 31" "sock 0 = Sent (int (length (frame own)))"
  shows "conn_send sock own c = Ret (c\<lparr>wire_out := wire_out c @ frame own\<rparr>)"
proof -
  obtain h where h: "frame own = h @ own" "length h = 4" "pack_int (int (length own)) = Some h"
    using frame_length[OF assms(2)] by metis
  let ?b = "h @ own"
  have "process_send (sock 0) (c\<lparr>write_buffer := ?b\<rparr>) = (c\<lparr>write_buffer := [], wire_out := wire_out c @ ?b\<rparr>, True)"
    using h assms(3) by (auto simp: process_send_def py_from_nonneg py_upto_nonneg)
  moreover have "process_send (sock 1) (c\<lparr>write_buffer := [], wire_out := wire_out c @ ?b\<rparr>) =
      (c\<lparr>write_buffer := [], wire_out := wire_out c @ ?b\<rparr>, False)"
    by (simp add: process_send_def)
  ultimately have "try_send_buffer sock 0 (c\<lparr>write_buffer := ?b\<rparr>) = c\<lparr>write_buffer := [], wire_out := wire_out c @ ?b\<rparr>"
    by (simp add: try_send_buffer.simps[of sock 0] try_send_buffer.simps[of sock "Suc 0"])
  then show ?thesis using assms(1) h by (simp add: conn_send_def)
qed

lemma caller_introduces:
  assumes "status n = CONNECTING" "conn_fileno (node_conn n) = Some d" "write_buffer (node_conn n) = []"
    "\<not> is_disconnected (le_now env) (node_conn n)" "\<not> le_so_error env" "length own < 2 ^ 31"
    "le_send env 0 = Sent (int (length (frame own)))"
  shows "fst (process_connection unpack env own d WRITE (n, p)) =
    (n\<lparr>node_conn := (node_conn n)\<lparr>wire_out := wire_out (node_conn n) @ frame own\<rparr>, status := CONNECTED\<rparr>,
     poll_subscribe d (OnPeer (node_address n)) (mask_of True False True) p)"
proof -
  let ?n = "n\<lparr>node_conn := (node_conn n)\<lparr>wire_out := wire_out (node_conn n) @ frame own\<rparr>, status := CONNECTED\<rparr>"
  have w: "has WRITE WRITE" "\<not> has WRITE READ" "\<not> has WRITE ERROR" by (simp_all add: has_def masks)
  have i: "introduce env own n = Ret ?n"
    using assms send_at_once[where sock = "le_send env", OF assms(3,6,7)] by (simp add: introduce_def)
  have e: "(if (has WRITE READ \<or> has WRITE WRITE) \<and> \<not> le_so_error env then introduce env own n else Ret n) = Ret ?n"
    using assms w i by simp
  have d: "\<not> is_disconnected (le_now env) (node_conn ?n)" using assms(4) by (simp add: is_disconnected_def)
  have t: "try_send_buffer sock k c = c" if "write_buffer c = []" for sock k c
    using that by (simp add: try_send_buffer.simps[of sock k c] process_send_def)
  show ?thesis
    unfolding process_connection_eq[OF assms(2) e]
    using w d assms(3,5) t[of "node_conn ?n"] by (simp add: flush_def Let_def get_send_buffer_size_def)
qed

lemma callee_identifies:
  assumes "unknown l d = Some c" "conn_fileno c = Some d" "read_buffer c = []" "\<not> disconnected c" "0 \<le> conn_timeout c"
    "unpack p = Ret (Some (Address a))" "length p < 2 ^ 31" "le_recv env = Received (frame p)" "\<not> le_so_error env"
    "find (\<lambda>n. node_address n = a) (peer_nodes l) = Some n"
  shows "fst (process_unknown unpack env d READ l) =
    l\<lparr>unknown := (unknown l)(d := None),
      peer_nodes := set_node (n\<lparr>node_conn := c\<lparr>last_read_time := le_now env\<rparr>, status := CONNECTED\<rparr>) (peer_nodes l),
      link_poller := poll_subscribe d (OnPeer a) all_events (link_poller l)\<rparr>"
proof -
  have r: "has READ READ" "\<not> has READ ERROR" by (simp_all add: has_def masks)
  have ne: "frame p \<noteq> []" using frame_at_least[OF assms(7)] by auto
  let ?c = "c\<lparr>last_read_time := le_now env, read_buffer := frame p\<rparr>"
  have read: "fst (conn_read (le_now env) (le_recv env) (le_so_error env) c) = ?c"
    using assms(3,8,9) ne by (simp add: conn_read_def)
  have e: "c\<lparr>last_read_time := le_now env, read_buffer := []\<rparr> = c\<lparr>last_read_time := le_now env\<rparr>"
    using assms(3) by (cases c) simp
  have g: "get_message unpack ?c = (c\<lparr>last_read_time := le_now env\<rparr>, Ret (Some (Address a)))"
    using get_message_complete[where unpack = unpack, OF assms(6,7), of ?c "[]"] e by simp
  have a: "node_address n = a" using find_peer[OF assms(10)] by simp
  show ?thesis
    unfolding process_unknown_def assms(1) option.case read
    using r g assms(2,4,5,10) a by (simp add: is_disconnected_def on_partner_connected_def)
qed

text \<open>C24: the handshake.  When the connection that a node has dialled is made and the kernel
  takes the introduction, the node counts the peer as connected; when these bytes reach the
  listening node over a connection it has accepted, it finds out who calls, takes the connection
  for the one to this peer and hands its events to it.  The first six hypotheses are about the
  dialling side, the others about the listening one.\<close>

theorem handshake:
  assumes "status n = CONNECTING" "conn_fileno (node_conn n) = Some d" "write_buffer (node_conn n) = []"
    "wire_out (node_conn n) = []" "\<not> is_disconnected (le_now env) (node_conn n)"
    "\<not> le_so_error env \<and> le_send env 0 = Sent (int (length (frame own)))"
    "unpack own = Ret (Some (Address a))" "length own < 2 ^ 31"
    "process_connection unpack env own d WRITE (n, p) = ((n', p'), r)"
    "unknown l f = Some c" "conn_fileno c = Some f" "read_buffer c = []" "\<not> disconnected c" "0 \<le> conn_timeout c"
    "le_recv env' = Received (wire_out (node_conn n'))" "\<not> le_so_error env'"
    "a \<in> node_address ` set (peer_nodes l)"
    "process_unknown unpack env' f READ l = (l', r')"
  shows "status n' = CONNECTED \<and> unknown l' f = None \<and>
    (\<exists>m\<in>set (peer_nodes l'). node_address m = a \<and> status m = CONNECTED \<and> conn_fileno (node_conn m) = Some f) \<and>
    poll_interest (link_poller l') f = all_events \<and> poll_callbacks (link_poller l') f = Some (OnPeer a)"
proof -
  have n': "n' = n\<lparr>node_conn := (node_conn n)\<lparr>wire_out := frame own\<rparr>, status := CONNECTED\<rparr>"
    using caller_introduces[OF assms(1,2,3,5) _ assms(8), of unpack p] assms(4,6,9) by simp
  have "find (\<lambda>n. node_address n = a) (peer_nodes l) \<noteq> None" using assms(17) by (auto simp: find_None_iff)
  then obtain m where m: "find (\<lambda>n. node_address n = a) (peer_nodes l) = Some m" by blast
  have recv: "le_recv env' = Received (frame own)" using assms(15) n' by simp
  let ?m = "m\<lparr>node_conn := c\<lparr>last_read_time := le_now env'\<rparr>, status := CONNECTED\<rparr>"
  have l': "l' = l\<lparr>unknown := (unknown l)(f := None), peer_nodes := set_node ?m (peer_nodes l),
      link_poller := poll_subscribe f (OnPeer a) all_events (link_poller l)\<rparr>"
    using callee_identifies[where unpack = unpack, OF assms(10-14) assms(7,8) recv assms(16) m] assms(18) by simp
  have "?m \<in> set (set_node ?m (peer_nodes l))" using find_peer[OF m] by (auto simp: set_node_def)
  moreover have "poll_interest (link_poller l') f = all_events"
    using pp.interest_subscribe[of f "OnPeer a" True True True "link_poller l"] by (simp add: l' all_events_def)
  moreover have "node_address ?m = a" "conn_fileno (node_conn ?m) = Some f" using find_peer[OF m] assms(11) by simp_all
  ultimately have "\<exists>m\<in>set (peer_nodes l'). node_address m = a \<and> status m = CONNECTED \<and> conn_fileno (node_conn m) = Some f"
    "poll_interest (link_poller l') f = all_events" by (auto simp: l' intro!: bexI[of _ ?m])
  then show ?thesis by (simp add: n' l' pp.callback_subscribe)
qed

definition sample_link_env :: link_env where
  "sample_link_env = \<lparr>le_now = 5, le_sock = 9, le_refused = False, le_again = False, le_so_error = False,
     le_recv = Received [2, 0, 0, 0, 1, 2], le_send = (\<lambda>k. Sent 6)\<rparr>"

theorem handshake_witness:
  "let unpack = (\<lambda>b. if b = [1, 2] then Ret (Some (Address ''a:1'' :: nat obj)) else Raise ZlibError);
       l = (init_links ''b:2'' [''a:1''] 10 0 3)\<lparr>unknown := [4 \<mapsto> init_connection (Some 4) 10 0]\<rparr>
   in unknown (fst (process_unknown unpack sample_link_env 4 READ l)) 4 = None"
proof -
  let ?unpack = "\<lambda>b. if b = [1, 2] then Ret (Some (Address ''a:1'' :: nat obj)) else Raise ZlibError"
  let ?l = "(init_links ''b:2'' [''a:1''] 10 0 3)\<lparr>unknown := [4 \<mapsto> init_connection (Some 4) 10 0]\<rparr>"
  let ?n = "(init_node ''a:1'' ''b:2'' 10 0)\<lparr>node_conn := init_connection (Some 7) 10 0, status := CONNECTING\<rparr>"
  have f: "frame [1, 2] = [2, 0, 0, 0, 1, 2]" by code_simp
  have n: "status ?n = CONNECTING" "conn_fileno (node_conn ?n) = Some 7" "write_buffer (node_conn ?n) = []"
    "wire_out (node_conn ?n) = []" "\<not> is_disconnected (le_now sample_link_env) (node_conn ?n)"
    by (simp_all add: init_connection_def is_disconnected_def sample_link_env_def)
  have e: "\<not> le_so_error sample_link_env \<and> le_send sample_link_env 0 = Sent (int (length (frame [1, 2])))"
    by (simp add: f sample_link_env_def)
  obtain n' p' r where p: "process_connection ?unpack sample_link_env [1, 2] 7 WRITE (?n, init_poll) = ((n', p'), r)"
    by (metis prod.exhaust)
  have "wire_out (node_conn n') = frame [1, 2]"
    using caller_introduces[OF n(1,2,3,5), of "[1, 2]" ?unpack init_poll] e n(4) p by simp
  then have recv: "le_recv sample_link_env = Received (wire_out (node_conn n'))"
    by (simp add: f sample_link_env_def)
  obtain l' r' where l: "process_unknown ?unpack sample_link_env 4 READ ?l = (l', r')" by fastforce
  have "unknown l' 4 = None"
    using handshake[OF n e _ _ p _ _ _ _ _ recv _ _ l, of "''a:1''" "init_connection (Some 4) 10 0"]
    by (simp add: init_connection_def init_links_def init_node_def sample_link_env_def)
  then show ?thesis using l by (simp add: Let_def)
qed

theorem connections_watched_witness:
  "\<exists>d. poll_callbacks (link_poller (link_step (\<lambda>b. Raise ZlibError :: nat obj option outcome) 10 0 [] sample_link_env (Dial ''a:1'')
     (init_links ''b:2'' [''a:1''] 10 0 3))) d = Some (OnPeer ''a:1'')"
proof -
  let ?u = "\<lambda>b. Raise ZlibError :: nat obj option outcome" and ?start = "init_links ''b:2'' [''a:1''] 10 0 3"
  let ?l = "link_step ?u 10 0 [] sample_link_env (Dial ''a:1'') ?start"
  have k: "kernel_ok sample_link_env (Dial ''a:1'') ?start"
    by (simp add: kernel_ok_def init_links_def init_node_def)
  have r: "links_reachable ?u 10 0 [] ?start ?l" by (rule links_step[OF links_start k])
  obtain n where n: "n \<in> set (peer_nodes ?l)" "node_address n = ''a:1''" "status n = CONNECTING"
    by (simp add: link_step_def on_peer_def init_links_def init_node_def connect_if_required_def conn_connect_def
        set_node_def sample_link_env_def)
  show ?thesis using connections_watched[OF _ _ r] n by fastforce
qed

end
