(* ===== verification/Netem_Manager.thy ===== *)
theory Netem_Manager
  imports Prelude
begin

section \<open>The network manager of a node\<close>

text \<open>
  Class \<open>NetemManager\<close> of \<open>network_manager.py\<close>: it turns requests into \<open>tc\<close>
  commands and runs them in a shell.  A shell is an argument \<open>sh\<close>: given the commands run
  before and a command, what the command writes to its standard error.  The operations return
  the commands that were run, in order, and their result.  The ids, ports and addresses of the JSON
  configuration are the strings \<open>str()\<close> makes of them.
\<close>

subsection \<open>Templates\<close>

text \<open>\<open>s.replace(old, new)\<close> for a non-empty \<open>old\<close>.\<close>

function py_replace :: "string \<Rightarrow> string \<Rightarrow> string \<Rightarrow> string" where
  "py_replace old new [] = []"
| "py_replace old new (c # cs) =
     (if old \<noteq> [] \<and> take (length old) (c # cs) = old
      then new @ py_replace old new (drop (length old - 1) cs)
      else c # py_replace old new cs)"
  by pat_completeness auto

termination by (relation "measure (\<lambda>(old, new, s). length s)") auto

definition interface_token :: string where "interface_token = ''%INTERFACE%''"
definition destination_id_token :: string where "destination_id_token = ''%DID%''"
definition peer_port_token :: string where "peer_port_token = ''%PPORT%''"
definition peer_address_token :: string where "peer_address_token = ''%PADDRESS%''"
definition peer_id_token :: string where "peer_id_token = ''%PID%''"
definition netem_token :: string where "netem_token = ''%NETEM%''"
definition bandwidth :: string where "bandwidth = ''100Mbps''"

definition create_root_commands :: "string list" where
  "create_root_commands = [''sudo tc qdisc add dev %INTERFACE% root handle 1: htb'']"

definition delete_root_commands :: "string list" where
  "delete_root_commands =
     [''sudo tc qdisc del dev %INTERFACE% root'', ''sudo tc -s qdisc ls dev %INTERFACE%'']"

definition create_peer_class_commands :: "string list" where
  "create_peer_class_commands =
     [''sudo tc class add dev %INTERFACE% parent 1: classid 1:%DID% htb rate '' @ bandwidth]"

definition create_peer_qdisc_commands :: "string list" where
  "create_peer_qdisc_commands =
     [''sudo tc qdisc add dev %INTERFACE% parent 1:%DID% handle %DID%: netem delay 0ms'']"

definition create_peer_filter_commands_local :: "string list" where
  "create_peer_filter_commands_local =
     [''sudo tc filter add dev %INTERFACE% protocol ip u32 '' @ ''match ip dport %PPORT% 0xffff '' @
      ''flowid 1:%DID%'']"

definition create_peer_filter_commands_gce :: "string list" where
  "create_peer_filter_commands_gce =
     [''sudo tc filter add dev %INTERFACE% protocol ip u32 '' @ ''match ip dst %PADDRESS%/32 '' @
      ''flowid 1:%DID%'']"

definition modify_outgoing_connections_commands :: "string list" where
  "modify_outgoing_connections_commands =
     [''sudo tc qdisc change dev %INTERFACE% parent 1:%PID%2 netem %NETEM%'']"

definition substitute :: "(string \<times> string) list \<Rightarrow> string \<Rightarrow> string" where
  "substitute m command = fold (\<lambda>(token, val) c. py_replace token val c) m command"

subsection \<open>The manager\<close>

record netem_peer =
  peer_id :: string
  ports_to_lock :: "string list option"     \<comment> \<open>None: the key is missing\<close>
  addresses_to_lock :: "string list option"

record netem_manager =
  nm_interface :: string
  nm_host_id :: string
  nm_peers :: "netem_peer list"
  nm_mode :: string

type_synonym shell = "string list \<Rightarrow> string \<Rightarrow> string"

text \<open>
  \<open>Popen.communicate\<close> returns bytes: when a command writes to its standard error,
  \<open>e + "\n"\<close> raises a \<open>TypeError\<close>, and the commands after it are not run.
\<close>

fun run_commands :: "shell \<Rightarrow> string list \<Rightarrow> (string \<times> string) list \<Rightarrow> string list
    \<Rightarrow> string list \<times> string outcome" where
  "run_commands sh [] m hist = (hist, Ret [])"
| "run_commands sh (command # commands) m hist =
     (let c = substitute m command; e = sh hist c; hist1 = hist @ [c] in
      if e \<noteq> [] then (hist1, Raise TypeError) else run_commands sh commands m hist1)"

text \<open>The methods catch every exception and answer \<open>False\<close>.\<close>

definition answer :: "string list \<times> string outcome \<Rightarrow> string list \<times> bool" where
  "answer r = (case r of (hist, Ret err) \<Rightarrow> (hist, err = []) | (hist, Raise e) \<Rightarrow> (hist, False))"

definition create_root_qdisc :: "shell \<Rightarrow> netem_manager \<Rightarrow> string list \<Rightarrow> string list \<times> bool" where
  "create_root_qdisc sh nm hist =
     answer (run_commands sh create_root_commands [(interface_token, nm_interface nm)] hist)"

definition clean_all_qdisc :: "shell \<Rightarrow> netem_manager \<Rightarrow> string list \<Rightarrow> string list \<times> bool" where
  "clean_all_qdisc sh nm hist =
     answer (run_commands sh delete_root_commands [(interface_token, nm_interface nm)] hist)"

definition destination_id :: "netem_manager \<Rightarrow> string \<Rightarrow> string" where
  "destination_id nm p = nm_host_id nm @ p @ ''2''"

fun create_filters :: "shell \<Rightarrow> string list \<Rightarrow> (string \<Rightarrow> (string \<times> string) list) \<Rightarrow> string list
    \<Rightarrow> string list \<Rightarrow> string list \<times> bool" where
  "create_filters sh commands m [] hist = (hist, True)"
| "create_filters sh commands m (x # xs) hist =
     (case answer (run_commands sh commands (m x) hist) of
        (hist1, True) \<Rightarrow> create_filters sh commands m xs hist1
      | (hist1, False) \<Rightarrow> (hist1, False))"

definition create_peer_qdisc :: "shell \<Rightarrow> netem_manager \<Rightarrow> netem_peer \<Rightarrow> string list \<Rightarrow> string list \<times> bool" where
  "create_peer_qdisc sh nm p hist =
     (let base = [(interface_token, nm_interface nm),
                  (destination_id_token, destination_id nm (peer_id p))] in
      case answer (run_commands sh create_peer_class_commands base hist) of
        (hist1, False) \<Rightarrow> (hist1, False)
      | (hist1, True) \<Rightarrow>
          (case answer (run_commands sh create_peer_qdisc_commands base hist1) of
             (hist2, False) \<Rightarrow> (hist2, False)
           | (hist2, True) \<Rightarrow>
               if nm_mode nm = ''local'' then
                 (case ports_to_lock p of
                    None \<Rightarrow> (hist2, False)  \<comment> \<open>KeyError\<close>
                  | Some ports \<Rightarrow>
                      create_filters sh create_peer_filter_commands_local
                        (\<lambda>port. base @ [(peer_port_token, port)]) ports hist2)
               else
                 (case addresses_to_lock p of
                    None \<Rightarrow> (hist2, False)
                  | Some addresses \<Rightarrow>
                      create_filters sh create_peer_filter_commands_gce
                        (\<lambda>address. base @ [(peer_address_token, address)]) addresses hist2)))"

definition modify_outgoing_connection :: "shell \<Rightarrow> netem_manager \<Rightarrow> string \<Rightarrow> string \<Rightarrow> string list
    \<Rightarrow> string list \<times> bool" where
  "modify_outgoing_connection sh nm p netem_command hist =
     answer (run_commands sh modify_outgoing_connections_commands
       [(interface_token, nm_interface nm), (peer_id_token, nm_host_id nm @ p),
        (netem_token, netem_command)] hist)"

text \<open>\<open>result and self.create_peer_qdisc(peer)\<close> stops at the first failure.\<close>

fun init_peers :: "shell \<Rightarrow> netem_manager \<Rightarrow> netem_peer list \<Rightarrow> bool \<Rightarrow> string list \<Rightarrow> string list \<times> bool" where
  "init_peers sh nm [] result hist = (hist, result)"
| "init_peers sh nm (p # ps) result hist =
     (if result then (let (hist1, r) = create_peer_qdisc sh nm p hist in init_peers sh nm ps r hist1)
      else init_peers sh nm ps result hist)"

definition init_qdisc :: "shell \<Rightarrow> netem_manager \<Rightarrow> string list \<Rightarrow> string list \<times> bool" where
  "init_qdisc sh nm hist = init_peers sh nm (nm_peers nm) True hist"

subsection \<open>Substitution\<close>

text \<open>A token starts with a percent sign, so text without one is left alone.\<close>

lemma replace_plain: "hd old = CHR ''%'' \<Longrightarrow> CHR ''%'' \<notin> set xs \<Longrightarrow> py_replace old new (xs @ ys) = xs @ py_replace old new ys"
proof (induction xs)
  case (Cons x xs)
  then have no: "\<not> (old \<noteq> [] \<and> take (length old) (x # xs @ ys) = old)" by (cases old) auto
  show ?case using Cons unfolding append_Cons py_replace.simps(2) if_not_P[OF no] by simp
qed simp

lemma replace_plain_all: "hd old = CHR ''%'' \<Longrightarrow> CHR ''%'' \<notin> set xs \<Longrightarrow> py_replace old new xs = xs"
  using replace_plain[of old xs new "[]"] by simp

text \<open>A configuration value that is not itself a template.\<close>

definition plain :: "string \<Rightarrow> bool" where
  "plain s \<longleftrightarrow> CHR ''%'' \<notin> set s"

lemmas tokens = interface_token_def destination_id_token_def peer_port_token_def
  peer_address_token_def peer_id_token_def netem_token_def

lemma replace_append_plain:
  "plain xs \<Longrightarrow> py_replace (CHR ''%'' # old) new (xs @ ys) = xs @ py_replace (CHR ''%'' # old) new ys"
  "plain xs \<Longrightarrow> py_replace (CHR ''%'' # old) new xs = xs"
  using replace_plain[of "CHR ''%'' # old"] replace_plain_all[of "CHR ''%'' # old"]
  by (simp_all add: plain_def)

lemma class_command:
  assumes "plain i"
  shows "substitute [(interface_token, i), (destination_id_token, d)] (hd create_peer_class_commands) =
    ''sudo tc class add dev '' @ i @ '' parent 1: classid 1:'' @ d @ '' htb rate 100Mbps''"
  using assms
  by (simp add: substitute_def create_peer_class_commands_def bandwidth_def tokens
      replace_append_plain)

lemma qdisc_command:
  assumes "plain i" "plain d"
  shows "substitute [(interface_token, i), (destination_id_token, d)] (hd create_peer_qdisc_commands) =
    ''sudo tc qdisc add dev '' @ i @ '' parent 1:'' @ d @ '' handle '' @ d @ '': netem delay 0ms''"
  using assms
  by (simp add: substitute_def create_peer_qdisc_commands_def tokens replace_append_plain)

lemma port_command:
  assumes "plain i" "plain d"
  shows "substitute [(interface_token, i), (destination_id_token, d), (peer_port_token, x)]
      (hd create_peer_filter_commands_local) =
    ''sudo tc filter add dev '' @ i @ '' protocol ip u32 match ip dport '' @ x @ '' 0xffff flowid 1:'' @ d"
  using assms
  by (simp add: substitute_def create_peer_filter_commands_local_def tokens replace_append_plain)

lemma address_command:
  assumes "plain i" "plain d"
  shows "substitute [(interface_token, i), (destination_id_token, d), (peer_address_token, x)]
      (hd create_peer_filter_commands_gce) =
    ''sudo tc filter add dev '' @ i @ '' protocol ip u32 match ip dst '' @ x @ ''/32 flowid 1:'' @ d"
  using assms
  by (simp add: substitute_def create_peer_filter_commands_gce_def tokens replace_append_plain)

lemma modify_command:
  assumes "plain i" "plain d"
  shows "substitute [(interface_token, i), (peer_id_token, d), (netem_token, x)]
      (hd modify_outgoing_connections_commands) =
    ''sudo tc qdisc change dev '' @ i @ '' parent 1:'' @ d @ ''2 netem '' @ x"
  using assms
  by (simp add: substitute_def modify_outgoing_connections_commands_def tokens replace_append_plain)

lemma run_one:
  "run_commands sh [c] m hist =
     (hist @ [substitute m c], if sh hist (substitute m c) \<noteq> [] then Raise TypeError else Ret [])"
  by (simp add: Let_def)

lemma singletons:
  "create_peer_class_commands = [hd create_peer_class_commands]"
  "create_peer_qdisc_commands = [hd create_peer_qdisc_commands]"
  "create_peer_filter_commands_local = [hd create_peer_filter_commands_local]"
  "create_peer_filter_commands_gce = [hd create_peer_filter_commands_gce]"
  "modify_outgoing_connections_commands = [hd modify_outgoing_connections_commands]"
  by (simp_all add: create_peer_class_commands_def create_peer_qdisc_commands_def
      create_peer_filter_commands_local_def create_peer_filter_commands_gce_def
      modify_outgoing_connections_commands_def)

lemma answer_one:
  "answer (run_commands sh [c] m hist) = (hist @ [substitute m c], sh hist (substitute m c) = [])"
  by (simp add: run_one answer_def del: run_commands.simps)

lemma filters_quiet:
  "create_filters (\<lambda>_ _. []) [c] m xs hist = (hist @ map (\<lambda>x. substitute (m x) c) xs, True)"
  by (induction xs arbitrary: hist) (simp_all add: answer_one del: run_commands.simps)

subsection \<open>Which commands were run\<close>

text \<open>
  \<open>orderly sh hist r\<close>: the result \<open>r\<close> came from running commands after \<open>hist\<close>, none
  of them after one that wrote to its standard error, and it is \<open>True\<close> exactly if no
  command did.
\<close>

definition silent :: "shell \<Rightarrow> string list \<Rightarrow> string list \<Rightarrow> bool" where
  "silent sh hist cs \<longleftrightarrow> (\<forall>k<length cs. sh (hist @ take k cs) (cs ! k) = [])"

definition orderly :: "shell \<Rightarrow> string list \<Rightarrow> string list \<times> bool \<Rightarrow> bool" where
  "orderly sh hist r \<longleftrightarrow>
     (\<exists>cs. fst r = hist @ cs \<and> silent sh hist (butlast cs) \<and> (snd r \<longleftrightarrow> silent sh hist cs))"

lemma silent_append:
  "silent sh hist (cs @ ds) \<longleftrightarrow> silent sh hist cs \<and> silent sh (hist @ cs) ds"
proof
  assume s: "silent sh hist (cs @ ds)"
  have "sh (hist @ take k cs) (cs ! k) = []" if "k < length cs" for k
    using s[unfolded silent_def, rule_format, of k] that by (simp add: nth_append)
  moreover have "sh ((hist @ cs) @ take k ds) (ds ! k) = []" if "k < length ds" for k
    using s[unfolded silent_def, rule_format, of "length cs + k"] that by (simp add: nth_append)
  ultimately show "silent sh hist cs \<and> silent sh (hist @ cs) ds" by (simp add: silent_def)
next
  assume s: "silent sh hist cs \<and> silent sh (hist @ cs) ds"
  show "silent sh hist (cs @ ds)"
    unfolding silent_def
  proof (intro allI impI)
    fix k assume "k < length (cs @ ds)"
    then consider "k < length cs" | j where "k = length cs + j" "j < length ds"
      by (metis add_diff_inverse_nat length_append nat_add_left_cancel_less)
    then show "sh (hist @ take k (cs @ ds)) ((cs @ ds) ! k) = []"
      using s by cases (simp_all add: silent_def nth_append)
  qed
qed

lemma orderly_one: "orderly sh hist (hist @ [c], sh hist c = [])"
  by (auto simp: orderly_def silent_def intro!: exI[of _ "[c]"])

lemma orderly_none: "orderly sh hist (hist, True)"
  by (simp add: orderly_def silent_def)

lemma orderly_then:
  assumes "orderly sh hist (hist1, True)" "orderly sh hist1 r" shows "orderly sh hist r"
proof -
  obtain cs where c: "hist1 = hist @ cs" "silent sh hist cs" using assms(1) by (auto simp: orderly_def)
  obtain ds where d: "fst r = hist1 @ ds" "silent sh hist1 (butlast ds)" "snd r \<longleftrightarrow> silent sh hist1 ds"
    using assms(2) by (auto simp: orderly_def)
  have "silent sh hist (butlast (cs @ ds))"
  proof (cases "ds = []")
    case True
    then show ?thesis using c(2) silent_append[of sh hist "butlast cs" "[last cs]"]
      by (cases "cs = []") simp_all
  next
    case False
    then show ?thesis using c d(2) by (simp add: butlast_append silent_append)
  qed
  then show ?thesis unfolding orderly_def
    using c d by (intro exI[of _ "cs @ ds"]) (simp add: silent_append)
qed

lemma orderly_filters: "orderly sh hist (create_filters sh [c] m xs hist)"
proof (induction xs arbitrary: hist)
  case (Cons x xs)
  let ?c = "substitute (m x) c"
  show ?case
  proof (cases "sh hist ?c = []")
    case True
    have "orderly sh hist (hist @ [?c], True)" using orderly_one[of sh hist ?c] True by simp
    from orderly_then[OF this Cons.IH] True show ?thesis
      by (simp add: answer_one del: run_commands.simps)
  next
    case False
    then show ?thesis using orderly_one[of sh hist ?c] by (simp add: answer_one del: run_commands.simps)
  qed
qed (simp add: orderly_none)

definition has_locks :: "netem_manager \<Rightarrow> netem_peer \<Rightarrow> bool" where
  "has_locks nm p \<longleftrightarrow>
     (if nm_mode nm = ''local'' then ports_to_lock p \<noteq> None else addresses_to_lock p \<noteq> None)"

lemma orderly_peer:
  assumes "has_locks nm p" shows "orderly sh hist (create_peer_qdisc sh nm p hist)"
proof -
  let ?m = "[(interface_token, nm_interface nm), (destination_id_token, destination_id nm (peer_id p))]"
  let ?c1 = "substitute ?m (hd create_peer_class_commands)"
  let ?c2 = "substitute ?m (hd create_peer_qdisc_commands)"
  let ?h2 = "(hist @ [?c1]) @ [?c2]"
  have a1: "answer (run_commands sh create_peer_class_commands ?m hist) = (hist @ [?c1], sh hist ?c1 = [])"
    by (subst singletons(1)) (rule answer_one)
  have a2: "answer (run_commands sh create_peer_qdisc_commands ?m h) = (h @ [?c2], sh h ?c2 = [])" for h
    by (subst singletons(2)) (rule answer_one)
  show ?thesis
  proof (cases "sh hist ?c1 = []")
    case c1: True
    have o1: "orderly sh hist (hist @ [?c1], True)" using orderly_one[of sh hist ?c1] c1 by simp
    show ?thesis
    proof (cases "sh (hist @ [?c1]) ?c2 = []")
      case c2: True
      have "orderly sh (hist @ [?c1]) (?h2, True)" using orderly_one[of sh "hist @ [?c1]" ?c2] c2 by simp
      from orderly_then[OF o1 this] have o2: "orderly sh hist (?h2, True)" .
      show ?thesis
      proof (cases "nm_mode nm = ''local''")
        case True
        then obtain ports where "ports_to_lock p = Some ports" using assms by (auto simp: has_locks_def)
        then have "create_peer_qdisc sh nm p hist = create_filters sh create_peer_filter_commands_local
            (\<lambda>port. ?m @ [(peer_port_token, port)]) ports ?h2"
          using True by (simp add: create_peer_qdisc_def a1 a2 c1 c2 Let_def)
        then show ?thesis using orderly_then[OF o2] orderly_filters singletons(3) by metis
      next
        case False
        then obtain addresses where "addresses_to_lock p = Some addresses"
          using assms by (auto simp: has_locks_def)
        then have "create_peer_qdisc sh nm p hist = create_filters sh create_peer_filter_commands_gce
            (\<lambda>address. ?m @ [(peer_address_token, address)]) addresses ?h2"
          using False by (simp add: create_peer_qdisc_def a1 a2 c1 c2 Let_def)
        then show ?thesis using orderly_then[OF o2] orderly_filters singletons(4) by metis
      qed
    next
      case False
      then have "create_peer_qdisc sh nm p hist = (?h2, sh (hist @ [?c1]) ?c2 = [])"
        by (simp add: create_peer_qdisc_def a1 a2 c1 Let_def)
      then show ?thesis using orderly_then[OF o1 orderly_one] by simp
    qed
  next
    case False
    then have "create_peer_qdisc sh nm p hist = (hist @ [?c1], sh hist ?c1 = [])"
      by (simp add: create_peer_qdisc_def a1 Let_def)
    then show ?thesis using orderly_one by simp
  qed
qed

lemma init_peers_failed: "init_peers sh nm ps False hist = (hist, False)"
  by (induction ps) simp_all

lemma orderly_peers:
  "\<forall>p\<in>set ps. has_locks nm p \<Longrightarrow> orderly sh hist (init_peers sh nm ps True hist)"
proof (induction ps arbitrary: hist)
  case (Cons p ps)
  obtain h r where h: "create_peer_qdisc sh nm p hist = (h, r)" by fastforce
  have o: "orderly sh hist (h, r)" using orderly_peer[of nm p sh hist] Cons.prems h by simp
  show ?case
  proof (cases r)
    case True
    then show ?thesis using h o orderly_then Cons by simp
  next
    case False
    then show ?thesis using h o by (simp add: init_peers_failed)
  qed
qed (simp add: orderly_none)

subsection \<open>Properties\<close>

text \<open>Initialisation is orderly.  For a configuration that names what to lock for every
  peer, and whatever the shell answers, \<open>init_qdisc\<close> runs nothing after the first command
  that writes to its standard error, and answers \<open>True\<close> exactly if no command did.\<close>

lemma init_qdisc_orderly:
  assumes "\<forall>p\<in>set (nm_peers nm). has_locks nm p"
  shows "orderly sh hist (init_qdisc sh nm hist)"
  unfolding init_qdisc_def by (rule orderly_peers[OF assms])

definition example_manager :: netem_manager where
  "example_manager =
     \<lparr>nm_interface = ''lo'', nm_host_id = ''1'',
      nm_peers = [\<lparr>peer_id = ''2'', ports_to_lock = Some [''4000'', ''4001''], addresses_to_lock = Some []\<rparr>],
      nm_mode = ''local''\<rparr>"

text \<open>Every peer gets its own delay line.  When no command fails, \<open>create_peer_qdisc\<close>
  runs exactly: add the class of this pair of nodes, add its netem queue with no delay, and one
  filter per port (local mode) or per address (cloud) of the peer that directs the traffic to
  it; and \<open>modify_outgoing_connection\<close> for that peer later runs one command, on the very
  class that was created.\<close>

lemma peer_delay_line:
  assumes "plain (nm_interface nm)" "plain (nm_host_id nm)" "plain (peer_id p)"
    "ports_to_lock p = Some ports" "addresses_to_lock p = Some addresses"
  shows "let d = destination_id nm (peer_id p); i = nm_interface nm in
    create_peer_qdisc (\<lambda>_ _. []) nm p hist =
      (hist @ [''sudo tc class add dev '' @ i @ '' parent 1: classid 1:'' @ d @ '' htb rate 100Mbps'',
               ''sudo tc qdisc add dev '' @ i @ '' parent 1:'' @ d @ '' handle '' @ d @ '': netem delay 0ms''] @
       (if nm_mode nm = ''local''
        then map (\<lambda>x. ''sudo tc filter add dev '' @ i @ '' protocol ip u32 match ip dport '' @ x @
                     '' 0xffff flowid 1:'' @ d) ports
        else map (\<lambda>x. ''sudo tc filter add dev '' @ i @ '' protocol ip u32 match ip dst '' @ x @
                     ''/32 flowid 1:'' @ d) addresses), True) \<and>
    (\<forall>sh rule. modify_outgoing_connection sh nm (peer_id p) rule hist =
      (let c = ''sudo tc qdisc change dev '' @ i @ '' parent 1:'' @ d @ '' netem '' @ rule
       in (hist @ [c], sh hist c = [])))"
proof -
  let ?d = "destination_id nm (peer_id p)" and ?i = "nm_interface nm"
  let ?sh = "\<lambda>_ _. [] :: char list"
  have d: "plain ?d" "plain (nm_host_id nm @ peer_id p)"
    using assms(2,3) by (simp_all add: plain_def destination_id_def)
  let ?m = "[(interface_token, ?i), (destination_id_token, ?d)]"
  have a1: "answer (run_commands ?sh create_peer_class_commands ?m h) =
      (h @ [substitute ?m (hd create_peer_class_commands)], True)" for h
    by (subst singletons(1)) (simp add: answer_one del: run_commands.simps)
  have a2: "answer (run_commands ?sh create_peer_qdisc_commands ?m h) =
      (h @ [substitute ?m (hd create_peer_qdisc_commands)], True)" for h
    by (subst singletons(2)) (simp add: answer_one del: run_commands.simps)
  have f1: "create_filters ?sh create_peer_filter_commands_local m xs h =
      (h @ map (\<lambda>x. substitute (m x) (hd create_peer_filter_commands_local)) xs, True)" for m xs h
    by (subst singletons(3)) (rule filters_quiet)
  have f2: "create_filters ?sh create_peer_filter_commands_gce m xs h =
      (h @ map (\<lambda>x. substitute (m x) (hd create_peer_filter_commands_gce)) xs, True)" for m xs h
    by (subst singletons(4)) (rule filters_quiet)
  have 1: "create_peer_qdisc ?sh nm p hist =
      (hist @ [''sudo tc class add dev '' @ ?i @ '' parent 1: classid 1:'' @ ?d @ '' htb rate 100Mbps'',
               ''sudo tc qdisc add dev '' @ ?i @ '' parent 1:'' @ ?d @ '' handle '' @ ?d @ '': netem delay 0ms''] @
       (if nm_mode nm = ''local''
        then map (\<lambda>x. ''sudo tc filter add dev '' @ ?i @ '' protocol ip u32 match ip dport '' @ x @
                     '' 0xffff flowid 1:'' @ ?d) ports
        else map (\<lambda>x. ''sudo tc filter add dev '' @ ?i @ '' protocol ip u32 match ip dst '' @ x @
                     ''/32 flowid 1:'' @ ?d) addresses), True)"
    using assms(4,5) class_command[OF assms(1), of ?d] qdisc_command[OF assms(1) d(1)]
      port_command[OF assms(1) d(1)] address_command[OF assms(1) d(1)]
    by (simp add: create_peer_qdisc_def a1 a2 f1 f2 Let_def)
  have 2: "modify_outgoing_connection sh nm (peer_id p) rule hist =
      (let c = ''sudo tc qdisc change dev '' @ ?i @ '' parent 1:'' @ ?d @ '' netem '' @ rule
       in (hist @ [c], sh hist c = []))" for sh rule
  proof -
    have "''sudo tc qdisc change dev '' @ ?i @ '' parent 1:'' @ ?d @ '' netem '' @ rule =
        ''sudo tc qdisc change dev '' @ ?i @ '' parent 1:'' @ (nm_host_id nm @ peer_id p) @ ''2 netem '' @ rule"
      by (simp add: destination_id_def)
    then show ?thesis
      unfolding modify_outgoing_connection_def
      by (subst singletons(5)) (simp only: answer_one modify_command[OF assms(1) d(2)] Let_def)
  qed
  show ?thesis using 1 2 by (simp only: Let_def) blast
qed

end
