(* ===== verification/Deployment.thy ===== *)
theory Deployment
  imports Cluster_Config Netem_Manager Peer_Links "HOL-Library.Sublist"
begin

section \<open>Starting and stopping a cluster\<close>

text \<open>
  What \<open>provisioner.py\<close>, \<open>configure_daemon.py\<close> and \<open>tear_down.py\<close> do to the
  machines, as lists of actions in the order they are done.  Waiting for a port is one action.
  A call of a configure daemon is an action \<open>Rpc\<close>; what the daemon then does is
  \<open>serve\<close>.  The ids, addresses and names that the cloud service hands out, and the answers of
  its metadata server, are arguments.
\<close>

subsection \<open>Actions\<close>

record master_config =
  master_mode :: string
  master_algorithm :: string
  master_daemon :: string
  master_nodes :: "cluster_node list"

text \<open>The functions a configure daemon serves, with their arguments.\<close>

datatype daemon_call =
    Run_Test_Daemon string nat
  | Run_Network_Manager
  | Download_Node_Config
  | Run_Pso_Node nat string "string option"
  | Run_Paxos_Node nat string "string option"
  | Rethinkdb_Master nat nat nat string
  | Rethinkdb_Follower nat string nat nat nat nat
  | Stop_Rethinkdb

datatype action =
    Write_Config string node_config
  | Write_Master string master_config
  | Shell string                      \<comment> \<open>Popen with shell=True\<close>
  | Spawn "string list"
  | Wait_Port string nat bool         \<comment> \<open>host, port, tcp\<close>
  | Rpc string daemon_call            \<comment> \<open>address of the node\<close>
  | Create_Instance string "(string \<times> string) list"
  | Wait_Instance string
  | Ensure_Firewall
  | Take_Acknowledgement string       \<comment> \<open>wait for a file and delete it\<close>
  | Upload string string
  | Remove_Tree string
  | Delete_Instance string

definition CONFIGURE_DAEMON_PORT :: nat where "CONFIGURE_DAEMON_PORT = 12345"
definition TEST_DAEMON_PORT :: nat where "TEST_DAEMON_PORT = 2082"
definition NETWORK_MANAGER_PORT :: nat where "NETWORK_MANAGER_PORT = 12347"
definition LOCAL_NODE_CONF_FILE :: string where "LOCAL_NODE_CONF_FILE = ''node_conf.json''"
definition CONSENSUS_ALGORITHM_PORT :: nat where "CONSENSUS_ALGORITHM_PORT = 12348"
definition MAX_CLUSTER_NODES :: nat where "MAX_CLUSTER_NODES = 8"

text \<open>\<open>GCE_RETHINKDB_PORTS\<close>: driver, cluster and http port.\<close>

definition GCE_RETHINKDB_PORTS :: "nat \<times> nat \<times> nat" where
  "GCE_RETHINKDB_PORTS = (CONSENSUS_ALGORITHM_PORT, CONSENSUS_ALGORITHM_PORT + 1, CONSENSUS_ALGORITHM_PORT + 2)"

subsection \<open>The configure daemon\<close>

definition wait_for_ports :: "nat list \<Rightarrow> bool \<Rightarrow> action list" where
  "wait_for_ports ports tcp = map (\<lambda>p. Wait_Port ''127.0.0.1'' p tcp) ports"

definition run_test_daemon :: "string \<Rightarrow> string \<Rightarrow> nat \<Rightarrow> action list" where
  "run_test_daemon dir algorithm port =
     [Shell (''python3.4 '' @ py_replace '' '' (CHR 0x5C # '' '') dir @ ''/test_daemon.py '' @ [CHR 0x27, CHR 0x27] @ '' '' @
        algorithm @ '' '' @ str port @ '' &'')] @
     wait_for_ports [TEST_DAEMON_PORT] True"

definition run_network_manager :: "action list" where
  "run_network_manager =
     [Spawn [''sudo'', ''./network_manager.py'', LOCAL_NODE_CONF_FILE]] @ wait_for_ports [NETWORK_MANAGER_PORT] True"

text \<open>\<open>metadata\<close>: what the metadata server answers for an attribute.\<close>

definition download_node_config :: "(string \<Rightarrow> string) \<Rightarrow> action list" where
  "download_node_config metadata =
     (let base = ''http://metadata.google.internal/computeMetadata/v1/instance/attributes/'';
          curl = (\<lambda>attr. Spawn [''curl'', base @ attr, ''-H'', ''Metadata-Flavor: Google'']);
          file = metadata ''clusterConfig''; bucket = metadata ''bucket'' in
      [curl ''clusterConfig'', curl ''bucket'',
       Spawn [''sudo'', ''gsutil'', ''cp'', ''gs://'' @ bucket @ ''/'' @ file, LOCAL_NODE_CONF_FILE]])"

definition server_command :: "string \<Rightarrow> string \<Rightarrow> string option \<Rightarrow> string" where
  "server_command program file test_daemon =
     (case test_daemon of
        Some (c # cs) \<Rightarrow> program @ '' '' @ file @ '' '' @ (c # cs) @ '' &''
      | _ \<Rightarrow> program @ '' '' @ file @ '' &'')"

definition run_pso_node :: "nat \<Rightarrow> string \<Rightarrow> string option \<Rightarrow> action list" where
  "run_pso_node port file test_daemon =
     [Shell (server_command ''./pysyncobj/custom_server.py'' file test_daemon)] @ wait_for_ports [port] False"

definition run_paxos_node :: "nat \<Rightarrow> string \<Rightarrow> string option \<Rightarrow> action list" where
  "run_paxos_node port file test_daemon =
     [Shell (server_command ''./paxos/custom_server.py'' file test_daemon)] @ wait_for_ports [port] False"

definition configure_rethinkdb_master :: "nat \<Rightarrow> nat \<Rightarrow> nat \<Rightarrow> string \<Rightarrow> action list" where
  "configure_rethinkdb_master cluster_port driver_port http_port canonical_address =
     [Shell (''rethinkdb --cache-size 0 --bind all --cluster-port '' @ str cluster_port @ '' --driver-port '' @
        str driver_port @ '' --http-port '' @ str http_port @ '' --canonical-address '' @ canonical_address @ '' &'')] @
     wait_for_ports [cluster_port, driver_port, http_port] True"

definition configure_rethinkdb_follower :: "nat \<Rightarrow> string \<Rightarrow> nat \<Rightarrow> nat \<Rightarrow> nat \<Rightarrow> nat \<Rightarrow> action list" where
  "configure_rethinkdb_follower my_id m_ip m_cp my_cp my_dp my_hp =
     [Shell (''rethinkdb --cache-size 0 --bind all --directory rethinkdb_data'' @ str my_id @ '' --join '' @ m_ip @
        '':'' @ str m_cp @ '' --cluster-port '' @ str my_cp @ '' --driver-port '' @ str my_dp @ '' --http-port '' @
        str my_hp @ '' &'')] @
     wait_for_ports [my_cp, my_dp, my_hp] True"

definition stop_rethinkdb :: "action list" where
  "stop_rethinkdb = [Shell ''killall rethinkdb'']"

text \<open>What a daemon does for a call.\<close>

definition serve :: "string \<Rightarrow> (string \<Rightarrow> string) \<Rightarrow> daemon_call \<Rightarrow> action list" where
  "serve dir metadata c =
     (case c of
        Run_Test_Daemon a p \<Rightarrow> run_test_daemon dir a p
      | Run_Network_Manager \<Rightarrow> run_network_manager
      | Download_Node_Config \<Rightarrow> download_node_config metadata
      | Run_Pso_Node p f t \<Rightarrow> run_pso_node p f t
      | Run_Paxos_Node p f t \<Rightarrow> run_paxos_node p f t
      | Rethinkdb_Master c d h a \<Rightarrow> configure_rethinkdb_master c d h a
      | Rethinkdb_Follower i ip mc c d h \<Rightarrow> configure_rethinkdb_follower i ip mc c d h
      | Stop_Rethinkdb \<Rightarrow> stop_rethinkdb)"

subsection \<open>A local cluster\<close>

definition node_file_path :: "nat \<Rightarrow> string" where
  "node_file_path i = ''/tmp/provision_node_'' @ str i @ ''_config.json''"

text \<open>The first node calls back the test daemon.  \<open>cluster[0]\<close> of an empty list raises.\<close>

definition configure_pso_local :: "cluster_node \<Rightarrow> cluster_node list \<Rightarrow> string \<Rightarrow> action list" where
  "configure_pso_local first rest daemon =
     run_pso_node (node_port first) (node_file_path (node_id first)) (Some daemon) @
     concat (map (\<lambda>n. run_pso_node (node_port n) (node_file_path (node_id n)) None) rest)"

definition configure_paxos_local :: "cluster_node \<Rightarrow> cluster_node list \<Rightarrow> string \<Rightarrow> action list" where
  "configure_paxos_local first rest daemon =
     run_paxos_node (node_port first) (node_file_path (node_id first)) (Some daemon) @
     concat (map (\<lambda>n. run_paxos_node (node_port n) (node_file_path (node_id n)) None) rest)"

fun rethinkdb_followers :: "port_source \<Rightarrow> string \<Rightarrow> nat \<Rightarrow> cluster_node list \<Rightarrow> port_pool \<Rightarrow> (action list \<times> port_pool) option" where
  "rethinkdb_followers os m_ip m_cp [] p = Some ([], p)"
| "rethinkdb_followers os m_ip m_cp (n # ns) p =
     Option.bind (get_free_random_port os p) (\<lambda>(cp, p1).
       Option.bind (get_free_random_port os p1) (\<lambda>(hp, p2).
         Option.bind (rethinkdb_followers os m_ip m_cp ns p2) (\<lambda>(as, p3).
           Some (configure_rethinkdb_follower (node_id n) m_ip m_cp cp (node_port n) hp @ as, p3))))"

definition configure_rethinkdb_local :: "port_source \<Rightarrow> cluster_node \<Rightarrow> cluster_node list \<Rightarrow> port_pool
    \<Rightarrow> (action list \<times> port_pool) option" where
  "configure_rethinkdb_local os first rest p =
     Option.bind (get_free_random_port os p) (\<lambda>(m_cp, p1).
       Option.bind (get_free_random_port os p1) (\<lambda>(hp, p2).
         Option.bind (rethinkdb_followers os (node_host first) m_cp rest p2) (\<lambda>(as, p3).
           Some (configure_rethinkdb_master m_cp (node_port first) hp ''localhost'' @ as, p3))))"

definition algorithm_local :: "port_source \<Rightarrow> string \<Rightarrow> cluster_node \<Rightarrow> cluster_node list \<Rightarrow> string \<Rightarrow> port_pool
    \<Rightarrow> (action list \<times> port_pool) option" where
  "algorithm_local os algorithm first rest daemon p =
     (if algorithm = ''pso'' then Some (configure_pso_local first rest daemon, p)
      else if algorithm = ''paxos'' then Some (configure_paxos_local first rest daemon, p)
      else if algorithm = ''rethinkdb'' then configure_rethinkdb_local os first rest p
      else Some ([], p))"

text \<open>\<open>None\<close>: looking for free ports never ends.\<close>

definition provide_local_cluster :: "port_source \<Rightarrow> string \<Rightarrow> string \<Rightarrow> nat \<Rightarrow> string
    \<Rightarrow> (action list \<times> master_config outcome) option" where
  "provide_local_cluster os dir python nodes_num algorithm =
     Option.bind (local_cluster os nodes_num) (\<lambda>(cluster, p).
       let daemon = ''127.0.0.1:'' @ str TEST_DAEMON_PORT;
           configs = map (\<lambda>n. Write_Config (node_file_path (node_id n)) (get_node_config cluster n ''local'' [])) cluster in
       (case cluster of
          [] \<Rightarrow> Some (configs, Raise IndexError)
        | first # rest \<Rightarrow>
            Option.bind (algorithm_local os algorithm first rest daemon p) (\<lambda>(started, _).
              let master = \<lparr>master_mode = ''local'', master_algorithm = algorithm, master_daemon = daemon,
                            master_nodes = cluster\<rparr> in
              Some (configs @ started @
                map (\<lambda>n. Spawn [python, ''network_manager.py'', node_file_path (node_id n)]) cluster @
                map (\<lambda>n. Wait_Port (node_host n) (rpc_port n) True) cluster @
                run_test_daemon dir algorithm (node_port first) @
                [Write_Master ''masterConfig.json'' master], Ret master))))"

subsection \<open>A cluster of virtual machines\<close>

definition config_file_name :: "string \<Rightarrow> string" where
  "config_file_name vm = ''provision_node_'' @ vm @ ''_config.json''"

text \<open>For each machine: the random suffix of its name, its external and its internal address.\<close>

definition gce_nodes :: "(string \<times> string \<times> string) list \<Rightarrow> cluster_node list" where
  "gce_nodes vms = map (\<lambda>(i, suffix, nat_ip, network_ip).
     \<lparr>node_id = i, node_host = nat_ip, node_port = CONSENSUS_ALGORITHM_PORT, rpc_port = NETWORK_MANAGER_PORT,
      node_interface = ''eth0'', internal_ip = network_ip, vm_id = ''vm-node-'' @ str i @ ''-'' @ suffix\<rparr>)
     (enumerate 1 vms)"

definition configure_pso_gce :: "cluster_node \<Rightarrow> cluster_node list \<Rightarrow> string \<Rightarrow> action list" where
  "configure_pso_gce first rest daemon =
     Rpc (node_host first) (Run_Pso_Node (node_port first) LOCAL_NODE_CONF_FILE (Some daemon)) #
     map (\<lambda>n. Rpc (node_host n) (Run_Pso_Node (node_port n) LOCAL_NODE_CONF_FILE None)) rest"

definition configure_paxos_gce :: "cluster_node \<Rightarrow> cluster_node list \<Rightarrow> string \<Rightarrow> action list" where
  "configure_paxos_gce first rest daemon =
     Rpc (node_host first) (Run_Paxos_Node (node_port first) LOCAL_NODE_CONF_FILE (Some daemon)) #
     map (\<lambda>n. Rpc (node_host n) (Run_Paxos_Node (node_port n) LOCAL_NODE_CONF_FILE None)) rest"

definition configure_rethinkdb_gce :: "cluster_node \<Rightarrow> cluster_node list \<Rightarrow> action list" where
  "configure_rethinkdb_gce first rest =
     (case GCE_RETHINKDB_PORTS of (dp, cp, hp) \<Rightarrow>
        Rpc (node_host first) (Rethinkdb_Master cp dp hp (node_host first)) #
        map (\<lambda>n. Rpc (node_host n) (Rethinkdb_Follower (node_id n) (node_host first) cp cp dp hp)) rest)"

definition algorithm_gce :: "string \<Rightarrow> cluster_node \<Rightarrow> cluster_node list \<Rightarrow> string \<Rightarrow> action list" where
  "algorithm_gce algorithm first rest daemon =
     (if algorithm = ''pso'' then configure_pso_gce first rest daemon
      else if algorithm = ''paxos'' then configure_paxos_gce first rest daemon
      else if algorithm = ''rethinkdb'' then configure_rethinkdb_gce first rest
      else [])"

definition provide_gce_cluster :: "(string \<times> string \<times> string) list \<Rightarrow> string
    \<Rightarrow> action list \<times> master_config outcome" where
  "provide_gce_cluster vms algorithm =
     (let cluster = gce_nodes vms; dir = ''config/'';
          additional = (if algorithm = ''rethinkdb'' then [fst (snd GCE_RETHINKDB_PORTS)] else []);
          create = (\<lambda>n. Create_Instance (vm_id n) [(''bucket'', ''krafters''),
                     (''clusterConfig'', dir @ config_file_name (vm_id n)), (''myid'', vm_id n)]);
          config = (\<lambda>n. let file = ''/tmp/'' @ config_file_name (vm_id n) in
                     [Write_Config file (get_node_config cluster n ''gce'' additional),
                      Upload file (dir @ config_file_name (vm_id n))]);
          prepared = map create cluster @ map (\<lambda>n. Wait_Instance (vm_id n)) cluster @ [Ensure_Firewall] @
            map (\<lambda>n. Take_Acknowledgement (vm_id n)) cluster @ concat (map config cluster) @
            map (\<lambda>n. Rpc (node_host n) Download_Node_Config) cluster in
      case cluster of
        [] \<Rightarrow> (prepared, Raise IndexError)
      | first # rest \<Rightarrow>
          let daemon = node_host first @ '':'' @ str TEST_DAEMON_PORT;
              master = \<lparr>master_mode = ''gce'', master_algorithm = algorithm, master_daemon = daemon,
                        master_nodes = cluster\<rparr> in
          (prepared @ algorithm_gce algorithm first rest daemon @
             map (\<lambda>n. Rpc (node_host (cluster ! (node_id n - 1))) Run_Network_Manager) cluster @
             [Rpc (node_host first) (Run_Test_Daemon algorithm (node_port first)),
              Write_Master ''masterConfig.json'' master], Ret master))"

text \<open>The names of the machines are different, because their numbers are.\<close>

lemma vm_number:
  assumes "str i @ CHR ''-'' # s = str j @ CHR ''-'' # t"
  shows "i = j"
proof -
  have part: "takeWhile (\<lambda>c. c \<noteq> CHR ''-'') (str i @ CHR ''-'' # s) = str i" for i s
    using str_no_dash[of i] by (subst takeWhile_append2) auto
  from arg_cong[OF assms, of "takeWhile (\<lambda>c. c \<noteq> CHR ''-'')"] show ?thesis by (simp add: part)
qed

lemma vm_ids_differ:
  assumes "n \<in> set (gce_nodes vms)" "m \<in> set (gce_nodes vms)" "vm_id n = vm_id m"
  shows "n = m"
proof -
  obtain i where i: "i < length vms" "n = gce_nodes vms ! i"
    using assms(1) by (auto simp: in_set_conv_nth gce_nodes_def)
  obtain j where j: "j < length vms" "m = gce_nodes vms ! j"
    using assms(2) by (auto simp: in_set_conv_nth gce_nodes_def)
  have "str (Suc i) @ CHR ''-'' # fst (vms ! i) = str (Suc j) @ CHR ''-'' # fst (vms ! j)"
    using assms(3) i j by (simp add: gce_nodes_def nth_enumerate_eq split: prod.splits)
  from vm_number[OF this] show ?thesis using i j by simp
qed

subsection \<open>Tearing down\<close>

definition kill_process_by_port :: "string \<Rightarrow> action" where
  "kill_process_by_port port = Spawn [''fuser'', ''-k'', port @ ''/tcp'', port @ ''/udp'']"

text \<open>\<open>split(":")[1]\<close>\<close>

definition after_colon :: "string \<Rightarrow> string outcome" where
  "after_colon s =
     (if CHR '':'' \<in> set s then Ret (takeWhile (\<lambda>c. c \<noteq> CHR '':'') (tl (dropWhile (\<lambda>c. c \<noteq> CHR '':'') s)))
      else Raise IndexError)"

text \<open>\<open>files\<close>: the names in the working directory.\<close>

definition tear_down_local_cluster :: "master_config \<Rightarrow> string list \<Rightarrow> action list \<times> unit outcome" where
  "tear_down_local_cluster conf files =
     (let nodes = concat (map (\<lambda>n. [kill_process_by_port (str (node_port n)), kill_process_by_port (str (rpc_port n))])
                    (master_nodes conf)) in
      case after_colon (master_daemon conf) of
        Raise e \<Rightarrow> (nodes, Raise e)
      | Ret port \<Rightarrow>
          (nodes @ [kill_process_by_port port] @
             map (\<lambda>f. Remove_Tree (''./'' @ f)) (filter (\<lambda>f. sublist ''rethinkdb_data'' f) files), Ret ()))"

definition tear_down_gce_cluster :: "master_config \<Rightarrow> action list" where
  "tear_down_gce_cluster conf =
     map (\<lambda>n. Delete_Instance (vm_id n)) (master_nodes conf) @ map (\<lambda>n. Wait_Instance (vm_id n)) (master_nodes conf)"

definition local_daemon :: string where
  "local_daemon = ''127.0.0.1:'' @ str TEST_DAEMON_PORT"

lemma provided:
  assumes "provide_local_cluster os dir python k algorithm = Some (started, Ret master)"
  obtains first rest p as q where "local_cluster os k = Some (first # rest, p)"
    "algorithm_local os algorithm first rest local_daemon p = Some (as, q)"
    "master = \<lparr>master_mode = ''local'', master_algorithm = algorithm, master_daemon = local_daemon,
       master_nodes = first # rest\<rparr>"
    "started = map (\<lambda>n. Write_Config (node_file_path (node_id n)) (get_node_config (first # rest) n ''local'' [])) (first # rest) @
       as @ map (\<lambda>n. Spawn [python, ''network_manager.py'', node_file_path (node_id n)]) (first # rest) @
       map (\<lambda>n. Wait_Port (node_host n) (rpc_port n) True) (first # rest) @
       run_test_daemon dir algorithm (node_port first) @ [Write_Master ''masterConfig.json'' master]"
proof -
  obtain cluster p where c: "local_cluster os k = Some (cluster, p)"
    using assms unfolding provide_local_cluster_def by (cases "local_cluster os k") auto
  show thesis
  proof (cases cluster)
    case Nil
    then show ?thesis using assms c by (simp add: provide_local_cluster_def Let_def)
  next
    case (Cons first rest)
    obtain as q where a: "algorithm_local os algorithm first rest local_daemon p = Some (as, q)"
      using assms c Cons by (cases "algorithm_local os algorithm first rest local_daemon p")
        (auto simp: provide_local_cluster_def Let_def local_daemon_def)
    have eqs: "master = \<lparr>master_mode = ''local'', master_algorithm = algorithm, master_daemon = local_daemon,
         master_nodes = first # rest\<rparr>"
      "started = map (\<lambda>n. Write_Config (node_file_path (node_id n)) (get_node_config (first # rest) n ''local'' [])) (first # rest) @
       as @ map (\<lambda>n. Spawn [python, ''network_manager.py'', node_file_path (node_id n)]) (first # rest) @
       map (\<lambda>n. Wait_Port (node_host n) (rpc_port n) True) (first # rest) @
       run_test_daemon dir algorithm (node_port first) @ [Write_Master ''masterConfig.json'' master]"
      using assms unfolding provide_local_cluster_def Let_def c Cons bind.simps prod.case list.case local_daemon_def[symmetric] a
      by auto
    show ?thesis by (rule that[OF c[unfolded Cons] a eqs])
  qed
qed

text \<open>What was started is stopped.  For every port that provisioning a local cluster has waited
  for, tearing down kills the process that listens on it (\<open>rethinkdb\<close> aside, whose processes
  have other ports besides the one they are killed by).\<close>

lemma teardown_complete:
  assumes "provide_local_cluster os dir python k algorithm = Some (started, Ret master)" "algorithm \<noteq> ''rethinkdb''"
    "Wait_Port h port tcp \<in> set started"
  shows "kill_process_by_port (str port) \<in> set (fst (tear_down_local_cluster master files)) \<and>
    snd (tear_down_local_cluster master files) = Ret ()"
proof -
  obtain first rest p as q where c: "local_cluster os k = Some (first # rest, p)"
    "algorithm_local os algorithm first rest local_daemon p = Some (as, q)"
    "master = \<lparr>master_mode = ''local'', master_algorithm = algorithm, master_daemon = local_daemon,
       master_nodes = first # rest\<rparr>"
    and e: "started = map (\<lambda>n. Write_Config (node_file_path (node_id n)) (get_node_config (first # rest) n ''local'' [])) (first # rest) @
       as @ map (\<lambda>n. Spawn [python, ''network_manager.py'', node_file_path (node_id n)]) (first # rest) @
       map (\<lambda>n. Wait_Port (node_host n) (rpc_port n) True) (first # rest) @
       run_test_daemon dir algorithm (node_port first) @ [Write_Master ''masterConfig.json'' master]"
    by (rule provided[OF assms(1)])
  have st: "Wait_Port h port tcp \<in> set as \<or> port \<in> rpc_port ` set (first # rest) \<or> port = TEST_DAEMON_PORT"
    using assms(3) unfolding e by (auto simp: run_test_daemon_def wait_for_ports_def)
  have "port \<in> node_port ` set (first # rest)" if "Wait_Port h port tcp \<in> set as"
    using c(2) assms(2) that
    by (auto simp: algorithm_local_def configure_pso_local_def configure_paxos_local_def run_pso_node_def
        run_paxos_node_def wait_for_ports_def split: if_splits)
  with st have port: "(\<exists>n\<in>set (first # rest). port = node_port n \<or> port = rpc_port n) \<or> port = TEST_DAEMON_PORT"
    by auto
  have "takeWhile (\<lambda>c. c \<noteq> CHR '':'') (str TEST_DAEMON_PORT) = str TEST_DAEMON_PORT"
    using str_digits by (simp add: takeWhile_eq_all_conv)
  then have d: "after_colon (master_daemon master) = Ret (str TEST_DAEMON_PORT)"
    by (simp add: after_colon_def c(3) local_daemon_def)
  have m: "master_nodes master = first # rest" by (simp add: c(3))
  show ?thesis using port unfolding tear_down_local_cluster_def Let_def d outcome.case m fst_conv snd_conv by auto
qed

subsection \<open>Delays between the nodes of one machine\<close>

text \<open>The network manager that is started with a configuration file.\<close>

definition netem_of :: "node_config \<Rightarrow> netem_manager" where
  "netem_of c =
     \<lparr>nm_interface = config_interface c, nm_host_id = str (host_id c),
      nm_peers = map (\<lambda>p. \<lparr>peer_id = str (peer_no p), ports_to_lock = Some (map str (lock_ports p)),
         addresses_to_lock = Some (lock_addresses p)\<rparr>) (config_peers c),
      nm_mode = config_mode c\<rparr>"

lemma str_digit: "n < 10 \<Longrightarrow> str n = [char_of (48 + n)]"
  by (simp add: str.simps[of n])

text \<open>With more than ten nodes two links would share a class.\<close>

lemma classes_collide: "destination_id (netem_of (get_node_config ns n mode as)) (str 11) =
    destination_id (netem_of (get_node_config ns m mode as)) (str 1)"
  if "node_id n = 1" "node_id m = 11"
  using that by (simp add: destination_id_def netem_of_def get_node_config_def str.simps)

text \<open>C29: every link has its own delay line.  All nodes of a local cluster put their classes on
  the same interface; for every cluster the provisioner accepts, of at most \<open>MAX_CLUSTER_NODES\<close>
  nodes, two links from a node to a peer have the same class id only if they are the same link.\<close>

theorem local_links_separate:
  assumes "local_cluster os k = Some (ns, q)" "k \<le> MAX_CLUSTER_NODES" "n \<in> set ns" "m \<in> set ns"
    "p \<in> set (nm_peers (netem_of (get_node_config ns n mode as)))"
    "r \<in> set (nm_peers (netem_of (get_node_config ns m mode bs)))"
    "destination_id (netem_of (get_node_config ns n mode as)) (peer_id p) =
     destination_id (netem_of (get_node_config ns m mode bs)) (peer_id r)"
  shows "n = m \<and> peer_id p = peer_id r"
proof -
  have ids: "map node_id ns = [1..<k + 1]" using local_cluster_ids[OF assms(1)] .
  have small: "node_id x < 10" if "x \<in> set ns" for x
  proof -
    have "node_id x \<in> set (map node_id ns)" using that by simp
    then have "node_id x < k + 1" unfolding ids by (simp del: upt_Suc)
    then show ?thesis using assms(2) by (simp add: MAX_CLUSTER_NODES_def)
  qed
  obtain x y where xy: "x \<in> set ns" "peer_id p = str (node_id x)" "y \<in> set ns" "peer_id r = str (node_id y)"
    using assms(5,6) by (auto simp: netem_of_def get_node_config_def)
  have "str (node_id n) = str (node_id m) \<and> str (node_id x) = str (node_id y)"
    using assms(7) xy small[OF assms(3)] small[OF assms(4)] small[OF xy(1)] small[OF xy(3)]
    by (simp add: destination_id_def netem_of_def get_node_config_def str_digit)
  moreover have "inj_on node_id (set ns)" using ids by (metis distinct_map distinct_upt)
  ultimately show ?thesis using assms(3,4) xy by (auto dest: inj_onD)
qed

theorem local_links_separate_witness:
  "\<exists>ns q. local_cluster sample_ports 2 = Some (ns, q) \<and>
     destination_id (netem_of (get_node_config ns (ns ! 0) ''local'' [])) (str 2) \<noteq>
     destination_id (netem_of (get_node_config ns (ns ! 1) ''local'' [])) (str 1)"
proof -
  obtain ns q where c: "local_cluster sample_ports 2 = Some (ns, q)" by (rule sample_cluster)
  have ids: "map node_id ns = [1, 2]" using local_cluster_ids[OF c] by (simp add: upt_rec)
  then obtain n m where ns: "ns = [n, m]" "node_id n = 1" "node_id m = 2" by auto
  let ?c = "\<lambda>x. netem_of (get_node_config ns x ''local'' [])"
  obtain p r where p: "p \<in> set (nm_peers (?c n))" "peer_id p = str 2" and r: "r \<in> set (nm_peers (?c m))" "peer_id r = str 1"
    using ns by (auto simp: netem_of_def get_node_config_def)
  have "n \<in> set ns" "m \<in> set ns" "2 \<le> MAX_CLUSTER_NODES" using ns by (simp_all add: MAX_CLUSTER_NODES_def)
  from local_links_separate[OF c this(3,1,2) p(1) r(1)]
  have "destination_id (?c n) (peer_id p) = destination_id (?c m) (peer_id r) \<Longrightarrow> n = m" by blast
  then have "destination_id (?c n) (str 2) \<noteq> destination_id (?c m) (str 1)" using ns p(2) r(2) by auto
  then show ?thesis using c ns by auto
qed

subsection \<open>PySyncObj on virtual machines\<close>

text \<open>The own address and those of the peers, as \<open>custom_server.py\<close> makes them of its
  configuration.\<close>

definition pso_self :: "node_config \<Rightarrow> string" where
  "pso_self c = ''127.0.0.1:'' @ str (host_port c)"

definition pso_peers :: "node_config \<Rightarrow> string list" where
  "pso_peers c = map (\<lambda>p. peer_address p @ '':'' @ str (peer_port p)) (config_peers c)"

lemma pso_local_known:
  assumes "n \<in> set ns" "m \<in> set ns" "node_id n \<noteq> node_id m" "node_host m = ''127.0.0.1''"
  shows "pso_self (get_node_config ns m mode as) \<in> set (pso_peers (get_node_config ns n mode as))"
  using assms by (auto simp: pso_self_def pso_peers_def get_node_config_def image_iff intro!: bexI[of _ m])

lemma pso_gce_unknown:
  assumes "\<forall>m\<in>set ns. node_host m \<noteq> ''127.0.0.1'' \<and> CHR '':'' \<notin> set (node_host m)"
  shows "pso_self c \<notin> set (pso_peers (get_node_config ns n mode as))"
proof
  assume "pso_self c \<in> set (pso_peers (get_node_config ns n mode as))"
  then obtain m where m: "m \<in> set ns" "''127.0.0.1'' @ '':'' @ str (host_port c) = node_host m @ '':'' @ str (node_port m)"
    by (auto simp: pso_self_def pso_peers_def get_node_config_def)
  have tw: "takeWhile (\<lambda>c. c \<noteq> CHR '':'') (xs @ '':'' @ ys) = xs" if "CHR '':'' \<notin> set xs" for xs ys :: string
    using that by (subst takeWhile_append2) auto
  have "node_host m = takeWhile (\<lambda>c. c \<noteq> CHR '':'') (node_host m @ '':'' @ str (node_port m))"
    using tw m(1) assms by simp
  also have "\<dots> = takeWhile (\<lambda>c. c \<noteq> CHR '':'') (''127.0.0.1'' @ '':'' @ str (host_port c))" by (simp only: m(2))
  also have "\<dots> = ''127.0.0.1''" by simp
  finally have "node_host m = ''127.0.0.1''" .
  then show False using m(1) assms by blast
qed

text \<open>On virtual machines PySyncObj's nodes turn each other away.  Every node takes itself for
  127.0.0.1, but its peers are configured with its external address.  So when a node of a gce
  cluster has accepted a connection over which any node of the cluster introduces itself, it
  does not find the caller among its peers and drops the connection; no peer's state changes.\<close>

lemma gce_callers_refused:
  assumes "\<forall>m\<in>set ns. node_host m \<noteq> ''127.0.0.1'' \<and> CHR '':'' \<notin> set (node_host m)"
    "map node_address (peer_nodes l) = pso_peers (get_node_config ns n ''gce'' as)"
    "unknown l d = Some c"
    "get_message unpack (fst (conn_read (le_now env) (le_recv env) (le_so_error env) c)) =
       (c1, Ret (Some (Address (pso_self (get_node_config ns m ''gce'' as)))))"
  shows "process_unknown unpack env d READ l =
    (l\<lparr>unknown := (unknown l)(d := None), link_poller := poll_unsubscribe d (link_poller l)\<rparr>, Ret ())"
proof -
  let ?a = "pso_self (get_node_config ns m ''gce'' as)"
  have "?a \<notin> node_address ` set (peer_nodes l)"
    using pso_gce_unknown[OF assms(1)] assms(2) by (metis list.set_map)
  then have "find (\<lambda>n. node_address n = ?a) (peer_nodes l) = None"
    by (auto simp: find_None_iff image_iff)
  then show ?thesis by (simp add: process_unknown_def assms(3,4) has_def masks)
qed

end
