(* ===== verification/Raft_Status.thy ===== *)
theory Raft_Status
  imports Raft_Node Peer_Links Deployment
begin

section \<open>Addresses and status of a node\<close>

text \<open>
  What \<open>pysyncobj\<close> makes of the text of an address, in \<open>__bind\<close> and in \<open>Node.__init__\<close>; what a
  node tells about itself; and the lines of \<open>debug_utils.py\<close>.
\<close>

subsection \<open>Addresses\<close>

text \<open>\<open>split(':')\<close>, and \<open>int\<close> of a text of digits; the blanks and signs that \<open>int\<close> takes as well do
  not occur in an address.\<close>

fun split_colon :: "string \<Rightarrow> string list" where
  "split_colon [] = [[]]"
| "split_colon (c # s) =
     (if c = CHR '':'' then [] # split_colon s else (c # hd (split_colon s)) # tl (split_colon s))"

definition port_of :: "string \<Rightarrow> nat outcome" where
  "port_of s = (if s \<noteq> [] \<and> set s \<subseteq> set ''0123456789'' then Ret (number_of s) else Raise ValueError)"

definition bind_address :: "string \<Rightarrow> (string \<times> nat) outcome" where
  "bind_address a =
     (case split_colon a of
        [host, port] \<Rightarrow> (case port_of port of Ret p \<Rightarrow> Ret (host, p) | Raise e \<Rightarrow> Raise e)
      | _ \<Rightarrow> Raise ValueError)"

text \<open>\<open>resolve\<close>: what the resolver answers for a name.\<close>

definition dial_address :: "(string \<Rightarrow> 'ip) \<Rightarrow> string \<Rightarrow> ('ip \<times> nat) outcome" where
  "dial_address resolve a =
     (let ip = resolve (split_colon a ! 0) in
      if length (split_colon a) < 2 then Raise IndexError
      else case port_of (split_colon a ! 1) of Ret p \<Rightarrow> Ret (ip, p) | Raise e \<Rightarrow> Raise e)"

lemma split_colon_plain: "CHR '':'' \<notin> set s \<Longrightarrow> split_colon s = [s]"
  by (induction s) auto

lemma split_colon_two: "CHR '':'' \<notin> set h \<Longrightarrow> split_colon (h @ CHR '':'' # s) = h # split_colon s"
  by (induction h) auto

lemma port_of_str: "port_of (str n) = Ret n"
  using str_is_digits[of n] by (simp add: port_of_def number_of_str)

text \<open>An address made of a host without colons and a number is taken apart as it was put together,
  by the node that listens and by the node that dials.\<close>

lemma address_back:
  assumes "CHR '':'' \<notin> set h"
  shows "bind_address (h @ '':'' @ str p) = Ret (h, p)" "dial_address resolve (h @ '':'' @ str p) = Ret (resolve h, p)"
proof -
  have "CHR '':'' \<notin> set (str p)" using str_digits by blast
  then have "split_colon (h @ '':'' @ str p) = [h, str p]" using split_colon_two[OF assms, of "str p"] split_colon_plain by simp
  then show "bind_address (h @ '':'' @ str p) = Ret (h, p)" "dial_address resolve (h @ '':'' @ str p) = Ret (resolve h, p)"
    by (simp_all add: bind_address_def dial_address_def port_of_str)
qed

text \<open>On the cluster of one machine every node listens where the others dial it.\<close>

lemma local_nodes_meet:
  assumes "local_cluster os k = Some (ns, q)" "n \<in> set ns" "m \<in> set ns" "node_id m \<noteq> node_id n"
  shows "\<exists>a\<in>set (pso_peers (get_node_config ns n ''local'' [])).
    bind_address (pso_self (get_node_config ns m ''local'' [])) = Ret (''127.0.0.1'', node_port m) \<and>
    dial_address id a = Ret (''127.0.0.1'', node_port m)"
proof
  have h: "node_host m = ''127.0.0.1''"
  proof -
    have "node_host n = ''127.0.0.1''" if "local_nodes os is p = Some (ns, q)" "n \<in> set ns" for "is" p ns q n
      using that by (induction "is" arbitrary: p ns) (auto simp: bind_eq_Some_conv local_node_def)
    then show ?thesis using assms(1,3) unfolding local_cluster_def by blast
  qed
  show "''127.0.0.1:'' @ str (node_port m) \<in> set (pso_peers (get_node_config ns n ''local'' []))"
    using assms(3,4) h by (auto simp: pso_peers_def get_node_config_def image_iff intro!: bexI[of _ m])
  have "CHR '':'' \<notin> set ''127.0.0.1''" by simp
  note both = address_back(1)[OF this, of "node_port m"] address_back(2)[OF this, of id "node_port m"]
  show "bind_address (pso_self (get_node_config ns m ''local'' [])) = Ret (''127.0.0.1'', node_port m) \<and>
      dial_address id (''127.0.0.1:'' @ str (node_port m)) = Ret (''127.0.0.1'', node_port m)"
    using both by (simp add: pso_self_def get_node_config_def)
qed

subsection \<open>Status\<close>

definition get_last_commit_index :: "('c, 'r, 's) raft \<Rightarrow> int" where
  "get_last_commit_index n = commit_index n"

definition is_leader :: "('c, 'r, 's) raft \<Rightarrow> bool" where
  "is_leader n \<longleftrightarrow> role n = LEADER"

definition get_leader :: "('c, 'r, 's) raft \<Rightarrow> addr option" where
  "get_leader n = raft_leader n"

definition get_raft_log_size :: "('c, 'r, 's) raft \<Rightarrow> nat" where
  "get_raft_log_size n = length (raft_log n)"

text \<open>The lines of the debug log: header, message, and the remaining arguments as Python shows a tuple,
  if there are any.\<close>

definition get_header :: "string \<Rightarrow> string \<Rightarrow> nat \<Rightarrow> string" where
  "get_header message_type file line = ''['' @ message_type @ ''] ('' @ file @ '', '' @ str line @ ''):''"

definition print_log_message :: "('a list \<Rightarrow> string) \<Rightarrow> string \<Rightarrow> string \<times> nat \<Rightarrow> string \<Rightarrow> 'a list \<Rightarrow> string" where
  "print_log_message shown message_type pos msg args =
     get_header message_type (fst pos) (snd pos) @ '' '' @ msg @ (if args = [] then [] else '' '' @ shown args)"

definition log_warning :: "('a list \<Rightarrow> string) \<Rightarrow> string \<times> nat \<Rightarrow> string \<Rightarrow> 'a list \<Rightarrow> string" where
  "log_warning shown pos msg args = print_log_message shown ''WARNING'' pos msg args"

definition log_debug :: "('a list \<Rightarrow> string) \<Rightarrow> string \<times> nat \<Rightarrow> string \<Rightarrow> 'a list \<Rightarrow> string" where
  "log_debug shown pos msg args = print_log_message shown ''DEBUG'' pos msg args"

text \<open>\<open>LOG_CURRENT_EXCEPTION\<close>: the header, then the traceback, which is an argument.\<close>

definition log_current_exception :: "string \<times> nat \<Rightarrow> string list \<Rightarrow> string list" where
  "log_current_exception pos trace = get_header ''EXCEPTION'' (fst pos) (snd pos) # trace"

text \<open>\<open>_printStatus\<close>: what is logged, in order; \<open>compressed\<close>
  gives the length of the pickled and compressed log.\<close>

datatype status_value =
    Own_Address addr
  | Leader_Address "addr option"
  | Number_Shown int
  | Node_Shown node_status
  | Indices_Shown "(addr \<times> int) list"

definition print_status :: "('c log \<Rightarrow> nat) \<Rightarrow> (addr \<Rightarrow> node_status) \<Rightarrow> ('c, 'r, 's) raft \<Rightarrow> (string \<times> status_value) list" where
  "print_status compressed link n =
     [(''self'', Own_Address (self_addr n)), (''leader'', Leader_Address (raft_leader n)),
      (''partner nodes'', Number_Shown (int (length (other_addrs n))))] @
     map (\<lambda>a. (a, Node_Shown (link a))) (other_addrs n) @
     [(''log len:'', Number_Shown (int (length (raft_log n)))), (''log size bytes:'', Number_Shown (int (compressed (raft_log n)))),
      (''last applied:'', Number_Shown (last_applied n)), (''commit idx:'', Number_Shown (commit_index n)),
      (''next node idx:'', Indices_Shown (map (\<lambda>a. (a, next_index n a)) (other_addrs n)))]"

end
