(* ===== verification/Dns_Resolver.thy ===== *)
theory Dns_Resolver
  imports Complex_Main
begin

section \<open>The resolver's cache\<close>

text \<open>
  Class \<open>DnsCachingResolver\<close> of \<open>pysyncobj/dns_resolver.py\<close>.  What the system's resolver
  answers (\<open>None\<close> when it fails) and which address \<open>random.choice\<close> picks are arguments.
\<close>

record 'ip resolver =
  cache :: "string \<Rightarrow> (rat \<times> 'ip list) option"
  cache_time :: rat
  fail_cache_time :: rat

definition init_resolver :: "rat \<Rightarrow> rat \<Rightarrow> 'ip resolver" where
  "init_resolver t f = \<lparr>cache = Map.empty, cache_time = t, fail_cache_time = f\<rparr>"

definition do_resolve :: "'ip list option \<Rightarrow> 'ip list" where
  "do_resolve answer = (case answer of None \<Rightarrow> [] | Some ips \<Rightarrow> ips)"

definition cached :: "string \<Rightarrow> 'ip resolver \<Rightarrow> rat \<times> 'ip list" where
  "cached h r = (case cache r h of None \<Rightarrow> (0, []) | Some x \<Rightarrow> x)"

text \<open>Whether the system's resolver is asked.\<close>

definition stale :: "rat \<Rightarrow> string \<Rightarrow> 'ip resolver \<Rightarrow> bool" where
  "stale now h r \<longleftrightarrow>
     (let (t, ips) = cached h r; passed = now - t in
      passed > cache_time r \<or> ips = [] \<and> passed > fail_cache_time r)"

definition resolve :: "rat \<Rightarrow> 'ip list option \<Rightarrow> ('ip list \<Rightarrow> 'ip) \<Rightarrow> string \<Rightarrow> 'ip resolver
    \<Rightarrow> 'ip resolver \<times> 'ip option" where
  "resolve now answer choice h r =
     (let (t, prev) = cached h r;
          ips = (if stale now h r then (if do_resolve answer = [] then prev else do_resolve answer) else prev);
          r1 = (if stale now h r then r\<lparr>cache := (cache r)(h \<mapsto> (now, ips))\<rparr> else r) in
      (r1, if ips = [] then None else Some (choice ips)))"

subsection \<open>What a sequence of calls sees\<close>

record 'ip lookup =
  lk_now :: rat
  lk_host :: string
  lk_answer :: "'ip list option"      \<comment> \<open>what the system would answer\<close>

text \<open>The answers of the system to the questions that were asked, the newest first.\<close>

fun asked_answers :: "('ip list \<Rightarrow> 'ip) \<Rightarrow> string \<Rightarrow> 'ip lookup list \<Rightarrow> 'ip resolver \<Rightarrow> 'ip list list" where
  "asked_answers choice h [] r = []"
| "asked_answers choice h (l # ls) r =
     asked_answers choice h ls (fst (resolve (lk_now l) (lk_answer l) choice (lk_host l) r)) @
     (if lk_host l = h \<and> stale (lk_now l) h r then [do_resolve (lk_answer l)] else [])"

definition lookups :: "('ip list \<Rightarrow> 'ip) \<Rightarrow> 'ip lookup list \<Rightarrow> 'ip resolver \<Rightarrow> 'ip resolver" where
  "lookups choice ls r = fold (\<lambda>l r. fst (resolve (lk_now l) (lk_answer l) choice (lk_host l) r)) ls r"

definition newest :: "'ip list list \<Rightarrow> 'ip list" where
  "newest answers = (case find (\<lambda>a. a \<noteq> []) answers of None \<Rightarrow> [] | Some a \<Rightarrow> a)"

lemma newest_append: "newest (xs @ ys) = (if newest xs \<noteq> [] then newest xs else newest ys)"
  by (induction xs) (auto simp: newest_def)

lemma newest_simps [simp]: "newest [] = []" "newest (x # xs) = (if x = [] then newest xs else x)"
  by (simp_all add: newest_def)

lemma cached_resolve:
  "snd (cached h (fst (resolve now answer choice g r))) =
     (if g = h \<and> stale now h r \<and> do_resolve answer \<noteq> [] then do_resolve answer else snd (cached h r))"
  by (auto simp: resolve_def cached_def Let_def split: prod.split option.split)

lemma cached_lookups:
  "snd (cached h (lookups choice ls r)) =
     (if newest (asked_answers choice h ls r) \<noteq> [] then newest (asked_answers choice h ls r) else snd (cached h r))"
proof (induction ls arbitrary: r)
  case (Cons l ls)
  let ?r = "fst (resolve (lk_now l) (lk_answer l) choice (lk_host l) r)"
  have "lookups choice (l # ls) r = lookups choice ls ?r" by (simp add: lookups_def)
  then show ?case
    using Cons[of ?r] cached_resolve[of h "lk_now l" "lk_answer l" choice "lk_host l" r]
    by (auto simp: newest_append)
qed (simp add: lookups_def)

text \<open>The resolver remembers the last good answer.  After any sequence of calls, for any
  hosts, an address that \<open>resolve\<close> gives for a host is picked from the newest non-empty answer
  the system has given for this host, this call included, and it gives none exactly if there has
  been none; and within the cache time of a question, the system is not asked again once an
  address is known.\<close>

lemma resolver_last_answer:
  assumes "r = lookups choice ls (init_resolver t f)"
    "known = newest ((if stale now h r then [do_resolve answer] else []) @ asked_answers choice h ls (init_resolver t f))"
  shows "snd (resolve now answer choice h r) = (if known = [] then None else Some (choice known)) \<and>
    (stale now h r \<longrightarrow> known \<noteq> [] \<longrightarrow> now \<le> later \<longrightarrow> later - now \<le> cache_time r \<longrightarrow>
     \<not> stale later h (fst (resolve now answer choice h r)))"
proof -
  have "snd (cached h r) = newest (asked_answers choice h ls (init_resolver t f))"
    unfolding assms(1) cached_lookups by (simp add: cached_def init_resolver_def)
  then have known: "known = (if stale now h r \<and> do_resolve answer \<noteq> [] then do_resolve answer else snd (cached h r))"
    using assms(2) by simp
  then show ?thesis
    by (auto simp: resolve_def stale_def cached_def Let_def split: prod.split)
qed

end
