(* ===== verification/Cluster_Programs.thy ===== *)
theory Cluster_Programs
  imports Deployment
begin

section \<open>The programs around a cluster\<close>

text \<open>
  The command lines of \<open>provisioner.py\<close> and \<open>tear_down.py\<close>, and the script
  \<open>configure_daemon_tester.py\<close>; and how a machine of the cloud gets its configuration.  What
  they print is left out.  \<open>argparse\<close> leaves the program
  when an argument is not among its choices.
\<close>

definition CLUSTER_MODES :: "string list" where
  "CLUSTER_MODES = [''local'', ''gce'']"

definition CONSENSUS_ALGORITHMS :: "string list" where
  "CONSENSUS_ALGORITHMS = [''pso'', ''paxos'', ''rethinkdb'', ''datastore'']"

text \<open>The arguments after parsing, with their defaults.\<close>

record arguments =
  arg_nodes :: nat
  arg_mode :: string
  arg_algorithm :: string

definition default_arguments :: arguments where
  "default_arguments = \<lparr>arg_nodes = 3, arg_mode = ''local'', arg_algorithm = ''datastore''\<rparr>"

definition accepted :: "arguments \<Rightarrow> bool" where
  "accepted a \<longleftrightarrow> arg_nodes a \<in> set [1..<MAX_CLUSTER_NODES + 1] \<and> arg_mode a \<in> set CLUSTER_MODES \<and>
     arg_algorithm a \<in> set CONSENSUS_ALGORITHMS"

text \<open>\<open>main\<close> of the provisioner.  \<open>vm i\<close>: what the cloud service hands out for the i-th machine.
  An exception is printed, and what was done before it stays done.\<close>

definition provision :: "port_source \<Rightarrow> (nat \<Rightarrow> string \<times> string \<times> string) \<Rightarrow> string \<Rightarrow> string \<Rightarrow> arguments
    \<Rightarrow> (action list \<times> unit outcome) option" where
  "provision os vm dir python a =
     (if \<not> accepted a then Some ([], Raise SystemExit)
      else if arg_mode a = ''local''
      then map_option (\<lambda>(actions, _). (actions, Ret ())) (provide_local_cluster os dir python (arg_nodes a) (arg_algorithm a))
      else if arg_mode a = ''gce''
      then Some (fst (provide_gce_cluster (map vm [1..<arg_nodes a + 1]) (arg_algorithm a)), Ret ())
      else Some ([], Ret ()))"

text \<open>\<open>main\<close> of \<open>tear_down.py\<close>, with the file the provisioner has written.\<close>

definition tear_down :: "master_config \<Rightarrow> string list \<Rightarrow> action list \<times> unit outcome" where
  "tear_down conf files =
     (if master_mode conf = ''local'' then tear_down_local_cluster conf files
      else if master_mode conf = ''gce'' then (tear_down_gce_cluster conf, Ret ())
      else ([], Ret ()))"

lemma gce_actions:
  "Create_Instance v m \<notin> set (algorithm_gce algorithm first rest d)"
  "Write_Master f w \<notin> set (algorithm_gce algorithm first rest d)"
  by (auto simp: algorithm_gce_def configure_pso_gce_def configure_paxos_gce_def configure_rethinkdb_gce_def
      GCE_RETHINKDB_PORTS_def)

lemma gce_provided:
  assumes "Write_Master f master \<in> set (fst (provide_gce_cluster vms algorithm))"
  shows "master_mode master = ''gce'' \<and> master_nodes master = gce_nodes vms"
proof (cases "gce_nodes vms")
  case Nil
  then show ?thesis using assms by (simp add: provide_gce_cluster_def Let_def)
next
  case (Cons first rest)
  then show ?thesis using assms by (auto simp: provide_gce_cluster_def Let_def gce_actions)
qed

lemma gce_created:
  assumes "Create_Instance v m \<in> set (fst (provide_gce_cluster vms algorithm))"
  shows "v \<in> vm_id ` set (gce_nodes vms)"
proof (cases "gce_nodes vms")
  case Nil
  then show ?thesis using assms by (simp add: provide_gce_cluster_def Let_def)
next
  case (Cons first rest)
  then show ?thesis using assms by (auto simp: provide_gce_cluster_def Let_def gce_actions)
qed

lemma local_actions:
  assumes "algorithm_local os algorithm first rest d p = Some (as, q)"
  shows "Write_Master f w \<notin> set as" "Create_Instance v m \<notin> set as"
proof -
  have "Write_Master f w \<notin> set (fst r) \<and> Create_Instance v m \<notin> set (fst r)"
    if "rethinkdb_followers os ip cp ns p' = Some r" for ip cp ns p' r
    using that by (induction ns arbitrary: p' r)
      (auto simp: bind_eq_Some_conv configure_rethinkdb_follower_def wait_for_ports_def)
  note followers = this
  have "Write_Master f w \<notin> set as \<and> Create_Instance v m \<notin> set as"
    using assms by (auto simp: algorithm_local_def configure_pso_local_def configure_paxos_local_def run_pso_node_def
        run_paxos_node_def configure_rethinkdb_local_def configure_rethinkdb_master_def wait_for_ports_def
        bind_eq_Some_conv split: if_splits dest!: followers)
  then show "Write_Master f w \<notin> set as" "Create_Instance v m \<notin> set as" by auto
qed

lemma local_provided:
  assumes "provide_local_cluster os dir python k algorithm = Some (started, r)" "Write_Master f master \<in> set started"
  shows "r = Ret master \<and> master_mode master = ''local'' \<and> Create_Instance v m \<notin> set started"
proof (cases r)
  case (Raise e)
  then obtain cluster p where "local_cluster os k = Some (cluster, p)" "cluster = []" "Write_Master f master \<notin> set started"
    using assms(1) unfolding provide_local_cluster_def Let_def bind_eq_Some_conv
    by (force split: list.splits prod.splits simp: bind_eq_Some_conv)
  then show ?thesis using assms(2) by simp
next
  case (Ret w)
  obtain first rest p as q where c:
    "algorithm_local os algorithm first rest local_daemon p = Some (as, q)"
    "w = \<lparr>master_mode = ''local'', master_algorithm = algorithm, master_daemon = local_daemon,
       master_nodes = first # rest\<rparr>"
    "started = map (\<lambda>n. Write_Config (node_file_path (node_id n)) (get_node_config (first # rest) n ''local'' [])) (first # rest) @
       as @ map (\<lambda>n. Spawn [python, ''network_manager.py'', node_file_path (node_id n)]) (first # rest) @
       map (\<lambda>n. Wait_Port (node_host n) (rpc_port n) True) (first # rest) @
       run_test_daemon dir algorithm (node_port first) @ [Write_Master ''masterConfig.json'' w]"
    by (rule provided[OF assms(1)[unfolded Ret]])
  have "master = w" using assms(2) local_actions(1)[OF c(1)] unfolding c(3)
    by (auto simp: run_test_daemon_def wait_for_ports_def)
  moreover have "Create_Instance v m \<notin> set started" using local_actions(2)[OF c(1)] unfolding c(3)
    by (auto simp: run_test_daemon_def wait_for_ports_def)
  ultimately show ?thesis by (simp add: Ret c(2))
qed

text \<open>Provisioning and tearing down.  With the file that a run of the provisioner has written,
  whatever its arguments, \<open>tear_down.py\<close> ends normally; it deletes every machine that
  was created, and on one machine it kills what listens on every port that was waited for
  (processes of \<open>rethinkdb\<close> have other ports as well).\<close>

lemma provisioned_is_torn_down:
  assumes "provision os vm dir python a = Some (started, r)" "Write_Master f master \<in> set started"
  shows "snd (tear_down master files) = Ret () \<and>
    (\<forall>v m. Create_Instance v m \<in> set started \<longrightarrow> Delete_Instance v \<in> set (fst (tear_down master files))) \<and>
    (\<forall>h port tcp. arg_mode a = ''local'' \<and> arg_algorithm a \<noteq> ''rethinkdb'' \<and> Wait_Port h port tcp \<in> set started \<longrightarrow>
       kill_process_by_port (str port) \<in> set (fst (tear_down master files)))"
proof -
  have ok: "accepted a" using assms by (auto simp: provision_def split: if_splits)
  then consider "arg_mode a = ''local''" | "arg_mode a = ''gce''" by (auto simp: accepted_def CLUSTER_MODES_def)
  then show ?thesis
  proof cases
    case 1
    then obtain w where w: "provide_local_cluster os dir python (arg_nodes a) (arg_algorithm a) = Some (started, w)"
      using assms(1) ok by (auto simp: provision_def)
    note m = local_provided[OF w assms(2)]
    have port: "after_colon (master_daemon master) = Ret (str TEST_DAEMON_PORT)"
    proof -
      obtain first rest p as q where "master = \<lparr>master_mode = ''local'', master_algorithm = arg_algorithm a,
          master_daemon = local_daemon, master_nodes = first # rest\<rparr>"
        using m w by (auto elim: provided)
      moreover have "takeWhile (\<lambda>c. c \<noteq> CHR '':'') (str TEST_DAEMON_PORT) = str TEST_DAEMON_PORT"
        using str_digits by (simp add: takeWhile_eq_all_conv)
      ultimately show ?thesis by (simp add: after_colon_def local_daemon_def)
    qed
    have t: "tear_down master files = tear_down_local_cluster master files" using m by (simp add: tear_down_def)
    have "snd (tear_down_local_cluster master files) = Ret ()" unfolding tear_down_local_cluster_def Let_def port by simp
    then show ?thesis unfolding t using m teardown_complete[OF w[unfolded m[THEN conjunct1]]] by blast
  next
    case 2
    then have s: "started = fst (provide_gce_cluster (map vm [1..<arg_nodes a + 1]) (arg_algorithm a))"
      using assms(1) ok by (auto simp: provision_def)
    note m = gce_provided[OF assms(2)[unfolded s]]
    have "Delete_Instance v \<in> set (tear_down_gce_cluster master)" if "Create_Instance v d \<in> set started" for v d
      using gce_created[OF that[unfolded s]] m by (auto simp: tear_down_gce_cluster_def)
    then show ?thesis using m 2 by (simp add: tear_down_def)
  qed
qed

subsection \<open>How a machine gets its configuration\<close>

lemma config_file_inject: "config_file_name v = config_file_name w \<longleftrightarrow> v = w"
  by (simp add: config_file_name_def)

lemma no_uploads:
  "Upload f g \<notin> set (algorithm_gce algorithm first rest d)" "Write_Config f c \<notin> set (algorithm_gce algorithm first rest d)"
  "Rpc ip Download_Node_Config \<notin> set (algorithm_gce algorithm first rest d)"
  by (auto simp: algorithm_gce_def configure_pso_gce_def configure_paxos_gce_def configure_rethinkdb_gce_def GCE_RETHINKDB_PORTS_def)

text \<open>What provisioning does before the machines are told to download, and after.\<close>

definition prepared :: "(string \<times> string \<times> string) list \<Rightarrow> string \<Rightarrow> action list" where
  "prepared vms algorithm =
     (let cluster = gce_nodes vms; additional = (if algorithm = ''rethinkdb'' then [fst (snd GCE_RETHINKDB_PORTS)] else []) in
      map (\<lambda>n. Create_Instance (vm_id n) [(''bucket'', ''krafters''),
        (''clusterConfig'', ''config/'' @ config_file_name (vm_id n)), (''myid'', vm_id n)]) cluster @
      map (\<lambda>n. Wait_Instance (vm_id n)) cluster @ [Ensure_Firewall] @ map (\<lambda>n. Take_Acknowledgement (vm_id n)) cluster @
      concat (map (\<lambda>n. [Write_Config (''/tmp/'' @ config_file_name (vm_id n)) (get_node_config cluster n ''gce'' additional),
        Upload (''/tmp/'' @ config_file_name (vm_id n)) (''config/'' @ config_file_name (vm_id n))]) cluster))"

lemma provided_in_two:
  assumes "gce_nodes vms \<noteq> []"
  obtains rest where "fst (provide_gce_cluster vms algorithm) =
      prepared vms algorithm @ map (\<lambda>n. Rpc (node_host n) Download_Node_Config) (gce_nodes vms) @ rest"
    "\<And>f g. Upload f g \<notin> set rest" "\<And>f c. Write_Config f c \<notin> set rest"
proof -
  obtain first others where c: "gce_nodes vms = first # others" using assms by (cases "gce_nodes vms") auto
  define daemon where "daemon = node_host first @ '':'' @ str TEST_DAEMON_PORT"
  define rest where "rest = algorithm_gce algorithm first others daemon @
    map (\<lambda>n. Rpc (node_host (gce_nodes vms ! (node_id n - 1))) Run_Network_Manager) (gce_nodes vms) @
    [Rpc (node_host first) (Run_Test_Daemon algorithm (node_port first)),
     Write_Master ''masterConfig.json'' \<lparr>master_mode = ''gce'', master_algorithm = algorithm,
       master_daemon = daemon, master_nodes = gce_nodes vms\<rparr>]"
  have "fst (provide_gce_cluster vms algorithm) =
      prepared vms algorithm @ map (\<lambda>n. Rpc (node_host n) Download_Node_Config) (gce_nodes vms) @ rest"
    by (simp add: c provide_gce_cluster_def prepared_def rest_def daemon_def Let_def)
  then show thesis by (rule that) (auto simp: rest_def no_uploads)
qed

text \<open>The configurations in local files and in the bucket: uploading copies what the file holds at
  that moment.\<close>

type_synonym stored_configs = "(string \<rightharpoonup> node_config) \<times> (string \<rightharpoonup> node_config)"

fun store_config :: "action \<Rightarrow> stored_configs \<Rightarrow> stored_configs" where
  "store_config (Write_Config file c) (files, bucket) = (files(file \<mapsto> c), bucket)"
| "store_config (Upload file obj) (files, bucket) = (files, bucket(obj := files file))"
| "store_config _ s = s"

definition in_bucket :: "action list \<Rightarrow> string \<rightharpoonup> node_config" where
  "in_bucket as = snd (fold store_config as (Map.empty, Map.empty))"

lemma store_nothing:
  "(\<And>f g. Upload f g \<notin> set as) \<Longrightarrow> (\<And>f c. Write_Config f c \<notin> set as) \<Longrightarrow> fold store_config as s = s"
proof (induction as arbitrary: s)
  case (Cons a as)
  have "store_config a s = s" using Cons.prems(1)[of "_"] Cons.prems(2) by (cases "(a, s)" rule: store_config.cases) auto
  moreover have "fold store_config as t = t" for t by (rule Cons.IH) (use Cons.prems in auto)
  ultimately show ?case by simp
qed simp

lemma uploads_own:
  assumes "\<And>m. m \<in> set ns \<Longrightarrow> vm_id m = vm_id n \<Longrightarrow> m = n"
  shows "snd (fold store_config (concat (map (\<lambda>n. [Write_Config (''/tmp/'' @ config_file_name (vm_id n)) (conf n),
      Upload (''/tmp/'' @ config_file_name (vm_id n)) (''config/'' @ config_file_name (vm_id n))]) ns)) s)
      (''config/'' @ config_file_name (vm_id n)) =
    (if n \<in> set ns then Some (conf n) else snd s (''config/'' @ config_file_name (vm_id n)))"
  using assms
proof (induction ns arbitrary: s)
  case (Cons m ns)
  obtain F B where s: "s = (F, B)" by (cases s)
  have m: "vm_id m = vm_id n \<longleftrightarrow> m = n" "vm_id n = vm_id m \<longleftrightarrow> n = m" using Cons.prems[of m] by force+
  show ?case using Cons.IH[of "(F(''/tmp/'' @ config_file_name (vm_id m) \<mapsto> conf m),
      B(''config/'' @ config_file_name (vm_id m) \<mapsto> conf m))"] Cons.prems
    by (auto simp: s config_file_inject m)
qed simp

abbreviation config_of :: "(string \<times> string \<times> string) list \<Rightarrow> string \<Rightarrow> cluster_node \<Rightarrow> node_config" where
  "config_of vms algorithm n \<equiv> get_node_config (gce_nodes vms) n ''gce''
     (if algorithm = ''rethinkdb'' then [fst (snd GCE_RETHINKDB_PORTS)] else [])"

lemma prepared_bucket:
  assumes "n \<in> set (gce_nodes vms)" "\<And>f g. Upload f g \<notin> set as" "\<And>f c. Write_Config f c \<notin> set as"
  shows "in_bucket (prepared vms algorithm @ as) (''config/'' @ config_file_name (vm_id n)) = Some (config_of vms algorithm n)"
proof -
  let ?c = "gce_nodes vms"
  let ?first = "map (\<lambda>n. Create_Instance (vm_id n) [(''bucket'', ''krafters''),
        (''clusterConfig'', ''config/'' @ config_file_name (vm_id n)), (''myid'', vm_id n)]) ?c @
      map (\<lambda>n. Wait_Instance (vm_id n)) ?c @ [Ensure_Firewall] @ map (\<lambda>n. Take_Acknowledgement (vm_id n)) ?c"
  let ?then = "concat (map (\<lambda>n. [Write_Config (''/tmp/'' @ config_file_name (vm_id n)) (config_of vms algorithm n),
      Upload (''/tmp/'' @ config_file_name (vm_id n)) (''config/'' @ config_file_name (vm_id n))]) ?c)"
  define f where "f = ?first"
  define t where "t = ?then"
  have p: "prepared vms algorithm = f @ t" by (simp add: prepared_def Let_def f_def t_def)
  have first: "fold store_config f s = s" for s unfolding f_def by (rule store_nothing) auto
  have rest: "fold store_config as s = s" for s by (rule store_nothing) (use assms(2,3) in auto)
  have "snd (fold store_config t (Map.empty, Map.empty)) (''config/'' @ config_file_name (vm_id n)) = Some (config_of vms algorithm n)"
    unfolding t_def using uploads_own[of ?c n "config_of vms algorithm" "(Map.empty, Map.empty)"] vm_ids_differ[OF _ assms(1)]
    by (simp only: assms(1) if_True)
  then show ?thesis unfolding in_bucket_def p fold_append comp_apply first rest .
qed

text \<open>C30: every machine downloads its own configuration.  Provisioning in the cloud creates a
  machine for each node with metadata; when its configure daemon is called, it copies the object
  that this metadata names, from the bucket that it names.  From before the first such call on,
  at every moment of provisioning, this object holds the configuration of this very node: it was
  uploaded from a file into which this configuration had been written before, and nothing is
  uploaded over it.\<close>

theorem node_config_delivered:
  assumes "n \<in> set (gce_nodes vms)"
  shows "\<exists>data obj before after. fst (provide_gce_cluster vms algorithm) = before @ after \<and>
    Create_Instance (vm_id n) data \<in> set before \<and>
    last (serve dir (\<lambda>k. the (map_of data k)) Download_Node_Config) =
      Spawn [''sudo'', ''gsutil'', ''cp'', ''gs://krafters/'' @ obj, LOCAL_NODE_CONF_FILE] \<and>
    Rpc (node_host n) Download_Node_Config \<in> set after \<and> (\<forall>ip. Rpc ip Download_Node_Config \<notin> set before) \<and>
    (\<forall>i. in_bucket (before @ take i after) obj = Some (get_node_config (gce_nodes vms) n ''gce''
       (if algorithm = ''rethinkdb'' then [fst (snd GCE_RETHINKDB_PORTS)] else [])))"
proof -
  define obj where "obj = ''config/'' @ config_file_name (vm_id n)"
  define data where "data = [(''bucket'', ''krafters''), (''clusterConfig'', obj), (''myid'', vm_id n)]"
  have "gce_nodes vms \<noteq> []" using assms by auto
  then obtain rest where r: "fst (provide_gce_cluster vms algorithm) =
      prepared vms algorithm @ map (\<lambda>n. Rpc (node_host n) Download_Node_Config) (gce_nodes vms) @ rest"
    "\<And>f g. Upload f g \<notin> set rest" "\<And>f c. Write_Config f c \<notin> set rest"
    by (rule provided_in_two[where algorithm = algorithm]) blast
  let ?after = "map (\<lambda>n. Rpc (node_host n) Download_Node_Config) (gce_nodes vms) @ rest"
  have created: "Create_Instance (vm_id n) data \<in> set (prepared vms algorithm)"
    using assms by (auto simp: prepared_def Let_def data_def obj_def)
  have copied: "last (serve dir (\<lambda>k. the (map_of data k)) Download_Node_Config) =
      Spawn [''sudo'', ''gsutil'', ''cp'', ''gs://krafters/'' @ obj, LOCAL_NODE_CONF_FILE]"
    by (simp add: serve_def download_node_config_def data_def)
  have called: "Rpc (node_host n) Download_Node_Config \<in> set ?after" using assms by auto
  have first: "\<forall>ip. Rpc ip Download_Node_Config \<notin> set (prepared vms algorithm)" by (auto simp: prepared_def Let_def)
  have holds: "\<forall>i. in_bucket (prepared vms algorithm @ take i ?after) obj = Some (config_of vms algorithm n)"
  proof
    fix i
    have "Upload f g \<notin> set (take i ?after)" "Write_Config f c \<notin> set (take i ?after)" for f g c
      using r(2,3) by (auto dest!: in_set_takeD)
    then show "in_bucket (prepared vms algorithm @ take i ?after) obj = Some (config_of vms algorithm n)"
      unfolding obj_def by (intro prepared_bucket[OF assms])
  qed
  show ?thesis
    by (rule exI[of _ data], rule exI[of _ obj], rule exI[of _ "prepared vms algorithm"], rule exI[of _ ?after],
        intro conjI r(1) created copied called first holds)
qed

text \<open>With two machines, the second.\<close>

theorem node_config_delivered_witness:
  "\<exists>data obj before after.
    fst (provide_gce_cluster [(''a'', ''1.2.3.4'', ''10.0.0.2''), (''b'', ''1.2.3.5'', ''10.0.0.3'')] ''pso'') = before @ after \<and>
    Create_Instance ''vm-node-2-b'' data \<in> set before \<and>
    last (serve ''dir'' (\<lambda>k. the (map_of data k)) Download_Node_Config) =
      Spawn [''sudo'', ''gsutil'', ''cp'', ''gs://krafters/'' @ obj, LOCAL_NODE_CONF_FILE]"
proof -
  let ?vms = "[(''a'', ''1.2.3.4'', ''10.0.0.2''), (''b'', ''1.2.3.5'', ''10.0.0.3'')]"
  have n: "gce_nodes ?vms ! 1 \<in> set (gce_nodes ?vms)" by (simp add: gce_nodes_def)
  have "str 2 = ''2''" by code_simp
  then have "vm_id (gce_nodes ?vms ! 1) = ''vm-node-2-b''" by (simp add: gce_nodes_def numeral_2_eq_2)
  with node_config_delivered[OF n, of "''pso''" "''dir''"] show ?thesis by (elim exE conjE) (intro exI conjI, auto)
qed

subsection \<open>Waiting for a port\<close>

text \<open>\<open>is_socket_free\<close>, which is true when \<open>connect\<close> succeeds: over TCP when a process
  listens on the port, over UDP always, because nothing is sent.\<close>

definition is_socket_free :: "bool \<Rightarrow> bool \<Rightarrow> bool" where
  "is_socket_free tcp listening = (if tcp then listening else True)"

text \<open>The inner loop of \<open>wait_for_ports\<close>; \<open>listening k\<close> is whether a process listens at the
  k-th probe.\<close>

partial_function (option) wait_for_port :: "(nat \<Rightarrow> bool) \<Rightarrow> bool \<Rightarrow> nat \<Rightarrow> nat option" where
  "wait_for_port listening tcp k =
     (if \<not> is_socket_free tcp (listening k) then wait_for_port listening tcp (Suc k) else Some k)"

lemma wait_for_port_ends:
  assumes "k \<le> j" "listening j" "\<forall>i. k \<le> i \<and> i < j \<longrightarrow> \<not> listening i"
  shows "wait_for_port listening True k = Some j"
  using assms
proof (induction "j - k" arbitrary: k)
  case 0
  then show ?case by (subst wait_for_port.simps) (simp add: is_socket_free_def)
next
  case (Suc d)
  then have "wait_for_port listening True (Suc k) = Some j" by (intro Suc.hyps(1)) auto
  then show ?case using Suc by (subst wait_for_port.simps) (simp add: is_socket_free_def)
qed

text \<open>So the daemon does not wait for a server whose port it probes over UDP, as it does for both
  algorithms, although the PySyncObj server listens on TCP.\<close>

lemma udp_does_not_wait: "wait_for_port listening False k = Some k"
  by (subst wait_for_port.simps) (simp add: is_socket_free_def)

subsection \<open>The configure daemon's tester\<close>

text \<open>A call with its arguments, as \<open>configure_daemon_tester.py\<close> makes it: the master is
  configured with three ports, but the function that the daemon serves has a fourth parameter,
  the address.  A call with a wrong number of arguments is answered with a fault.\<close>

datatype tester_call = Master_Ports nat nat nat | Follower_Of nat string nat nat nat nat

fun received :: "tester_call \<Rightarrow> daemon_call outcome" where
  "received (Master_Ports c d h) = Raise Fault"
| "received (Follower_Of i ip mc c d h) = Ret (Rethinkdb_Follower i ip mc c d h)"

text \<open>\<open>configure_rethinkdb\<close>: the loop over the nodes stops at the first fault.  \<open>first\<close> is
  \<open>cluster[0]\<close>.\<close>

definition tester_call_local :: "port_source \<Rightarrow> cluster_node \<Rightarrow> nat \<Rightarrow> cluster_node \<Rightarrow> port_pool
    \<Rightarrow> (tester_call \<times> port_pool) option" where
  "tester_call_local os first m_cp n p =
     (if node_id n = 1
      then Option.bind (get_free_random_port os p) (\<lambda>(hp, p1). Some (Master_Ports m_cp (node_port n) hp, p1))
      else Option.bind (get_free_random_port os p) (\<lambda>(cp, p1).
        Option.bind (get_free_random_port os p1) (\<lambda>(hp, p2).
          Some (Follower_Of (node_id n) (node_host first) m_cp cp (node_port n) hp, p2))))"

definition tester_call_gce :: "cluster_node \<Rightarrow> cluster_node \<Rightarrow> tester_call" where
  "tester_call_gce first n =
     (case GCE_RETHINKDB_PORTS of (dp, cp, hp) \<Rightarrow>
        if node_id n = 1 then Master_Ports cp dp hp
        else Follower_Of (node_id n) (node_host first) cp cp dp hp)"

fun configure_each :: "(cluster_node \<Rightarrow> port_pool \<Rightarrow> (tester_call \<times> port_pool) option) \<Rightarrow> cluster_node list
    \<Rightarrow> port_pool \<Rightarrow> (action list \<times> unit outcome) option" where
  "configure_each call [] p = Some ([], Ret ())"
| "configure_each call (n # ns) p =
     Option.bind (call n p) (\<lambda>(c, p1).
       case received c of
         Raise e \<Rightarrow> Some ([], Raise e)
       | Ret r \<Rightarrow> map_option (\<lambda>(as, o'). (Rpc (node_host n) r # as, o')) (configure_each call ns p1))"

definition configure_rethinkdb :: "port_source \<Rightarrow> cluster_node list \<Rightarrow> string \<Rightarrow> port_pool
    \<Rightarrow> (action list \<times> unit outcome) option" where
  "configure_rethinkdb os cluster mode p =
     Option.bind (get_free_random_port os p) (\<lambda>(m_cp, p1).
       if mode = ''local'' then configure_each (tester_call_local os (hd cluster) m_cp) cluster p1
       else if mode = ''gce'' then configure_each (\<lambda>n q. Some (tester_call_gce (hd cluster) n, q)) cluster p1
       else Some ([], Ret ()))"

text \<open>The tester never configures a node of a cluster as the provisioner numbers them: the first node
  is the master, and its call fails.\<close>

lemma tester_faults:
  assumes "configure_rethinkdb os (n # ns) mode p = Some r" "node_id n = 1" "mode \<in> {''local'', ''gce''}"
  shows "r = ([], Raise Fault)"
  using assms by (auto simp: configure_rethinkdb_def tester_call_local_def tester_call_gce_def GCE_RETHINKDB_PORTS_def
      bind_eq_Some_conv split: if_splits)

end
