(* ===== verification/Cloud_Requests.thy ===== *)
theory Cloud_Requests
  imports Deployment
begin

section \<open>The requests to the cloud services\<close>

text \<open>
  How \<open>provisioner.py\<close> and \<open>tear_down.py\<close> talk to the cloud: every request that is made, with
  the loops that poll for the end of an operation.  \<open>Deployment\<close> has the same as a list of
  actions; here the answers decide how it goes on.  The services are a function from the requests
  made before to the answer to the next one.  A process takes the requests made so far; its value
  \<open>None\<close> is a loop that never ends.  Credentials, service objects and random names come first
  and make no request.  An answer that lacks a field raises at its request, not at the later
  line that reads the field.
\<close>

subsection \<open>Requests\<close>

datatype body = Str string | Flag bool | Items "body list" | Fields "(string \<times> body) list"

datatype request =
    Get_Image                               \<comment> \<open>images().getFromFamily\<close>
  | Insert_Instance body
  | Get_Operation string                    \<comment> \<open>zoneOperations().get\<close>
  | Get_Instance string
  | Delete_Vm string                        \<comment> \<open>instances().delete\<close>
  | Get_Firewall
  | Insert_Firewall body
  | Get_Object string
  | Delete_Object string
  | Insert_Object string string             \<comment> \<open>file, name of the object\<close>
  | Write_File string node_config           \<comment> \<open>local files\<close>
  | Save_Master string master_config
  | Call_Daemon string daemon_call

text \<open>What is read of an answer: \<open>selfLink\<close>, \<open>name\<close> or \<open>status\<close>; the addresses of an
  instance; nothing.  An answer that lacks what is read is a \<open>KeyError\<close>.\<close>

datatype reply = Failed py_error | Text_Reply string | Addresses string string | Empty_Reply

type_synonym cloud = "request list \<Rightarrow> request \<Rightarrow> reply"
type_synonym 'a process = "request list \<Rightarrow> ('a outcome \<times> request list) option"

definition finish :: "'a \<Rightarrow> 'a process" where
  "finish x h = Some (Ret x, h)"

definition and_next :: "'a process \<Rightarrow> ('a \<Rightarrow> 'b process) \<Rightarrow> 'b process" where
  "and_next p f h =
     (case p h of
        None \<Rightarrow> None
      | Some (Raise e, h1) \<Rightarrow> Some (Raise e, h1)
      | Some (Ret x, h1) \<Rightarrow> f x h1)"

definition ask :: "cloud \<Rightarrow> request \<Rightarrow> reply process" where
  "ask cl q h = Some (case cl h q of Failed e \<Rightarrow> Raise e | r \<Rightarrow> Ret r, h @ [q])"

definition ask_text :: "cloud \<Rightarrow> request \<Rightarrow> string process" where
  "ask_text cl q = and_next (ask cl q) (\<lambda>r h. Some (case r of Text_Reply s \<Rightarrow> Ret s | _ \<Rightarrow> Raise KeyError, h))"

fun each :: "('a \<Rightarrow> 'b process) \<Rightarrow> 'a list \<Rightarrow> 'b list process" where
  "each f [] h = Some (Ret [], h)"
| "each f (x # xs) h = and_next (f x) (\<lambda>y. and_next (each f xs) (\<lambda>ys. finish (y # ys))) h"

subsection \<open>Machines\<close>

definition GCP_PROJECT_ID :: string where "GCP_PROJECT_ID = ''krafters-1334''"
definition GCS_BUCKET :: string where "GCS_BUCKET = ''krafters''"
definition GCE_REGION_ID :: string where "GCE_REGION_ID = ''us-central1''"
definition GCE_ZONE_ID :: string where "GCE_ZONE_ID = ''us-central1-c''"
definition GCE_INSTANCE_TYPE :: string where "GCE_INSTANCE_TYPE = ''n1-standard-1''"
definition GCE_FIREWALL_RULE_NAME :: string where "GCE_FIREWALL_RULE_NAME = ''allow-all-tcp-udp''"

text \<open>The body of a request for an instance.  A comma is missing in the source after the second entry of
  \<open>networkInterfaces\<close>, so two string literals are one key.\<close>

definition metadata_item :: "string \<times> string \<Rightarrow> body" where
  "metadata_item kv = Fields [(''key'', Str (fst kv)), (''value'', Str (snd kv))]"

definition network_interface :: body where
  "network_interface = Fields
     [(''network'', Str ''global/networks/default''),
      (''projects/krafters-1334/regions/us-central1/subnetworks/default'' @ ''subnetwork'',
       Str (''projects/'' @ GCP_PROJECT_ID @ ''/regions/'' @ GCE_REGION_ID @ ''/subnetworks/default'')),
      (''accessConfigs'', Items [Fields [(''type'', Str ''ONE_TO_ONE_NAT''), (''name'', Str ''External NAT'')]])]"

definition instance_config :: "string \<Rightarrow> (string \<times> string) list \<Rightarrow> string \<Rightarrow> string \<Rightarrow> body" where
  "instance_config name metadata script source_image = Fields
     [(''name'', Str name),
      (''machineType'', Str (''zones/'' @ GCE_ZONE_ID @ ''/machineTypes/'' @ GCE_INSTANCE_TYPE)),
      (''disks'', Items [Fields
         [(''boot'', Flag True), (''autoDelete'', Flag True), (''type'', Str ''PERSISTENT''), (''mode'', Str ''READ_WRITE''),
          (''deviceName'', Str (name @ ''-disk'')),
          (''initializeParams'', Fields
            [(''sourceImage'', Str source_image),
             (''diskType'', Str (''projects/'' @ GCP_PROJECT_ID @ ''/zones/'' @ GCE_ZONE_ID @ ''/diskTypes/pd-standard'')),
             (''diskSizeGb'', Str ''10'')])]]),
      (''networkInterfaces'', Items [network_interface]),
      (''serviceAccounts'', Items [Fields
         [(''email'', Str ''default''),
          (''scopes'', Items (map (\<lambda>s. Str (''https://www.googleapis.com/auth/'' @ s))
            [''devstorage.read_write'', ''logging.write'', ''monitoring.write'', ''servicecontrol'', ''service.management'']))]]),
      (''tags'', Fields [(''items'', Items [Str ''http-server'', Str ''https-server''])]),
      (''metadata'', Fields [(''items'', Items (metadata_item (''startup-script'', script) # map metadata_item metadata))]),
      (''scheduling'', Fields
         [(''preemptible'', Flag False), (''onHostMaintenance'', Str ''MIGRATE''), (''automaticRestart'', Flag True)])]"

text \<open>\<open>script\<close> is the content of the startup script; the name of the operation is returned.\<close>

definition create_instance :: "cloud \<Rightarrow> string \<Rightarrow> (string \<times> string) list \<Rightarrow> string \<Rightarrow> string process" where
  "create_instance cl name metadata script =
     and_next (ask_text cl Get_Image) (\<lambda>link.
       ask_text cl (Insert_Instance (instance_config name metadata script link)))"

text \<open>The loop around \<open>zoneOperations().get\<close>.\<close>

partial_function (option) wait_operation :: "cloud \<Rightarrow> string \<Rightarrow> request list \<Rightarrow> (unit outcome \<times> request list) option" where
  "wait_operation cl op h =
     (case cl h (Get_Operation op) of
        Text_Reply s \<Rightarrow> if s = ''DONE'' then Some (Ret (), h @ [Get_Operation op])
                        else wait_operation cl op (h @ [Get_Operation op])
      | Failed e \<Rightarrow> Some (Raise e, h @ [Get_Operation op])
      | _ \<Rightarrow> Some (Raise KeyError, h @ [Get_Operation op]))"

definition get_addresses :: "cloud \<Rightarrow> string \<Rightarrow> (string \<times> string) process" where
  "get_addresses cl vm =
     and_next (ask cl (Get_Instance vm)) (\<lambda>r h. Some (case r of Addresses a b \<Rightarrow> Ret (a, b) | _ \<Rightarrow> Raise KeyError, h))"

definition wait_instance :: "cloud \<Rightarrow> string \<times> string \<Rightarrow> (string \<times> string) process" where
  "wait_instance cl = (\<lambda>(vm, op). and_next (wait_operation cl op) (\<lambda>u. get_addresses cl vm))"

subsection \<open>Firewall and objects\<close>

definition firewall_rule :: body where
  "firewall_rule = Fields
     [(''description'', Str ''Allow traffic on every TCP/UDP port''),
      (''allowed'', Items [Fields [(''IPProtocol'', Str ''tcp''), (''ports'', Items [Str ''1-65535''])],
                         Fields [(''IPProtocol'', Str ''udp''), (''ports'', Items [Str ''1-65535''])],
                         Fields [(''IPProtocol'', Str ''icmp'')]]),
      (''name'', Str GCE_FIREWALL_RULE_NAME)]"

definition ensure_firewall :: "cloud \<Rightarrow> unit process" where
  "ensure_firewall cl h =
     (case ask cl Get_Firewall h of
        Some (Raise e, h1) \<Rightarrow> and_next (ask cl (Insert_Firewall firewall_rule)) (\<lambda>r. finish ()) h1
      | Some (Ret r, h1) \<Rightarrow> Some (Ret (), h1)
      | None \<Rightarrow> None)"

definition gcs_file_exists :: "cloud \<Rightarrow> string \<Rightarrow> request list \<Rightarrow> bool \<times> request list" where
  "gcs_file_exists cl name h =
     (case cl h (Get_Object name) of Failed e \<Rightarrow> False | _ \<Rightarrow> True, h @ [Get_Object name])"

partial_function (option) wait_object :: "cloud \<Rightarrow> string \<Rightarrow> request list \<Rightarrow> (unit outcome \<times> request list) option" where
  "wait_object cl name h =
     (if fst (gcs_file_exists cl name h) then Some (Ret (), h @ [Get_Object name])
      else wait_object cl name (h @ [Get_Object name]))"

definition take_acknowledgement :: "cloud \<Rightarrow> string \<Rightarrow> unit process" where
  "take_acknowledgement cl vm =
     and_next (wait_object cl vm) (\<lambda>u. and_next (ask cl (Delete_Object vm)) (\<lambda>r. finish ()))"

definition upload_object :: "cloud \<Rightarrow> string \<Rightarrow> string \<Rightarrow> unit process" where
  "upload_object cl file name = and_next (ask cl (Insert_Object file name)) (\<lambda>r. finish ())"

subsection \<open>The whole of \<open>provide_gce_cluster\<close>\<close>

definition vm_name :: "nat \<times> string \<Rightarrow> string" where
  "vm_name = (\<lambda>(i, suffix). ''vm-node-'' @ str i @ ''-'' @ suffix)"

definition start_vm :: "cloud \<Rightarrow> string \<Rightarrow> string \<Rightarrow> string process" where
  "start_vm cl script vm =
     create_instance cl vm [(''bucket'', GCS_BUCKET), (''clusterConfig'', ''config/'' @ config_file_name vm), (''myid'', vm)] script"

definition send_config :: "cloud \<Rightarrow> string \<Rightarrow> cluster_node list \<Rightarrow> cluster_node \<Rightarrow> unit process" where
  "send_config cl algorithm cluster n =
     (let file = ''/tmp/'' @ config_file_name (vm_id n);
          additional = (if algorithm = ''rethinkdb'' then [fst (snd GCE_RETHINKDB_PORTS)] else []) in
      and_next (ask cl (Write_File file (get_node_config cluster n ''gce'' additional))) (\<lambda>r.
        upload_object cl file (''config/'' @ config_file_name (vm_id n))))"

definition call_daemon :: "cloud \<Rightarrow> string \<Rightarrow> daemon_call \<Rightarrow> unit process" where
  "call_daemon cl ip c = and_next (ask cl (Call_Daemon ip c)) (\<lambda>r. finish ())"

text \<open>The calls of \<open>configure_pso_gce\<close> and the other two, in order.\<close>

fun rpc_of :: "action \<Rightarrow> string \<times> daemon_call" where
  "rpc_of (Rpc ip c) = (ip, c)"
| "rpc_of _ = undefined"

definition run_algorithm :: "cloud \<Rightarrow> string \<Rightarrow> cluster_node \<Rightarrow> cluster_node list \<Rightarrow> string \<Rightarrow> unit process" where
  "run_algorithm cl algorithm first rest daemon =
     and_next (each (\<lambda>(ip, c). call_daemon cl ip c) (map rpc_of (algorithm_gce algorithm first rest daemon))) (\<lambda>r. finish ())"

definition start_cluster :: "cloud \<Rightarrow> string \<Rightarrow> cluster_node list \<Rightarrow> unit process" where
  "start_cluster cl algorithm cluster h =
     (case cluster of
        [] \<Rightarrow> Some (Raise IndexError, h)
      | first # rest \<Rightarrow>
          let daemon = node_host first @ '':'' @ str TEST_DAEMON_PORT in
          and_next (run_algorithm cl algorithm first rest daemon) (\<lambda>u.
          and_next (each (\<lambda>n. call_daemon cl (node_host (cluster ! (node_id n - 1))) Run_Network_Manager) cluster) (\<lambda>us.
          and_next (call_daemon cl (node_host first) (Run_Test_Daemon algorithm (node_port first))) (\<lambda>u.
          and_next (ask cl (Save_Master ''masterConfig.json''
             \<lparr>master_mode = ''gce'', master_algorithm = algorithm, master_daemon = daemon, master_nodes = cluster\<rparr>)) (\<lambda>r.
          finish ())))) h)"

text \<open>\<open>tails\<close>: the random strings of the names, as many as nodes.\<close>

definition provide_on_cloud :: "cloud \<Rightarrow> string list \<Rightarrow> string \<Rightarrow> string \<Rightarrow> unit process" where
  "provide_on_cloud cl tails script algorithm =
     (let vm_ids = map vm_name (enumerate 1 tails) in
      and_next (each (start_vm cl script) vm_ids) (\<lambda>ops.
      and_next (each (wait_instance cl) (zip vm_ids ops)) (\<lambda>addresses.
      let cluster = gce_nodes (zip tails addresses) in
      and_next (ensure_firewall cl) (\<lambda>u.
      and_next (each (take_acknowledgement cl) vm_ids) (\<lambda>us.
      and_next (each (send_config cl algorithm cluster) cluster) (\<lambda>us.
      and_next (each (\<lambda>n. call_daemon cl (node_host n) Download_Node_Config) cluster) (\<lambda>us.
      start_cluster cl algorithm cluster)))))))"

text \<open>\<open>tear_down_gce_cluster\<close>.\<close>

definition tear_down_on_cloud :: "cloud \<Rightarrow> cluster_node list \<Rightarrow> unit process" where
  "tear_down_on_cloud cl nodes =
     and_next (each (\<lambda>n. ask_text cl (Delete_Vm (vm_id n))) nodes) (\<lambda>ops.
     and_next (each (wait_operation cl) ops) (\<lambda>us. finish ()))"

subsection \<open>Processes that achieve something\<close>

definition field :: "string \<Rightarrow> body \<Rightarrow> body" where
  "field k b = (case b of Fields fs \<Rightarrow> the (map_of fs k) | _ \<Rightarrow> undefined)"

fun text_of :: "body \<Rightarrow> string" where
  "text_of (Str s) = s" | "text_of _ = []"

fun items_of :: "body \<Rightarrow> body list" where
  "items_of (Items xs) = xs" | "items_of _ = []"

definition custom_metadata :: "body \<Rightarrow> (string \<times> string) list" where
  "custom_metadata b = map (\<lambda>i. (text_of (field ''key'' i), text_of (field ''value'' i)))
     (tl (items_of (field ''items'' (field ''metadata'' b))))"

text \<open>What a request means as an action of \<open>Deployment\<close>, made after the requests \<open>h\<close>.  The addresses
  of a machine count as waited for if the operation of this machine, the one whose name was the
  answer to the last request to insert it, was reported as done just before, an
  acknowledgement as taken if it was seen just before, the firewall as open if the rule is there or
  inserted; the rest of the polling and looking up means nothing.\<close>

definition inserts :: "string \<Rightarrow> request \<Rightarrow> bool" where
  "inserts vm q = (case q of Insert_Instance b \<Rightarrow> text_of (field ''name'' b) = vm | _ \<Rightarrow> False)"

definition inserted_by :: "cloud \<Rightarrow> string \<Rightarrow> string \<Rightarrow> request list \<Rightarrow> bool" where
  "inserted_by cl vm op h =
     (\<exists>i<length h. inserts vm (h ! i) \<and> cl (take i h) (h ! i) = Text_Reply op \<and>
       (\<forall>j\<in>{i + 1..<length h}. \<not> inserts vm (h ! j)))"

definition done_before :: "cloud \<Rightarrow> string \<Rightarrow> request list \<Rightarrow> bool" where
  "done_before cl vm h =
     (h \<noteq> [] \<and> (case last h of
        Get_Operation op \<Rightarrow> cl (butlast h) (last h) = Text_Reply ''DONE'' \<and> inserted_by cl vm op h
      | _ \<Rightarrow> False))"

definition seen_before :: "cloud \<Rightarrow> string \<Rightarrow> request list \<Rightarrow> bool" where
  "seen_before cl name h =
     (h \<noteq> [] \<and> last h = Get_Object name \<and> (case cl (butlast h) (last h) of Failed e \<Rightarrow> False | _ \<Rightarrow> True))"

fun means :: "cloud \<Rightarrow> request list \<Rightarrow> request \<Rightarrow> action list" where
  "means cl h (Insert_Instance b) = [Create_Instance (text_of (field ''name'' b)) (custom_metadata b)]"
| "means cl h (Get_Instance vm) = (if done_before cl vm h then [Wait_Instance vm] else [])"
| "means cl h (Delete_Vm vm) = [Delete_Instance vm]"
| "means cl h Get_Firewall = (case cl h Get_Firewall of Failed e \<Rightarrow> [] | _ \<Rightarrow> [Ensure_Firewall])"
| "means cl h (Insert_Firewall b) = (if b = firewall_rule then [Ensure_Firewall] else [])"
| "means cl h (Delete_Object name) = (if seen_before cl name h then [Take_Acknowledgement name] else [])"
| "means cl h (Insert_Object file name) = [Upload file name]"
| "means cl h (Write_File file c) = [Write_Config file c]"
| "means cl h (Save_Master file m) = [Write_Master file m]"
| "means cl h (Call_Daemon ip c) = [Rpc ip c]"
| "means cl h _ = []"

fun actions_from :: "cloud \<Rightarrow> request list \<Rightarrow> request list \<Rightarrow> action list" where
  "actions_from cl h [] = []"
| "actions_from cl h (q # qs) = means cl h q @ actions_from cl (h @ [q]) qs"

lemma actions_from_append:
  "actions_from cl h (qs @ qs') = actions_from cl h qs @ actions_from cl (h @ qs) qs'"
  by (induction qs arbitrary: h) simp_all

text \<open>The services do what is asked of them, sooner or later.\<close>

definition obliging :: "cloud \<Rightarrow> bool" where
  "obliging cl \<longleftrightarrow>
     (\<forall>h q. q \<in> {Get_Image} \<union> range Insert_Instance \<union> range Delete_Vm \<union> range Get_Operation \<longrightarrow> (\<exists>s. cl h q = Text_Reply s)) \<and>
     (\<forall>h vm. \<exists>a b. cl h (Get_Instance vm) = Addresses a b) \<and>
     (\<forall>h q e. cl h q = Failed e \<longrightarrow> q = Get_Firewall \<or> q \<in> range Get_Object) \<and>
     (\<forall>h op. \<exists>m. cl (h @ replicate m (Get_Operation op)) (Get_Operation op) = Text_Reply ''DONE'') \<and>
     (\<forall>h name. \<exists>m. \<forall>e. cl (h @ replicate m (Get_Object name)) (Get_Object name) \<noteq> Failed e)"

text \<open>A process ends normally, with a result and actions that satisfy \<open>Q\<close>.\<close>

definition achieves :: "cloud \<Rightarrow> 'a process \<Rightarrow> ('a \<Rightarrow> action list \<Rightarrow> bool) \<Rightarrow> bool" where
  "achieves cl p Q \<longleftrightarrow> (\<forall>h. \<exists>x qs. p h = Some (Ret x, h @ qs) \<and> Q x (actions_from cl h qs))"

lemma achievesI:
  assumes "\<And>h. \<exists>x qs. p h = Some (Ret x, h @ qs) \<and> Q x (actions_from cl h qs)"
  shows "achieves cl p Q"
  using assms unfolding achieves_def by blast

lemma achieves_finish: "Q x [] \<Longrightarrow> achieves cl (finish x) Q"
  by (rule achievesI, rule exI[of _ x], rule exI[of _ "[]"]) (simp add: finish_def)

lemma achieves_next:
  assumes "achieves cl p P" "\<And>x as. P x as \<Longrightarrow> achieves cl (f x) (\<lambda>y bs. Q y (as @ bs))"
  shows "achieves cl (and_next p f) Q"
proof (rule achievesI)
  fix h
  obtain x qs where p: "p h = Some (Ret x, h @ qs)" "P x (actions_from cl h qs)"
    using assms(1) unfolding achieves_def by blast
  obtain y qs' where f: "f x (h @ qs) = Some (Ret y, (h @ qs) @ qs')" "Q y (actions_from cl h qs @ actions_from cl (h @ qs) qs')"
    using assms(2)[OF p(2)] unfolding achieves_def by blast
  show "\<exists>y qs. and_next p f h = Some (Ret y, h @ qs) \<and> Q y (actions_from cl h qs)"
    using p(1) f by (intro exI[of _ y] exI[of _ "qs @ qs'"]) (simp add: and_next_def actions_from_append)
qed

lemma achieves_mono: "achieves cl p P \<Longrightarrow> (\<And>x as. P x as \<Longrightarrow> Q x as) \<Longrightarrow> achieves cl p Q"
  unfolding achieves_def by blast

text \<open>A loop over a list, where each turn does \<open>g x\<close> and has a result that satisfies \<open>R x\<close>.\<close>

lemma achieves_each:
  assumes "\<And>x. x \<in> set xs \<Longrightarrow> achieves cl (f x) (\<lambda>y as. R x y \<and> as = g x)"
  shows "achieves cl (each f xs) (\<lambda>ys as. list_all2 R xs ys \<and> as = concat (map g xs))"
  using assms
proof (induction xs)
  case Nil
  show ?case by (rule achievesI) (rule exI[of _ "[]"], rule exI[of _ "[]"], simp)
next
  case (Cons x xs)
  have "each f (x # xs) = and_next (f x) (\<lambda>y. and_next (each f xs) (\<lambda>ys. finish (y # ys)))" by (simp add: fun_eq_iff)
  then show ?case using Cons
    by (auto intro!: achieves_next[of cl "f x"] achieves_next[of cl "each f xs" "\<lambda>ys as. list_all2 R xs ys \<and> as = concat (map g xs)"]
        achieves_finish)
qed

lemma achieves_each_unit:
  assumes "\<And>x. x \<in> set xs \<Longrightarrow> achieves cl (f x) (\<lambda>y as. as = g x)"
  shows "achieves cl (each f xs) (\<lambda>ys as. length ys = length xs \<and> as = concat (map g xs))"
  by (rule achieves_mono[OF achieves_each[where xs = xs and f = f and R = "\<lambda>x y. True" and g = g]]) (use assms in \<open>auto dest: list_all2_lengthD\<close>)

subsection \<open>Each request\<close>

text \<open>Requests whose meaning does not depend on what came before.\<close>

definition plain_request :: "request \<Rightarrow> bool" where
  "plain_request q \<longleftrightarrow> q \<noteq> Get_Firewall \<and> q \<notin> range Get_Object \<union> range Get_Instance \<union> range Delete_Object"

lemma plain_means: "plain_request q \<Longrightarrow> means cl h q = means (\<lambda>_ _. Empty_Reply) [] q"
  by (cases q) (simp_all add: plain_request_def)

lemma not_failed: "obliging cl \<Longrightarrow> q \<noteq> Get_Firewall \<Longrightarrow> q \<notin> range Get_Object \<Longrightarrow> cl h q \<noteq> Failed e"
  unfolding obliging_def by blast

lemma ask_runs:
  assumes "obliging cl" "q \<noteq> Get_Firewall" "q \<notin> range Get_Object"
  shows "ask cl q h = Some (Ret (cl h q), h @ [q])"
proof -
  have "\<forall>e. cl h q \<noteq> Failed e" using not_failed[OF assms] by blast
  then show ?thesis by (cases "cl h q") (simp_all add: ask_def)
qed

lemma request_ok:
  assumes "obliging cl" "plain_request q"
  shows "achieves cl (ask cl q) (\<lambda>r as. as = means (\<lambda>_ _. Empty_Reply) [] q)"
proof (rule achievesI)
  fix h
  have "ask cl q h = Some (Ret (cl h q), h @ [q])"
    using assms(2) unfolding plain_request_def by (intro ask_runs[OF assms(1)]) blast+
  then show "\<exists>x qs. ask cl q h = Some (Ret x, h @ qs) \<and> actions_from cl h qs = means (\<lambda>_ _. Empty_Reply) [] q"
    using plain_means[OF assms(2), of cl h] by (intro exI[of _ "cl h q"] exI[of _ "[q]"]) simp
qed

lemma ask_text_ok:
  assumes "obliging cl" "q \<in> {Get_Image} \<union> range Insert_Instance \<union> range Delete_Vm \<union> range Get_Operation"
  shows "achieves cl (ask_text cl q) (\<lambda>r as. as = means (\<lambda>_ _. Empty_Reply) [] q)"
proof (rule achievesI)
  fix h
  obtain s where s: "cl h q = Text_Reply s" using assms unfolding obliging_def by blast
  have "plain_request q" using assms(2) by (auto simp: plain_request_def)
  from s plain_means[OF this, of cl h]
  show "\<exists>x qs. ask_text cl q h = Some (Ret x, h @ qs) \<and> actions_from cl h qs = means (\<lambda>_ _. Empty_Reply) [] q"
    by (intro exI[of _ s] exI[of _ "[q]"]) (simp add: ask_text_def and_next_def ask_def)
qed

text \<open>The loops end on the answer they wait for.\<close>

definition reported_done :: "cloud \<Rightarrow> string \<Rightarrow> request list \<Rightarrow> bool" where
  "reported_done cl op h \<longleftrightarrow> h \<noteq> [] \<and> last h = Get_Operation op \<and> cl (butlast h) (last h) = Text_Reply ''DONE''"

lemma wait_operation_ends:
  assumes "obliging cl" "cl (h @ replicate m (Get_Operation op)) (Get_Operation op) = Text_Reply ''DONE''"
  shows "\<exists>qs. wait_operation cl op h = Some (Ret (), h @ qs) \<and> actions_from cl h qs = [] \<and> reported_done cl op (h @ qs) \<and>
    (\<forall>q\<in>set qs. \<not> inserts vm q)"
  using assms(2)
proof (induction m arbitrary: h)
  case 0
  then show ?case by (intro exI[of _ "[Get_Operation op]"]) (simp add: wait_operation.simps[of cl op h] reported_done_def inserts_def)
next
  case (Suc m)
  obtain s where s: "cl h (Get_Operation op) = Text_Reply s" using assms(1) unfolding obliging_def by blast
  show ?case
  proof (cases "s = ''DONE''")
    case True
    then show ?thesis using s
      by (intro exI[of _ "[Get_Operation op]"]) (simp add: wait_operation.simps[of cl op h] reported_done_def inserts_def)
  next
    case False
    obtain qs where "wait_operation cl op (h @ [Get_Operation op]) = Some (Ret (), (h @ [Get_Operation op]) @ qs)"
      "actions_from cl (h @ [Get_Operation op]) qs = []" "reported_done cl op ((h @ [Get_Operation op]) @ qs)"
      "\<forall>q\<in>set qs. \<not> inserts vm q"
      using Suc.IH[of "h @ [Get_Operation op]"] Suc.prems by auto
    then show ?thesis using s False
      by (intro exI[of _ "Get_Operation op # qs"]) (simp add: wait_operation.simps[of cl op h] inserts_def)
  qed
qed

lemma wait_operation_done:
  assumes "obliging cl"
  obtains qs where "wait_operation cl op h = Some (Ret (), h @ qs)" "actions_from cl h qs = []" "reported_done cl op (h @ qs)"
    "\<forall>vm. \<forall>q\<in>set qs. \<not> inserts vm q"
proof -
  obtain m where m: "cl (h @ replicate m (Get_Operation op)) (Get_Operation op) = Text_Reply ''DONE''"
    using assms unfolding obliging_def by blast
  from wait_operation_ends[OF assms this] obtain qs where
    qs: "wait_operation cl op h = Some (Ret (), h @ qs)" "actions_from cl h qs = []" "reported_done cl op (h @ qs)" by blast
  have "\<forall>q\<in>set qs. \<not> inserts vm q" for vm using wait_operation_ends[OF assms m, of vm] qs(1) by auto
  with qs that show thesis by blast
qed

lemma wait_operation_ok:
  assumes "obliging cl"
  shows "achieves cl (wait_operation cl op) (\<lambda>u as. as = [])"
proof (rule achievesI)
  fix h
  obtain qs where "wait_operation cl op h = Some (Ret (), h @ qs)" "actions_from cl h qs = []"
    by (rule wait_operation_done[OF assms, of op h])
  then show "\<exists>x qs. wait_operation cl op h = Some (Ret x, h @ qs) \<and> actions_from cl h qs = []" by blast
qed

lemma wait_object_ends:
  assumes "\<forall>e. cl (h @ replicate m (Get_Object name)) (Get_Object name) \<noteq> Failed e"
  shows "\<exists>qs. wait_object cl name h = Some (Ret (), h @ qs) \<and> actions_from cl h qs = [] \<and> seen_before cl name (h @ qs)"
  using assms
proof (induction m arbitrary: h)
  case 0
  then show ?case by (intro exI[of _ "[Get_Object name]"])
    (simp add: wait_object.simps[of cl name h] gcs_file_exists_def seen_before_def split: reply.split)
next
  case (Suc m)
  show ?case
  proof (cases "fst (gcs_file_exists cl name h)")
    case True
    then show ?thesis by (intro exI[of _ "[Get_Object name]"])
      (simp add: wait_object.simps[of cl name h] seen_before_def gcs_file_exists_def)
  next
    case False
    obtain qs where "wait_object cl name (h @ [Get_Object name]) = Some (Ret (), (h @ [Get_Object name]) @ qs)"
      "actions_from cl (h @ [Get_Object name]) qs = []" "seen_before cl name ((h @ [Get_Object name]) @ qs)"
      using Suc.IH[of "h @ [Get_Object name]"] Suc.prems by auto
    then show ?thesis using False
      by (intro exI[of _ "Get_Object name # qs"]) (simp add: wait_object.simps[of cl name h])
  qed
qed

lemma ensure_firewall_ok:
  assumes "obliging cl"
  shows "achieves cl (ensure_firewall cl) (\<lambda>u as. as = [Ensure_Firewall])"
proof (rule achievesI)
  fix h
  show "\<exists>x qs. ensure_firewall cl h = Some (Ret x, h @ qs) \<and> actions_from cl h qs = [Ensure_Firewall]"
  proof (cases "\<exists>e. cl h Get_Firewall = Failed e")
    case True
    then obtain e where e: "cl h Get_Firewall = Failed e" by blast
    have "Insert_Firewall firewall_rule \<noteq> Get_Firewall" "Insert_Firewall firewall_rule \<notin> range Get_Object" by auto
    from ask_runs[OF assms this, of "h @ [Get_Firewall]"] e show ?thesis
      by (intro exI[of _ "()"] exI[of _ "[Get_Firewall, Insert_Firewall firewall_rule]"])
        (simp add: ensure_firewall_def and_next_def ask_def[of cl Get_Firewall] finish_def)
  next
    case False
    then show ?thesis
      by (intro exI[of _ "()"] exI[of _ "[Get_Firewall]"]) (simp add: ensure_firewall_def ask_def split: reply.split)
  qed
qed

lemma done_asking:
  assumes "obliging cl" "plain_request q"
  shows "achieves cl (and_next (ask cl q) (\<lambda>r. finish ())) (\<lambda>u as. as = means (\<lambda>_ _. Empty_Reply) [] q)"
  by (rule achieves_next[OF request_ok[OF assms]]) (simp add: achieves_finish)

lemma machine_of_config:
  "text_of (field ''name'' (instance_config name metadata script link)) = name"
  "custom_metadata (instance_config name metadata script link) = metadata"
  by (simp_all add: instance_config_def field_def custom_metadata_def metadata_item_def comp_def)

text \<open>What the services have answered about a machine.\<close>

definition addresses_answered :: "cloud \<Rightarrow> string \<Rightarrow> string \<times> string \<Rightarrow> bool" where
  "addresses_answered cl vm ab \<longleftrightarrow> (\<exists>h. cl h (Get_Instance vm) = Addresses (fst ab) (snd ab))"

text \<open>What is known of the requests before a process, and after it.\<close>

definition achieves_after :: "cloud \<Rightarrow> (request list \<Rightarrow> bool) \<Rightarrow> 'a process \<Rightarrow> ('a \<Rightarrow> action list \<Rightarrow> request list \<Rightarrow> bool) \<Rightarrow> bool" where
  "achieves_after cl P p Q \<longleftrightarrow>
     (\<forall>h. P h \<longrightarrow> (\<exists>x qs. p h = Some (Ret x, h @ qs) \<and> Q x (actions_from cl h qs) (h @ qs)))"

lemma achieves_afterI:
  assumes "\<And>h. P h \<Longrightarrow> \<exists>x qs. p h = Some (Ret x, h @ qs) \<and> Q x (actions_from cl h qs) (h @ qs)"
  shows "achieves_after cl P p Q"
  using assms unfolding achieves_after_def by blast

lemma achieves_iff_after: "achieves cl p Q \<longleftrightarrow> achieves_after cl (\<lambda>h. True) p (\<lambda>x as h. Q x as)"
  by (simp add: achieves_def achieves_after_def)

lemma achieves_after_finish: "(\<And>h. P h \<Longrightarrow> Q x [] h) \<Longrightarrow> achieves_after cl P (finish x) Q"
  by (rule achieves_afterI, rule exI[of _ x], rule exI[of _ "[]"]) (simp add: finish_def)

lemma achieves_after_next:
  assumes "achieves_after cl P p A" "\<And>x as. achieves_after cl (A x as) (f x) (\<lambda>y bs h. Q y (as @ bs) h)"
  shows "achieves_after cl P (and_next p f) Q"
proof (rule achieves_afterI)
  fix h assume "P h"
  then obtain x qs where p: "p h = Some (Ret x, h @ qs)" "A x (actions_from cl h qs) (h @ qs)"
    using assms(1) unfolding achieves_after_def by blast
  obtain y qs' where f: "f x (h @ qs) = Some (Ret y, (h @ qs) @ qs')"
    "Q y (actions_from cl h qs @ actions_from cl (h @ qs) qs') ((h @ qs) @ qs')"
    using assms(2)[of x "actions_from cl h qs"] p(2) unfolding achieves_after_def by blast
  show "\<exists>y qs. and_next p f h = Some (Ret y, h @ qs) \<and> Q y (actions_from cl h qs) (h @ qs)"
    using p(1) f by (intro exI[of _ y] exI[of _ "qs @ qs'"]) (simp add: and_next_def actions_from_append)
qed

lemma achieves_after_mono:
  "achieves_after cl P p A \<Longrightarrow> (\<And>h. P' h \<Longrightarrow> P h) \<Longrightarrow> (\<And>x as h. A x as h \<Longrightarrow> Q x as h) \<Longrightarrow> achieves_after cl P' p Q"
  unfolding achieves_after_def by blast

lemma achieves_known:
  assumes "\<And>h. P h \<Longrightarrow> C" "C \<Longrightarrow> achieves_after cl P p Q"
  shows "achieves_after cl P p Q"
  using assms unfolding achieves_after_def by blast

lemma inserted_by_more:
  assumes "inserted_by cl vm op h" "\<forall>q\<in>set qs. \<not> inserts vm q"
  shows "inserted_by cl vm op (h @ qs)"
proof -
  obtain i where i: "i < length h" "inserts vm (h ! i)" "cl (take i h) (h ! i) = Text_Reply op"
    "\<forall>j\<in>{i + 1..<length h}. \<not> inserts vm (h ! j)"
    using assms(1) unfolding inserted_by_def by blast
  have "\<not> inserts vm ((h @ qs) ! j)" if "j \<in> {i + 1..<length (h @ qs)}" for j
    using that i(4) assms(2) by (cases "j < length h") (auto simp: nth_append)
  then show ?thesis using i unfolding inserted_by_def by (intro exI[of _ i]) (auto simp: nth_append)
qed

lemma inserted_by_last: "inserts vm q \<Longrightarrow> cl h q = Text_Reply op \<Longrightarrow> inserted_by cl vm op (h @ [q])"
  unfolding inserted_by_def by (intro exI[of _ "length h"]) simp

text \<open>The machines that were asked for, each with its operation.\<close>

definition all_inserted :: "cloud \<Rightarrow> (string \<times> string) list \<Rightarrow> request list \<Rightarrow> bool" where
  "all_inserted cl vos h \<longleftrightarrow> (\<forall>(vm, op)\<in>set vos. inserted_by cl vm op h)"

lemma all_inserted_more:
  "all_inserted cl vos h \<Longrightarrow> \<forall>vm\<in>fst ` set vos. \<forall>q\<in>set qs. \<not> inserts vm q \<Longrightarrow> all_inserted cl vos (h @ qs)"
  unfolding all_inserted_def by (fastforce intro: inserted_by_more)

definition creation :: "string \<Rightarrow> action" where
  "creation vm = Create_Instance vm [(''bucket'', ''krafters''), (''clusterConfig'', ''config/'' @ config_file_name vm), (''myid'', vm)]"

lemma start_vm_after:
  assumes "obliging cl" "vm \<notin> fst ` set vos"
  shows "achieves_after cl (all_inserted cl vos) (start_vm cl script vm)
    (\<lambda>op as h. as = [creation vm] \<and> all_inserted cl ((vm, op) # vos) h)"
proof (rule achieves_afterI)
  fix h assume h: "all_inserted cl vos h"
  obtain link where l: "cl h Get_Image = Text_Reply link" using assms(1) unfolding obliging_def by blast
  let ?q = "Insert_Instance (instance_config vm [(''bucket'', GCS_BUCKET), (''clusterConfig'', ''config/'' @ config_file_name vm),
      (''myid'', vm)] script link)"
  obtain op where o: "cl (h @ [Get_Image]) ?q = Text_Reply op" using assms(1) unfolding obliging_def by blast
  have i: "inserts w ?q \<longleftrightarrow> w = vm" for w by (auto simp: inserts_def machine_of_config)
  have "all_inserted cl vos (h @ [Get_Image, ?q])"
    by (rule all_inserted_more[OF h]) (use assms(2) i in \<open>auto simp: inserts_def\<close>)
  moreover have "inserted_by cl vm op (h @ [Get_Image, ?q])"
    using inserted_by_last[of vm ?q cl "h @ [Get_Image]" op] o i by simp
  moreover have "start_vm cl script vm h = Some (Ret op, h @ [Get_Image, ?q])"
    by (simp add: start_vm_def create_instance_def ask_text_def and_next_def ask_def l o[simplified])
  moreover have "actions_from cl h [Get_Image, ?q] = [creation vm]"
    by (simp add: machine_of_config creation_def GCS_BUCKET_def)
  ultimately show "\<exists>x qs. start_vm cl script vm h = Some (Ret x, h @ qs) \<and> actions_from cl h qs = [creation vm] \<and>
      all_inserted cl ((vm, x) # vos) (h @ qs)"
    by (intro exI[of _ op] exI[of _ "[Get_Image, ?q]"]) (simp add: all_inserted_def)
qed

lemma start_vms_after:
  assumes "obliging cl" "distinct ids" "set ids \<inter> fst ` set vos = {}"
  shows "achieves_after cl (all_inserted cl vos) (each (start_vm cl script) ids)
    (\<lambda>ops as h. length ops = length ids \<and> as = map creation ids \<and> all_inserted cl (zip ids ops @ vos) h)"
  using assms(2,3)
proof (induction ids arbitrary: vos)
  case Nil
  then show ?case by (intro achieves_afterI exI[of _ "[]"]) simp
next
  case (Cons vm ids)
  have e: "each (start_vm cl script) (vm # ids) =
      and_next (start_vm cl script vm) (\<lambda>op. and_next (each (start_vm cl script) ids) (\<lambda>ops. finish (op # ops)))"
    by (simp add: fun_eq_iff)
  show ?case unfolding e
  proof (rule achieves_after_next[OF start_vm_after[OF assms(1)]])
    show "vm \<notin> fst ` set vos" using Cons.prems by auto
    fix op as
    show "achieves_after cl (\<lambda>h. as = [creation vm] \<and> all_inserted cl ((vm, op) # vos) h)
      (and_next (each (start_vm cl script) ids) (\<lambda>ops. finish (op # ops)))
      (\<lambda>ops bs h. length ops = length (vm # ids) \<and> as @ bs = map creation (vm # ids) \<and> all_inserted cl (zip (vm # ids) ops @ vos) h)"
    proof (rule achieves_known[where C = "as = [creation vm]"], blast)
      assume as: "as = [creation vm]"
      have ids: "achieves_after cl (all_inserted cl ((vm, op) # vos)) (each (start_vm cl script) ids)
        (\<lambda>ops bs h. length ops = length ids \<and> bs = map creation ids \<and> all_inserted cl (zip ids ops @ (vm, op) # vos) h)"
        using Cons.prems by (intro Cons.IH) auto
      show "achieves_after cl (\<lambda>h. as = [creation vm] \<and> all_inserted cl ((vm, op) # vos) h)
        (and_next (each (start_vm cl script) ids) (\<lambda>ops. finish (op # ops)))
        (\<lambda>ops bs h. length ops = length (vm # ids) \<and> as @ bs = map creation (vm # ids) \<and> all_inserted cl (zip (vm # ids) ops @ vos) h)"
        by (rule achieves_after_mono[OF achieves_after_next[OF ids
            achieves_after_finish[where Q = "\<lambda>ops cs h. length ops = length (vm # ids) \<and> _ @ cs = map creation ids \<and> all_inserted cl (zip (vm # ids) ops @ vos) h"]]])
          (auto simp: as all_inserted_def)
    qed
  qed
qed

lemma wait_instance_after:
  assumes "obliging cl" "vo \<in> set vos"
  shows "achieves_after cl (all_inserted cl vos) (wait_instance cl vo)
    (\<lambda>ab as h. addresses_answered cl (fst vo) ab \<and> as = [Wait_Instance (fst vo)] \<and> all_inserted cl vos h)"
proof (rule achieves_afterI)
  fix h assume h: "all_inserted cl vos h"
  obtain vm op where vo: "vo = (vm, op)" by (cases vo)
  obtain qs where qs: "wait_operation cl op h = Some (Ret (), h @ qs)" "actions_from cl h qs = []" "reported_done cl op (h @ qs)"
    "\<forall>vm. \<forall>q\<in>set qs. \<not> inserts vm q"
    by (rule wait_operation_done[OF assms(1), of op h])
  have "inserted_by cl vm op h" using h assms(2) vo unfolding all_inserted_def by blast
  then have "inserted_by cl vm op (h @ qs)" by (rule inserted_by_more) (use qs(4) in blast)
  then have d: "done_before cl vm (h @ qs)" using qs(3) by (auto simp: reported_done_def done_before_def)
  obtain a b where r: "cl (h @ qs) (Get_Instance vm) = Addresses a b" using assms(1) unfolding obliging_def by blast
  then have "addresses_answered cl vm (a, b)" unfolding addresses_answered_def by auto
  moreover have "all_inserted cl vos (h @ qs @ [Get_Instance vm])"
    by (rule all_inserted_more[OF h]) (use qs(4) in \<open>auto simp: inserts_def\<close>)
  ultimately show "\<exists>x qs. wait_instance cl vo h = Some (Ret x, h @ qs) \<and>
      addresses_answered cl (fst vo) x \<and> actions_from cl h qs = [Wait_Instance (fst vo)] \<and> all_inserted cl vos (h @ qs)"
    using qs r d by (intro exI[of _ "(a, b)"] exI[of _ "qs @ [Get_Instance vm]"])
      (simp add: vo wait_instance_def get_addresses_def and_next_def ask_def actions_from_append)
qed

lemma take_acknowledgement_ok:
  assumes "obliging cl"
  shows "achieves cl (take_acknowledgement cl vm) (\<lambda>u as. as = [Take_Acknowledgement vm])"
proof (rule achievesI)
  fix h
  obtain m where "\<forall>e. cl (h @ replicate m (Get_Object vm)) (Get_Object vm) \<noteq> Failed e"
    using assms unfolding obliging_def by blast
  from wait_object_ends[of cl h m vm, OF this] obtain qs where
    qs: "wait_object cl vm h = Some (Ret (), h @ qs)" "actions_from cl h qs = []" "seen_before cl vm (h @ qs)" by blast
  have "Delete_Object vm \<noteq> Get_Firewall" "Delete_Object vm \<notin> range Get_Object" by auto
  from ask_runs[OF assms this, of "h @ qs"] qs
  show "\<exists>x qs. take_acknowledgement cl vm h = Some (Ret x, h @ qs) \<and> actions_from cl h qs = [Take_Acknowledgement vm]"
    by (intro exI[of _ "()"] exI[of _ "qs @ [Delete_Object vm]"])
      (simp add: take_acknowledgement_def and_next_def finish_def actions_from_append)
qed

lemma call_daemon_ok: "obliging cl \<Longrightarrow> achieves cl (call_daemon cl ip c) (\<lambda>u as. as = [Rpc ip c])"
  unfolding call_daemon_def using done_asking[of cl "Call_Daemon ip c"] by (auto simp: plain_request_def)

lemma send_config_ok:
  assumes "obliging cl"
  shows "achieves cl (send_config cl algorithm cluster n) (\<lambda>u as. as =
    (let file = ''/tmp/'' @ config_file_name (vm_id n) in
     [Write_Config file (get_node_config cluster n ''gce''
        (if algorithm = ''rethinkdb'' then [fst (snd GCE_RETHINKDB_PORTS)] else [])),
      Upload file (''config/'' @ config_file_name (vm_id n))]))"
proof -
  let ?file = "''/tmp/'' @ config_file_name (vm_id n)" and ?name = "''config/'' @ config_file_name (vm_id n)"
  have plain: "plain_request (Write_File f c)" "plain_request (Insert_Object f g)" for f c g
    by (auto simp: plain_request_def)
  show ?thesis unfolding send_config_def Let_def upload_object_def
    by (rule achieves_next[OF request_ok[OF assms plain(1)]]) (use done_asking[OF assms plain(2), of ?file ?name] in simp)
qed

lemma rpcs_only:
  "a \<in> set (algorithm_gce algorithm first rest daemon) \<Longrightarrow> Rpc (fst (rpc_of a)) (snd (rpc_of a)) = a"
  by (auto simp: algorithm_gce_def configure_pso_gce_def configure_paxos_gce_def configure_rethinkdb_gce_def
      split: if_splits prod.splits)

lemma run_algorithm_ok:
  assumes "obliging cl"
  shows "achieves cl (run_algorithm cl algorithm first rest daemon) (\<lambda>u as. as = algorithm_gce algorithm first rest daemon)"
proof -
  let ?as = "algorithm_gce algorithm first rest daemon"
  have "achieves cl (each (\<lambda>(ip, c). call_daemon cl ip c) (map rpc_of ?as))
    (\<lambda>us as. length us = length (map rpc_of ?as) \<and> as = concat (map (\<lambda>ic. [Rpc (fst ic) (snd ic)]) (map rpc_of ?as)))"
    by (rule achieves_each_unit) (simp add: case_prod_beta call_daemon_ok[OF assms])
  moreover have "concat (map (\<lambda>ic. [Rpc (fst ic) (snd ic)]) (map rpc_of ?as)) = ?as"
    using map_idI[of ?as "\<lambda>a. Rpc (fst (rpc_of a)) (snd (rpc_of a))"] rpcs_only by (simp add: comp_def concat_map_singleton)
  ultimately show ?thesis unfolding run_algorithm_def
    by (auto elim!: achieves_next intro!: achieves_finish)
qed

lemma start_cluster_ok:
  assumes "obliging cl"
  shows "achieves cl (start_cluster cl algorithm (first # rest)) (\<lambda>u as. as =
    (let daemon = node_host first @ '':'' @ str TEST_DAEMON_PORT in
     algorithm_gce algorithm first rest daemon @
     map (\<lambda>n. Rpc (node_host ((first # rest) ! (node_id n - 1))) Run_Network_Manager) (first # rest) @
     [Rpc (node_host first) (Run_Test_Daemon algorithm (node_port first)),
      Write_Master ''masterConfig.json'' \<lparr>master_mode = ''gce'', master_algorithm = algorithm, master_daemon = daemon,
        master_nodes = first # rest\<rparr>]))"
proof -
  let ?cluster = "first # rest" and ?daemon = "node_host first @ '':'' @ str TEST_DAEMON_PORT"
  let ?f = "\<lambda>n. call_daemon cl (node_host (?cluster ! (node_id n - 1))) Run_Network_Manager"
  let ?g = "\<lambda>n. Rpc (node_host (?cluster ! (node_id n - 1))) Run_Network_Manager"
  let ?master = "\<lparr>master_mode = ''gce'', master_algorithm = algorithm, master_daemon = ?daemon, master_nodes = ?cluster\<rparr>"
  let ?save = "and_next (ask cl (Save_Master ''masterConfig.json'' ?master)) (\<lambda>r. finish ())"
  have same: "start_cluster cl algorithm ?cluster =
      and_next (run_algorithm cl algorithm first rest ?daemon) (\<lambda>u. and_next (each ?f ?cluster) (\<lambda>us.
        and_next (call_daemon cl (node_host first) (Run_Test_Daemon algorithm (node_port first))) (\<lambda>u. ?save)))"
    by (simp only: fun_eq_iff start_cluster_def list.case Let_def simp_thms)
  have managers: "achieves cl (each ?f ?cluster) (\<lambda>us as. length us = length ?cluster \<and> as = concat (map (\<lambda>n. [?g n]) ?cluster))"
    by (rule achieves_each_unit) (rule call_daemon_ok[OF assms])
  have save: "achieves cl ?save (\<lambda>u as. as = [Write_Master ''masterConfig.json'' ?master])"
    using done_asking[OF assms, of "Save_Master ''masterConfig.json'' ?master"] by (auto simp: plain_request_def)
  show ?thesis unfolding same Let_def
    apply (rule achieves_next[OF run_algorithm_ok[OF assms]])
    apply (rule achieves_next[OF managers])
    apply (rule achieves_next[OF call_daemon_ok[OF assms]])
    apply (rule achieves_mono[OF save])
    apply (simp add: concat_map_singleton)
    done
qed

lemma names_of_nodes:
  assumes "length addresses = length tails"
  shows "map vm_id (gce_nodes (zip tails addresses)) = map vm_name (enumerate 1 tails)"
  using assms by (auto simp: gce_nodes_def vm_name_def list_eq_iff_nth_eq nth_enumerate_eq split: prod.split)

lemma achieves_after_each:
  assumes "\<And>x. x \<in> set xs \<Longrightarrow> achieves_after cl I (f x) (\<lambda>y as h. R x y \<and> as = g x \<and> I h)"
  shows "achieves_after cl I (each f xs) (\<lambda>ys as h. list_all2 R xs ys \<and> as = concat (map g xs) \<and> I h)"
  using assms
proof (induction xs)
  case Nil
  show ?case by (intro achieves_afterI exI[of _ "[]"]) simp
next
  case (Cons x xs)
  have e: "each f (x # xs) = and_next (f x) (\<lambda>y. and_next (each f xs) (\<lambda>ys. finish (y # ys)))" by (simp add: fun_eq_iff)
  have x: "achieves_after cl I (f x) (\<lambda>y as h. R x y \<and> as = g x \<and> I h)" using Cons.prems by simp
  have xs: "achieves_after cl I (each f xs) (\<lambda>ys as h. list_all2 R xs ys \<and> as = concat (map g xs) \<and> I h)"
    using Cons by simp
  show ?case unfolding e
  proof (rule achieves_after_next[OF x])
    fix y as
    show "achieves_after cl (\<lambda>h. R x y \<and> as = g x \<and> I h) (and_next (each f xs) (\<lambda>ys. finish (y # ys)))
        (\<lambda>ys bs h. list_all2 R (x # xs) ys \<and> as @ bs = concat (map g (x # xs)) \<and> I h)"
    proof (cases "R x y \<and> as = g x")
      case True
      then show ?thesis
        by (auto intro!: achieves_after_next[OF xs] achieves_after_finish)
    qed (auto simp: achieves_after_def)
  qed
qed

lemma wait_instances_after:
  assumes "obliging cl" "length ops = length ids"
  shows "achieves_after cl (all_inserted cl (zip ids ops)) (each (wait_instance cl) (zip ids ops))
    (\<lambda>addresses as h. list_all2 (addresses_answered cl) ids addresses \<and> as = map Wait_Instance ids)"
proof (rule achieves_after_mono[OF achieves_after_each[where xs = "zip ids ops" and f = "wait_instance cl"
      and R = "\<lambda>vo. addresses_answered cl (fst vo)" and g = "\<lambda>vo. [Wait_Instance (fst vo)]"]])
  fix addresses as h
  assume "list_all2 (\<lambda>vo. addresses_answered cl (fst vo)) (zip ids ops) addresses \<and>
    as = concat (map (\<lambda>vo. [Wait_Instance (fst vo)]) (zip ids ops)) \<and> all_inserted cl (zip ids ops) h"
  then show "list_all2 (addresses_answered cl) ids addresses \<and> as = map Wait_Instance ids"
    using assms(2) by (auto simp: list_all2_conv_all_nth concat_map_singleton list_eq_iff_nth_eq)
qed (rule wait_instance_after[OF assms(1)])

lemma vm_names_distinct: "distinct (map vm_name (enumerate 1 tails))"
proof -
  have "i = j" if "i < length tails" "j < length tails" "vm_name (1 + i, tails ! i) = vm_name (1 + j, tails ! j)" for i j
  proof -
    have "str (1 + i) @ CHR ''-'' # tails ! i = str (1 + j) @ CHR ''-'' # tails ! j" using that(3) by (simp add: vm_name_def)
    from vm_number[OF this] show ?thesis by simp
  qed
  then show ?thesis by (auto simp: distinct_conv_nth nth_enumerate_eq)
qed

lemma each_action:
  assumes "\<And>x. achieves cl (f x) (\<lambda>y as. as = [g x])"
  shows "achieves cl (each f xs) (\<lambda>ys as. length ys = length xs \<and> as = map g xs)"
  using achieves_each_unit[where xs = xs and f = f and g = "\<lambda>x. [g x]"] assms by (simp add: concat_map_singleton)

text \<open>What is done when the addresses of the machines are known.\<close>

abbreviation set_up :: "cloud \<Rightarrow> string list \<Rightarrow> string \<Rightarrow> (string \<times> string) list \<Rightarrow> unit process" where
  "set_up cl tails algorithm addresses \<equiv>
     (let cluster = gce_nodes (zip tails addresses) in
      and_next (ensure_firewall cl) (\<lambda>u.
      and_next (each (take_acknowledgement cl) (map vm_name (enumerate 1 tails))) (\<lambda>us.
      and_next (each (send_config cl algorithm cluster) cluster) (\<lambda>us.
      and_next (each (\<lambda>n. call_daemon cl (node_host n) Download_Node_Config) cluster) (\<lambda>us.
      start_cluster cl algorithm cluster)))))"

lemma set_up_ok:
  assumes cl: "obliging cl" and "tails \<noteq> []" and "length addresses = length tails"
  shows "achieves cl (set_up cl tails algorithm addresses) (\<lambda>u cs.
    map creation (map vm_name (enumerate 1 tails)) @ map Wait_Instance (map vm_name (enumerate 1 tails)) @ cs =
      fst (provide_gce_cluster (zip tails addresses) algorithm))"
proof -
  let ?cluster = "gce_nodes (zip tails addresses)" and ?ids = "map vm_name (enumerate 1 tails)"
  have ids: "?ids = map vm_id ?cluster" using names_of_nodes[OF assms(3)] by simp
  obtain first rest where c: "?cluster = first # rest"
    using assms(2,3) by (cases tails; cases addresses) (auto simp: gce_nodes_def)
  show ?thesis unfolding Let_def
    apply (rule achieves_next[OF ensure_firewall_ok[OF cl]])
    apply (rule achieves_next[OF each_action[OF take_acknowledgement_ok[OF cl]]])
    apply (rule achieves_next[OF achieves_each_unit[OF send_config_ok[OF cl]]])
    apply (rule achieves_next[OF each_action[OF call_daemon_ok[OF cl]]])
    unfolding c
    apply (rule achieves_mono[OF start_cluster_ok[OF cl]])
    apply (simp only: ids c)
    apply (simp add: c provide_gce_cluster_def creation_def Let_def comp_def)
    done
qed

lemma provide_on_cloud_ok:
  assumes cl: "obliging cl" and "tails \<noteq> []"
  shows "achieves cl (provide_on_cloud cl tails script algorithm) (\<lambda>u as. \<exists>addresses.
    list_all2 (addresses_answered cl) (map vm_name (enumerate 1 tails)) addresses \<and>
    as = fst (provide_gce_cluster (zip tails addresses) algorithm))"
proof -
  let ?ids = "map vm_name (enumerate 1 tails)"
  let ?all = "\<lambda>as. \<exists>addresses. list_all2 (addresses_answered cl) ?ids addresses \<and>
      as = fst (provide_gce_cluster (zip tails addresses) algorithm)"
  have p: "provide_on_cloud cl tails script algorithm =
      and_next (each (start_vm cl script) ?ids) (\<lambda>ops. and_next (each (wait_instance cl) (zip ?ids ops)) (set_up cl tails algorithm))"
    by (simp add: provide_on_cloud_def Let_def)
  have last: "achieves_after cl (\<lambda>h. list_all2 (addresses_answered cl) ?ids addresses \<and> bs = map Wait_Instance ?ids)
      (set_up cl tails algorithm addresses) (\<lambda>u cs h. ?all (map creation ?ids @ bs @ cs))" for addresses bs
  proof (rule achieves_known, assumption)
    assume a: "list_all2 (addresses_answered cl) ?ids addresses \<and> bs = map Wait_Instance ?ids"
    then have "length addresses = length tails" using list_all2_lengthD by fastforce
    from set_up_ok[OF assms this, of algorithm]
    show "achieves_after cl (\<lambda>h. list_all2 (addresses_answered cl) ?ids addresses \<and> bs = map Wait_Instance ?ids)
      (set_up cl tails algorithm addresses) (\<lambda>u cs h. ?all (map creation ?ids @ bs @ cs))"
      unfolding achieves_iff_after by (rule achieves_after_mono) (use a in blast)+
  qed
  have "achieves_after cl (\<lambda>h. length ops = length ?ids \<and> as = map creation ?ids \<and> all_inserted cl (zip ?ids ops @ []) h)
      (and_next (each (wait_instance cl) (zip ?ids ops)) (set_up cl tails algorithm)) (\<lambda>u bs h. ?all (as @ bs))" for ops as
  proof (rule achieves_known[where C = "length ops = length ?ids \<and> as = map creation ?ids"], blast)
    assume o: "length ops = length ?ids \<and> as = map creation ?ids"
    have "achieves_after cl (all_inserted cl (zip ?ids ops)) (and_next (each (wait_instance cl) (zip ?ids ops)) (set_up cl tails algorithm))
        (\<lambda>u bs h. ?all (map creation ?ids @ bs))"
      by (rule achieves_after_next[OF wait_instances_after[OF cl] last]) (use o in blast)
    then show "achieves_after cl (\<lambda>h. length ops = length ?ids \<and> as = map creation ?ids \<and> all_inserted cl (zip ?ids ops @ []) h)
        (and_next (each (wait_instance cl) (zip ?ids ops)) (set_up cl tails algorithm)) (\<lambda>u bs h. ?all (as @ bs))"
      using o by (auto elim!: achieves_after_mono)
  qed
  note waited = this
  have "achieves_after cl (all_inserted cl []) (each (start_vm cl script) ?ids)
      (\<lambda>ops as h. length ops = length ?ids \<and> as = map creation ?ids \<and> all_inserted cl (zip ?ids ops @ []) h)"
    by (rule start_vms_after[OF cl vm_names_distinct]) simp
  from achieves_after_next[OF this waited]
  show ?thesis unfolding p achieves_iff_after by (rule achieves_after_mono) (auto simp: all_inserted_def)
qed

text \<open>C37: provisioning a cluster in the cloud implements its description as a list of actions.
  Whatever was asked before, when the services answer and the operations and the acknowledgements
  of the startup scripts come at last, \<open>provide_gce_cluster\<close> ends normally and its requests mean
  the actions of \<open>Deployment\<close>, in their order, for the addresses that were answered for each machine.
  In particular a machine is asked for its addresses right after the very operation that creates
  it was reported as done, and its acknowledgement is deleted right after it was seen.\<close>

theorem provisioning_refines:
  assumes "obliging cl" "tails \<noteq> []"
  shows "\<exists>addresses qs. provide_on_cloud cl tails script algorithm h = Some (Ret (), h @ qs) \<and>
    list_all2 (addresses_answered cl) (map vm_name (enumerate 1 tails)) addresses \<and>
    actions_from cl h qs = fst (provide_gce_cluster (zip tails addresses) algorithm)"
  using provide_on_cloud_ok[OF assms, of script algorithm] unfolding achieves_def by (auto dest!: spec[of _ h])

text \<open>Services where an operation is done and an acknowledgement is there when asked for the second time.\<close>

fun second_time :: cloud where
  "second_time h Get_Image = Text_Reply ''debian''"
| "second_time h (Insert_Instance b) = Text_Reply (''operation-'' @ text_of (field ''name'' b))"
| "second_time h (Get_Operation op) = Text_Reply (if Get_Operation op \<in> set h then ''DONE'' else ''RUNNING'')"
| "second_time h (Get_Instance vm) = Addresses ''203.0.113.7'' ''10.0.0.7''"
| "second_time h (Delete_Vm vm) = Text_Reply ''operation''"
| "second_time h Get_Firewall = Failed KeyError"
| "second_time h (Get_Object name) = (if Get_Object name \<in> set h then Empty_Reply else Failed KeyError)"
| "second_time h q = Empty_Reply"

lemma second_time_failed: "second_time h q = Failed e \<Longrightarrow> q = Get_Firewall \<or> q \<in> range Get_Object"
  by (cases q) auto

lemma obliging_second_time: "obliging second_time"
  unfolding obliging_def
proof (intro conjI allI impI)
  fix h op
  show "\<exists>m. second_time (h @ replicate m (Get_Operation op)) (Get_Operation op) = Text_Reply ''DONE''"
    by (rule exI[of _ 1]) simp
  show "\<exists>m. \<forall>e. second_time (h @ replicate m (Get_Object op)) (Get_Object op) \<noteq> Failed e"
    by (rule exI[of _ 1]) simp
qed (auto dest: second_time_failed)

theorem provisioning_refines_witness:
  "\<exists>addresses qs. provide_on_cloud second_time [''ab'', ''cd''] ''#!/bin/bash'' ''paxos'' [] = Some (Ret (), [] @ qs) \<and>
    list_all2 (addresses_answered second_time) (map vm_name (enumerate 1 [''ab'', ''cd''])) addresses \<and>
    actions_from second_time [] qs = fst (provide_gce_cluster (zip [''ab'', ''cd''] addresses) ''paxos'')"
  by (rule provisioning_refines[OF obliging_second_time]) simp

lemma tear_down_on_cloud_ok:
  assumes "obliging cl"
  shows "achieves cl (tear_down_on_cloud cl nodes) (\<lambda>u as. as = map (\<lambda>n. Delete_Instance (vm_id n)) nodes)"
proof -
  have delete: "achieves cl (ask_text cl (Delete_Vm vm)) (\<lambda>op as. as = [Delete_Instance vm])" for vm
    using ask_text_ok[OF assms, of "Delete_Vm vm"] by simp
  show ?thesis unfolding tear_down_on_cloud_def
    by (rule achieves_next[OF each_action[OF delete]], rule achieves_next[OF achieves_each_unit[OF wait_operation_ok[OF assms]]])
      (auto intro!: achieves_finish)
qed

subsection \<open>When a request fails\<close>

text \<open>Every request satisfies \<open>I\<close> where it is made; with \<open>b\<close> false, this is only known of runs that fail.\<close>

definition every_request :: "(request list \<Rightarrow> request \<Rightarrow> bool) \<Rightarrow> bool \<Rightarrow> 'a process \<Rightarrow> bool" where
  "every_request I b p \<longleftrightarrow> (\<forall>h r h'. p h = Some (r, h') \<longrightarrow>
     (\<exists>qs. h' = h @ qs \<and> ((b \<or> (\<exists>e. r = Raise e)) \<longrightarrow> (\<forall>i<length qs. I (h @ take i qs) (qs ! i)))))"

lemma every_requestI:
  assumes "\<And>h r h'. p h = Some (r, h') \<Longrightarrow> \<exists>qs. h' = h @ qs \<and> (\<forall>i<length qs. I (h @ take i qs) (qs ! i))"
  shows "every_request I b p"
  unfolding every_request_def
proof (intro allI impI)
  fix h r h' assume run: "p h = Some (r, h')"
  obtain qs where "h' = h @ qs" "\<forall>i<length qs. I (h @ take i qs) (qs ! i)" using assms[OF run] by (elim exE conjE)
  then show "\<exists>qs. h' = h @ qs \<and> ((b \<or> (\<exists>e. r = Raise e)) \<longrightarrow> (\<forall>i<length qs. I (h @ take i qs) (qs ! i)))"
    by (intro exI[of _ qs]) simp
qed

lemma every_request_finish: "every_request I b (finish x)"
  by (simp add: every_request_def finish_def)

lemma every_request_next:
  assumes "every_request I True p" "\<And>x. every_request I b (f x)"
  shows "every_request I b (and_next p f)"
  unfolding every_request_def
proof (intro allI impI)
  fix h r h'
  assume run: "and_next p f h = Some (r, h')"
  then obtain r1 h1 where p: "p h = Some (r1, h1)" by (cases "p h") (auto simp: and_next_def)
  obtain qs where qs: "h1 = h @ qs" "\<forall>i<length qs. I (h @ take i qs) (qs ! i)"
    using assms(1) p unfolding every_request_def by blast
  show "\<exists>qs. h' = h @ qs \<and> (b \<or> (\<exists>e. r = Raise e) \<longrightarrow> (\<forall>i<length qs. I (h @ take i qs) (qs ! i)))"
  proof (cases r1)
    case (Raise e)
    then show ?thesis using run p qs by (auto simp: and_next_def)
  next
    case (Ret x)
    then have fx: "f x h1 = Some (r, h')" using run p by (simp add: and_next_def)
    obtain qs' where qs': "h' = h1 @ qs'"
      "b \<or> (\<exists>e. r = Raise e) \<longrightarrow> (\<forall>i<length qs'. I (h1 @ take i qs') (qs' ! i))"
      using assms(2)[of x, unfolded every_request_def, THEN spec, THEN spec, THEN spec, THEN mp, OF fx] by (elim exE conjE)
    have "I (h @ take i (qs @ qs')) ((qs @ qs') ! i)"
      if "b \<or> (\<exists>e. r = Raise e)" "i < length (qs @ qs')" for i
      using that qs qs' by (cases "i < length qs") (auto simp: nth_append)
    then show ?thesis using qs(1) qs'(1) by (intro exI[of _ "qs @ qs'"]) simp
  qed
qed

lemma every_request_ask:
  assumes "\<And>h. I h q"
  shows "every_request I b (ask cl q)"
  using assms by (auto simp: every_request_def ask_def)

lemma every_request_each:
  assumes "\<And>x. every_request I True (f x)"
  shows "every_request I b (each f xs)"
proof (induction xs arbitrary: b)
  case Nil
  show ?case by (simp add: every_request_def)
next
  case (Cons x xs)
  have "each f (x # xs) = and_next (f x) (\<lambda>y. and_next (each f xs) (\<lambda>ys. finish (y # ys)))" by (simp add: fun_eq_iff)
  then show ?case using assms Cons by (auto intro!: every_request_next every_request_finish)
qed

text \<open>A loop makes one request again and again.\<close>

lemma wait_operation_asks:
  assumes "wait_operation cl op h = Some r"
  shows "\<exists>k. snd r = h @ replicate k (Get_Operation op)"
proof (rule wait_operation.raw_induct[OF _ assms, of "\<lambda>cl op h r. \<exists>k. snd r = h @ replicate k (Get_Operation op)"])
  fix w :: "cloud \<Rightarrow> string \<Rightarrow> request list \<Rightarrow> (unit outcome \<times> request list) option" and c o' g y
  assume IH: "\<And>c o' g y. w c o' g = Some y \<Longrightarrow> \<exists>k. snd y = g @ replicate k (Get_Operation o')"
    and step: "(case c g (Get_Operation o') of
        Failed e \<Rightarrow> Some (Raise e, g @ [Get_Operation o'])
      | Text_Reply s \<Rightarrow> if s = ''DONE'' then Some (Ret (), g @ [Get_Operation o']) else w c o' (g @ [Get_Operation o'])
      | _ \<Rightarrow> Some (Raise KeyError, g @ [Get_Operation o'])) = Some y"
  have once: "\<exists>k. snd y = g @ replicate k (Get_Operation o')" if "snd y = g @ [Get_Operation o']"
    using that by (intro exI[of _ 1]) simp
  have again: "\<exists>k. snd y = g @ replicate k (Get_Operation o')" if "w c o' (g @ [Get_Operation o']) = Some y"
    using IH[OF that] by (metis append.assoc append_Cons append_Nil replicate_Suc)
  show "\<exists>k. snd y = g @ replicate k (Get_Operation o')"
    using step once again by (auto split: reply.splits if_splits)
qed

lemma wait_object_asks:
  assumes "wait_object cl name h = Some r"
  shows "\<exists>k. snd r = h @ replicate k (Get_Object name)"
proof (rule wait_object.raw_induct[OF _ assms, of "\<lambda>cl name h r. \<exists>k. snd r = h @ replicate k (Get_Object name)"])
  fix w :: "cloud \<Rightarrow> string \<Rightarrow> request list \<Rightarrow> (unit outcome \<times> request list) option" and c o' g y
  assume IH: "\<And>c o' g y. w c o' g = Some y \<Longrightarrow> \<exists>k. snd y = g @ replicate k (Get_Object o')"
    and step: "(if fst (gcs_file_exists c o' g) then Some (Ret (), g @ [Get_Object o'])
      else w c o' (g @ [Get_Object o'])) = Some y"
  have again: "\<exists>k. snd y = g @ replicate k (Get_Object o')" if "w c o' (g @ [Get_Object o']) = Some y"
    using IH[OF that] by (metis append.assoc append_Cons append_Nil replicate_Suc)
  have "\<exists>k. g @ [Get_Object o'] = g @ replicate k (Get_Object o')" by (intro exI[of _ 1]) simp
  then show "\<exists>k. snd y = g @ replicate k (Get_Object o')"
    using step again by (auto split: if_splits)
qed

lemma every_request_loop:
  assumes "\<And>h r. p h = Some r \<Longrightarrow> \<exists>k. snd r = h @ replicate k q" "\<And>h. I h q"
  shows "every_request I b p"
  unfolding every_request_def
proof (intro allI impI)
  fix h r h' assume "p h = Some (r, h')"
  then obtain k where "h' = h @ replicate k q" using assms(1) by fastforce
  then show "\<exists>qs. h' = h @ qs \<and> (b \<or> (\<exists>e. r = Raise e) \<longrightarrow> (\<forall>i<length qs. I (h @ take i qs) (qs ! i)))"
    using assms(2) by (intro exI[of _ "replicate k q"]) simp
qed

text \<open>No machine is deleted, and a file for \<open>tear_down.py\<close> is at most tried to be written.\<close>

definition no_way_back :: "cloud \<Rightarrow> request list \<Rightarrow> request \<Rightarrow> bool" where
  "no_way_back cl h q \<longleftrightarrow> q \<notin> range Delete_Vm \<and> (\<forall>f m. q = Save_Master f m \<longrightarrow> (\<exists>e. cl h q = Failed e))"

lemma no_way_back_simps [simp]:
  "no_way_back cl h Get_Image" "no_way_back cl h (Insert_Instance bd)" "no_way_back cl h (Get_Operation op)"
  "no_way_back cl h (Get_Instance vm)" "no_way_back cl h Get_Firewall" "no_way_back cl h (Insert_Firewall bd)"
  "no_way_back cl h (Get_Object nm)" "no_way_back cl h (Delete_Object nm)" "no_way_back cl h (Insert_Object fl nm)"
  "no_way_back cl h (Write_File fl c)" "no_way_back cl h (Call_Daemon ip dc)"
  by (auto simp: no_way_back_def)

lemma every_request_ask_text: "(\<And>h. I h q) \<Longrightarrow> every_request I b (ask_text cl q)"
  unfolding ask_text_def by (rule every_request_next[OF every_request_ask]) (auto simp: every_request_def)

lemma every_request_done: "(\<And>h. I h q) \<Longrightarrow> every_request I b (and_next (ask cl q) (\<lambda>r. finish ()))"
  by (rule every_request_next[OF every_request_ask every_request_finish])

lemma no_way_back_pieces:
  "every_request (no_way_back cl) b (start_vm cl script vm)"
  "every_request (no_way_back cl) b (wait_instance cl vo)"
  "every_request (no_way_back cl) b (take_acknowledgement cl vm)"
  "every_request (no_way_back cl) b (send_config cl algorithm cluster n)"
  "every_request (no_way_back cl) b (call_daemon cl ip c)"
proof -
  have "every_request (no_way_back cl) b (get_addresses cl vm)" for b vm
    unfolding get_addresses_def by (rule every_request_next[OF every_request_ask]) (auto simp: every_request_def)
  then show "every_request (no_way_back cl) b (wait_instance cl vo)"
    unfolding wait_instance_def case_prod_beta
    by (intro every_request_next every_request_loop[OF wait_operation_asks]) simp_all
  show "every_request (no_way_back cl) b (start_vm cl script vm)"
    unfolding start_vm_def create_instance_def by (intro every_request_next every_request_ask_text) simp_all
  show "every_request (no_way_back cl) b (take_acknowledgement cl vm)" unfolding take_acknowledgement_def
    by (intro every_request_next every_request_done every_request_finish every_request_ask
        every_request_loop[OF wait_object_asks]) simp_all
  show "every_request (no_way_back cl) b (send_config cl algorithm cluster n)"
    unfolding send_config_def upload_object_def Let_def
    by (intro every_request_next every_request_finish every_request_ask) simp_all
  show "every_request (no_way_back cl) b (call_daemon cl ip c)"
    unfolding call_daemon_def by (intro every_request_done) simp
qed

lemma no_way_back_save:
  "every_request (no_way_back cl) False (and_next (ask cl (Save_Master file m)) (\<lambda>r. finish ()))"
  by (auto simp: every_request_def and_next_def ask_def finish_def no_way_back_def split: reply.splits)

lemma no_way_back_firewall: "every_request (no_way_back cl) b (ensure_firewall cl)"
proof (rule every_requestI)
  let ?insert = "and_next (ask cl (Insert_Firewall firewall_rule)) (\<lambda>r. finish ())"
  fix h r h' assume run: "ensure_firewall cl h = Some (r, h')"
  show "\<exists>qs. h' = h @ qs \<and> (\<forall>i<length qs. no_way_back cl (h @ take i qs) (qs ! i))"
  proof (cases "\<exists>e. cl h Get_Firewall = Failed e")
    case True
    then have "?insert (h @ [Get_Firewall]) = Some (r, h')" using run by (auto simp: ensure_firewall_def ask_def)
    then have "h' = h @ [Get_Firewall, Insert_Firewall firewall_rule]"
      by (auto simp: and_next_def ask_def finish_def split: outcome.splits)
    then show ?thesis by (intro exI[of _ "[Get_Firewall, Insert_Firewall firewall_rule]"]) (auto simp: less_Suc_eq)
  next
    case False
    then have "h' = h @ [Get_Firewall]" using run by (auto simp: ensure_firewall_def ask_def split: reply.splits)
    then show ?thesis by (intro exI[of _ "[Get_Firewall]"]) simp
  qed
qed

lemma no_way_back_start: "every_request (no_way_back cl) False (start_cluster cl algorithm cluster)"
proof (cases cluster)
  case Nil
  then show ?thesis by (simp add: every_request_def start_cluster_def)
next
  case (Cons first rest)
  have "every_request (no_way_back cl) True (run_algorithm cl algorithm first rest d)" for d
    unfolding run_algorithm_def
    by (intro every_request_next every_request_each every_request_finish) (simp add: no_way_back_pieces case_prod_beta)
  note steps = this every_request_each[OF no_way_back_pieces(5)] no_way_back_pieces(5) no_way_back_save
  show ?thesis unfolding start_cluster_def Cons list.case Let_def by (intro every_request_next steps)
qed

text \<open>C38: when provisioning in the cloud fails.  Whatever the services answer, a run that ends with
  an exception has deleted no machine, and wherever it tried to write the file that \<open>tear_down.py\<close>
  needs, that was what failed.  So the machines it had created keep running.\<close>

theorem failed_provisioning:
  assumes "provide_on_cloud cl tails script algorithm h = Some (Raise e, h')"
  shows "\<exists>qs. h' = h @ qs \<and> (\<forall>i<length qs. qs ! i \<notin> range Delete_Vm \<and>
    (\<forall>file m. qs ! i = Save_Master file m \<longrightarrow> (\<exists>e'. cl (h @ take i qs) (qs ! i) = Failed e')))"
proof -
  have "every_request (no_way_back cl) False (provide_on_cloud cl tails script algorithm)"
    unfolding provide_on_cloud_def Let_def
    by (intro every_request_next every_request_each no_way_back_pieces no_way_back_firewall no_way_back_start)
  then show ?thesis using assms unfolding every_request_def no_way_back_def by blast
qed

text \<open>The second machine cannot be created.\<close>

fun one_machine :: cloud where
  "one_machine h Get_Image = (if Get_Image \<in> set h then Failed Fault else Text_Reply ''debian'')"
| "one_machine h q = second_time h q"

lemma one_machine_run:
  "provide_on_cloud one_machine [''ab'', ''cd''] script ''pso'' [] =
     Some (Raise Fault, [Get_Image, Insert_Instance (instance_config ''vm-node-1-ab''
       [(''bucket'', GCS_BUCKET), (''clusterConfig'', ''config/'' @ config_file_name ''vm-node-1-ab''),
        (''myid'', ''vm-node-1-ab'')] script ''debian''), Get_Image])"
proof -
  have ids: "map vm_name (enumerate 1 [''ab'', ''cd'']) = [''vm-node-1-ab'', ''vm-node-2-cd'']" by code_simp
  show ?thesis unfolding provide_on_cloud_def Let_def ids
    by (simp add: start_vm_def create_instance_def ask_text_def ask_def and_next_def)
qed

theorem failed_provisioning_witness:
  "\<exists>h' m. provide_on_cloud one_machine [''ab'', ''cd''] ''#!/bin/bash'' ''pso'' [] = Some (Raise Fault, h') \<and>
     Create_Instance ''vm-node-1-ab'' m \<in> set (actions_from one_machine [] h') \<and>
     (\<exists>qs. h' = [] @ qs \<and> (\<forall>i<length qs. qs ! i \<notin> range Delete_Vm \<and>
       (\<forall>file m. qs ! i = Save_Master file m \<longrightarrow> (\<exists>e'. one_machine ([] @ take i qs) (qs ! i) = Failed e'))))"
  by (rule exI, rule exI, rule conjI[OF one_machine_run conjI[OF _ failed_provisioning[OF one_machine_run]]])
    (simp add: machine_of_config)

end
