(* ===== verification/Test_Lines.thy ===== *)
theory Test_Lines
  imports Prelude "HOL-Library.Char_ord"
begin

section \<open>The lines of a test file\<close>

text \<open>
  What class \<open>Parser\<close> of \<open>test_executor.py\<close> makes of one line: the regular expressions
  it tries in turn with \<open>re.match\<close>, and \<open>get_params\<close>, which takes the parameters out of
  a line with the methods of \<open>str\<close>.
\<close>

subsection \<open>Regular expressions\<close>

text \<open>
  The part of \<open>re\<close> that the patterns use.  \<open>rests r s\<close> lists what can be left of \<open>s\<close>
  after a match at its beginning; \<open>re.match\<close> succeeds when something can.
\<close>

datatype regex =
    Char_In "char \<Rightarrow> bool"
  | Nothing
  | In_Order regex regex
  | Either regex regex
  | Many regex

function rests :: "regex \<Rightarrow> string \<Rightarrow> string list" where
  "rests (Char_In P) s = (case s of [] \<Rightarrow> [] | c # t \<Rightarrow> if P c then [t] else [])"
| "rests Nothing s = [s]"
| "rests (In_Order a b) s = concat (map (rests b) (rests a s))"
| "rests (Either a b) s = rests a s @ rests b s"
| "rests (Many a) s =
     s # concat (map (rests (Many a)) (filter (\<lambda>t. length t < length s) (rests a s)))"
  by pat_completeness auto

termination
  by (relation "measures [size \<circ> fst, length \<circ> snd]") auto

declare rests.simps(5) [simp del]

lemma rests_manyE:
  assumes "t \<in> set (rests (Many a) s)"
  obtains "t = s" | q where "q \<in> set (rests a s)" "length q < length s" "t \<in> set (rests (Many a) q)"
  using assms unfolding rests.simps(5)[of a s] by auto

lemma rests_manyI:
  "s \<in> set (rests (Many a) s)"
  "q \<in> set (rests a s) \<Longrightarrow> length q < length s \<Longrightarrow> t \<in> set (rests (Many a) q) \<Longrightarrow> t \<in> set (rests (Many a) s)"
  unfolding rests.simps(5)[of a s] by auto

definition re_match :: "regex \<Rightarrow> string \<Rightarrow> bool" where
  "re_match r s \<longleftrightarrow> rests r s \<noteq> []"

text \<open>What the expressions mean, as relation between an expression and the texts it matches whole.\<close>

inductive fits :: "regex \<Rightarrow> string \<Rightarrow> bool" where
  char_in: "P c \<Longrightarrow> fits (Char_In P) [c]"
| nothing: "fits Nothing []"
| in_order: "fits a s \<Longrightarrow> fits b t \<Longrightarrow> fits (In_Order a b) (s @ t)"
| either_left: "fits a s \<Longrightarrow> fits (Either a b) s"
| either_right: "fits b s \<Longrightarrow> fits (Either a b) s"
| many_none: "fits (Many a) []"
| many_more: "fits a s \<Longrightarrow> fits (Many a) t \<Longrightarrow> fits (Many a) (s @ t)"

inductive_cases fits_charE [elim!]: "fits (Char_In P) s"
inductive_cases fits_nothingE [elim!]: "fits Nothing s"
inductive_cases fits_orderE [elim!]: "fits (In_Order a b) s"
inductive_cases fits_eitherE [elim!]: "fits (Either a b) s"

lemma rests_sound: "t \<in> set (rests r s) \<Longrightarrow> \<exists>p. s = p @ t \<and> fits r p"
proof (induction r s arbitrary: t rule: rests.induct)
  case (1 P s)
  then show ?case by (cases s) (auto intro: fits.intros split: if_splits)
next
  case (3 a b s)
  from 3(3) obtain q where q: "q \<in> set (rests a s)" "t \<in> set (rests b q)" by auto
  from 3(1)[OF q(1)] 3(2)[OF q] show ?case by (auto intro!: fits.intros simp flip: append_assoc)
next
  case (4 a b s)
  then consider "t \<in> set (rests a s)" | "t \<in> set (rests b s)" by auto
  then show ?case using 4(1,2)[of t] by cases (blast intro: fits.intros)+
next
  case (5 a s)
  from 5(3) show ?case
  proof (cases rule: rests_manyE)
    case 1
    then show ?thesis by (auto intro: fits.many_none)
  next
    case (2 q)
    from 5(1)[OF 2(1)] obtain p where p: "s = p @ q" "fits a p" by blast
    have "q \<in> set (filter (\<lambda>t. length t < length s) (rests a s))" using 2(1,2) by simp
    from 5(2)[OF this 2(3)] obtain p' where "q = p' @ t" "fits (Many a) p'" by blast
    with p fits.many_more[OF p(2)] show ?thesis by (metis append.assoc)
  qed
qed (auto intro: fits.intros)

lemma rests_complete: "fits r p \<Longrightarrow> t \<in> set (rests r (p @ t))"
proof (induction arbitrary: t rule: fits.induct)
  case (in_order a s b u)
  then show ?case by (auto intro!: bexI[of _ "u @ t"])
next
  case (many_more a s u)
  show ?case
  proof (cases "s = []")
    case False
    then have "length (u @ t) < length ((s @ u) @ t)" by simp
    moreover have "u @ t \<in> set (rests a ((s @ u) @ t))" using many_more.IH(1)[of "u @ t"] by simp
    ultimately show ?thesis using rests_manyI(2) many_more.IH(2) by metis
  qed (use many_more.IH(2) in simp)
qed (auto intro: rests_manyI(1))

lemma re_match_iff: "re_match r s \<longleftrightarrow> (\<exists>p t. s = p @ t \<and> fits r p)"
proof
  assume "re_match r s"
  then obtain t where "t \<in> set (rests r s)" unfolding re_match_def by (cases "rests r s") auto
  then show "\<exists>p t. s = p @ t \<and> fits r p" using rests_sound by blast
next
  assume "\<exists>p t. s = p @ t \<and> fits r p"
  then obtain p t where "s = p @ t" "fits r p" by blast
  then have "t \<in> set (rests r s)" using rests_complete by simp
  then show "re_match r s" unfolding re_match_def by auto
qed

text \<open>The notation of the patterns: literal text, one or more, perhaps.\<close>

fun literal :: "string \<Rightarrow> regex" where
  "literal [] = Nothing"
| "literal (c # s) = In_Order (Char_In (\<lambda>d. d = c)) (literal s)"

definition some_of :: "regex \<Rightarrow> regex" where
  "some_of r = In_Order r (Many r)"

definition perhaps :: "regex \<Rightarrow> regex" where
  "perhaps r = Either Nothing r"

fun sequence :: "regex list \<Rightarrow> regex" where
  "sequence [] = Nothing"
| "sequence (r # rs) = In_Order r (sequence rs)"

definition blank :: regex where "blank = Char_In (\<lambda>c. c = CHR '' '')"

definition is_digit :: "char \<Rightarrow> bool" where "is_digit c \<longleftrightarrow> CHR ''0'' \<le> c \<and> c \<le> CHR ''9''"

definition is_lower :: "char \<Rightarrow> bool" where "is_lower c \<longleftrightarrow> CHR ''a'' \<le> c \<and> c \<le> CHR ''z''"

definition is_letter :: "char \<Rightarrow> bool" where
  "is_letter c \<longleftrightarrow> is_lower c \<or> CHR ''A'' \<le> c \<and> c \<le> CHR ''Z'' \<or> c = CHR ''_''"

definition not_newline :: "char \<Rightarrow> bool" where "not_newline c \<longleftrightarrow> c \<noteq> char_of (10 :: nat)"

subsection \<open>The patterns\<close>

definition node_ids :: regex where
  "node_ids = Either (In_Order (literal ''all'') (some_of blank))
     (some_of (In_Order (Either (some_of (Char_In is_digit)) (literal ''rand'')) (some_of blank)))"

definition modify_link_pattern :: regex where
  "modify_link_pattern = sequence
     [Many blank, literal ''from'', some_of blank, node_ids, literal ''to'', some_of blank,
      node_ids, perhaps (In_Order (literal ''bidirectional'') (some_of blank)),
      literal ''set'', some_of blank, some_of (Char_In is_lower), Many (Char_In not_newline)]"

definition modify_random_link_pattern :: regex where
  "modify_random_link_pattern = sequence
     [Many blank, literal ''on'', some_of blank, some_of (Char_In is_digit), some_of blank,
      literal ''connection'', perhaps (literal ''s''), some_of blank,
      perhaps (In_Order (literal ''bidirectional'') (some_of blank)),
      literal ''set'', some_of blank, some_of (Char_In is_lower), Many (Char_In not_newline)]"

definition reset_pattern :: regex where
  "reset_pattern = sequence [Many blank, literal ''reset'', Many blank]"

definition run_pattern :: regex where
  "run_pattern = sequence
     [Many blank, literal ''run'', some_of blank, some_of (Char_In is_digit),
      perhaps (In_Order (some_of blank) (some_of (Char_In is_letter))), Many blank]"

definition do_pattern :: regex where
  "do_pattern = sequence [Many blank, literal ''do'', Many blank]"

definition times_pattern :: regex where
  "times_pattern = sequence
     [Many blank, some_of (Char_In is_digit), some_of blank, literal ''time'', perhaps (literal ''s''),
      Many blank]"

subsection \<open>Methods of \<open>str\<close>\<close>

text \<open>Python's white space among the characters below 256.\<close>

definition is_space :: "char \<Rightarrow> bool" where
  "is_space c \<longleftrightarrow> (let n = of_char c :: nat in 9 \<le> n \<and> n \<le> 13 \<or> 28 \<le> n \<and> n \<le> 32 \<or> n = 133 \<or> n = 160)"

definition rstrip :: "string \<Rightarrow> string" where
  "rstrip s = rev (dropWhile is_space (rev s))"

text \<open>\<open>s.split()\<close>.\<close>

fun pieces :: "string \<Rightarrow> string list" where
  "pieces [] = [[]]"
| "pieces (c # s) = (if is_space c then [] # pieces s else (c # hd (pieces s)) # tl (pieces s))"

definition split_words :: "string \<Rightarrow> string list" where
  "split_words s = filter (\<lambda>w. w \<noteq> []) (pieces s)"

text \<open>\<open>sep in s\<close>, \<open>s.split(sep)\<close> and \<open>s.replace(old, new)\<close> for a separator that is not empty:
  \<open>break_at\<close> cuts at the first occurrence.\<close>

fun break_at :: "string \<Rightarrow> string \<Rightarrow> string \<times> string option" where
  "break_at sep [] = ([], None)"
| "break_at sep (c # s) =
     (if take (length sep) (c # s) = sep then ([], Some (drop (length sep) (c # s)))
      else let (a, r) = break_at sep s in (c # a, r))"

definition occurs_in :: "string \<Rightarrow> string \<Rightarrow> bool" where
  "occurs_in sep s \<longleftrightarrow> snd (break_at sep s) \<noteq> None"

lemma break_at_shorter: "break_at sep s = (a, Some r) \<Longrightarrow> sep \<noteq> [] \<Longrightarrow> length r < length s"
  by (induction sep s arbitrary: a r rule: break_at.induct) (auto split: if_splits prod.splits)

function split_at :: "string \<Rightarrow> string \<Rightarrow> string list" where
  "split_at sep s =
     (if sep = [] then [s]
      else case break_at sep s of (a, None) \<Rightarrow> [a] | (a, Some r) \<Rightarrow> a # split_at sep r)"
  by pat_completeness auto

termination
  by (relation "measure (length \<circ> snd)") (auto dest: break_at_shorter[OF sym])

declare split_at.simps [simp del]

definition replace_all :: "string \<Rightarrow> string \<Rightarrow> string \<Rightarrow> string" where
  "replace_all old new s = concat (hd (split_at old s) # map (\<lambda>t. new @ t) (tl (split_at old s)))"

definition item :: "'a list \<Rightarrow> nat \<Rightarrow> 'a outcome" where
  "item xs i = (if i < length xs then Ret (xs ! i) else Raise IndexError)"

text \<open>\<open>int(s)\<close> of digits; the other texts that \<open>int\<close> takes do not match the patterns.\<close>

definition decimal :: "string \<Rightarrow> nat outcome" where
  "decimal s = (if s \<noteq> [] \<and> list_all is_digit s
     then Ret (foldl (\<lambda>n c. 10 * n + (of_char c - of_char (CHR ''0''))) 0 s) else Raise ValueError)"

fun and_then :: "'a outcome \<Rightarrow> ('a \<Rightarrow> 'b outcome) \<Rightarrow> 'b outcome" where
  "and_then (Ret x) f = f x"
| "and_then (Raise e) f = Raise e"

subsection \<open>The parameters of a line\<close>

datatype test_command =
    Modify_Link "string list" "string list" string bool  \<comment> \<open>sources, targets, netem command, bidirectional\<close>
  | Modify_Random_Link nat string bool                   \<comment> \<open>connection number, netem command, bidirectional\<close>
  | Reset_Links
  | Run_Operations nat string                            \<comment> \<open>number of operations, label\<close>

definition get_times :: "string \<Rightarrow> nat outcome" where
  "get_times l = and_then (item (split_words l) 0) decimal"

definition run_params :: "string \<Rightarrow> (string \<times> string) outcome" where
  "run_params l =
     (let tokens = split_words l in
      and_then (item tokens 1) (\<lambda>nop.
        if length tokens > 2 then and_then (item tokens 2) (\<lambda>label. Ret (nop, label))
        else Ret (nop, ''no_name'')))"

text \<open>What the two kinds of link lines have in common: the part before \<open>set\<close> without the word
  \<open>bidirectional\<close>, the part after it, and whether the word was there.\<close>

definition cut_at_set :: "string \<Rightarrow> (string \<times> string \<times> bool) outcome" where
  "cut_at_set l =
     and_then (item (split_at ''set'' l) 1) (\<lambda>netem_command.
     and_then (item (split_at ''set'' l) 0) (\<lambda>first_part.
       if occurs_in '' bidirectional '' first_part
       then Ret (replace_all '' bidirectional'' [] first_part, netem_command, True)
       else Ret (first_part, netem_command, False)))"

definition link_params :: "string \<Rightarrow> (string list \<times> string list \<times> string \<times> bool) outcome" where
  "link_params l =
     and_then (cut_at_set l) (\<lambda>(first_part, netem_command, bidirectional).
     and_then (item (split_at ''to'' first_part) 0) (\<lambda>source_part.
     and_then (item (split_at ''to'' first_part) 1) (\<lambda>target_part.
       Ret (split_words (replace_all ''from'' [] source_part), split_words target_part, netem_command, bidirectional))))"

definition rlink_params :: "string \<Rightarrow> (nat \<times> string \<times> bool) outcome" where
  "rlink_params l =
     and_then (cut_at_set l) (\<lambda>(first_part, netem_command, bidirectional).
     and_then (item (split_words (replace_all ''on'' [] first_part)) 0) (\<lambda>token.
     and_then (decimal token) (\<lambda>n. Ret (n, netem_command, bidirectional))))"

text \<open>The branches of the \<open>try\<close> block of \<open>parse\<close>, up to what they do with the loop pointers.\<close>

datatype test_line = Empty_Line | Command_Line test_command | Do_Line | Times_Line nat | Unknown_Line

definition read_line :: "string \<Rightarrow> test_line outcome" where
  "read_line test_line =
     (let l = rstrip test_line in
      if l = [] then Ret Empty_Line
      else if re_match modify_link_pattern l then
        and_then (link_params l) (\<lambda>(sources, targets, netem_command, bidirectional).
          Ret (Command_Line (Modify_Link sources targets netem_command bidirectional)))
      else if re_match modify_random_link_pattern l then
        and_then (rlink_params l) (\<lambda>(n, netem_command, bidirectional).
          Ret (Command_Line (Modify_Random_Link n netem_command bidirectional)))
      else if re_match reset_pattern l then Ret (Command_Line Reset_Links)
      else if re_match run_pattern l then
        and_then (run_params l) (\<lambda>(nop, label).
        and_then (decimal nop) (\<lambda>n. Ret (Command_Line (Run_Operations n label))))
      else if re_match do_pattern l then Ret Do_Line
      else if re_match times_pattern l then and_then (get_times l) (\<lambda>n. Ret (Times_Line n))
      else Ret Unknown_Line)"

text \<open>The ids of one side are \<open>all\<close> or a list of numbers and \<open>rand\<close>, not both.\<close>

lemma all_or_listed:
  "read_line ''from 1 rand to all set delay 1ms'' = Ret (Command_Line (Modify_Link [''1'', ''rand''] [''all''] '' delay 1ms'' False))"
  "read_line ''from 1 all to 2 set delay 1ms'' = Ret Unknown_Line"
  "read_line ''from all all to 2 set delay 1ms'' = Ret Unknown_Line"
  by code_simp+

end
