(* ===== verification/Test_Parser.thy ===== *)
theory Test_Parser
  imports Test_Lines
begin

section \<open>The loops of a test file\<close>

text \<open>
  \<open>Parser.parse\<close> of \<open>test_executor.py\<close>: one pass over the lines with an index that jumps
  back at the end of a \<open>do ... n times\<close> block, so that the commands come out unrolled, each with
  the number of its line.  \<open>do_open\<close> is the depth of the innermost open block from 0, and
  \<open>pointers\<close> remembers where the blocks started and how often each has been gone through.
\<close>

subsection \<open>The parser\<close>

datatype error_type = SYNTAX_ERROR | ID_ERROR | LOCAL_EXECUTION_ERROR | NETEM_ERROR

text \<open>The type of a \<open>TestException\<close> and its line, -1 until it is set.\<close>

datatype test_exception = TestException (exception_type: error_type) (exception_line: int)

record loop_pointer =
  pt_start :: nat
  pt_repetition :: nat

record parser_state =
  next_index :: nat
  do_open :: int
  pointers :: "loop_pointer list"
  commands_list :: "(nat \<times> test_command) list"   \<comment> \<open>in order, with the number of the line\<close>

definition init_parser :: parser_state where
  "init_parser = \<lparr>next_index = 0, do_open = -1, pointers = [], commands_list = []\<rparr>"

text \<open>The position that \<open>xs[i]\<close> names: a negative index counts from the end.\<close>

definition position :: "'a list \<Rightarrow> int \<Rightarrow> nat outcome" where
  "position xs i =
     (if 0 \<le> i \<and> i < int (length xs) then Ret (nat i)
      else if i < 0 \<and> - i \<le> int (length xs) then Ret (nat (int (length xs) + i))
      else Raise IndexError)"

definition open_block :: "parser_state \<Rightarrow> parser_state outcome" where
  "open_block st =
     (let here = \<lparr>pt_start = next_index st, pt_repetition = 1\<rparr>;
          st1 = st\<lparr>do_open := do_open st + 1\<rparr> in
      if int (length (pointers st1)) < do_open st1 + 1
      then Ret (st1\<lparr>pointers := pointers st1 @ [here]\<rparr>)
      else and_then (position (pointers st1) (do_open st1)) (\<lambda>k.
        Ret (st1\<lparr>pointers := (pointers st1)[k := here]\<rparr>)))"

definition close_block :: "nat \<Rightarrow> parser_state \<Rightarrow> parser_state outcome" where
  "close_block n st =
     and_then (position (pointers st) (do_open st)) (\<lambda>k.
       let p = pointers st ! k in
       if pt_repetition p < n
       then Ret (st\<lparr>next_index := pt_start p,
                    pointers := (pointers st)[k := p\<lparr>pt_repetition := pt_repetition p + 1\<rparr>]\<rparr>)
       else Ret (st\<lparr>do_open := do_open st - 1\<rparr>))"

text \<open>One turn of the loop.  Whatever is raised while a line is read becomes a syntax error.\<close>

definition parse_line :: "string \<Rightarrow> parser_state \<Rightarrow> test_exception + parser_state" where
  "parse_line l st =
     (let line = next_index st + 1;
          turn = and_then (read_line l) (\<lambda>t. case t of
              Do_Line \<Rightarrow> and_then (open_block st) (\<lambda>st1. Ret (t, st1))
            | Times_Line n \<Rightarrow> and_then (close_block n st) (\<lambda>st1. Ret (t, st1))
            | _ \<Rightarrow> Ret (t, st)) in
      case turn of
        Raise e \<Rightarrow> Inl (TestException SYNTAX_ERROR (int line))
      | Ret (Unknown_Line, st1) \<Rightarrow> Inl (TestException SYNTAX_ERROR (int line))
      | Ret (Command_Line c, st1) \<Rightarrow>
          Inr (st1\<lparr>commands_list := commands_list st1 @ [(next_index st1 + 1, c)],
                   next_index := next_index st1 + 1\<rparr>)
      | Ret (_, st1) \<Rightarrow> Inr (st1\<lparr>next_index := next_index st1 + 1\<rparr>))"

text \<open>The loop; the value \<open>None\<close> is a run that does not end.\<close>

partial_function (option) parse_from ::
  "string list \<Rightarrow> parser_state \<Rightarrow> (test_exception + (nat \<times> test_command) list) option" where
  "parse_from test_file st =
     (if next_index st < length test_file
      then case parse_line (test_file ! next_index st) st of
             Inl e \<Rightarrow> Some (Inl e)
           | Inr st' \<Rightarrow> parse_from test_file st'
      else Some (Inr (commands_list st)))"

definition parse :: "string list \<Rightarrow> (test_exception + (nat \<times> test_command) list) option" where
  "parse test_file = parse_from (test_file @ [''reset'']) init_parser"

declare parse_from.simps [code]

subsection \<open>Test files as programs\<close>

text \<open>
  What a test file means: a program of commands and of blocks, laid out on lines.
  \<open>unroll k p\<close> is what the program runs when its first line has index \<open>k\<close>; a block that
  asks for no repetition runs once.
\<close>

datatype test_program = Line string | Block string "test_program list" string

fun layout :: "test_program \<Rightarrow> string list" where
  "layout (Line l) = [l]"
| "layout (Block d ps t) = d # concat (map layout ps) @ [t]"

fun well_formed :: "test_program \<Rightarrow> bool" where
  "well_formed (Line l) \<longleftrightarrow> (\<exists>c. read_line l = Ret (Command_Line c)) \<or> read_line l = Ret Empty_Line"
| "well_formed (Block d ps t) \<longleftrightarrow>
     read_line d = Ret Do_Line \<and> (\<exists>n. read_line t = Ret (Times_Line n)) \<and> list_all well_formed ps"

fun repetitions :: "string \<Rightarrow> nat" where
  "repetitions t = (case read_line t of Ret (Times_Line n) \<Rightarrow> max 1 n | _ \<Rightarrow> 0)"

fun unroll :: "nat \<Rightarrow> test_program \<Rightarrow> (nat \<times> test_command) list"
  and unrolls :: "nat \<Rightarrow> test_program list \<Rightarrow> (nat \<times> test_command) list" where
  "unroll k (Line l) = (case read_line l of Ret (Command_Line c) \<Rightarrow> [(k + 1, c)] | _ \<Rightarrow> [])"
| "unroll k (Block d ps t) = concat (replicate (repetitions t) (unrolls (k + 1) ps))"
| "unrolls k [] = []"
| "unrolls k (p # ps) = unroll k p @ unrolls (k + length (layout p)) ps"

text \<open>\<open>goes st st'\<close>: from \<open>st\<close> the parser comes to \<open>st'\<close>.\<close>

definition goes :: "string list \<Rightarrow> parser_state \<Rightarrow> parser_state \<Rightarrow> bool" where
  "goes test_file st st' \<longleftrightarrow> parse_from test_file st = parse_from test_file st'"

lemma goes_refl: "goes f st st"
  by (simp add: goes_def)

lemma goes_trans [trans]: "goes f st st' \<Longrightarrow> goes f st' st'' \<Longrightarrow> goes f st st''"
  by (simp add: goes_def)

lemma goes_step:
  "next_index st < length f \<Longrightarrow> parse_line (f ! next_index st) st = Inr st' \<Longrightarrow> goes f st st'"
  unfolding goes_def by (subst parse_from.simps) simp

text \<open>Going through some lines adds commands and moves on, and leaves the open blocks as they were.\<close>

definition passes ::
  "string list \<Rightarrow> parser_state \<Rightarrow> nat \<Rightarrow> (nat \<times> test_command) list \<Rightarrow> bool" where
  "passes f st n cs \<longleftrightarrow>
     (\<exists>ps. goes f st (st\<lparr>next_index := next_index st + n, pointers := ps,
                         commands_list := commands_list st @ cs\<rparr>) \<and>
       length (pointers st) \<le> length ps \<and> (\<forall>j. int j \<le> do_open st \<longrightarrow> ps ! j = pointers st ! j))"

definition deep_enough :: "parser_state \<Rightarrow> bool" where
  "deep_enough st \<longleftrightarrow> -1 \<le> do_open st \<and> do_open st < int (length (pointers st))"

lemma passes_deep:
  assumes "deep_enough st" "length (pointers st) \<le> length ps"
  shows "deep_enough (st\<lparr>next_index := i, pointers := ps, commands_list := cs\<rparr>)"
  using assms by (simp add: deep_enough_def)

lemma passes_nil: "passes f st 0 []"
  unfolding passes_def by (intro exI[of _ "pointers st"]) (simp add: goes_refl)

lemma passes_append:
  assumes "passes f st n cs" "deep_enough st"
    "\<And>st'. deep_enough st' \<Longrightarrow> next_index st' = next_index st + n \<Longrightarrow> passes f st' m ds"
  shows "passes f st (n + m) (cs @ ds)"
proof -
  obtain ps where ps: "goes f st (st\<lparr>next_index := next_index st + n, pointers := ps,
      commands_list := commands_list st @ cs\<rparr>)" "length (pointers st) \<le> length ps"
    "\<forall>j. int j \<le> do_open st \<longrightarrow> ps ! j = pointers st ! j"
    using assms(1) unfolding passes_def by blast
  let ?st = "st\<lparr>next_index := next_index st + n, pointers := ps, commands_list := commands_list st @ cs\<rparr>"
  have "passes f ?st m ds" using passes_deep[OF assms(2) ps(2)] by (intro assms(3)) simp_all
  then obtain qs where qs: "goes f ?st (?st\<lparr>next_index := next_index ?st + m, pointers := qs,
      commands_list := commands_list ?st @ ds\<rparr>)" "length ps \<le> length qs"
    "\<forall>j. int j \<le> do_open st \<longrightarrow> qs ! j = ps ! j"
    unfolding passes_def by auto
  show ?thesis
    unfolding passes_def using goes_trans[OF ps(1) qs(1)] ps(2,3) qs(2,3)
    by (intro exI[of _ qs]) (simp add: add.assoc)
qed

lemma passes_line:
  assumes "f ! next_index st = l" "next_index st < length f" "well_formed (Line l)"
  shows "passes f st 1 (unroll (next_index st) (Line l))"
proof -
  have "parse_line l st = Inr (st\<lparr>next_index := next_index st + 1, pointers := pointers st,
      commands_list := commands_list st @ unroll (next_index st) (Line l)\<rparr>)"
    using assms(3) by (auto simp: parse_line_def)
  then show ?thesis
    unfolding passes_def using goes_step[OF assms(2)] assms(1)
    by (intro exI[of _ "pointers st"]) simp
qed

lemma open_block_goes:
  assumes "deep_enough st" "next_index st < length f" "read_line (f ! next_index st) = Ret Do_Line"
  obtains ps where "goes f st (st\<lparr>next_index := next_index st + 1, do_open := do_open st + 1, pointers := ps\<rparr>)"
    "do_open st + 1 < int (length ps)" "length (pointers st) \<le> length ps"
    "ps ! nat (do_open st + 1) = \<lparr>pt_start = next_index st, pt_repetition = 1\<rparr>"
    "\<forall>j. int j \<le> do_open st \<longrightarrow> ps ! j = pointers st ! j"
proof -
  let ?p = "\<lparr>pt_start = next_index st, pt_repetition = 1\<rparr>" and ?k = "nat (do_open st + 1)"
  define ps where "ps = (if length (pointers st) \<le> ?k then pointers st @ [?p] else (pointers st)[?k := ?p])"
  have d: "-1 \<le> do_open st" "do_open st < int (length (pointers st))" using assms(1) by (auto simp: deep_enough_def)
  have "open_block st = Ret (st\<lparr>do_open := do_open st + 1, pointers := ps\<rparr>)"
    using d by (auto simp: open_block_def ps_def Let_def position_def)
  then have "parse_line (f ! next_index st) st =
      Inr (st\<lparr>next_index := next_index st + 1, do_open := do_open st + 1, pointers := ps\<rparr>)"
    using assms(3) by (simp add: parse_line_def)
  then have "goes f st (st\<lparr>next_index := next_index st + 1, do_open := do_open st + 1, pointers := ps\<rparr>)"
    by (rule goes_step[OF assms(2)])
  moreover have "do_open st + 1 < int (length ps)" "length (pointers st) \<le> length ps" "ps ! ?k = ?p"
    "\<forall>j. int j \<le> do_open st \<longrightarrow> ps ! j = pointers st ! j"
    using d by (auto simp: ps_def nth_append nth_list_update)
  ultimately show thesis by (rule that)
qed

lemma close_block_goes:
  assumes "0 \<le> do_open st" "do_open st < int (length (pointers st))" "next_index st < length f"
    "read_line (f ! next_index st) = Ret (Times_Line n)" "pointers st ! nat (do_open st) = \<lparr>pt_start = s, pt_repetition = r\<rparr>"
  shows "goes f st
    (if r < n then st\<lparr>next_index := s + 1,
         pointers := (pointers st)[nat (do_open st) := \<lparr>pt_start = s, pt_repetition = r + 1\<rparr>]\<rparr>
     else st\<lparr>next_index := next_index st + 1, do_open := do_open st - 1\<rparr>)"
  by (rule goes_step[OF assms(3)])
     (use assms in \<open>simp add: parse_line_def close_block_def position_def Let_def\<close>)

text \<open>What is left of a block in its \<open>r\<close>-th repetition.\<close>

lemma block_goes:
  assumes body: "\<And>st. deep_enough st \<Longrightarrow> next_index st = s + 1 \<Longrightarrow> passes f st m cs"
    and end_line: "s + 1 + m < length f" "read_line (f ! (s + 1 + m)) = Ret (Times_Line n)"
    and st: "0 \<le> do_open st" "do_open st < int (length (pointers st))" "next_index st = s + 1"
      "pointers st ! nat (do_open st) = \<lparr>pt_start = s, pt_repetition = r\<rparr>"
  shows "\<exists>ps. goes f st (st\<lparr>next_index := s + m + 2, do_open := do_open st - 1, pointers := ps,
      commands_list := commands_list st @ concat (replicate (max 1 (Suc n - r)) cs)\<rparr>) \<and>
    length (pointers st) \<le> length ps \<and> (\<forall>j. int j < do_open st \<longrightarrow> ps ! j = pointers st ! j)"
  using st
proof (induction "n - r" arbitrary: st r)
  case 0
  have "passes f st m cs" using 0 by (intro body) (simp_all add: deep_enough_def)
  then obtain ps where ps: "goes f st (st\<lparr>next_index := next_index st + m, pointers := ps,
      commands_list := commands_list st @ cs\<rparr>)" "length (pointers st) \<le> length ps"
    "\<forall>j. int j \<le> do_open st \<longrightarrow> ps ! j = pointers st ! j" unfolding passes_def by blast
  let ?st = "st\<lparr>next_index := next_index st + m, pointers := ps, commands_list := commands_list st @ cs\<rparr>"
  have p: "ps ! nat (do_open st) = \<lparr>pt_start = s, pt_repetition = r\<rparr>" using 0 ps(3) by simp
  have g: "goes f ?st (?st\<lparr>next_index := s + m + 2, do_open := do_open st - 1\<rparr>)"
    using close_block_goes[of ?st f n s r] 0 ps(2) p end_line by (simp add: add.commute add.left_commute)
  have c: "concat (replicate (max 1 (Suc n - r)) cs) = cs"
  proof -
    have "max 1 (Suc n - r) = 1" using 0(1) by simp
    then show ?thesis by simp
  qed
  have e: "?st\<lparr>next_index := s + m + 2, do_open := do_open st - 1\<rparr> =
      st\<lparr>next_index := s + m + 2, do_open := do_open st - 1, pointers := ps,
        commands_list := commands_list st @ concat (replicate (max 1 (Suc n - r)) cs)\<rparr>" unfolding c by simp
  show ?case using goes_trans[OF ps(1) g[unfolded e]] ps(2,3) by (intro exI[of _ ps]) simp
next
  case (Suc x)
  have "passes f st m cs" using Suc.prems by (intro body) (simp_all add: deep_enough_def)
  then obtain ps where ps: "goes f st (st\<lparr>next_index := next_index st + m, pointers := ps,
      commands_list := commands_list st @ cs\<rparr>)" "length (pointers st) \<le> length ps"
    "\<forall>j. int j \<le> do_open st \<longrightarrow> ps ! j = pointers st ! j" unfolding passes_def by blast
  let ?st = "st\<lparr>next_index := next_index st + m, pointers := ps, commands_list := commands_list st @ cs\<rparr>"
  let ?ps = "ps[nat (do_open st) := \<lparr>pt_start = s, pt_repetition = r + 1\<rparr>]"
  let ?st' = "?st\<lparr>next_index := s + 1, pointers := ?ps\<rparr>"
  have p: "ps ! nat (do_open st) = \<lparr>pt_start = s, pt_repetition = r\<rparr>" using Suc.prems ps(3) by simp
  have r: "r < n" "x = n - (r + 1)" using Suc.hyps(2) by auto
  have more: "max 1 (Suc n - (r + 1)) = n - r" using r(1) by arith
  have g: "goes f ?st ?st'"
    using close_block_goes[of ?st f n s r] Suc.prems ps(2) p end_line r(1) by (simp add: add.commute)
  have "\<exists>qs. goes f ?st' (?st'\<lparr>next_index := s + m + 2, do_open := do_open ?st' - 1, pointers := qs,
      commands_list := commands_list ?st' @ concat (replicate (max 1 (Suc n - (r + 1))) cs)\<rparr>) \<and>
    length (pointers ?st') \<le> length qs \<and> (\<forall>j. int j < do_open ?st' \<longrightarrow> qs ! j = pointers ?st' ! j)"
    using Suc.prems ps(2) by (intro Suc.hyps(1)[OF r(2)]) simp_all
  then obtain qs where qs: "goes f ?st' (?st'\<lparr>next_index := s + m + 2, do_open := do_open st - 1, pointers := qs,
      commands_list := commands_list st @ cs @ concat (replicate (n - r) cs)\<rparr>)"
    "length ps \<le> length qs" "\<forall>j. int j < do_open st \<longrightarrow> qs ! j = ?ps ! j"
    unfolding more by auto
  have "max 1 (Suc n - r) = Suc (n - r)" using r(1) by arith
  then have c: "concat (replicate (max 1 (Suc n - r)) cs) = cs @ concat (replicate (n - r) cs)" by simp
  show ?case
    unfolding c using goes_trans[OF goes_trans[OF ps(1) g] qs(1)] ps(2,3) qs(2,3)
    by (intro exI[of _ qs]) auto
qed

lemma passes_program:
  "well_formed p \<Longrightarrow> f = pre @ layout p @ post \<Longrightarrow> k = length pre \<Longrightarrow> deep_enough st \<Longrightarrow> next_index st = k
     \<Longrightarrow> passes f st (length (layout p)) (unroll k p)"
  "list_all well_formed ps \<Longrightarrow> f = pre @ concat (map layout ps) @ post \<Longrightarrow> k = length pre \<Longrightarrow> deep_enough st
     \<Longrightarrow> next_index st = k \<Longrightarrow> passes f st (length (concat (map layout ps))) (unrolls k ps)"
proof (induction k p and k ps arbitrary: pre post st and pre post st rule: unroll_unrolls.induct)
  case (1 k l)
  then show ?case using passes_line[of f st l] by simp
next
  case (2 k d ps t)
  obtain n where n: "read_line d = Ret Do_Line" "read_line t = Ret (Times_Line n)" "list_all well_formed ps"
    using 2(2) by auto
  let ?m = "length (concat (map layout ps))"
  have f: "f = pre @ d # concat (map layout ps) @ t # post" using 2(3) by simp
  have "deep_enough st" "next_index st < length f" "read_line (f ! next_index st) = Ret Do_Line"
    using 2(4-6) n(1) by (simp_all add: f nth_append)
  then obtain qs where qs: "goes f st (st\<lparr>next_index := next_index st + 1, do_open := do_open st + 1, pointers := qs\<rparr>)"
    "do_open st + 1 < int (length qs)" "length (pointers st) \<le> length qs"
    "qs ! nat (do_open st + 1) = \<lparr>pt_start = next_index st, pt_repetition = 1\<rparr>"
    "\<forall>j. int j \<le> do_open st \<longrightarrow> qs ! j = pointers st ! j" by (rule open_block_goes)
  let ?st = "st\<lparr>next_index := next_index st + 1, do_open := do_open st + 1, pointers := qs\<rparr>"
  have body: "passes f st' ?m (unrolls (k + 1) ps)" if "deep_enough st'" "next_index st' = k + 1" for st'
    using 2(1)[OF n(3), of "pre @ [d]" "t # post" st'] f 2(4) that by simp
  have e: "k + 1 + ?m < length f" "read_line (f ! (k + 1 + ?m)) = Ret (Times_Line n)"
    using n(2) 2(4) by (simp_all add: f nth_append)
  have "0 \<le> do_open ?st" "do_open ?st < int (length (pointers ?st))" "next_index ?st = k + 1"
    "pointers ?st ! nat (do_open ?st) = \<lparr>pt_start = k, pt_repetition = 1\<rparr>"
    using qs(2,4) 2(5,6) by (simp_all add: deep_enough_def)
  from block_goes[OF body e this] obtain rs where rs: "goes f ?st (?st\<lparr>next_index := k + ?m + 2, do_open := do_open st, pointers := rs,
      commands_list := commands_list st @ concat (replicate (max 1 n) (unrolls (k + 1) ps))\<rparr>)"
    "length qs \<le> length rs" "\<forall>j. int j < do_open st + 1 \<longrightarrow> rs ! j = qs ! j" by auto
  have u: "unroll k (Block d ps t) = concat (replicate (max 1 n) (unrolls (k + 1) ps))" using n(2) by simp
  show ?case
    unfolding passes_def u using goes_trans[OF qs(1) rs(1)] qs(3,5) rs(2,3) 2(6)
    by (intro exI[of _ rs]) (auto simp: add.commute add.left_commute)
next
  case (3 k)
  then show ?case by (simp add: passes_nil)
next
  case (4 k p ps)
  have "passes f st (length (layout p)) (unroll k p)"
    using 4(1)[of pre "concat (map layout ps) @ post" st] 4(3-7) by simp
  moreover have "passes f st' (length (concat (map layout ps))) (unrolls (k + length (layout p)) ps)"
    if "deep_enough st'" "next_index st' = next_index st + length (layout p)" for st'
    using 4(2)[of "pre @ layout p" post st'] 4(3-7) that by simp
  ultimately show ?case using passes_append[OF _ 4(6)] by simp
qed

lemma unrolls_append: "unrolls k (ps @ qs) = unrolls k ps @ unrolls (k + length (concat (map layout ps))) qs"
  by (induction ps arbitrary: k) (simp_all add: add.assoc)

text \<open>The parser at the end of well-formed lines, whatever follows them.\<close>

lemma parse_prefix:
  assumes "list_all well_formed ps"
  shows "\<exists>pts. parse_from (concat (map layout ps) @ post) init_parser =
    parse_from (concat (map layout ps) @ post) \<lparr>next_index = length (concat (map layout ps)), do_open = -1,
      pointers = pts, commands_list = unrolls 0 ps\<rparr>"
proof -
  let ?f = "concat (map layout ps) @ post"
  have "passes ?f init_parser (length (concat (map layout ps))) (unrolls 0 ps)"
    using passes_program(2)[of ps ?f "[]" post 0 init_parser] assms
    by (simp add: deep_enough_def init_parser_def)
  then show ?thesis unfolding passes_def goes_def by (auto simp: init_parser_def)
qed

lemma read_reset: "read_line ''reset'' = Ret (Command_Line Reset_Links)"
  by code_simp

lemma parser_unrolls_lines:
  assumes "list_all well_formed ps"
  shows "parse (concat (map layout ps)) =
    Some (Inr (unrolls 0 ps @ [(length (concat (map layout ps)) + 1, Reset_Links)]))"
proof -
  let ?ps = "ps @ [Line ''reset'']"
  have "list_all well_formed ?ps" using assms by (simp add: read_reset)
  from parse_prefix[OF this, of "[]"] obtain pts where
    "parse (concat (map layout ps)) = parse_from (concat (map layout ?ps))
      \<lparr>next_index = length (concat (map layout ?ps)), do_open = -1, pointers = pts, commands_list = unrolls 0 ?ps\<rparr>"
    by (auto simp: parse_def)
  also have "\<dots> = Some (Inr (unrolls 0 ?ps))" by (subst parse_from.simps) simp
  finally show ?thesis by (simp add: unrolls_append read_reset)
qed

subsection \<open>Properties\<close>

text \<open>C32: the parser unrolls.  For every test file made of commands, empty lines and blocks nested
  to any depth, parsing ends without an error, and the commands it yields are those of the blocks
  written out as often as they say, at least once, each with the number of its line, followed by
  the reset that \<open>parse\<close> appends.\<close>

theorem parse_unrolls:
  assumes "list_all well_formed ps"
  shows "parse (concat (map layout ps)) =
    Some (Inr (unrolls 0 ps @ [(length (concat (map layout ps)) + 1, Reset_Links)]))"
  by (rule parser_unrolls_lines[OF assms])

text \<open>The file \<open>region.test\<close> of the test suite, shortened, in another block.\<close>

definition region_test :: test_program where
  "region_test = Block ''do'' [Line ''   reset'',
     Block ''do'' [Line ''   from rand rand to rand bidirectional set delay 15ms'', Line ''run 8 delay''] ''2 times'',
     Line []] ''0 times''"

theorem parse_unrolls_witness:
  "parse [''do'', ''   reset'', ''do'', ''   from rand rand to rand bidirectional set delay 15ms'',
      ''run 8 delay'', ''2 times'', [], ''0 times''] =
   (let l = (4, Modify_Link [''rand'', ''rand''] [''rand''] '' delay 15ms'' True); r = (5, Run_Operations 8 ''delay'') in
    Some (Inr [(2, Reset_Links), l, r, l, r, (9, Reset_Links)]))"
proof -
  have r: "read_line ''do'' = Ret Do_Line" "read_line ''2 times'' = Ret (Times_Line 2)"
    "read_line ''0 times'' = Ret (Times_Line 0)" "read_line ''   reset'' = Ret (Command_Line Reset_Links)"
    "read_line ''run 8 delay'' = Ret (Command_Line (Run_Operations 8 ''delay''))"
    "read_line ''   from rand rand to rand bidirectional set delay 15ms'' =
      Ret (Command_Line (Modify_Link [''rand'', ''rand''] [''rand''] '' delay 15ms'' True))"
    "read_line [] = Ret Empty_Line"
    by code_simp+
  have "list_all well_formed [region_test]" by (simp add: region_test_def r)
  from parse_unrolls[OF this] show ?thesis
    by (simp add: region_test_def r eval_nat_numeral Let_def)
qed

lemma parse_rejects:
  assumes "list_all well_formed ps" "read_line l = Ret Unknown_Line \<or> raises (read_line l)"
  shows "parse (concat (map layout ps) @ l # rest) =
    Some (Inl (TestException SYNTAX_ERROR (int (length (concat (map layout ps)) + 1))))"
proof -
  from parse_prefix[OF assms(1), of "(l # rest) @ [''reset'']"] obtain pts where
    "parse (concat (map layout ps) @ l # rest) =
      parse_from (concat (map layout ps) @ (l # rest) @ [''reset''])
      \<lparr>next_index = length (concat (map layout ps)), do_open = -1, pointers = pts, commands_list = unrolls 0 ps\<rparr>"
    by (auto simp: parse_def)
  also have "\<dots> = Some (Inl (TestException SYNTAX_ERROR (int (length (concat (map layout ps)) + 1))))"
    using assms(2) by (subst parse_from.simps) (auto simp: parse_line_def raises_def nth_append)
  finally show ?thesis .
qed

end
