(* ===== verification/Test_Commands.thy ===== *)
theory Test_Commands
  imports Test_Parser
begin

section \<open>Running a test file\<close>

text \<open>
  \<open>CommandUnwrapper\<close>, \<open>Executor\<close>, \<open>NetemMaster\<close>, \<open>attach_line\<close> and the loop of
  \<open>main\<close> of \<open>test_executor.py\<close>.  A command is called twice: the first call checks it and
  returns the call that carries it out.  What is raised is a \<open>TestException\<close> that ends the
  program, or anything else, which \<open>attach_line\<close> swallows.

  \<open>random.randrange(n)\<close> takes the next element of a list of draws; a list that is used up
  stands for a loop that has not ended yet.  The nodes' network managers and the test daemon
  are reached over XML-RPC and are arguments, as is the order in which Python lists a set.
\<close>

datatype 'a attempt = Done 'a | Test_Error error_type | Other_Error py_error

fun attempt_then :: "'a attempt \<Rightarrow> ('a \<Rightarrow> 'b attempt) \<Rightarrow> 'b attempt" where
  "attempt_then (Done x) f = f x"
| "attempt_then (Test_Error e) f = Test_Error e"
| "attempt_then (Other_Error e) f = Other_Error e"

subsection \<open>Node ids\<close>

text \<open>An id is a word of the test file, or a number chosen by \<open>modify_random_link\<close>, which
  has no method \<open>isdigit\<close>.\<close>

datatype id_token = Word string | Chosen nat

datatype id_kind = Number nat | Rand | All | Bad_Id

definition digits :: "string \<Rightarrow> bool" where
  "digits s \<longleftrightarrow> s \<noteq> [] \<and> list_all is_digit s"

fun id_kind_of :: "id_token \<Rightarrow> id_kind attempt" where
  "id_kind_of (Chosen n) = Other_Error AttributeError"
| "id_kind_of (Word s) =
     (if digits s then (case decimal s of Ret n \<Rightarrow> Done (Number n) | Raise e \<Rightarrow> Other_Error e)
      else if s = ''rand'' then Done Rand
      else if s = ''all'' then Done All
      else Done Bad_Id)"

text \<open>\<open>resolve\<close>, on the set found so far and the random values that are left.\<close>

fun resolve_from ::
  "nat \<Rightarrow> id_token list \<Rightarrow> nat set \<Rightarrow> nat list \<Rightarrow> (nat set \<times> nat list) attempt" where
  "resolve_from n [] result random_values = Done (result, random_values)"
| "resolve_from n (v # ids) result random_values =
     attempt_then (id_kind_of v) (\<lambda>k. case k of
         Number i \<Rightarrow> if i > n then Test_Error ID_ERROR else resolve_from n ids (insert i result) random_values
       | Rand \<Rightarrow>
           (case random_values of
              [] \<Rightarrow> Other_Error IndexError
            | r # rs \<Rightarrow> resolve_from n ids (insert r result) rs)
       | All \<Rightarrow> resolve_from n ids (result \<union> {1..n}) random_values
       | Bad_Id \<Rightarrow> Test_Error ID_ERROR)"

text \<open>The first loop of \<open>resolve_ids\<close>: the numbers that are named, and how many \<open>rand\<close>.\<close>

fun referred :: "id_token list \<Rightarrow> nat set \<Rightarrow> nat \<Rightarrow> (nat set \<times> nat) attempt" where
  "referred [] ids count = Done (ids, count)"
| "referred (v # vs) ids count =
     attempt_then (id_kind_of v) (\<lambda>k. case k of
         Number i \<Rightarrow> referred vs (insert i ids) count
       | Rand \<Rightarrow> referred vs ids (count + 1)
       | _ \<Rightarrow> referred vs ids count)"

text \<open>The second loop.\<close>

fun draw_ids :: "nat list \<Rightarrow> nat \<Rightarrow> nat set \<Rightarrow> (nat list \<times> nat list) option" where
  "draw_ids draws 0 ids = Some ([], draws)"
| "draw_ids [] (Suc k) ids = None"
| "draw_ids (d # draws) (Suc k) ids =
     (if d + 1 \<in> ids then draw_ids draws (Suc k) ids
      else map_option (\<lambda>(rs, ds). ((d + 1) # rs, ds)) (draw_ids draws k (insert (d + 1) ids)))"

definition resolve_ids ::
  "nat \<Rightarrow> nat list \<Rightarrow> id_token list \<Rightarrow> id_token list \<Rightarrow> ((nat set \<times> nat set) attempt \<times> nat list) option" where
  "resolve_ids n draws sources targets =
     (case referred (sources @ targets) {} 0 of
        Test_Error e \<Rightarrow> Some (Test_Error e, draws)
      | Other_Error e \<Rightarrow> Some (Other_Error e, draws)
      | Done (ids, count) \<Rightarrow>
          if card ids + count > n then Some (Test_Error ID_ERROR, draws)
          else
            map_option (\<lambda>(random_values, ds).
              (attempt_then (resolve_from n sources {} random_values) (\<lambda>(r_sources, rest).
               attempt_then (resolve_from n targets {} rest) (\<lambda>(r_targets, rest').
                 Done (r_sources, r_targets))), ds)) (draw_ids draws count ids))"

subsection \<open>The first call of a command\<close>

text \<open>What a checked command will do.\<close>

datatype test_action =
    Change_Links "nat set" "nat set" string bool
  | Run_Test nat string

text \<open>In local mode the bound on the targets compares a set with a number.\<close>

definition modify_link_from_to ::
  "nat \<Rightarrow> bool \<Rightarrow> nat list \<Rightarrow> id_token list \<Rightarrow> id_token list \<Rightarrow> string \<Rightarrow> bool
     \<Rightarrow> (test_action attempt \<times> nat list) option" where
  "modify_link_from_to n local_execution draws sources targets netem_command bidirectional =
     map_option (\<lambda>(res, ds).
       (attempt_then res (\<lambda>(r_sources, r_targets).
          if local_execution \<and> int (card r_sources) < int n - 1 then Test_Error LOCAL_EXECUTION_ERROR
          else if local_execution \<and> bidirectional then Other_Error TypeError
          else Done (Change_Links r_sources r_targets netem_command bidirectional)), ds))
     (resolve_ids n draws sources targets)"

text \<open>The loops of \<open>modify_random_link\<close>: \<open>pick_target\<close> is the inner one.\<close>

fun pick_target :: "nat list \<Rightarrow> nat \<Rightarrow> (nat \<times> nat list) option" where
  "pick_target [] source = None"
| "pick_target (d # draws) source = (if d + 1 = source then pick_target draws source else Some (d + 1, draws))"

lemma pick_target_shorter: "pick_target draws s = Some (t, ds) \<Longrightarrow> length ds < length draws"
  by (induction draws s rule: pick_target.induct) (auto split: if_splits)

function pick_links ::
  "nat list \<Rightarrow> nat \<Rightarrow> bool \<Rightarrow> (nat \<times> nat) set \<Rightarrow> nat list \<Rightarrow> nat list \<Rightarrow> (nat list \<times> nat list \<times> nat list) option" where
  "pick_links draws 0 bidirectional selected sources targets = Some (sources, targets, draws)"
| "pick_links [] (Suc k) bidirectional selected sources targets = None"
| "pick_links (d # draws) (Suc k) bidirectional selected sources targets =
     (case pick_target draws (d + 1) of
        None \<Rightarrow> None
      | Some (t, ds) \<Rightarrow>
          if (d + 1, t) \<in> selected then pick_links ds (Suc k) bidirectional selected sources targets
          else pick_links ds k bidirectional
                 (selected \<union> {(d + 1, t)} \<union> (if bidirectional then {(t, d + 1)} else {}))
                 (List.insert (d + 1) sources) (List.insert t targets))"
  by pat_completeness auto

termination
  by (relation "measure (length \<circ> fst)") (auto dest!: pick_target_shorter)

definition modify_random_link ::
  "nat \<Rightarrow> bool \<Rightarrow> nat list \<Rightarrow> nat \<Rightarrow> string \<Rightarrow> bool \<Rightarrow> (test_action attempt \<times> nat list) option" where
  "modify_random_link n local_execution draws connection_number netem_command bidirectional =
     (case pick_links draws connection_number bidirectional {} [] [] of
        None \<Rightarrow> None
      | Some (sources, targets, ds) \<Rightarrow>
          modify_link_from_to n local_execution ds (map Chosen sources) (map Chosen targets)
            netem_command bidirectional)"

text \<open>\<open>CommandUnwrapper.reset\<close> is \<open>partial(self.modify_link_from_to(["all"], ["all"], "delay 0ms", False))\<close>:
  the parenthesis after \<open>False\<close> closes the call of \<open>modify_link_from_to\<close>.  So the links are
  checked while \<open>reset\<close> runs, and what \<open>partial\<close> wraps, without further arguments, is the result
  of the check, which is the call of the executor.  Calling the outer one calls the inner one:
  a reset takes as many calls as a link line, and one more call would change nothing.\<close>

definition partial0 :: "'a \<Rightarrow> 'a" where
  "partial0 f = f"

definition reset_links :: "nat \<Rightarrow> bool \<Rightarrow> nat list \<Rightarrow> (test_action attempt \<times> nat list) option" where
  "reset_links n local_execution draws =
     map_option (map_prod partial0 id)
       (modify_link_from_to n local_execution draws [Word ''all''] [Word ''all''] ''delay 0ms'' False)"

lemma reset_links_eq [simp]:
  "reset_links n loc draws = modify_link_from_to n loc draws [Word ''all''] [Word ''all''] ''delay 0ms'' False"
proof -
  have "partial0 = (id :: test_action attempt \<Rightarrow> test_action attempt)" by (simp add: fun_eq_iff partial0_def)
  then show ?thesis by (simp add: reset_links_def prod.map_id0 option.map_id)
qed

fun check_test_command ::
  "nat \<Rightarrow> bool \<Rightarrow> nat list \<Rightarrow> test_command \<Rightarrow> (test_action attempt \<times> nat list) option" where
  "check_test_command n loc draws (Modify_Link sources targets c bi) =
     modify_link_from_to n loc draws (map Word sources) (map Word targets) c bi"
| "check_test_command n loc draws (Modify_Random_Link k c bi) = modify_random_link n loc draws k c bi"
| "check_test_command n loc draws Reset_Links = reset_links n loc draws"
| "check_test_command n loc draws (Run_Operations k label) = Some (Done (Run_Test k label), draws)"

subsection \<open>The second call\<close>

text \<open>
  What \<open>Executor\<close> and \<open>NetemMaster\<close> reach: the network manager of each node, under the
  number that its id has as text, and the test daemon.  The calls act on a world of type \<open>'w\<close>;
  the rows of the results file are part of the program's own state.
\<close>

record ('w, 'r) surroundings =
  nodes_rpc :: "nat \<Rightarrow> (nat \<Rightarrow> string \<Rightarrow> 'w \<Rightarrow> 'w \<times> bool outcome) option"
  daemon_run :: "nat \<Rightarrow> 'w \<Rightarrow> 'w \<times> 'r list outcome"
  listing :: "nat set \<Rightarrow> nat list"           \<comment> \<open>the order in which a set is listed\<close>
  algorithm :: string

type_synonym ('w, 'r) session = "'w \<times> (string \<times> 'r list) list"

text \<open>One call of \<open>modify_outgoing_connection\<close>; an unknown id is a \<open>KeyError\<close>.\<close>

definition call_node ::
  "('w, 'r) surroundings \<Rightarrow> nat \<Rightarrow> nat \<Rightarrow> string \<Rightarrow> 'w \<Rightarrow> 'w \<times> bool outcome" where
  "call_node env source target netem_command w =
     (case nodes_rpc env source of
        None \<Rightarrow> (w, Raise KeyError)
      | Some f \<Rightarrow> f target netem_command w)"

definition modify_connection ::
  "('w, 'r) surroundings \<Rightarrow> nat \<Rightarrow> nat \<Rightarrow> string \<Rightarrow> bool \<Rightarrow> 'w \<Rightarrow> 'w \<times> unit attempt" where
  "modify_connection env source target netem_command bidirectional w =
     (if source = target then (w, Done ())
      else case call_node env source target netem_command w of
        (w1, Raise e) \<Rightarrow> (w1, Other_Error e)
      | (w1, Ret False) \<Rightarrow> (w1, Test_Error NETEM_ERROR)
      | (w1, Ret True) \<Rightarrow>
          if \<not> bidirectional then (w1, Done ())
          else case call_node env target source netem_command w1 of
            (w2, Raise e) \<Rightarrow> (w2, Other_Error e)
          | (w2, Ret False) \<Rightarrow> (w2, Test_Error NETEM_ERROR)
          | (w2, Ret True) \<Rightarrow> (w2, Done ()))"

fun modify_pairs ::
  "('w, 'r) surroundings \<Rightarrow> (nat \<times> nat) list \<Rightarrow> string \<Rightarrow> bool \<Rightarrow> 'w \<Rightarrow> 'w \<times> unit attempt" where
  "modify_pairs env [] c bi w = (w, Done ())"
| "modify_pairs env ((s, t) # ps) c bi w =
     (case modify_connection env s t c bi w of
        (w1, Done u) \<Rightarrow> modify_pairs env ps c bi w1
      | (w1, e) \<Rightarrow> (w1, e))"

definition modify_connections ::
  "('w, 'r) surroundings \<Rightarrow> nat set \<Rightarrow> nat set \<Rightarrow> string \<Rightarrow> bool \<Rightarrow> 'w \<Rightarrow> 'w \<times> unit attempt" where
  "modify_connections env sources targets c bi w =
     modify_pairs env (List.product (listing env sources) (listing env targets)) c bi w"

fun perform :: "('w, 'r) surroundings \<Rightarrow> test_action \<Rightarrow> ('w, 'r) session \<Rightarrow> ('w, 'r) session \<times> unit attempt" where
  "perform env (Change_Links sources targets c bi) (w, rows) =
     (case modify_connections env sources targets c bi w of (w1, r) \<Rightarrow> ((w1, rows), r))"
| "perform env (Run_Test n_op label) (w, rows) =
     (case daemon_run env n_op w of
        (w1, Raise e) \<Rightarrow> ((w1, rows), Other_Error e)
      | (w1, Ret result) \<Rightarrow> ((w1, rows @ [(algorithm env @ ''_'' @ label, result)]), Done ()))"

text \<open>What a client of the network managers relies on: a manager in charge of node \<open>i\<close> carries out
  a change of its link to another node, with some effect on the world, and reports success.\<close>

definition pair_effect :: "(nat \<Rightarrow> nat \<Rightarrow> string \<Rightarrow> 'w \<Rightarrow> 'w) \<Rightarrow> string \<Rightarrow> bool \<Rightarrow> nat \<times> nat \<Rightarrow> 'w \<Rightarrow> 'w" where
  "pair_effect effect c bi p w =
     (case p of (s, t) \<Rightarrow> if s = t then w else if bi then effect t s c (effect s t c w) else effect s t c w)"

locale node_managers =
  fixes env :: "('w, 'r) surroundings" and ids :: "nat set" and effect :: "nat \<Rightarrow> nat \<Rightarrow> string \<Rightarrow> 'w \<Rightarrow> 'w"
  assumes call_ok: "i \<in> ids \<Longrightarrow> call_node env i t c w = (effect i t c w, Ret True)"
begin

lemma connection_effect:
  "s \<in> ids \<Longrightarrow> t \<in> ids \<Longrightarrow> modify_connection env s t c bi w = (pair_effect effect c bi (s, t) w, Done ())"
  by (simp add: modify_connection_def pair_effect_def call_ok)

lemma pairs_effect:
  "set ps \<subseteq> ids \<times> ids \<Longrightarrow> modify_pairs env ps c bi w = (fold (pair_effect effect c bi) ps w, Done ())"
  by (induction ps arbitrary: w) (auto simp: connection_effect)

text \<open>A link line between nodes in charge succeeds, and does what it does pair by pair.\<close>

lemma link_effect:
  assumes "set (listing env S) \<subseteq> ids" "set (listing env T) \<subseteq> ids"
  shows "perform env (Change_Links S T c bi) (w, rows) =
    ((fold (pair_effect effect c bi) (List.product (listing env S) (listing env T)) w, rows), Done ())"
proof -
  have "set (List.product (listing env S) (listing env T)) \<subseteq> ids \<times> ids" using assms by auto
  from pairs_effect[OF this] show ?thesis by (simp add: modify_connections_def)
qed

end

subsection \<open>The loop of \<open>main\<close>\<close>

text \<open>
  An element of \<open>command_list\<close>: \<open>attach_line\<close> around a command that is still to be checked,
  around its second call, or around nothing, with the number of the line.
\<close>

datatype test_task = Check nat test_command | Act nat test_action | Finished nat

text \<open>\<open>attach_line\<close>: what the call leaves to be called again; a \<open>TestException\<close> gets its line.\<close>

fun attach_line :: "nat \<Rightarrow> (nat \<Rightarrow> 'a \<Rightarrow> test_task) \<Rightarrow> 'a attempt \<Rightarrow> test_exception + test_task option" where
  "attach_line line f (Done x) = Inr (Some (f line x))"
| "attach_line line f (Test_Error e) = Inl (TestException e (int line))"
| "attach_line line f (Other_Error e) = Inr None"

fun call_task ::
  "('w, 'r) surroundings \<Rightarrow> nat \<Rightarrow> bool \<Rightarrow> test_task \<Rightarrow> nat list \<Rightarrow> ('w, 'r) session
     \<Rightarrow> ((test_exception + test_task option) \<times> nat list \<times> ('w, 'r) session) option" where
  "call_task env n loc (Check line c) draws s =
     (case check_test_command n loc draws c of
        None \<Rightarrow> None
      | Some (a, ds) \<Rightarrow> Some (attach_line line Act a, ds, s))"
| "call_task env n loc (Act line a) draws s =
     (case perform env a s of (s1, r) \<Rightarrow> Some (attach_line line (\<lambda>line x. Finished line) r, draws, s1))"
| "call_task env n loc (Finished line) draws s = Some (Inr None, draws, s)"

fun task_weight :: "test_task \<Rightarrow> nat" where
  "task_weight (Check line c) = 3"
| "task_weight (Act line a) = 2"
| "task_weight (Finished line) = 1"

lemma call_task_lighter:
  "call_task env n loc t draws s = Some (Inr (Some t'), ds, s') \<Longrightarrow> task_weight t' < task_weight t"
  by (cases t) (auto split: option.splits prod.splits elim: attach_line.elims)

text \<open>The loop ends because every call leaves a lighter one or none.\<close>

function run_tasks ::
  "('w, 'r) surroundings \<Rightarrow> nat \<Rightarrow> bool \<Rightarrow> test_task list \<Rightarrow> nat list \<Rightarrow> ('w, 'r) session
     \<Rightarrow> ((test_exception + unit) \<times> ('w, 'r) session) option" where
  "run_tasks env n loc [] draws s = Some (Inr (), s)"
| "run_tasks env n loc (t # ts) draws s =
     (case call_task env n loc t draws s of
        None \<Rightarrow> None
      | Some (Inl e, ds, s1) \<Rightarrow> Some (Inl e, s1)
      | Some (Inr None, ds, s1) \<Rightarrow> run_tasks env n loc ts ds s1
      | Some (Inr (Some t'), ds, s1) \<Rightarrow> run_tasks env n loc (ts @ [t']) ds s1)"
  by pat_completeness auto

termination
  by (relation "measure (\<lambda>(env, n, loc, ts, draws, s). sum_list (map task_weight ts))")
     (auto dest: call_task_lighter, (metis call_task_lighter add_gr_0 task_weight.elims zero_less_numeral zero_less_one)?)

text \<open>The end of \<open>main\<close>: the file is parsed, its commands are run.\<close>

definition run_test_file ::
  "('w, 'r) surroundings \<Rightarrow> nat \<Rightarrow> bool \<Rightarrow> string list \<Rightarrow> nat list \<Rightarrow> ('w, 'r) session
     \<Rightarrow> ((test_exception + unit) \<times> ('w, 'r) session) option" where
  "run_test_file env n loc test_file draws s =
     (case parse test_file of
        None \<Rightarrow> None
      | Some (Inl e) \<Rightarrow> Some (Inl e, s)
      | Some (Inr cs) \<Rightarrow> run_tasks env n loc (map (\<lambda>(line, c). Check line c) cs) draws s)"

subsection \<open>Two passes\<close>

text \<open>
  What a list of commands is meant to do: all of them are checked in order, which draws the random
  ids, and only then are they carried out in order.  A command whose check or whose second call
  raises something else than a \<open>TestException\<close> is passed over.
\<close>

fun check_all ::
  "nat \<Rightarrow> bool \<Rightarrow> (nat \<times> test_command) list \<Rightarrow> nat list \<Rightarrow> (test_exception + (nat \<times> test_action) list) option" where
  "check_all n loc [] draws = Some (Inr [])"
| "check_all n loc ((line, c) # cs) draws =
     (case check_test_command n loc draws c of
        None \<Rightarrow> None
      | Some (Test_Error e, ds) \<Rightarrow> Some (Inl (TestException e (int line)))
      | Some (Other_Error e, ds) \<Rightarrow> check_all n loc cs ds
      | Some (Done a, ds) \<Rightarrow> map_option (map_sum id (\<lambda>as. (line, a) # as)) (check_all n loc cs ds))"

fun perform_all ::
  "('w, 'r) surroundings \<Rightarrow> (nat \<times> test_action) list \<Rightarrow> ('w, 'r) session \<Rightarrow> (test_exception + unit) \<times> ('w, 'r) session" where
  "perform_all env [] s = (Inr (), s)"
| "perform_all env ((line, a) # as) s =
     (case perform env a s of
        (s1, Test_Error e) \<Rightarrow> (Inl (TestException e (int line)), s1)
      | (s1, _) \<Rightarrow> perform_all env as s1)"

text \<open>Nobody hears of a network manager that cannot be reached: the exception is swallowed, and the
  commands go on, also past the final reset.\<close>

lemma unreachable_passed_over:
  assumes "\<And>i t c w. \<exists>w1 e. call_node env i t c w = (w1, Raise e)"
  shows "\<exists>w1. perform_all env [(line, Change_Links S T c bi)] (w, rows) = (Inr (), (w1, rows))"
proof -
  have "\<exists>w1 r. modify_pairs env ps c bi w = (w1, r) \<and> (\<forall>e. r \<noteq> Test_Error e)" for ps
  proof (induction ps arbitrary: w)
    case (Cons p ps)
    obtain s t where p: "p = (s, t)" by (cases p)
    obtain w1 e where "call_node env s t c w = (w1, Raise e)" using assms by blast
    then show ?case using Cons by (cases "s = t") (auto simp: p modify_connection_def)
  qed simp
  from this[of "List.product (listing env S) (listing env T)"] obtain w1 r where
    "modify_connections env S T c bi w = (w1, r)" "\<forall>e. r \<noteq> Test_Error e" by (auto simp: modify_connections_def)
  then show ?thesis by (cases r) auto
qed

lemma run_finished: "run_tasks env n loc (map Finished ls) draws s = Some (Inr (), s)"
  by (induction ls) simp_all

lemma run_acts:
  "run_tasks env n loc (map (\<lambda>(line, a). Act line a) as @ map Finished ls) draws s = Some (perform_all env as s)"
proof (induction as arbitrary: ls s)
  case Nil
  then show ?case by (simp add: run_finished)
next
  case (Cons x as)
  obtain line a where x: "x = (line, a)" by (cases x)
  obtain s1 r where r: "perform env a s = (s1, r)" by (cases "perform env a s")
  show ?case
    using Cons.IH[of "ls @ [line]"] Cons.IH[of ls] by (cases r) (simp_all add: x r)
qed

lemma run_checks:
  "run_tasks env n loc (map (\<lambda>(line, c). Check line c) cs @ map (\<lambda>(line, a). Act line a) as) draws s =
     (case check_all n loc cs draws of
        None \<Rightarrow> None
      | Some (Inl e) \<Rightarrow> Some (Inl e, s)
      | Some (Inr as') \<Rightarrow> Some (perform_all env (as @ as') s))"
proof (induction cs arbitrary: as draws)
  case Nil
  then show ?case using run_acts[of env n loc as "[]"] by simp
next
  case (Cons x cs)
  obtain line c where x: "x = (line, c)" by (cases x)
  show ?case
  proof (cases "check_test_command n loc draws c")
    case None
    then show ?thesis by (simp add: x)
  next
    case (Some y)
    obtain r ds where y: "y = (r, ds)" by (cases y)
    show ?thesis
    proof (cases r)
      case (Done a)
      then show ?thesis
        using Some y Cons.IH[of "as @ [(line, a)]" ds]
        by (simp add: x split: option.split sum.split)
    qed (use Some y Cons.IH[of as ds] in \<open>simp_all add: x\<close>)
  qed
qed

lemma run_all:
  "run_tasks env n loc (map (\<lambda>(line, c). Check line c) cs) draws s =
     (case check_all n loc cs draws of
        None \<Rightarrow> None
      | Some (Inl e) \<Rightarrow> Some (Inl e, s)
      | Some (Inr as) \<Rightarrow> Some (perform_all env as s))"
  using run_checks[of env n loc cs "[]"] by (simp split: option.split sum.split)

text \<open>C33: a test file runs in two passes.  For every file of commands and nested blocks, the program
  checks the unrolled commands and the final reset first, in order, and when a check fails it ends
  with the error at the line of this command before any link is changed or any operation run; if
  none fails it carries the checked commands out in the same order, up to the first one that a
  network manager rejects.  A command whose check or whose second call raises anything but a
  \<open>TestException\<close> is passed over.  A reset is checked in the first pass and carried out in its
  place in the second, like every other command: \<open>reset\<close> calls \<open>modify_link_from_to\<close> itself and
  wraps what this returns (see \<open>reset_links\<close>).\<close>

theorem two_passes:
  assumes "list_all well_formed ps"
  shows "run_test_file env n loc (concat (map layout ps)) draws s =
    (case check_all n loc (unrolls 0 ps @ [(length (concat (map layout ps)) + 1, Reset_Links)]) draws of
       None \<Rightarrow> None
     | Some (Inl e) \<Rightarrow> Some (Inl e, s)
     | Some (Inr as) \<Rightarrow> Some (perform_all env as s))"
  by (simp only: run_test_file_def parser_unrolls_lines[OF assms] option.case sum.case run_all)

text \<open>Two nodes that log what they are told, and a daemon that takes one unit of time per operation.\<close>

definition log_surroundings :: "((nat \<times> nat \<times> string) list, nat) surroundings" where
  "log_surroundings =
     \<lparr>nodes_rpc = (\<lambda>i. if i = 1 \<or> i = 2 then Some (\<lambda>t c w. (w @ [(i, t, c)], Ret True)) else None),
      daemon_run = (\<lambda>n w. (w, Ret (replicate n 1))), listing = (\<lambda>S. filter (\<lambda>i. i \<in> S) [0, 1, 2]),
      algorithm = ''pso''\<rparr>"

theorem two_passes_witness:
  "run_test_file log_surroundings 2 False [''do'', ''from rand to all set loss 4%'', ''run 2 x'', ''2 times''] [1, 0] ([], []) =
     Some (Inr (), ([(2, 1, '' loss 4%''), (1, 2, '' loss 4%''), (1, 2, ''delay 0ms''), (2, 1, ''delay 0ms'')],
       [(''pso_x'', [1, 1]), (''pso_x'', [1, 1])]))"
proof -
  let ?ps = "[Block ''do'' [Line ''from rand to all set loss 4%'', Line ''run 2 x''] ''2 times'']"
  have r: "read_line ''do'' = Ret Do_Line" "read_line ''2 times'' = Ret (Times_Line 2)"
    "read_line ''from rand to all set loss 4%'' = Ret (Command_Line (Modify_Link [''rand''] [''all''] '' loss 4%'' False))"
    "read_line ''run 2 x'' = Ret (Command_Line (Run_Operations 2 ''x''))" by code_simp+
  have w: "list_all well_formed ?ps" by (simp add: r)
  have "(case check_all 2 False (unrolls 0 ?ps @ [(length (concat (map layout ?ps)) + 1, Reset_Links)]) [1, 0] of
       None \<Rightarrow> None
     | Some (Inl e) \<Rightarrow> Some (Inl e, ([], []))
     | Some (Inr as) \<Rightarrow> Some (perform_all log_surroundings as ([], []))) =
     Some (Inr (), ([(2, 1, '' loss 4%''), (1, 2, '' loss 4%''), (1, 2, ''delay 0ms''), (2, 1, ''delay 0ms'')],
       [(''pso_x'', [1, 1]), (''pso_x'', [1, 1])]))"
    by code_simp
  with two_passes[OF w, of log_surroundings 2 False "[1, 0]" "([], [])"] show ?thesis by simp
qed

subsection \<open>What the ids of a line stand for\<close>

definition named_ids :: "id_token list \<Rightarrow> nat set" where
  "named_ids vs = {i. Done (Number i) \<in> id_kind_of ` set vs}"

definition rands :: "id_token list \<Rightarrow> nat" where
  "rands vs = length (filter (\<lambda>v. id_kind_of v = Done Rand) vs)"

definition meant_ids :: "nat \<Rightarrow> id_token list \<Rightarrow> nat list \<Rightarrow> nat set" where
  "meant_ids n vs rs = named_ids vs \<union> set rs \<union> (if Done All \<in> id_kind_of ` set vs then {1..n} else {})"

lemma named_ids_simps [simp]:
  "named_ids [] = {}" "named_ids (vs @ ws) = named_ids vs \<union> named_ids ws"
  "named_ids (v # vs) = {i. id_kind_of v = Done (Number i)} \<union> named_ids vs"
  by (auto simp: named_ids_def)

lemma rands_simps [simp]:
  "rands [] = 0" "rands (vs @ ws) = rands vs + rands ws"
  "rands (v # vs) = (if id_kind_of v = Done Rand then Suc (rands vs) else rands vs)"
  by (auto simp: rands_def)

lemma attempt_then_Done: "attempt_then r f = Done y \<longleftrightarrow> (\<exists>x. r = Done x \<and> f x = Done y)"
  by (cases r) auto

lemma referred_done:
  "referred vs ids c = Done (ids', c') \<Longrightarrow> ids' = ids \<union> named_ids vs \<and> c' = c + rands vs"
proof (induction vs arbitrary: ids c)
  case (Cons v vs)
  then obtain k where k: "id_kind_of v = Done k" by (auto simp: attempt_then_Done)
  show ?case
    by (cases k; use Cons.prems Cons.IH in \<open>fastforce simp: k\<close>)
qed simp

lemma meant_ids_simps:
  "meant_ids n [] [] = {}"
  "id_kind_of v = Done (Number i) \<Longrightarrow> meant_ids n (v # vs) rs = insert i (meant_ids n vs rs)"
  "id_kind_of v = Done Rand \<Longrightarrow> meant_ids n (v # vs) (r # rs) = insert r (meant_ids n vs rs)"
  "id_kind_of v = Done All \<Longrightarrow> meant_ids n (v # vs) rs = {1..n} \<union> meant_ids n vs rs"
  by (auto simp: meant_ids_def)

lemma resolve_from_done:
  "resolve_from n vs result rs = Done (S, rest) \<Longrightarrow>
     S = result \<union> meant_ids n vs (take (rands vs) rs) \<and> rest = drop (rands vs) rs \<and>
     rands vs \<le> length rs \<and> named_ids vs \<subseteq> {..n}"
proof (induction vs arbitrary: result rs)
  case (Cons v vs)
  then obtain k where k: "id_kind_of v = Done k" by (auto simp: attempt_then_Done)
  show ?case
  proof (cases k)
    case (Number i)
    then have "i \<le> n" "resolve_from n vs (insert i result) rs = Done (S, rest)"
      using Cons.prems by (auto simp: k split: if_splits)
    from Cons.IH[OF this(2)] this(1) show ?thesis
      using meant_ids_simps(2)[OF k[unfolded Number]] by (auto simp: k Number)
  next
    case Rand
    then obtain r rs' where r: "rs = r # rs'" "resolve_from n vs (insert r result) rs' = Done (S, rest)"
      using Cons.prems by (auto simp: k split: list.splits)
    from Cons.IH[OF r(2)] show ?thesis
      using meant_ids_simps(3)[OF k[unfolded Rand]] by (auto simp: k Rand r(1))
  next
    case All
    then have "resolve_from n vs (result \<union> {1..n}) rs = Done (S, rest)" using Cons.prems by (simp add: k)
    from Cons.IH[OF this] show ?thesis
      using meant_ids_simps(4)[OF k[unfolded All]] by (auto simp: k All)
  qed (use Cons.prems in \<open>simp add: k\<close>)
qed (simp add: meant_ids_def)

lemma draw_ids_done:
  "draw_ids draws k ids = Some (rs, ds) \<Longrightarrow>
     distinct rs \<and> length rs = k \<and> set rs \<inter> ids = {} \<and> set rs \<subseteq> Suc ` set draws"
  by (induction draws k ids arbitrary: rs ds rule: draw_ids.induct) (fastforce split: if_splits)+

lemma draw_ids_ends:
  assumes "finite ids" "card ids + k \<le> card (ids \<union> Suc ` set draws)"
  shows "draw_ids draws k ids \<noteq> None"
  using assms
proof (induction draws k ids rule: draw_ids.induct)
  case (3 d draws k ids)
  show ?case
  proof (cases "d + 1 \<in> ids")
    case True
    then have "ids \<union> Suc ` set (d # draws) = ids \<union> Suc ` set draws" by auto
    then show ?thesis using 3 True by simp
  next
    case False
    have "insert (d + 1) ids \<union> Suc ` set draws = ids \<union> Suc ` set (d # draws)" by auto
    then show ?thesis using 3 False by simp
  qed
qed simp_all

lemma resolve_ids_done:
  assumes "resolve_ids n draws ss ts = Some (Done (S, T), ds)" "set draws \<subseteq> {..<n}"
  shows "\<exists>rs. distinct rs \<and> set rs \<subseteq> {1..n} - named_ids (ss @ ts) \<and> length rs = rands (ss @ ts) \<and>
    S = meant_ids n ss (take (rands ss) rs) \<and> T = meant_ids n ts (drop (rands ss) rs) \<and> S \<union> T \<subseteq> {..n}"
proof -
  obtain ids c where r: "referred (ss @ ts) {} 0 = Done (ids, c)"
    using assms(1) by (cases "referred (ss @ ts) {} 0") (auto simp: resolve_ids_def)
  then have rc: "ids = named_ids (ss @ ts)" "c = rands (ss @ ts)" using referred_done[OF r] by auto
  obtain rs ds' where d: "draw_ids draws c ids = Some (rs, ds')"
    and a: "attempt_then (resolve_from n ss {} rs) (\<lambda>(S, rest).
        attempt_then (resolve_from n ts {} rest) (\<lambda>(T, rest'). Done (S, T))) = Done (S, T)"
    using assms(1) by (auto simp: resolve_ids_def r split: if_splits)
  from a obtain rest rest' where S: "resolve_from n ss {} rs = Done (S, rest)"
    and T: "resolve_from n ts {} rest = Done (T, rest')" by (auto simp: attempt_then_Done)
  note dd = draw_ids_done[OF d] and SS = resolve_from_done[OF S] and TT = resolve_from_done[OF T]
  have len: "length rs = rands ss + rands ts" using dd rc by simp
  have "set rs \<subseteq> {1..n} - named_ids (ss @ ts)" using dd rc assms(2) by fastforce
  moreover have "take (rands ts) rest = drop (rands ss) rs" using SS len by simp
  moreover have "S = meant_ids n ss (take (rands ss) rs)" using SS by simp
  moreover have "T = meant_ids n ts (drop (rands ss) rs)" using TT calculation(2) by simp
  moreover have "S \<union> T \<subseteq> {..n}"
  proof -
    have "set (take (rands ss) rs) \<subseteq> {..n}" "set (drop (rands ss) rs) \<subseteq> {..n}"
      using calculation(1) by (auto dest!: in_set_takeD in_set_dropD)
    moreover have "named_ids ss \<subseteq> {..n}" "named_ids ts \<subseteq> {..n}" using SS TT by auto
    moreover have "S = meant_ids n ss (take (rands ss) rs)" by fact
    moreover have "T = meant_ids n ts (drop (rands ss) rs)" by fact
    ultimately show ?thesis by (auto simp: meant_ids_def)
  qed
  ultimately show ?thesis using dd rc by (intro exI[of _ rs]) simp
qed

lemma resolve_ids_ends:
  assumes "{..<n} \<subseteq> set draws"
  shows "resolve_ids n draws ss ts \<noteq> None"
proof (cases "referred (ss @ ts) {} 0")
  case (Done x)
  obtain ids c where x: "x = (ids, c)" by (cases x)
  have "referred (ss @ ts) {} 0 = Done (ids, c)" using Done x by simp
  then have ids: "ids = named_ids (ss @ ts)" using referred_done by blast
  have fin: "finite ids"
  proof -
    have "Done ` Number ` ids \<subseteq> id_kind_of ` set (ss @ ts)" by (auto simp: ids named_ids_def)
    then have "finite (Done ` Number ` ids)" by (rule finite_subset) simp
    then show ?thesis by (auto dest!: finite_imageD simp: inj_on_def)
  qed
  have "draw_ids draws c ids \<noteq> None" if le: "card ids + c \<le> n"
  proof (rule draw_ids_ends[OF fin])
    have "{1..n} \<subseteq> ids \<union> Suc ` set draws"
    proof
      fix i assume "i \<in> {1..n}"
      then have "i - 1 \<in> set draws" "i = Suc (i - 1)" using assms by auto
      then show "i \<in> ids \<union> Suc ` set draws" by blast
    qed
    then have "card {1..n} \<le> card (ids \<union> Suc ` set draws)" using fin by (intro card_mono) auto
    then show "card ids + c \<le> card (ids \<union> Suc ` set draws)" using le by simp
  qed
  then show ?thesis by (auto simp: resolve_ids_def Done x)
qed (simp_all add: resolve_ids_def)

text \<open>C34: the ids of a link line.  Once the random generator has come up with every node, resolving
  ends; and if it succeeds, the sources and the targets are the ids that are named, all nodes where
  \<open>all\<close> is, and for every \<open>rand\<close> a node of its own, different from each other and from every
  node the line names.\<close>

theorem link_ids:
  assumes "set draws = {..<n}"
  shows "resolve_ids n draws ss ts \<noteq> None \<and>
    (\<forall>S T ds. resolve_ids n draws ss ts = Some (Done (S, T), ds) \<longrightarrow>
      (\<exists>rs. distinct rs \<and> set rs \<subseteq> {1..n} - named_ids (ss @ ts) \<and> length rs = rands (ss @ ts) \<and>
        S = meant_ids n ss (take (rands ss) rs) \<and> T = meant_ids n ts (drop (rands ss) rs) \<and> S \<union> T \<subseteq> {..n}))"
  using resolve_ids_done[of n draws ss ts] resolve_ids_ends[of n draws ss ts] assms by blast

theorem link_ids_witness:
  "\<exists>rs. distinct rs \<and> set rs \<subseteq> {1..3} - named_ids [Word ''rand'', Word ''1'', Word ''rand''] \<and> length rs = 2 \<and>
     {3} = meant_ids 3 [Word ''rand''] (take 1 rs) \<and> {1, 2} = meant_ids 3 [Word ''1'', Word ''rand''] (drop 1 rs)"
proof -
  let ?ss = "[Word ''rand'']" and ?ts = "[Word ''1'', Word ''rand'']"
  have d: "set [2, 0, 1] = {..<3::nat}" by auto
  have r: "resolve_ids 3 [2, 0, 1] ?ss ?ts = Some (Done ({3}, {1, 2}), [])" by code_simp
  have c: "rands (?ss @ ?ts) = 2" "rands ?ss = 1" by code_simp+
  show ?thesis using link_ids[OF d, of ?ss ?ts] r unfolding c by auto
qed

text \<open>A line with a number of random links is passed over: the numbers it chooses are not texts.\<close>

lemma pick_links_some:
  "pick_links draws k bi selected sources targets = Some (sources', targets', ds) \<Longrightarrow>
     sources \<noteq> [] \<or> 0 < k \<Longrightarrow> sources' \<noteq> []"
proof (induction draws k bi selected sources targets rule: pick_links.induct)
  case (3 d draws k bidirectional selected sources targets)
  obtain t ds' where t: "pick_target draws (d + 1) = Some (t, ds')"
    using 3(3) by (auto split: option.splits)
  show ?case
  proof (cases "(d + 1, t) \<in> selected")
    case True
    show ?thesis by (rule 3(1)[OF t refl True]) (use 3(3) t True in simp_all)
  next
    case False
    have "List.insert (d + 1) sources \<noteq> []" by (cases sources) (simp_all add: List.insert_def)
    then show ?thesis by (intro 3(2)[OF t refl False]) (use 3(3) t False in simp_all)
  qed
qed simp_all

lemma random_links_dropped:
  assumes "0 < k" "check_test_command n loc draws (Modify_Random_Link k c bi) = Some (a, ds)"
  shows "a = Other_Error AttributeError"
proof -
  from assms obtain sources targets d where p: "pick_links draws k bi {} [] [] = Some (sources, targets, d)"
    and m: "modify_link_from_to n loc d (map Chosen sources) (map Chosen targets) c bi = Some (a, ds)"
    by (auto simp: modify_random_link_def split: option.splits)
  from pick_links_some[OF p] assms(1) obtain s ss where "sources = s # ss" by (cases sources) auto
  then show ?thesis using m by (auto simp: modify_link_from_to_def resolve_ids_def)
qed

end
