(* ===== verification/Test_Network.thy ===== *)
theory Test_Network
  imports Test_Commands Deployment
begin

section \<open>A test and the links of a cluster\<close>

text \<open>
  The calls of \<open>NetemMaster\<close> (\<open>test_executor.py\<close>) answered by the managers of
  \<open>network_manager.py\<close>, each started with the configuration file that \<open>provisioner.py\<close>
  wrote for its node.  The world is the list of shell commands run on the machine of a local
  cluster.
\<close>

subsection \<open>The managers of a cluster\<close>

definition manager_of :: "cluster_node list \<Rightarrow> string \<Rightarrow> nat list \<Rightarrow> nat \<Rightarrow> netem_manager option" where
  "manager_of ns mode additional i =
     map_option (\<lambda>n. netem_of (get_node_config ns n mode additional)) (find (\<lambda>n. node_id n = i) ns)"

text \<open>The constructor of \<open>NetemMaster\<close>: the queues of every node are cleaned and created anew,
  then the classes of its peers; a manager that reports a failure ends it.  What
  \<open>clean_all_qdisc\<close> and \<open>create_root_qdisc\<close> answer is dropped.\<close>

fun init_managers :: "shell \<Rightarrow> netem_manager list \<Rightarrow> string list \<Rightarrow> string list \<times> bool" where
  "init_managers sh [] hist = (hist, True)"
| "init_managers sh (m # ms) hist =
     (case init_qdisc sh m hist of
        (hist1, False) \<Rightarrow> (hist1, False)
      | (hist1, True) \<Rightarrow> init_managers sh ms hist1)"

definition init_netem_master :: "shell \<Rightarrow> netem_manager list \<Rightarrow> string list \<Rightarrow> string list \<times> bool" where
  "init_netem_master sh ms hist =
     init_managers sh ms
       (fold (\<lambda>m h. fst (create_root_qdisc sh m (fst (clean_all_qdisc sh m h)))) ms hist)"

definition cluster_surroundings ::
  "shell \<Rightarrow> cluster_node list \<Rightarrow> (nat \<Rightarrow> string list \<Rightarrow> string list \<times> 'r list outcome) \<Rightarrow> (nat set \<Rightarrow> nat list) \<Rightarrow> string
     \<Rightarrow> (string list, 'r) surroundings" where
  "cluster_surroundings sh ns run ls alg =
     \<lparr>nodes_rpc = (\<lambda>i. map_option (\<lambda>m t c hist.
          case modify_outgoing_connection sh m (str t) c hist of (hist1, ok) \<Rightarrow> (hist1, Ret ok))
        (manager_of ns ''local'' [] i)),
      daemon_run = run, listing = ls, algorithm = alg\<rparr>"

subsection \<open>What a link line does\<close>

definition change_command :: "nat \<Rightarrow> nat \<Rightarrow> string \<Rightarrow> string" where
  "change_command s t c = ''sudo tc qdisc change dev lo parent 1:'' @ str s @ str t @ ''2 netem '' @ c"

definition pair_commands :: "bool \<Rightarrow> string \<Rightarrow> nat \<times> nat \<Rightarrow> string list" where
  "pair_commands bi c p =
     (case p of (s, t) \<Rightarrow>
        if s = t then [] else change_command s t c # (if bi then [change_command t s c] else []))"

lemma str_plain: "plain (str n)"
  using str_is_digits[of n] by (auto simp: plain_def)

lemma plain_append: "plain xs \<Longrightarrow> plain ys \<Longrightarrow> plain (xs @ ys)"
  by (auto simp: plain_def)

lemma local_nodes_lo: "local_nodes os is p = Some (ns, q) \<Longrightarrow> n \<in> set ns \<Longrightarrow> node_interface n = ''lo''"
  by (induction "is" arbitrary: p ns) (auto simp: bind_eq_Some_conv local_node_def)

text \<open>The nodes whose managers are in charge: those of the cluster on the loopback interface.\<close>

definition in_charge :: "cluster_node list \<Rightarrow> nat set" where
  "in_charge ns = {i. \<exists>n. find (\<lambda>n. node_id n = i) ns = Some n \<and> node_interface n = ''lo''}"

lemma call_node_commands:
  assumes "i \<in> in_charge ns"
  shows "call_node (cluster_surroundings (\<lambda>_ _. []) ns run ls alg) i t c hist = (hist @ [change_command i t c], Ret True)"
proof -
  obtain n where n: "find (\<lambda>n. node_id n = i) ns = Some n" "node_interface n = ''lo''"
    using assms by (auto simp: in_charge_def)
  then have id: "node_id n = i" by (auto simp: find_Some_iff)
  define m where "m = netem_of (get_node_config ns n ''local'' [])"
  have m: "nm_interface m = ''lo''" "nm_host_id m = str i"
    using n(2) id by (simp_all add: m_def netem_of_def get_node_config_def)
  have p: "plain ''lo''" "plain (str i @ str t)" by (simp_all add: plain_def str_plain[unfolded plain_def])
  have one: "modify_outgoing_connections_commands = [hd modify_outgoing_connections_commands]"
    by (simp add: modify_outgoing_connections_commands_def)
  have "modify_outgoing_connection (\<lambda>_ _. []) m (str t) c hist = (hist @ [change_command i t c], True)"
    unfolding modify_outgoing_connection_def m
    by (subst one, unfold run_one modify_command[OF p]) (simp add: answer_def change_command_def)
  then show ?thesis by (simp add: call_node_def cluster_surroundings_def manager_of_def n(1) m_def)
qed

interpretation managers: node_managers "cluster_surroundings (\<lambda>_ _. []) ns run ls alg" "in_charge ns"
    "\<lambda>i t c hist. hist @ [change_command i t c]" for ns run ls alg
  by unfold_locales (rule call_node_commands)

lemma local_in_charge:
  assumes "local_cluster os k = Some (ns, q)" "i \<in> {1..k}"
  shows "i \<in> in_charge ns"
proof -
  have "i \<in> set (map node_id ns)" using assms(2) unfolding local_cluster_ids[OF assms(1)] by auto
  then obtain n where f: "find (\<lambda>n. node_id n = i) ns = Some n"
    by (cases "find (\<lambda>n. node_id n = i) ns") (auto simp: find_None_iff)
  then have "n \<in> set ns" by (auto simp: find_Some_iff)
  then show ?thesis using f local_nodes_lo[OF assms(1)[unfolded local_cluster_def]] by (simp add: in_charge_def)
qed

lemma effect_commands:
  "fold (pair_effect (\<lambda>i t c hist. hist @ [change_command i t c]) c bi) ps hist = hist @ concat (map (pair_commands bi c) ps)"
  by (induction ps arbitrary: hist) (auto simp: pair_effect_def pair_commands_def)

subsection \<open>Properties\<close>

text \<open>A line of a test reaches the links it names.  On every local cluster whose shell reports
  no errors, carrying out a checked link line runs one \<open>tc\<close> command for every source and every
  other target, on the queue that the manager of the source has for this target, and one for the
  way back if the line is bidirectional; nothing else is run, and the line succeeds.\<close>

lemma line_reaches_links:
  assumes "local_cluster os k = Some (ns, q)" "\<forall>h c. sh h c = []"
    "set (ls S) = S" "set (ls T) = T" "S \<union> T \<subseteq> {1..k}"
  shows "perform (cluster_surroundings sh ns run ls alg) (Change_Links S T c bi) (hist, rows) =
    ((hist @ concat (map (\<lambda>(s, t). if s = t then []
         else (''sudo tc qdisc change dev lo parent 1:'' @ str s @ str t @ ''2 netem '' @ c) #
           (if bi then [''sudo tc qdisc change dev lo parent 1:'' @ str t @ str s @ ''2 netem '' @ c] else []))
       (List.product (ls S) (ls T))), rows), Done ())"
proof -
  have sh: "sh = (\<lambda>_ _. [])" using assms(2) by (simp add: fun_eq_iff)
  have ids: "set (ls S) \<subseteq> in_charge ns" "set (ls T) \<subseteq> in_charge ns"
    using assms(3-5) local_in_charge[OF assms(1)] by auto
  have "pair_commands bi c = (\<lambda>(s, t). if s = t then []
         else (''sudo tc qdisc change dev lo parent 1:'' @ str s @ str t @ ''2 netem '' @ c) #
           (if bi then [''sudo tc qdisc change dev lo parent 1:'' @ str t @ str s @ ''2 netem '' @ c] else []))"
    by (simp add: fun_eq_iff pair_commands_def change_command_def)
  moreover have "listing (cluster_surroundings (\<lambda>_ _. []) ns run ls alg) = ls" by (simp add: cluster_surroundings_def)
  ultimately show ?thesis
    using managers.link_effect[of ns run ls alg S T c bi hist rows] ids by (simp add: sh effect_commands)
qed

end
