(* ===== verification/Test_Runs.thy ===== *)
theory Test_Runs
  imports Test_Network
begin

section \<open>How a test ends\<close>

text \<open>
  The whole of \<open>test_executor.py\<close> on the cluster of one machine: whatever the test file says,
  the line \<open>reset\<close> that the parser appends comes last.
\<close>

subsection \<open>The last command\<close>

text \<open>While the index is on the lines of the file, every block that is remembered starts on one.\<close>

definition on_file :: "string list \<Rightarrow> parser_state \<Rightarrow> bool" where
  "on_file f st \<longleftrightarrow> next_index st \<le> length f \<and> (\<forall>p\<in>set (pointers st). pt_start p < length f)"

lemma position_bound: "position xs i = Ret k \<Longrightarrow> k < length xs"
  by (auto simp: position_def split: if_splits)

lemma open_block_on_file:
  assumes "open_block st = Ret st'" "on_file f st" "next_index st < length f"
  shows "on_file f st' \<and> next_index st' = next_index st"
proof (cases "int (length (pointers st)) < do_open st + 2")
  case True
  then have "st' = st\<lparr>do_open := do_open st + 1, pointers := pointers st @ [\<lparr>pt_start = next_index st, pt_repetition = 1\<rparr>]\<rparr>"
    using assms(1) by (simp add: open_block_def Let_def)
  then show ?thesis using assms(2,3) by (auto simp: on_file_def)
next
  case False
  then obtain k where "st' = st\<lparr>do_open := do_open st + 1, pointers := (pointers st)[k := \<lparr>pt_start = next_index st, pt_repetition = 1\<rparr>]\<rparr>"
    using assms(1) by (cases "position (pointers st) (do_open st + 1)") (auto simp: open_block_def Let_def)
  then show ?thesis using assms(2,3) by (auto simp: on_file_def dest!: subsetD[OF set_update_subset_insert])
qed

lemma close_block_on_file:
  assumes "close_block n st = Ret st'" "on_file f st" "next_index st < length f"
  shows "on_file f st' \<and> next_index st' < length f"
proof -
  obtain k where k: "position (pointers st) (do_open st) = Ret k"
    using assms(1) by (cases "position (pointers st) (do_open st)") (auto simp: close_block_def)
  have p: "pt_start (pointers st ! k) < length f" using position_bound[OF k] assms(2) by (simp add: on_file_def)
  show ?thesis
    using assms p unfolding close_block_def k and_then.simps Let_def on_file_def
    by (auto split: if_splits dest!: subsetD[OF set_update_subset_insert])
qed

lemma parse_line_on_file:
  assumes "parse_line l st = Inr st'" "on_file f st" "next_index st < length f"
  shows "on_file f st'"
proof -
  obtain t where t: "read_line l = Ret t" using assms(1) by (cases "read_line l") (auto simp: parse_line_def)
  show ?thesis
  proof (cases t)
    case Do_Line
    then obtain st1 where st1: "open_block st = Ret st1"
      using assms(1) t by (cases "open_block st") (auto simp: parse_line_def)
    then show ?thesis
      using assms t Do_Line open_block_on_file[OF st1 assms(2,3)] by (auto simp: parse_line_def on_file_def)
  next
    case (Times_Line n)
    then obtain st1 where st1: "close_block n st = Ret st1"
      using assms(1) t by (cases "close_block n st") (auto simp: parse_line_def)
    then show ?thesis
      using assms t Times_Line close_block_on_file[OF st1 assms(2,3)] by (auto simp: parse_line_def on_file_def)
  qed (use assms t in \<open>auto simp: parse_line_def on_file_def\<close>)
qed

lemma parse_last_line:
  "parse_line ''reset'' st = Inr (st\<lparr>commands_list := commands_list st @ [(next_index st + 1, Reset_Links)],
     next_index := next_index st + 1\<rparr>)"
  by (simp add: parse_line_def read_reset)

lemma parse_from_last:
  assumes "parse_from (f @ [''reset'']) st = Some r" "on_file f st" "r = Inr cs"
  shows "\<exists>cs0. cs = cs0 @ [(length f + 1, Reset_Links)]"
proof -
  let ?P = "\<lambda>g st r. (length g \<le> next_index st \<longrightarrow> r = Inr (commands_list st)) \<and>
    (\<forall>f cs. g = f @ [''reset''] \<and> on_file f st \<and> r = Inr cs \<longrightarrow> (\<exists>cs0. cs = cs0 @ [(length f + 1, Reset_Links)]))"
  have "?P (f @ [''reset'']) st r"
  proof (rule parse_from.raw_induct[OF _ assms(1), of ?P])
    fix go g st y
    assume IH: "\<And>g st y. go g st = Some y \<Longrightarrow> ?P g st y"
      and step: "(if next_index st < length g
        then case parse_line (g ! next_index st) st of Inl e \<Rightarrow> Some (Inl e) | Inr st' \<Rightarrow> go g st'
        else Some (Inr (commands_list st))) = Some y"
    show "?P g st y"
    proof (intro conjI allI impI, use step in simp, elim conjE)
      fix f cs assume g: "g = f @ [''reset'']" and f: "on_file f st" and y: "y = Inr cs"
      obtain st' where st': "parse_line (g ! next_index st) st = Inr st'" "go g st' = Some (Inr cs)"
        using step y g f by (auto simp: on_file_def split: sum.splits)
      show "\<exists>cs0. cs = cs0 @ [(length f + 1, Reset_Links)]"
      proof (cases "next_index st < length f")
        case True
        then show ?thesis using IH[OF st'(2)] parse_line_on_file[OF st'(1) f] g by blast
      next
        case False
        then have i: "next_index st = length f" using f by (simp add: on_file_def)
        then have "st' = st\<lparr>commands_list := commands_list st @ [(length f + 1, Reset_Links)], next_index := length f + 1\<rparr>"
          using st'(1) by (simp add: g parse_last_line)
        then show ?thesis using IH[OF st'(2)] g by simp
      qed
    qed
  qed
  then show ?thesis using assms(2,3) by blast
qed

lemma parse_last: "parse f = Some (Inr cs) \<Longrightarrow> \<exists>cs0. cs = cs0 @ [(length f + 1, Reset_Links)]"
  unfolding parse_def by (erule parse_from_last) (auto simp: on_file_def init_parser_def)

subsection \<open>The last action\<close>

lemma check_reset:
  "check_test_command n True draws Reset_Links =
     Some (Done (Change_Links {1..n} {1..n} ''delay 0ms'' False), draws)"
proof -
  have "\<not> digits ''all''" by code_simp
  then have a: "id_kind_of (Word ''all'') = Done All" by simp
  show ?thesis by (simp add: modify_link_from_to_def resolve_ids_def a del: id_kind_of.simps)
qed

lemma check_all_last:
  "check_all n loc (cs @ cs') draws = Some (Inr as) \<Longrightarrow>
     \<exists>as0 as1 ds. as = as0 @ as1 \<and> check_all n loc cs' ds = Some (Inr as1)"
proof (induction cs arbitrary: draws as)
  case (Cons x cs)
  obtain line c where x: "x = (line, c)" by (cases x)
  obtain a ds where a: "check_test_command n loc draws c = Some (a, ds)"
    using Cons.prems by (cases "check_test_command n loc draws c") (auto simp: x)
  show ?case
  proof (cases a)
    case (Done b)
    obtain w where w: "check_all n loc (cs @ cs') ds = Some w" "map_sum id (\<lambda>as. (line, b) # as) w = Inr as"
      using Cons.prems by (auto simp: x a Done)
    then obtain r where r: "w = Inr r" "as = (line, b) # r" by (cases w) auto
    then show ?thesis using Cons.IH[of ds r] w(1) by (metis append_Cons)
  qed (use Cons a x in auto)
qed auto

lemma perform_all_append:
  "perform_all env (as @ as') s = (case perform_all env as s of (Inl e, s1) \<Rightarrow> (Inl e, s1) | (Inr u, s1) \<Rightarrow> perform_all env as' s1)"
proof (induction as arbitrary: s)
  case (Cons x as)
  obtain line a where x: "x = (line, a)" by (cases x)
  obtain s1 r where r: "perform env a s = (s1, r)" by (cases "perform env a s")
  show ?case using Cons by (cases r) (simp_all add: x r)
qed simp

text \<open>A test that ends leaves no disturbance behind.  On every local cluster whose shell reports
  no errors, if a run of any test file ends without an error, the last thing it did, after
  everything the file asks for, was to set the delay of every link between two nodes back to zero.\<close>

lemma tests_end_clean:
  assumes "local_cluster os k = Some (ns, q)" "set (ls {1..k}) = {1..k}"
    "run_test_file (cluster_surroundings (\<lambda>_ _. []) ns run ls alg) k True f draws (hist, rows) = Some (Inr (), (hist', rows'))"
  shows "\<exists>before. hist' = before @ concat (map (\<lambda>(s, t). if s = t then []
      else [''sudo tc qdisc change dev lo parent 1:'' @ str s @ str t @ ''2 netem delay 0ms'']) (List.product (ls {1..k}) (ls {1..k})))"
proof -
  let ?env = "cluster_surroundings (\<lambda>_ _. []) ns run ls alg" and ?reset = "Change_Links {1..k} {1..k} ''delay 0ms'' False"
  obtain cs where cs: "parse f = Some (Inr cs)"
    using assms(3) by (auto simp: run_test_file_def split: option.splits sum.splits)
  obtain cs0 where cs0: "cs = cs0 @ [(length f + 1, Reset_Links)]" using parse_last[OF cs] by blast
  obtain as where as: "check_all k True cs draws = Some (Inr as)" "perform_all ?env as (hist, rows) = (Inr (), (hist', rows'))"
    using assms(3) by (auto simp: run_test_file_def cs run_all split: option.splits sum.splits)
  obtain as0 where as0: "as = as0 @ [(length f + 1, ?reset)]"
    using check_all_last[OF as(1)[unfolded cs0]] by (auto simp: check_reset simp del: check_test_command.simps)
  obtain h r where h: "perform_all ?env [(length f + 1, ?reset)] (h, r) = (Inr (), (hist', rows'))"
  proof (cases "perform_all ?env as0 (hist, rows)")
    case (fields x h0 r0)
    with as(2) that[of h0 r0] show thesis
      unfolding as0 perform_all_append by (cases x) (simp_all del: perform_all.simps)
  qed
  have ids: "set (listing ?env {1..k}) \<subseteq> in_charge ns"
    using assms(2) local_in_charge[OF assms(1)] by (auto simp: cluster_surroundings_def)
  have "hist' = h @ concat (map (pair_commands False ''delay 0ms'') (List.product (ls {1..k}) (ls {1..k})))"
    using h managers.link_effect[OF ids ids, of "''delay 0ms''" False h r]
    by (simp add: effect_commands del: perform.simps) (simp add: cluster_surroundings_def)
  moreover have "pair_commands False ''delay 0ms'' = (\<lambda>(s, t). if s = t then []
      else [''sudo tc qdisc change dev lo parent 1:'' @ str s @ str t @ ''2 netem delay 0ms''])"
    by (simp add: fun_eq_iff pair_commands_def change_command_def)
  ultimately show ?thesis by auto
qed

text \<open>A test on two nodes.\<close>

lemma sample_run:
  assumes c: "local_cluster sample_ports 2 = Some (ns, q)"
  shows "\<exists>hist'. run_test_file (cluster_surroundings (\<lambda>_ _. []) ns (\<lambda>n w. (w, Ret ([] :: nat list))) sorted_list_of_set ''pso'')
    2 True [''from 1 to 2 set loss 4%''] [] (h, []) = Some (Inr (), (hist', []))"
proof -
  let ?f = "[''from 1 to 2 set loss 4%'']" and ?ls = "sorted_list_of_set :: nat set \<Rightarrow> nat list"
  let ?env = "cluster_surroundings (\<lambda>_ _. []) ns (\<lambda>n w. (w, Ret ([] :: nat list))) ?ls ''pso''" and ?reset = "Change_Links {1..2} {1..2} ''delay 0ms'' False"
  have r: "read_line ''from 1 to 2 set loss 4%'' = Ret (Command_Line (Modify_Link [''1''] [''2''] '' loss 4%'' False))" by code_simp
  have p: "parse ?f = Some (Inr [(1, Modify_Link [''1''] [''2''] '' loss 4%'' False), (2, Reset_Links)])"
    using parser_unrolls_lines[of "[Line ''from 1 to 2 set loss 4%'']"] r by simp
  have k: "id_kind_of (Word ''1'') = Done (Number 1)" "id_kind_of (Word ''2'') = Done (Number 2)" by code_simp+
  have "check_test_command 2 True [] (Modify_Link [''1''] [''2''] '' loss 4%'' False) = Some (Done (Change_Links {1} {2} '' loss 4%'' False), [])"
    by (simp add: modify_link_from_to_def resolve_ids_def k del: id_kind_of.simps)
  then have a: "check_all 2 True [(1, Modify_Link [''1''] [''2''] '' loss 4%'' False), (2, Reset_Links)] [] =
      Some (Inr [(1, Change_Links {1} {2} '' loss 4%'' False), (2, ?reset)])"
    by (simp add: check_reset del: check_test_command.simps)
  have ids: "set (listing ?env {1}) \<subseteq> in_charge ns" "set (listing ?env {2}) \<subseteq> in_charge ns" "set (listing ?env {1..2}) \<subseteq> in_charge ns"
    using local_in_charge[OF c] by (auto simp: cluster_surroundings_def)
  obtain hist' where h: "perform_all ?env [(1, Change_Links {1} {2} '' loss 4%'' False), (2, ?reset)] (h, []) = (Inr (), (hist', []))"
    unfolding perform_all.simps managers.link_effect[OF ids(1,2)] managers.link_effect[OF ids(3,3)] prod.case attempt.case
    by blast
  show ?thesis unfolding run_test_file_def p option.case sum.case run_all a h by blast
qed

end
