(* ===== verification/Executor_Program.thy ===== *)
theory Executor_Program
  imports Test_Runs
begin

section \<open>The test executor as a program\<close>

text \<open>
  \<open>main\<close> of \<open>test_executor.py\<close> from its arguments to its exit status: the two files, the
  constructor of \<open>NetemMaster\<close> with its remote calls, the name of the results file, the run.
  A remote call acts on a world and answers or raises.  The results file can be opened.
\<close>

subsection \<open>The constructor of \<open>NetemMaster\<close>\<close>

record 'w node_rpc =
  rpc_clean_all_qdisc :: "'w \<Rightarrow> 'w \<times> bool outcome"
  rpc_create_root_qdisc :: "'w \<Rightarrow> 'w \<times> bool outcome"
  rpc_init_qdisc :: "'w \<Rightarrow> 'w \<times> bool outcome"
  rpc_modify :: "nat \<Rightarrow> string \<Rightarrow> 'w \<Rightarrow> 'w \<times> bool outcome"

definition node_stubs :: "(cluster_node \<Rightarrow> 'w node_rpc) \<Rightarrow> cluster_node list \<Rightarrow> nat \<Rightarrow> 'w node_rpc option" where
  "node_stubs net ns = fold (\<lambda>n d. d(node_id n \<mapsto> net n)) ns Map.empty"

fun reset_nodes :: "(nat \<Rightarrow> 'w node_rpc option) \<Rightarrow> cluster_node list \<Rightarrow> 'w \<Rightarrow> 'w \<times> unit outcome" where
  "reset_nodes d [] w = (w, Ret ())"
| "reset_nodes d (n # ns) w =
     (case d (node_id n) of
        None \<Rightarrow> (w, Raise KeyError)
      | Some s \<Rightarrow>
          (case rpc_clean_all_qdisc s w of
             (w1, Raise e) \<Rightarrow> (w1, Raise e)
           | (w1, Ret b) \<Rightarrow>
               (case rpc_create_root_qdisc s w1 of
                  (w2, Raise e) \<Rightarrow> (w2, Raise e)
                | (w2, Ret b) \<Rightarrow> reset_nodes d ns w2)))"

text \<open>\<open>False\<close> is turned into an exception, whose kind nobody reads.\<close>

fun init_nodes :: "(nat \<Rightarrow> 'w node_rpc option) \<Rightarrow> cluster_node list \<Rightarrow> 'w \<Rightarrow> 'w \<times> unit outcome" where
  "init_nodes d [] w = (w, Ret ())"
| "init_nodes d (n # ns) w =
     (case d (node_id n) of
        None \<Rightarrow> (w, Raise KeyError)
      | Some s \<Rightarrow>
          (case rpc_init_qdisc s w of
             (w1, Raise e) \<Rightarrow> (w1, Raise e)
           | (w1, Ret False) \<Rightarrow> (w1, Raise Fault)
           | (w1, Ret True) \<Rightarrow> init_nodes d ns w1))"

definition netem_master :: "(cluster_node \<Rightarrow> 'w node_rpc) \<Rightarrow> cluster_node list \<Rightarrow> 'w \<Rightarrow> 'w \<times> unit outcome" where
  "netem_master net ns w =
     (case reset_nodes (node_stubs net ns) ns w of
        (w1, Raise e) \<Rightarrow> (w1, Raise e)
      | (w1, Ret u) \<Rightarrow> init_nodes (node_stubs net ns) ns w1)"

subsection \<open>\<open>main\<close>\<close>

record executor_args =
  config_file_path :: string
  test_file_path :: string
  output_file_path :: "string option"

datatype program_end = Exit nat | Escapes py_error | Saved_To string

text \<open>\<open>configs\<close>: what reading a file as JSON gives, if it is there; \<open>files\<close>: the lines of a file.
  The outer \<open>None\<close> is a run that never ends.\<close>

definition executor_main :: "(cluster_node \<Rightarrow> 'w node_rpc) \<Rightarrow> (string \<Rightarrow> nat \<Rightarrow> 'w \<Rightarrow> 'w \<times> 'r list outcome) \<Rightarrow> (nat set \<Rightarrow> nat list)
    \<Rightarrow> (string \<Rightarrow> master_config outcome option) \<Rightarrow> (string \<Rightarrow> string list option) \<Rightarrow> executor_args \<Rightarrow> nat list \<Rightarrow> 'w
    \<Rightarrow> (program_end \<times> ('w, 'r) session) option" where
  "executor_main net daemon ls configs files args draws w =
     (case configs (config_file_path args) of
        None \<Rightarrow> Some (Exit 2, (w, []))
      | Some (Raise e) \<Rightarrow> Some (Escapes e, (w, []))
      | Some (Ret conf) \<Rightarrow>
     (case files (test_file_path args) of
        None \<Rightarrow> Some (Exit 2, (w, []))
      | Some test_file_lines \<Rightarrow>
     (case netem_master net (master_nodes conf) w of
        (w1, Raise e) \<Rightarrow> Some (Exit 1, (w1, []))
      | (w1, Ret u) \<Rightarrow>
          if master_daemon conf = [] then Some (Exit 2, (w1, []))
          else
            let path = (case output_file_path args of
                          Some p \<Rightarrow> if p \<noteq> [] then p else test_file_path args @ ''_'' @ master_algorithm conf @ ''.csv''
                        | None \<Rightarrow> test_file_path args @ ''_'' @ master_algorithm conf @ ''.csv'') in
            if master_nodes conf = [] then Some (Exit 2, (w1, []))
            else
              let env = \<lparr>nodes_rpc = (\<lambda>i. map_option rpc_modify (node_stubs net (master_nodes conf) i)),
                         daemon_run = daemon (master_daemon conf), listing = ls, algorithm = master_algorithm conf\<rparr> in
              map_option (\<lambda>(r, s). (case r of Inl e \<Rightarrow> Exit 1 | Inr u \<Rightarrow> Saved_To path, s))
                (run_test_file env (length (master_nodes conf)) (master_mode conf = ''local'') test_file_lines draws (w1, [])))))"

subsection \<open>\<open>main\<close> of the network manager\<close>

text \<open>\<open>args\<close>: what follows the name of the program.  Reading and serving are in one \<open>try\<close>: whatever
  fails is reported as a file that is not JSON, with status 2; without an argument the handler
  itself raises.  \<open>bind_ok\<close>: whether the server gets its port.  The result is the manager that is served.\<close>

definition network_manager_main :: "(string \<Rightarrow> node_config outcome option) \<Rightarrow> (nat \<Rightarrow> bool) \<Rightarrow> string list \<Rightarrow> program_end + netem_manager" where
  "network_manager_main configs bind_ok args =
     (case args of
        [] \<Rightarrow> Inl (Escapes IndexError)
      | path # rest \<Rightarrow>
          (case configs path of
             Some (Ret c) \<Rightarrow> if bind_ok (config_rpc_port c) then Inr (netem_of c) else Inl (Exit 2)
           | _ \<Rightarrow> Inl (Exit 2)))"

subsection \<open>On a cluster of one machine\<close>

text \<open>The managers of the nodes, which share a shell.\<close>

definition local_rpc :: "shell \<Rightarrow> netem_manager \<Rightarrow> string list node_rpc" where
  "local_rpc sh m =
     \<lparr>rpc_clean_all_qdisc = (\<lambda>h. map_prod id Ret (clean_all_qdisc sh m h)),
      rpc_create_root_qdisc = (\<lambda>h. map_prod id Ret (create_root_qdisc sh m h)),
      rpc_init_qdisc = (\<lambda>h. map_prod id Ret (init_qdisc sh m h)),
      rpc_modify = (\<lambda>t c h. map_prod id Ret (modify_outgoing_connection sh m (str t) c h))\<rparr>"

definition local_network :: "shell \<Rightarrow> cluster_node list \<Rightarrow> cluster_node \<Rightarrow> string list node_rpc" where
  "local_network sh ns n = local_rpc sh (netem_of (get_node_config ns n ''local'' []))"

lemma local_rpc_simps [simp]:
  "rpc_clean_all_qdisc (local_rpc sh m) h = (fst (clean_all_qdisc sh m h), Ret (snd (clean_all_qdisc sh m h)))"
  "rpc_create_root_qdisc (local_rpc sh m) h = (fst (create_root_qdisc sh m h), Ret (snd (create_root_qdisc sh m h)))"
  "rpc_init_qdisc (local_rpc sh m) h = (fst (init_qdisc sh m h), Ret (snd (init_qdisc sh m h)))"
  "rpc_modify (local_rpc sh m) t c h =
     (fst (modify_outgoing_connection sh m (str t) c h), Ret (snd (modify_outgoing_connection sh m (str t) c h)))"
  by (simp_all add: local_rpc_def map_prod_def split_beta)

lemma node_stubs_find:
  assumes "distinct (map node_id ns)"
  shows "node_stubs net ns i = map_option net (find (\<lambda>n. node_id n = i) ns)"
proof -
  have "fold (\<lambda>n d. d(node_id n \<mapsto> net n)) ns d i = (case find (\<lambda>n. node_id n = i) ns of None \<Rightarrow> d i | Some n \<Rightarrow> Some (net n))" for d
    using assms
  proof (induction ns arbitrary: d)
    case (Cons n ns)
    have "\<And>m. m \<in> set ns \<Longrightarrow> node_id m \<noteq> node_id n" using Cons.prems by (metis distinct.simps(2) image_eqI list.simps(9) set_map)
    then have "find (\<lambda>m. node_id m = node_id n) ns = None" by (auto simp: find_None_iff)
    then show ?case using Cons by (auto split: option.split)
  qed simp
  then show ?thesis unfolding node_stubs_def by (simp split: option.split)
qed

lemma quiet_init: "snd (init_qdisc (\<lambda>_ _. []) (netem_of c) h)"
proof -
  have "orderly (\<lambda>_ _. []) h (init_qdisc (\<lambda>_ _. []) (netem_of c) h)"
    unfolding init_qdisc_def by (rule orderly_peers) (auto simp: netem_of_def has_locks_def)
  then show ?thesis by (auto simp: orderly_def silent_def)
qed

lemma reset_ends:
  assumes "\<And>n. n \<in> set ms \<Longrightarrow> \<exists>m. d (node_id n) = Some (local_rpc sh m)"
  shows "\<exists>h'. reset_nodes d ms h = (h', Ret ())"
  using assms
proof (induction ms arbitrary: h)
  case (Cons n ms)
  obtain m where "d (node_id n) = Some (local_rpc sh m)" using Cons.prems by auto
  then show ?case using Cons.IH Cons.prems by simp
qed simp

lemma init_ends:
  assumes "\<And>n. n \<in> set ms \<Longrightarrow> \<exists>c. d (node_id n) = Some (local_rpc (\<lambda>_ _. []) (netem_of c))"
  shows "\<exists>h'. init_nodes d ms h = (h', Ret ())"
  using assms
proof (induction ms arbitrary: h)
  case (Cons n ms)
  obtain c where "d (node_id n) = Some (local_rpc (\<lambda>_ _. []) (netem_of c))" using Cons.prems by auto
  then show ?case using Cons.IH Cons.prems quiet_init[of c h] by simp
qed simp

lemma netem_master_ends:
  assumes "distinct (map node_id ns)"
  shows "\<exists>h'. netem_master (local_network (\<lambda>_ _. []) ns) ns h = (h', Ret ())"
proof -
  have "\<exists>c. node_stubs (local_network (\<lambda>_ _. []) ns) ns (node_id n) = Some (local_rpc (\<lambda>_ _. []) (netem_of c))"
    if "n \<in> set ns" for n
    using that unfolding node_stubs_find[OF assms]
    by (cases "find (\<lambda>m. node_id m = node_id n) ns") (auto simp: find_None_iff local_network_def)
  note stubs = this
  obtain h1 where "reset_nodes (node_stubs (local_network (\<lambda>_ _. []) ns) ns) ns h = (h1, Ret ())"
    using reset_ends[of ns "node_stubs (local_network (\<lambda>_ _. []) ns) ns" "\<lambda>_ _. []" h] stubs by blast
  moreover obtain h2 where "init_nodes (node_stubs (local_network (\<lambda>_ _. []) ns) ns) ns h1 = (h2, Ret ())"
    using init_ends[of ns "node_stubs (local_network (\<lambda>_ _. []) ns) ns" h1] stubs by blast
  ultimately show ?thesis by (simp add: netem_master_def)
qed

lemma same_surroundings:
  assumes "distinct (map node_id ns)"
  shows "\<lparr>nodes_rpc = (\<lambda>i. map_option rpc_modify (node_stubs (local_network sh ns) ns i)),
      daemon_run = run, listing = ls, algorithm = alg\<rparr> = cluster_surroundings sh ns run ls alg"
  by (auto simp: cluster_surroundings_def node_stubs_find[OF assms] manager_of_def local_network_def fun_eq_iff map_option_case
      split: option.split prod.split)

text \<open>With the file the provisioner has written and a test file that is there, the program prepares
  the links and runs the test; its status tells whether the run ended without an error.\<close>

lemma executor_runs:
  assumes "provide_local_cluster os dir python k alg = Some (started, Ret master)"
    "configs (config_file_path args) = Some (Ret master)" "files (test_file_path args) = Some f"
  shows "\<exists>ns q h' path. local_cluster os k = Some (ns, q) \<and> master_nodes master = ns \<and>
    executor_main (local_network (\<lambda>_ _. []) ns) daemon ls configs files args draws h =
      map_option (\<lambda>(r, s). (case r of Inl e \<Rightarrow> Exit 1 | Inr u \<Rightarrow> Saved_To path, s))
        (run_test_file (cluster_surroundings (\<lambda>_ _. []) ns (daemon local_daemon) ls alg) k True f draws (h', []))"
proof -
  obtain first rest p as q where c: "local_cluster os k = Some (first # rest, p)"
    and m: "master = \<lparr>master_mode = ''local'', master_algorithm = alg, master_daemon = local_daemon, master_nodes = first # rest\<rparr>"
    by (rule provided[OF assms(1)])
  let ?ns = "first # rest"
  have d: "distinct (map node_id ?ns)" unfolding local_cluster_ids[OF c] by simp
  have k: "length ?ns = k" using arg_cong[OF local_cluster_ids[OF c], of length] by simp
  obtain h' where h': "netem_master (local_network (\<lambda>_ _. []) ?ns) ?ns h = (h', Ret ())"
    using netem_master_ends[OF d] by blast
  have n: "local_daemon \<noteq> []" by (simp add: local_daemon_def)
  define path where "path = (case output_file_path args of
                          Some p \<Rightarrow> if p \<noteq> [] then p else test_file_path args @ ''_'' @ alg @ ''.csv''
                        | None \<Rightarrow> test_file_path args @ ''_'' @ alg @ ''.csv'')"
  have "executor_main (local_network (\<lambda>_ _. []) ?ns) daemon ls configs files args draws h =
      map_option (\<lambda>(r, s). (case r of Inl e \<Rightarrow> Exit 1 | Inr u \<Rightarrow> Saved_To path, s))
        (run_test_file (cluster_surroundings (\<lambda>_ _. []) ?ns (daemon local_daemon) ls alg) k True f draws (h', []))"
    unfolding executor_main_def assms(2,3) m option.case outcome.case master_config.simps h' prod.case Let_def same_surroundings[OF d] k
      path_def[symmetric] using n by simp
  then show ?thesis using c by (intro exI[of _ ?ns] exI[of _ p] exI[of _ h'] exI[of _ path]) (simp add: m)
qed

text \<open>C39: a test that is reported as completed leaves no disturbance behind.  Run with the file
  that provisioning a cluster of one machine has written, whatever test file it is given, when
  every network manager answers and the shell that they share reports no errors: if the executor
  gets to saying where the results are, the last thing it did, after everything the file asks for,
  was to set the delay of every link between two nodes back to zero.  Without these two conditions
  it is not so: a reset whose call of a manager fails is passed over, and the test is reported as
  completed all the same (lemma \<open>unreachable_passed_over\<close>).\<close>

theorem executor_ends_clean:
  assumes "provide_local_cluster os dir python k alg = Some (started, Ret master)" "set (ls {1..k}) = {1..k}"
    "configs (config_file_path args) = Some (Ret master)"
    "executor_main (local_network (\<lambda>_ _. []) (master_nodes master)) daemon ls configs files args draws h =
       Some (Saved_To path, (hist', rows'))"
  shows "\<exists>before. hist' = before @ concat (map (\<lambda>(s, t). if s = t then []
      else [''sudo tc qdisc change dev lo parent 1:'' @ str s @ str t @ ''2 netem delay 0ms'']) (List.product (ls {1..k}) (ls {1..k})))"
proof -
  obtain f where f: "files (test_file_path args) = Some f"
    using assms(3,4) by (cases "files (test_file_path args)") (auto simp: executor_main_def)
  obtain ns q h' path' where c: "local_cluster os k = Some (ns, q)" and n: "master_nodes master = ns"
    and e: "executor_main (local_network (\<lambda>_ _. []) ns) daemon ls configs files args draws h =
      map_option (\<lambda>(r, s). (case r of Inl e \<Rightarrow> Exit 1 | Inr u \<Rightarrow> Saved_To path', s))
        (run_test_file (cluster_surroundings (\<lambda>_ _. []) ns (daemon local_daemon) ls alg) k True f draws (h', []))"
    using executor_runs[where configs = configs and files = files and args = args and daemon = daemon and ls = ls
        and draws = draws and h = h, OF assms(1,3) f] by blast
  from e assms(4) have "map_option (\<lambda>(r, s). (case r of Inl e \<Rightarrow> Exit 1 | Inr u \<Rightarrow> Saved_To path', s))
      (run_test_file (cluster_surroundings (\<lambda>_ _. []) ns (daemon local_daemon) ls alg) k True f draws (h', [])) =
      Some (Saved_To path, (hist', rows'))" unfolding n by simp
  then obtain r where r: "run_test_file (cluster_surroundings (\<lambda>_ _. []) ns (daemon local_daemon) ls alg) k True f draws (h', []) =
      Some (r, (hist', rows'))" "(case r of Inl e \<Rightarrow> Exit 1 | Inr u \<Rightarrow> Saved_To path') = Saved_To path" by auto
  then have "r = Inr ()" by (cases r) auto
  from tests_end_clean[OF c assms(2) r(1)[unfolded this]] show ?thesis .
qed

theorem executor_ends_clean_witness:
  "\<exists>started master path hist' before. provide_local_cluster sample_ports ''/opt'' ''python3.4'' 2 ''pso'' = Some (started, Ret master) \<and>
     executor_main (local_network (\<lambda>_ _. []) (master_nodes master)) (\<lambda>d n w. (w, Ret ([] :: nat list))) sorted_list_of_set
       (\<lambda>p. if p = ''masterConfig.json'' then Some (Ret master) else None) (\<lambda>p. Some [''from 1 to 2 set loss 4%''])
       \<lparr>config_file_path = ''masterConfig.json'', test_file_path = ''loss.txt'', output_file_path = None\<rparr> [] [] =
       Some (Saved_To path, (hist', [])) \<and>
     hist' = before @
       [''sudo tc qdisc change dev lo parent 1:122 netem delay 0ms'', ''sudo tc qdisc change dev lo parent 1:212 netem delay 0ms'']"
proof -
  let ?f = "[''from 1 to 2 set loss 4%'']" and ?ls = "sorted_list_of_set :: nat set \<Rightarrow> nat list"
  let ?args = "\<lparr>config_file_path = ''masterConfig.json'', test_file_path = ''loss.txt'', output_file_path = None\<rparr>"
  let ?daemon = "\<lambda>(d::string) (n::nat) (w::string list). (w, Ret ([] :: nat list))"
  obtain first rest p where c: "local_cluster sample_ports 2 = Some (first # rest, p)" by (rule sample_cluster)
  obtain started master where m: "provide_local_cluster sample_ports ''/opt'' ''python3.4'' 2 ''pso'' = Some (started, Ret master)"
    by (simp add: provide_local_cluster_def c Let_def algorithm_local_def)
  let ?configs = "\<lambda>p. if p = ''masterConfig.json'' then Some (Ret master) else None"
  let ?run = "executor_main (local_network (\<lambda>_ _. []) (master_nodes master)) ?daemon ?ls ?configs (\<lambda>p. Some ?f) ?args [] []"
  have g: "?configs (config_file_path ?args) = Some (Ret master)" by simp
  obtain ns q h' path where n: "local_cluster sample_ports 2 = Some (ns, q)" and e: "?run =
      map_option (\<lambda>(r, s). (case r of Inl e \<Rightarrow> Exit 1 | Inr u \<Rightarrow> Saved_To path, s))
        (run_test_file (cluster_surroundings (\<lambda>_ _. []) ns (?daemon local_daemon) ?ls ''pso'') 2 True ?f [] (h', []))"
    using executor_runs[where args = ?args and configs = ?configs and files = "\<lambda>p. Some ?f" and daemon = ?daemon and ls = ?ls
        and draws = "[]" and h = "[]", OF m g refl] by auto
  obtain hist' where run: "?run = Some (Saved_To path, (hist', []))"
    using sample_run[OF n, of h'] e by auto
  have s: "str 1 = ''1''" "str 2 = ''2''" by code_simp+
  have "{1..2} = {1, 2::nat}" by auto
  then have l: "?ls {1..2} = [1, 2]" by simp
  have "set (?ls {1..2}) = {1..2}" by simp
  from executor_ends_clean[OF m this g run, unfolded l] obtain b where "hist' = b @
      [''sudo tc qdisc change dev lo parent 1:122 netem delay 0ms'', ''sudo tc qdisc change dev lo parent 1:212 netem delay 0ms'']"
    using s by auto
  then show ?thesis using m run by blast
qed

end
