(* ===== verification/Test_Generator.thy ===== *)
theory Test_Generator
  imports Test_Parser
begin

section \<open>Writing a test file\<close>

text \<open>
  \<open>test_generator.py\<close>: the class \<open>Test\<close> collects the lines of a test file, which
  \<open>test_executor.py\<close> reads.  Numbers are given as their texts.
\<close>

text \<open>\<open>NodeGroup.__str__\<close>.\<close>

definition group_text :: "string list \<Rightarrow> string" where
  "group_text nodes = (let result = concat (map (\<lambda>n. n @ '' '') nodes) in
     if length result > 0 then butlast result else result)"

definition from_to_command :: "string \<Rightarrow> string \<Rightarrow> bool \<Rightarrow> string \<Rightarrow> string" where
  "from_to_command sources targets bidirectional netem_command =
     (if bidirectional
      then ''from '' @ sources @ '' to '' @ targets @ '' bidirectional set '' @ netem_command
      else ''from '' @ sources @ '' to '' @ targets @ '' set '' @ netem_command)"

definition gen_run :: "string \<Rightarrow> string list \<Rightarrow> string list" where
  "gen_run n_op lines = lines @ [''run '' @ n_op]"

definition gen_reset :: "string list \<Rightarrow> string list" where
  "gen_reset lines = lines @ [''reset'']"

definition set_rule :: "string \<Rightarrow> string \<Rightarrow> string \<Rightarrow> bool \<Rightarrow> string list \<Rightarrow> string list" where
  "set_rule rule sources targets bidirectional lines =
     lines @ [from_to_command sources targets bidirectional rule]"

definition set_delay :: "string \<Rightarrow> string \<Rightarrow> string \<Rightarrow> bool \<Rightarrow> string list \<Rightarrow> string list" where
  "set_delay delay = set_rule (''delay '' @ delay @ ''ms'')"

definition set_loss :: "string \<Rightarrow> string \<Rightarrow> string \<Rightarrow> bool \<Rightarrow> string list \<Rightarrow> string list" where
  "set_loss loss = set_rule (''loss '' @ loss @ ''%'')"

definition gen_partition :: "string \<Rightarrow> string \<Rightarrow> string list \<Rightarrow> string list" where
  "gen_partition group1 group2 = set_loss ''100'' group1 group2 True"

definition tab :: char where "tab = char_of (9 :: nat)"

definition gen_repeat :: "string list \<Rightarrow> string \<Rightarrow> string list \<Rightarrow> string list" where
  "gen_repeat test n lines = lines @ [''do''] @ map (\<lambda>l. tab # l) test @ [n @ '' times'']"

definition repeat_all :: "string \<Rightarrow> string list \<Rightarrow> string list" where
  "repeat_all n lines = [''do''] @ map (\<lambda>l. tab # l) lines @ [n @ '' times'']"

text \<open>The script's own test: every node in turn.\<close>

definition test_on_each_one :: "string list \<Rightarrow> string \<Rightarrow> string \<Rightarrow> string list" where
  "test_on_each_one nodes rule nop =
     fold (\<lambda>i lines. gen_run nop (set_rule rule ''all'' i False (gen_reset lines))) nodes []"

subsection \<open>Texts cut and put together\<close>

lemma break_at_absent: "c \<in> set sep \<Longrightarrow> c \<notin> set s \<Longrightarrow> break_at sep s = (s, None)"
proof (induction s)
  case (Cons d s)
  have "take (length sep) (d # s) \<noteq> sep"
  proof
    assume "take (length sep) (d # s) = sep"
    then have "set sep \<subseteq> set (d # s)" by (metis set_take_subset)
    with Cons.prems show False by auto
  qed
  with Cons show ?case by simp
qed simp

lemma break_at_none: "\<not> occurs_in sep s \<Longrightarrow> break_at sep s = (s, None)"
  unfolding occurs_in_def
  by (induction sep s rule: break_at.induct) (auto split: if_splits prod.splits)

lemma break_at_found: "c \<notin> set a \<Longrightarrow> break_at (c # sep) (a @ (c # sep) @ b) = (a, Some b)"
  by (induction a) (auto simp: Let_def)

lemma break_at_found2:
  assumes "d \<notin> set a" "c \<noteq> d"
  shows "break_at (c # d # sep) (a @ (c # d # sep) @ b) = (a, Some b)"
  using assms(1)
proof (induction a)
  case (Cons e a)
  have "take (length (c # d # sep)) ((e # a) @ (c # d # sep) @ b) \<noteq> c # d # sep"
    using Cons.prems assms(2) by (cases a) auto
  with Cons show ?case by (simp add: Let_def)
qed (simp add: Let_def)

lemma split_at_none: "sep \<noteq> [] \<Longrightarrow> break_at sep s = (s, None) \<Longrightarrow> split_at sep s = [s]"
  by (subst split_at.simps) simp

lemma split_at_some: "sep \<noteq> [] \<Longrightarrow> break_at sep s = (a, Some r) \<Longrightarrow> split_at sep s = a # split_at sep r"
  by (subst split_at.simps) simp

lemma rstrip_id: "s \<noteq> [] \<Longrightarrow> \<not> is_space (last s) \<Longrightarrow> rstrip s = s"
  by (cases s rule: rev_cases) (simp_all add: rstrip_def)

lemma rstrip_end:
  assumes "s \<noteq> []" "\<not> is_space (last s)" "list_all is_space w"
  shows "rstrip (s @ w) = s"
proof -
  have "dropWhile is_space (rev w @ rev s) = dropWhile is_space (rev s)"
    using assms(3) by (intro dropWhile_append2) (simp add: list_all_iff)
  then show ?thesis using rstrip_id[OF assms(1,2)] by (simp add: rstrip_def)
qed

lemma pieces_word: "list_all (\<lambda>c. \<not> is_space c) w \<Longrightarrow> is_space d \<Longrightarrow> pieces (w @ d # s) = w # pieces s"
  by (induction w) auto

lemma split_words_space: "is_space d \<Longrightarrow> split_words (d # s) = split_words s"
  by (simp add: split_words_def)

lemma is_space_blank: "is_space CHR '' ''"
  by code_simp

lemma split_words_tokens:
  "list_all (\<lambda>w. w \<noteq> [] \<and> list_all (\<lambda>c. \<not> is_space c) w) ws \<Longrightarrow>
     split_words (concat (map (\<lambda>w. w @ '' '') ws)) = ws"
proof (induction ws)
  case (Cons w ws)
  then show ?case using pieces_word[OF _ is_space_blank, of w] by (simp add: split_words_def)
qed (simp add: split_words_def)

subsection \<open>The words a group is made of\<close>

definition node_word :: "string \<Rightarrow> bool" where
  "node_word w \<longleftrightarrow> w = ''rand'' \<or> w \<noteq> [] \<and> list_all is_digit w"

definition group_ok :: "string list \<Rightarrow> bool" where
  "group_ok ws \<longleftrightarrow> ws = [''all''] \<or> ws \<noteq> [] \<and> list_all node_word ws"

abbreviation spaced :: "string list \<Rightarrow> string" where
  "spaced ws \<equiv> concat (map (\<lambda>w. w @ '' '') ws)"

lemma group_text_spaced: "ws \<noteq> [] \<Longrightarrow> group_text ws @ '' '' = spaced ws"
proof -
  assume "ws \<noteq> []"
  then obtain vs v where "ws = vs @ [v]" by (cases ws rule: rev_cases) auto
  then show ?thesis by (simp add: group_text_def Let_def butlast_append)
qed

lemma digit_chars: "\<forall>c. is_digit c \<longrightarrow> c \<notin> set ''stfb'' \<and> \<not> is_space c"
  by code_simp

lemma word_chars: "\<forall>c \<in> set ''randallfromtobidirectional''. \<not> is_space c"
  by code_simp

lemma group_word:
  assumes "group_ok ws" "w \<in> set ws"
  shows "w \<noteq> [] \<and> list_all (\<lambda>c. \<not> is_space c) w \<and> set w \<inter> set ''stfb'' = {}"
proof -
  consider "w = ''all''" | "w = ''rand''" | "w \<noteq> []" "list_all is_digit w"
    using assms by (auto simp: group_ok_def node_word_def list_all_iff)
  then show ?thesis
  proof cases
    case 3
    then show ?thesis using digit_chars by (auto simp: list_all_iff)
  qed (use word_chars in auto)
qed

lemma spaced_chars: "group_ok ws \<Longrightarrow> set (spaced ws) \<inter> set ''stfb'' = {}"
  using group_word by (simp only: set_concat set_map) (fastforce simp: disjoint_iff)

lemma spaced_words: "group_ok ws \<Longrightarrow> split_words (spaced ws) = ws"
  using group_word by (intro split_words_tokens) (auto simp: list_all_iff)

subsection \<open>The pattern of a link line\<close>

lemma fits_literal: "fits (literal s) s"
proof (induction s)
  case (Cons c s)
  then show ?case using fits.in_order[OF fits.char_in[of "\<lambda>d. d = c" c]] by fastforce
qed (simp add: fits.nothing)

declare literal.simps [simp del]

lemma fits_sequence: "list_all2 fits rs ss \<Longrightarrow> fits (sequence rs) (concat ss)"
  by (induction rule: list_all2_induct) (auto intro: fits.intros)

lemma fits_some_of: "fits r s \<Longrightarrow> fits (some_of r) s"
  using fits.in_order[OF _ fits.many_none] unfolding some_of_def by fastforce

lemma fits_some_more: "fits r s \<Longrightarrow> fits (some_of r) t \<Longrightarrow> fits (some_of r) (s @ t)"
  unfolding some_of_def by (auto intro!: fits.in_order intro: fits.many_more)

lemma fits_some_concat: "ws \<noteq> [] \<Longrightarrow> list_all (fits r) ws \<Longrightarrow> fits (some_of r) (concat ws)"
proof (induction ws)
  case (Cons w ws)
  then show ?case by (cases ws) (auto intro: fits_some_of fits_some_more)
qed simp

lemma fits_some_chars: "w \<noteq> [] \<Longrightarrow> list_all P w \<Longrightarrow> fits (some_of (Char_In P)) w"
  using fits_some_concat[of "map (\<lambda>c. [c]) w" "Char_In P"] by (auto simp: list_all_iff intro: fits.char_in)

lemma fits_blanks: "fits (some_of blank) '' ''"
  unfolding blank_def by (intro fits_some_of fits.char_in) simp

lemma fits_node_word:
  assumes "node_word w"
  shows "fits (In_Order (Either (some_of (Char_In is_digit)) (literal ''rand'')) (some_of blank)) (w @ '' '')"
  using assms fits_literal[of "''rand''"]
  by (intro fits.in_order[OF _ fits_blanks]) (auto simp: node_word_def intro: fits.intros fits_some_chars)

lemma fits_node_ids:
  assumes "group_ok ws"
  shows "fits node_ids (spaced ws)"
proof (cases "ws = [''all'']")
  case True
  then show ?thesis
    using fits.in_order[OF fits_literal fits_blanks, of "''all''"] unfolding node_ids_def
    by (intro fits.either_left) simp
next
  case False
  then show ?thesis
    using assms fits_node_word unfolding node_ids_def
    by (intro fits.either_right fits_some_concat) (auto simp: group_ok_def list_all_iff)
qed

definition rule_ok :: "string \<Rightarrow> bool" where
  "rule_ok rule \<longleftrightarrow> rule \<noteq> [] \<and> is_lower (hd rule) \<and> \<not> is_space (last rule) \<and> \<not> occurs_in ''set'' rule"

definition link_line :: "string list \<Rightarrow> string list \<Rightarrow> bool \<Rightarrow> string \<Rightarrow> string" where
  "link_line ss ts bi rule =
     ''from '' @ spaced ss @ ''to '' @ spaced ts @ (if bi then ''bidirectional '' else []) @ ''set '' @ rule"

lemma generated_line:
  assumes "group_ok ss" "group_ok ts"
  shows "from_to_command (group_text ss) (group_text ts) bi rule = link_line ss ts bi rule"
proof -
  have "ss \<noteq> []" "ts \<noteq> []" using assms by (auto simp: group_ok_def)
  from this[THEN group_text_spaced] show ?thesis
    unfolding from_to_command_def link_line_def by (auto simp flip: append_assoc)
qed

lemma link_line_matches:
  assumes "group_ok ss" "group_ok ts" "rule_ok rule"
  shows "re_match modify_link_pattern (link_line ss ts bi rule)"
proof -
  obtain c r where r: "rule = c # r" "is_lower c" using assms(3) by (cases rule) (auto simp: rule_ok_def)
  let ?b = "if bi then ''bidirectional '' else []"
  have b: "fits (perhaps (In_Order (literal ''bidirectional'') (some_of blank))) ?b"
  proof (cases bi)
    case True
    have "fits (In_Order (literal ''bidirectional'') (some_of blank)) ''bidirectional ''"
      using fits.in_order[OF fits_literal fits_blanks, of "''bidirectional''"] by simp
    then show ?thesis unfolding perhaps_def using True by (simp add: fits.either_right)
  qed (auto simp: perhaps_def intro: fits.either_left fits.nothing)
  have c: "fits (some_of (Char_In is_lower)) [c]" using r(2) by (intro fits_some_chars) simp_all
  have "list_all2 fits
     [Many blank, literal ''from'', some_of blank, node_ids, literal ''to'', some_of blank,
      node_ids, perhaps (In_Order (literal ''bidirectional'') (some_of blank)),
      literal ''set'', some_of blank, some_of (Char_In is_lower), Many (Char_In not_newline)]
     [[], ''from'', '' '', spaced ss, ''to'', '' '', spaced ts, ?b, ''set'', '' '', [c], []]"
    using fits_node_ids assms(1,2) fits_blanks b c by (auto intro: fits_literal fits.many_none simp del: literal.simps)
  from fits_sequence[OF this] show ?thesis
    unfolding re_match_iff modify_link_pattern_def
    by (intro exI conjI) (auto simp: link_line_def r)
qed

subsection \<open>The parameters of a link line\<close>

lemma cut_link_line:
  assumes "group_ok ss" "group_ok ts" "\<not> occurs_in ''set'' rule"
  shows "cut_at_set (link_line ss ts bi rule) =
    Ret (''from '' @ spaced ss @ ''to '' @ spaced ts, '' '' @ rule, bi)"
proof -
  let ?p = "''from '' @ spaced ss @ ''to '' @ spaced ts"
  let ?first = "?p @ (if bi then ''bidirectional '' else [])"
  have x: "CHR ''s'' \<notin> set (spaced ss)" "CHR ''s'' \<notin> set (spaced ts)"
    "CHR ''b'' \<notin> set (spaced ss)" "CHR ''b'' \<notin> set (spaced ts)"
    using spaced_chars assms(1,2) by fastforce+
  have l: "link_line ss ts bi rule = ?first @ ''set'' @ '' '' @ rule" by (simp add: link_line_def)
  have 1: "break_at ''set'' (?first @ ''set'' @ '' '' @ rule) = (?first, Some ('' '' @ rule))"
    using x by (intro break_at_found) auto
  have "break_at ''set'' ('' '' @ rule) = ('' '' @ rule, None)"
    using break_at_none[OF assms(3)] by simp
  then have sp: "split_at ''set'' (link_line ss ts bi rule) = [?first, '' '' @ rule]"
    unfolding l using split_at_some[OF _ 1] split_at_none[of "''set''" "'' '' @ rule"] by simp
  have no_b: "break_at '' bidirectional '' ?p = (?p, None)"
    using x by (intro break_at_absent[of "CHR ''b''"]) auto
  obtain vs v where "ts = vs @ [v]" using assms(2) by (cases ts rule: rev_cases) (auto simp: group_ok_def)
  then obtain q where q: "?p = q @ '' ''" by simp
  have qb: "CHR ''b'' \<notin> set q"
  proof -
    have "set q \<subseteq> set ?p" using arg_cong[OF q, of set] by auto
    then show ?thesis using x by auto
  qed
  show ?thesis
  proof (cases bi)
    case True
    then have f: "?first = q @ '' bidirectional ''" using q by simp
    have "break_at '' bidirectional '' (q @ '' bidirectional '' @ []) = (q, Some [])"
      using qb by (intro break_at_found2) simp_all
    then have o: "occurs_in '' bidirectional '' ?first" unfolding f by (simp add: occurs_in_def)
    have 2: "break_at '' bidirectional'' (q @ '' bidirectional'' @ '' '') = (q, Some '' '')"
      using qb by (intro break_at_found2) simp_all
    have "split_at '' bidirectional'' (q @ '' bidirectional'' @ '' '') = [q, '' '']"
      using split_at_some[OF _ 2] split_at_none[of "'' bidirectional''" "'' ''"] by simp
    then have "replace_all '' bidirectional'' [] ?first = ?p"
      unfolding f q replace_all_def using True by simp
    then show ?thesis using o sp True unfolding cut_at_set_def by (simp add: item_def)
  next
    case False
    then show ?thesis using no_b sp unfolding cut_at_set_def by (simp add: item_def occurs_in_def)
  qed
qed

lemma link_line_params:
  assumes "group_ok ss" "group_ok ts" "\<not> occurs_in ''set'' rule"
  shows "link_params (link_line ss ts bi rule) = Ret (ss, ts, '' '' @ rule, bi)"
proof -
  let ?src = "''from '' @ spaced ss" and ?tgt = "'' '' @ spaced ts"
  have t: "CHR ''t'' \<notin> set ?src" "CHR ''t'' \<notin> set ?tgt" and f: "CHR ''f'' \<notin> set ('' '' @ spaced ss)"
    using spaced_chars assms(1,2) by fastforce+
  have 1: "break_at ''to'' (?src @ ''to'' @ ?tgt) = (?src, Some ?tgt)"
    using t(1) by (intro break_at_found)
  have 2: "break_at ''to'' ?tgt = (?tgt, None)" using t(2) by (intro break_at_absent[of "CHR ''t''"]) simp_all
  have "split_at ''to'' (?src @ ''to'' @ ?tgt) = [?src, ?tgt]"
    using split_at_some[OF _ 1] split_at_none[OF _ 2] by simp
  then have to: "split_at ''to'' (''from '' @ spaced ss @ ''to '' @ spaced ts) = [?src, ?tgt]" by simp
  have 3: "break_at ''from'' ('' '' @ spaced ss) = ('' '' @ spaced ss, None)"
    using f by (intro break_at_absent[of "CHR ''f''"]) simp_all
  have 4: "break_at ''from'' ([] @ ''from'' @ '' '' @ spaced ss) = ([], Some ('' '' @ spaced ss))"
    by (rule break_at_found) simp
  have "replace_all ''from'' [] ?src = '' '' @ spaced ss"
    using split_at_some[OF _ 4] split_at_none[OF _ 3] by (simp add: replace_all_def)
  then show ?thesis
    using to spaced_words[OF assms(1)] spaced_words[OF assms(2)] split_words_space[OF is_space_blank]
    by (simp add: link_params_def cut_link_line[OF assms] item_def)
qed

subsection \<open>Properties\<close>

text \<open>C35: a generated link line is read back.  The line that \<open>set_rule\<close> appends for a group of
  sources, a group of targets, a direction and a rule that begins with a lower case letter, does
  not contain the text \<open>set\<close> and does not end in white space is taken by the parser, with the
  end of the line after it, for the command that changes the links from these sources to these
  targets, in that direction and with that rule.  (Lines that \<open>repeat\<close> indents are another
  matter, see below, and of a rule with \<open>set\<close> in it the rest is cut off.)\<close>

theorem generated_link_roundtrip:
  assumes "group_ok ss" "group_ok ts" "rule_ok rule" "list_all is_space line_end"
  shows "read_line (last (set_rule rule (group_text ss) (group_text ts) bi lines) @ line_end) =
    Ret (Command_Line (Modify_Link ss ts ('' '' @ rule) bi))"
proof -
  have r: "rule \<noteq> []" "\<not> is_space (last rule)" "\<not> occurs_in ''set'' rule" using assms(3) by (auto simp: rule_ok_def)
  have l: "rstrip (link_line ss ts bi rule @ line_end) = link_line ss ts bi rule"
    using r assms(4) by (intro rstrip_end) (simp_all add: link_line_def)
  have ne: "link_line ss ts bi rule \<noteq> []" by (simp add: link_line_def)
  show ?thesis
    unfolding set_rule_def last_snoc generated_line[OF assms(1,2)] read_line_def l Let_def
    using ne link_line_matches[OF assms(1-3)] link_line_params[OF assms(1,2) r(3)] by simp
qed

theorem generated_link_roundtrip_witness:
  "read_line (''from 1 rand to all bidirectional set loss 100%'' @ [char_of (10 :: nat)]) =
     Ret (Command_Line (Modify_Link [''1'', ''rand''] [''all''] '' loss 100%'' True))"
proof -
  have "group_ok [''1'', ''rand'']" "group_ok [''all'']" "rule_ok ''loss 100%''" "list_all is_space [char_of (10 :: nat)]"
    by code_simp+
  from generated_link_roundtrip[OF this, of True "[]"]
  have "read_line (last (set_rule ''loss 100%'' (group_text [''1'', ''rand'']) (group_text [''all'']) True []) @ [char_of (10 :: nat)]) =
     Ret (Command_Line (Modify_Link [''1'', ''rand''] [''all''] '' loss 100%'' True))" by simp
  moreover have "last (set_rule ''loss 100%'' (group_text [''1'', ''rand'']) (group_text [''all'']) True []) =
      ''from 1 rand to all bidirectional set loss 100%''" by code_simp
  ultimately show ?thesis by (simp only:)
qed

lemma no_match_after_tab:
  "rests (Many blank) (tab # l) = [tab # l]" "\<not> is_digit tab" "is_space tab"
proof -
  have "tab \<noteq> CHR '' ''" by code_simp
  then show "rests (Many blank) (tab # l) = [tab # l]"
    by (subst rests.simps(5)) (simp add: blank_def)
  show "\<not> is_digit tab" "is_space tab" by code_simp+
qed

lemma tab_is_none: "tab \<notin> set ''fordt''"
  by code_simp

lemma read_tabbed:
  assumes "\<not> list_all is_space l"
  shows "read_line (tab # l) = Ret Unknown_Line"
proof -
  have "\<not> list_all is_space (rev l)" using assms by (simp add: list_all_iff)
  then have "dropWhile is_space (rev l @ [tab]) = dropWhile is_space (rev l) @ [tab]"
    by (auto simp: dropWhile_append list_all_iff)
  then have r: "rstrip (tab # l) = tab # rstrip l" by (simp add: rstrip_def)
  show ?thesis
    using tab_is_none no_match_after_tab
    by (auto simp: read_line_def r re_match_def modify_link_pattern_def modify_random_link_pattern_def
        reset_pattern_def run_pattern_def do_pattern_def times_pattern_def some_of_def literal.simps)
qed

text \<open>What \<open>repeat\<close> writes cannot be read.  It indents the lines of the block with a tabulator,
  and the patterns of the parser begin with blanks only: after any well-formed lines, a repeated
  test whose first line says anything is a syntax error at that line.\<close>

lemma repeat_rejected:
  assumes "list_all well_formed ps" "\<not> list_all is_space l"
  shows "parse (gen_repeat (l # ls) n (concat (map layout ps))) =
    Some (Inl (TestException SYNTAX_ERROR (int (length (concat (map layout ps)) + 2))))"
proof -
  let ?f = "concat (map layout ps)" and ?k = "length (concat (map layout ps))"
  let ?rest = "map (\<lambda>l. tab # l) ls @ [n @ '' times''] @ [''reset'']"
  let ?g = "?f @ ''do'' # (tab # l) # ?rest"
  obtain pts where p: "parse (gen_repeat (l # ls) n ?f) = parse_from ?g \<lparr>next_index = ?k, do_open = -1,
      pointers = pts, commands_list = unrolls 0 ps\<rparr>"
    using parse_prefix[OF assms(1), of "''do'' # (tab # l) # ?rest"]
    by (auto simp: parse_def gen_repeat_def)
  let ?st = "\<lparr>next_index = ?k, do_open = -1, pointers = pts, commands_list = unrolls 0 ps\<rparr>"
  have "deep_enough ?st" "next_index ?st < length ?g" by (simp_all add: deep_enough_def)
  moreover have "read_line (?g ! next_index ?st) = Ret Do_Line"
  proof -
    have "read_line ''do'' = Ret Do_Line" by code_simp
    then show ?thesis by (simp add: nth_append)
  qed
  ultimately obtain qs where "goes ?g ?st (?st\<lparr>next_index := next_index ?st + 1, do_open := do_open ?st + 1, pointers := qs\<rparr>)"
    by (rule open_block_goes)
  then have "parse_from ?g ?st =
      parse_from ?g (?st\<lparr>next_index := next_index ?st + 1, do_open := do_open ?st + 1, pointers := qs\<rparr>)"
    unfolding goes_def .
  also have "\<dots> = Some (Inl (TestException SYNTAX_ERROR (int (?k + 2))))"
    using read_tabbed[OF assms(2)]
    by (subst parse_from.simps) (simp add: parse_line_def nth_append)
  finally show ?thesis using p by simp
qed

end
