(* ===== verification/Replicated_Methods.thy ===== *)
theory Replicated_Methods
  imports Raft_Frames "HOL-Library.AList" "HOL-Library.Finite_Map" "HOL-Library.List_Lexorder" "HOL-Library.Char_ord"
begin

section \<open>Replicated methods\<close>

text \<open>
  The decorator \<open>replicated\<close> of \<open>pysyncobj/syncobj.py\<close>, which turns a call of a method
  into a command for the log, and \<open>__doApplyCommand\<close>, which turns a command back into a call.
  Arguments are values of a type \<open>'v\<close>; \<open>as_callback\<close> says what kind of callback a value
  is, \<open>truthy\<close> what counts as true, \<open>yes\<close> is \<open>True\<close>.  A keyword dictionary is a list
  of pairs, and a finite map where it arrives.  \<open>bodies\<close> gives the decorated methods of the class: what they do to the object's
  attributes and return.
\<close>

type_synonym 'v kwargs = "(string \<times> 'v) list"

datatype 'v command =
    Bare nat
  | With_Args nat "'v list"
  | With_Kwargs nat "'v list" "'v kwargs"

type_synonym ('v, 's) method_body = "'v list \<Rightarrow> (string, 'v) fmap \<Rightarrow> 's \<Rightarrow> 's \<times> 'v outcome"

record ('v, 's) class_def =
  attributes :: "string list"                     \<comment> \<open>dir(self)\<close>
  is_callable :: "string \<Rightarrow> bool"
  bodies :: "string \<Rightarrow> ('v, 's) method_body option"
  truthy :: "'v \<Rightarrow> bool"
  yes :: 'v
  as_callback :: "'v \<Rightarrow> command_callback"

subsection \<open>Numbering the methods\<close>

definition methods :: "('v, 's) class_def \<Rightarrow> string list" where
  "methods cls = sort (filter (is_callable cls) (attributes cls))"

definition method_to_id :: "('v, 's) class_def \<Rightarrow> string \<Rightarrow> nat option" where
  "method_to_id cls = fold (\<lambda>(i, m) d. d(m \<mapsto> i)) (enumerate 0 (methods cls)) Map.empty"

definition id_to_method :: "('v, 's) class_def \<Rightarrow> nat \<Rightarrow> string option" where
  "id_to_method cls = fold (\<lambda>(i, m) d. d(i \<mapsto> m)) (enumerate 0 (methods cls)) Map.empty"

subsection \<open>Calls and commands\<close>

definition do_apply_key :: string where "do_apply_key = ''_doApply''"
definition callback_key :: string where "callback_key = ''callback''"

text \<open>\<open>newFunc\<close>, with the object's own state in the node.\<close>

definition new_func :: "raft_conf \<Rightarrow> ('v, 's) class_def \<Rightarrow> string \<Rightarrow> ('v, 's) method_body \<Rightarrow> 'v list \<Rightarrow> 'v kwargs
    \<Rightarrow> ('v command, 'v, 's) raft \<Rightarrow> ('v command, 'v, 's) raft \<times> 'v option outcome" where
  "new_func conf cls name body args kw n =
     (let flag = map_of kw do_apply_key; kw1 = AList.delete do_apply_key kw in
      if (case flag of None \<Rightarrow> False | Some v \<Rightarrow> truthy cls v) then
        (case body args (fmap_of_list kw1) (app_state n) of
           (s, Ret v) \<Rightarrow> (n\<lparr>app_state := s\<rparr>, Ret (Some v))
         | (s, Raise e) \<Rightarrow> (n\<lparr>app_state := s\<rparr>, Raise e))
      else
        let cb = (case map_of kw1 callback_key of None \<Rightarrow> NoCallback | Some v \<Rightarrow> as_callback cls v);
            kw2 = AList.delete callback_key kw1 in
        (case method_to_id cls name of
           None \<Rightarrow> (n, Raise KeyError)
         | Some i \<Rightarrow>
             let cmd = (if kw2 \<noteq> [] then With_Kwargs i args kw2
                        else if args \<noteq> [] then With_Args i args else Bare i) in
             (case raft_apply_command conf cmd cb n of
                (n1, Ret _) \<Rightarrow> (n1, Ret None)
              | (n1, Raise e) \<Rightarrow> (n1, Raise e))))"

text \<open>The call a command stands for: method number, arguments and keywords.\<close>

definition call_of :: "('v, 's) class_def \<Rightarrow> 'v command \<Rightarrow> nat \<times> 'v list \<times> 'v kwargs" where
  "call_of cls c =
     (let kw = [(do_apply_key, yes cls)] in
      case c of
        Bare i \<Rightarrow> (i, [], kw)
      | With_Args i args \<Rightarrow> (i, args, kw)
      | With_Kwargs i args new \<Rightarrow> (i, args, AList.merge kw new))"

text \<open>A method that is not decorated does not take the keyword.\<close>

definition do_apply_command :: "raft_conf \<Rightarrow> ('v, 's) class_def \<Rightarrow> 'v command \<Rightarrow> ('v command, 'v, 's) raft
    \<Rightarrow> ('v command, 'v, 's) raft \<times> 'v option outcome" where
  "do_apply_command conf cls c n =
     (case call_of cls c of (i, args, kw) \<Rightarrow>
        (case id_to_method cls i of
           None \<Rightarrow> (n, Raise KeyError)
         | Some name \<Rightarrow>
             (case bodies cls name of
                None \<Rightarrow> (n, Raise TypeError)
              | Some body \<Rightarrow> new_func conf cls name body args kw n)))"

text \<open>
  What a command does to the object, as the argument \<open>app_apply\<close> of the Raft node: a command
  that \<open>newFunc\<close> has made has no \<open>_doApply\<close> among its keywords, so it never queues
  another one.
\<close>

definition replicated_apply :: "('v, 's) class_def \<Rightarrow> 'v command \<Rightarrow> 's \<Rightarrow> 's \<times> 'v outcome" where
  "replicated_apply cls c s =
     (case call_of cls c of (i, args, kw) \<Rightarrow>
        (case Option.bind (id_to_method cls i) (\<lambda>name. bodies cls name) of
           None \<Rightarrow> (s, Raise (if id_to_method cls i = None then KeyError else TypeError))
         | Some body \<Rightarrow> body args (fmap_of_list (AList.delete do_apply_key kw)) s))"

subsection \<open>Names and numbers\<close>

lemma fold_enumerate_key:
  "fold (\<lambda>(i, m) d. d(i \<mapsto> m)) (enumerate k ms) d i =
     (if k \<le> i \<and> i < k + length ms then Some (ms ! (i - k)) else d i)"
  by (induction ms arbitrary: k d) (auto simp: nth_Cons')

lemma fold_enumerate_name:
  assumes "distinct ms" "i < length ms"
  shows "fold (\<lambda>(i, m) d. d(m \<mapsto> i)) (enumerate k ms) d (ms ! i) = Some (k + i)"
proof -
  have other: "m \<notin> set xs \<Longrightarrow> fold (\<lambda>(i, m) d. d(m \<mapsto> i)) (enumerate k xs) d m = d m" for m :: 'a and xs and d :: "'a \<Rightarrow> nat option" and k
    by (induction xs arbitrary: k d) simp_all
  show ?thesis using assms
  proof (induction ms arbitrary: k d i)
    case (Cons m ms)
    then show ?case using other[of m ms] by (cases i) (simp_all add: fun_upd_same del: fun_upd_apply)
  qed simp
qed

lemma numbers_agree:
  assumes "distinct (attributes cls)" "name \<in> set (attributes cls)" "is_callable cls name"
  obtains i where "method_to_id cls name = Some i" "id_to_method cls i = Some name"
proof -
  have d: "distinct (methods cls)" using assms(1) by (simp add: methods_def)
  have "name \<in> set (methods cls)" using assms(2,3) by (simp add: methods_def)
  then obtain i where i: "i < length (methods cls)" "methods cls ! i = name" by (auto simp: in_set_conv_nth)
  have "method_to_id cls name = Some i"
    using fold_enumerate_name[OF d i(1), of 0 Map.empty] i(2) by (simp add: method_to_id_def)
  moreover have "id_to_method cls i = Some name" using i by (simp add: id_to_method_def fold_enumerate_key)
  ultimately show thesis by (rule that)
qed

subsection \<open>Round trip\<close>

lemma map_of_delete: "map_of (AList.delete k xs) = (map_of xs)(k := None)"
  by (rule AList.delete_conv')

text \<open>The command that a call is turned into.\<close>

definition command_of :: "('v, 's) class_def \<Rightarrow> nat \<Rightarrow> 'v list \<Rightarrow> 'v kwargs \<Rightarrow> 'v command" where
  "command_of cls i args kw =
     (let kw2 = AList.delete callback_key (AList.delete do_apply_key kw) in
      if kw2 \<noteq> [] then With_Kwargs i args kw2 else if args \<noteq> [] then With_Args i args else Bare i)"

lemma keys_differ: "callback_key \<noteq> do_apply_key"
  by (simp add: callback_key_def do_apply_key_def)

lemma call_of_command:
  obtains kw' where "call_of cls (command_of cls i args kw) = (i, args, kw')"
    "map_of kw' do_apply_key = Some (yes cls)"
    "(map_of kw')(do_apply_key := None) = (map_of kw)(do_apply_key := None, callback_key := None)"
proof -
  let ?kw2 = "AList.delete callback_key (AList.delete do_apply_key kw)"
  let ?m = "(map_of kw)(do_apply_key := None, callback_key := None)"
  have m: "map_of ?kw2 = ?m" by (simp add: map_of_delete)
  show thesis
  proof (cases "?kw2 = []")
    case True
    then have "?m = Map.empty" using m by simp
    then show thesis using True
      by (intro that[of "[(do_apply_key, yes cls)]"]) (auto simp: command_of_def call_of_def Let_def)
  next
    case False
    let ?kw = "AList.merge [(do_apply_key, yes cls)] ?kw2"
    have k: "map_of ?kw = (\<lambda>x. if x = do_apply_key then Some (yes cls) else ?m x)"
      using keys_differ by (auto simp: merge_conv' map_add_def m fun_eq_iff split: option.split)
    show thesis using False
      by (intro that[of ?kw]) (auto simp: command_of_def call_of_def Let_def k fun_eq_iff)
  qed
qed

lemma call_of_number: "call_of cls (command_of cls i args kw) = (j, as, kw') \<Longrightarrow> j = i \<and> as = args"
  by (auto simp: command_of_def call_of_def Let_def split: if_splits)

lemma new_func_queues:
  assumes "map_of kw do_apply_key = None" "method_to_id cls name = Some i"
    "commands_queue_size conf = 0 \<or> length (commands_queue n) < commands_queue_size conf"
  shows "new_func conf cls name body args kw n =
    (n\<lparr>commands_queue := commands_queue n @ [(command_of cls i args kw,
        case map_of kw callback_key of None \<Rightarrow> NoCallback | Some v \<Rightarrow> as_callback cls v)]\<rparr>, Ret None)"
  using assms keys_differ
  by (auto simp: new_func_def raft_apply_command_def command_of_def Let_def map_of_delete split: option.split)

lemma replicated_call:
  assumes "distinct (attributes cls)" "name \<in> set (attributes cls)" "is_callable cls name"
    "bodies cls name = Some body" "truthy cls (yes cls)" "map_of kw do_apply_key = None"
    "commands_queue_size conf = 0 \<or> length (commands_queue n) < commands_queue_size conf"
  shows "\<exists>c. new_func conf cls name body args kw n =
      (n\<lparr>commands_queue := commands_queue n @ [(c, case map_of kw callback_key of None \<Rightarrow> NoCallback | Some v \<Rightarrow> as_callback cls v)]\<rparr>,
       Ret None) \<and>
    (\<forall>conf' m. do_apply_command conf' cls c m =
      (case body args (fmdrop callback_key (fmap_of_list kw)) (app_state m) of
         (s, Ret v) \<Rightarrow> (m\<lparr>app_state := s\<rparr>, Ret (Some v))
       | (s, Raise e) \<Rightarrow> (m\<lparr>app_state := s\<rparr>, Raise e))) \<and>
    (\<forall>s. replicated_apply cls c s = body args (fmdrop callback_key (fmap_of_list kw)) s)"
proof -
  obtain i where i: "method_to_id cls name = Some i" "id_to_method cls i = Some name"
    using numbers_agree[OF assms(1-3)] by blast
  let ?c = "command_of cls i args kw"
  obtain kw' where kw': "call_of cls ?c = (i, args, kw')" "map_of kw' do_apply_key = Some (yes cls)"
    "(map_of kw')(do_apply_key := None) = (map_of kw)(do_apply_key := None, callback_key := None)"
    by (rule call_of_command)
  have "(map_of kw)(do_apply_key := None) = map_of kw" using assms(6) by (simp add: fun_upd_idem)
  then have "map_of (AList.delete do_apply_key kw') = (map_of kw)(callback_key := None)"
    using kw'(3) by (simp add: map_of_delete)
  then have m: "fmap_of_list (AList.delete do_apply_key kw') = fmdrop callback_key (fmap_of_list kw)"
    by (intro fmap_ext) (simp add: fmlookup_of_list)
  show ?thesis
    using new_func_queues[OF assms(6) i(1) assms(7)] assms(4,5) i(2) kw'(1,2)
    by (intro exI[of _ ?c]) (simp add: do_apply_command_def replicated_apply_def new_func_def Let_def m)
qed

text \<open>C26: a call of a replicated method is the same call everywhere.  As long as the queue has
  room, the call only queues one command with its callback; applied at any node of the same
  class, in any state, that command runs the body of this method with the arguments and the
  keywords of the call, the callback left out, and returns what the body returns; and it does to
  the object what \<open>replicated_apply\<close> does.\<close>

theorem replicated_roundtrip:
  assumes "distinct (attributes cls)" "name \<in> set (attributes cls)" "is_callable cls name"
    "bodies cls name = Some body" "truthy cls (yes cls)" "map_of kw do_apply_key = None"
    "commands_queue_size conf = 0 \<or> length (commands_queue n) < commands_queue_size conf"
  shows "\<exists>c. new_func conf cls name body args kw n =
      (n\<lparr>commands_queue := commands_queue n @ [(c, case map_of kw callback_key of None \<Rightarrow> NoCallback | Some v \<Rightarrow> as_callback cls v)]\<rparr>,
       Ret None) \<and>
    (\<forall>conf' m. do_apply_command conf' cls c m =
      (case body args (fmdrop callback_key (fmap_of_list kw)) (app_state m) of
         (s, Ret v) \<Rightarrow> (m\<lparr>app_state := s\<rparr>, Ret (Some v))
       | (s, Raise e) \<Rightarrow> (m\<lparr>app_state := s\<rparr>, Raise e))) \<and>
    (\<forall>s. replicated_apply cls c s = body args (fmdrop callback_key (fmap_of_list kw)) s)"
  using replicated_call[OF assms] .

subsection \<open>The object under test\<close>

text \<open>
  \<open>TestObjAutoTick\<close> of \<open>custom_server.py\<close>: one replicated method, which remembers a
  value and returns it.  The other attributes, what is true and the callbacks are arguments.
\<close>

definition set_value :: "('v, 'v option) method_body" where
  "set_value args kw s =
     (case (args, fmlookup kw ''value'') of
        ([v], None) \<Rightarrow> if fmdom kw = {||} then (Some v, Ret v) else (s, Raise TypeError)
      | ([], Some v) \<Rightarrow> if fmdom kw = {|''value''|} then (Some v, Ret v) else (s, Raise TypeError)
      | _ \<Rightarrow> (s, Raise TypeError))"

definition test_obj :: "string list \<Rightarrow> (string \<Rightarrow> bool) \<Rightarrow> ('v \<Rightarrow> bool) \<Rightarrow> 'v \<Rightarrow> ('v \<Rightarrow> command_callback)
    \<Rightarrow> ('v, 'v option) class_def" where
  "test_obj names callable tr y cb =
     \<lparr>attributes = names, is_callable = callable, bodies = [''setValue'' \<mapsto> set_value], truthy = tr, yes = y,
      as_callback = cb\<rparr>"

definition test_obj_conf :: raft_conf where
  "test_obj_conf = default_conf\<lparr>auto_tick := True, commands_queue_size := 10000, append_entries_use_batch := False\<rparr>"

text \<open>\<open>pso_append\<close>: the value is appended with the callback of the listener.\<close>

definition pso_append :: "('v, 'v option) class_def \<Rightarrow> 'v \<Rightarrow> 'v \<Rightarrow> ('v command, 'v, 'v option) raft
    \<Rightarrow> ('v command, 'v, 'v option) raft \<times> 'v option outcome" where
  "pso_append cls callback v n =
     new_func test_obj_conf cls ''setValue'' set_value [v] [(callback_key, callback)] n"

text \<open>What the test daemon appends is what every node stores.  While the queue of the node
  has room, \<open>append_entry\<close> queues one command, and applying it at any node leaves the value
  as the object's state and hands it to the callback.\<close>

lemma append_stores_value:
  assumes "distinct names" "''setValue'' \<in> set names" "callable ''setValue''" "tr y"
    "length (commands_queue n) < 10000" "cls = test_obj names callable tr y cb"
  shows "\<exists>c. pso_append cls k v n = (n\<lparr>commands_queue := commands_queue n @ [(c, cb k)]\<rparr>, Ret None) \<and>
    (\<forall>s. replicated_apply cls c s = (Some v, Ret v))"
proof -
  have "set_value [v] (fmdrop callback_key (fmap_of_list [(callback_key, k)])) s = (Some v, Ret v)" for s
    by (auto simp: set_value_def callback_key_def split: option.split)
  then show ?thesis
    using replicated_call[of cls "''setValue''" set_value "[(callback_key, k)]" test_obj_conf n "[v]"] assms keys_differ
    by (auto simp: pso_append_def test_obj_def test_obj_conf_def)
qed

definition sample_class :: "(int, int option) class_def" where
  "sample_class = test_obj [''getCounter'', ''setValue''] (\<lambda>_. True) (\<lambda>v. v \<noteq> 0) 1 (\<lambda>v. LocalCallback (nat v))"

definition sample_raft :: "(int command, int, int option) raft" where
  "sample_raft = init_raft ''a'' [''b''] (Bare 0) None (init_serializer None 4 None) 0 1"

theorem replicated_roundtrip_witness:
  "\<exists>c. \<forall>s. replicated_apply sample_class c s = (Some 5, Ret 5)"
  using replicated_roundtrip[of sample_class "''setValue''" set_value "[(''value'', 5)]" test_obj_conf sample_raft "[]"]
  by (auto simp: sample_class_def test_obj_def test_obj_conf_def sample_raft_def init_raft_def do_apply_key_def
      callback_key_def set_value_def)

end
