(* ===== verification/Measured_Cluster.thy ===== *)
theory Measured_Cluster
  imports Test_Daemon Raft_Properties Replicated_Methods "HOL-Library.Sublist"
begin

section \<open>Measuring a PySyncObj cluster\<close>

text \<open>
  The test daemon and the node it appends to, together: \<open>TestDaemonListener\<close> and
  \<open>onUpdateFunction\<close> of \<open>pysyncobj/custom_server.py\<close> with \<open>Test_Daemon\<close> on one side and the
  Raft node on the other.  The rest of the cluster is whatever arrives at the node.  The
  connection over which the listener reports completions does not fail.
\<close>

subsection \<open>Callbacks are only added\<close>

text \<open>And a callback that is handed a result is told of success.\<close>

definition called_on :: "('c, 'r, 's) raft \<Rightarrow> ('c, 'r, 's) raft \<Rightarrow> bool" where
  "called_on n m \<longleftrightarrow> (\<exists>ys. callbacks m = callbacks n @ ys \<and> (\<forall>(k, res, err)\<in>set ys. res \<noteq> None \<longrightarrow> err = SUCCEEDED))"

lemma called_on_refl [simp]: "called_on n n"
  by (simp add: called_on_def)

lemma called_on_trans: "called_on a b \<Longrightarrow> called_on b c \<Longrightarrow> called_on a c"
  unfolding called_on_def by (elim exE conjE, intro exI conjI) (simp, auto)

lemma called_on_same: "callbacks m = callbacks n \<Longrightarrow> called_on n m"
  by (simp add: called_on_def)

lemma called_on_sent: "sent_only n m \<Longrightarrow> called_on n m"
  by (intro called_on_same) (simp add: sent_only_fields)

lemma called_on_failed: "called_on n (fst (call_failed cb x n))"
  by (simp add: call_failed_def called_on_def split: command_callback.split)

lemma called_on_apply_command: "called_on n (fst (raft_apply_command conf c cb n))"
  by (simp add: raft_apply_command_def called_on_failed called_on_same)

lemma called_on_dump: "called_on n (tick_dump app n)"
  by (rule called_on_same) (auto simp: tick_dump_def load_dump_file_def split: option.splits)

lemma called_on_election: "called_on n (fst (tick_election conf env n))"
  by (auto simp: tick_election_def start_election_def called_on_def Let_def on_leader_changed_eq
      sent_only_fields[OF sent_only_fold_send])

lemma called_on_tick_leader: "called_on n (fst (tick_leader conf env n))"
proof -
  have "called_on n (fst (advance_commit n))"
    unfolding advance_commit_def by (rule reading_rel[where R = called_on]) (simp_all add: called_on_same)
  moreover have "called_on m (fst (if env_now env > new_append_time m then send_append_entries conf env m
      else (m, Ret ())))" for m :: "('a, 'b, 'c) raft"
    by (simp add: called_on_sent[OF sent_only_send_append])
  ultimately have "called_on n (fst (and_then (advance_commit n) (\<lambda>n1.
      if env_now env > new_append_time n1 then send_append_entries conf env n1 else (n1, Ret ()))))"
    by (rule and_then_rel[where R = called_on]) (rule called_on_trans)
  then show ?thesis by (simp add: tick_leader_def)
qed

lemma called_on_apply_entries: "called_on n (fst (apply_entries app es n))"
proof (induction es arbitrary: n)
  case (Cons e es)
  have "called_on n (fst (apply_entry app e n))"
    by (auto simp: apply_entry_def Let_def fold_notify called_on_def split: prod.splits outcome.splits)
  then show ?case by (auto intro!: and_then_rel[where R = called_on] Cons.IH intro: called_on_trans)
qed simp

lemma called_on_apply_committed: "called_on n (fst (apply_committed app n))"
  by (auto simp: apply_committed_def intro!: reading_rel[where R = called_on] called_on_apply_entries)

lemma called_on_check_command: "called_on n (fst (check_command conf env c cb n))"
proof (cases "role n = LEADER")
  case True
  show ?thesis
  proof (cases "get_current_log_index (raft_log n)")
    case (Ret l)
    then show ?thesis using True
      by (auto simp: check_command_def Let_def called_on_def sending_fields split: command_callback.splits)
  qed (simp add: True check_command_def)
next
  case False
  then show ?thesis
    by (auto simp: check_command_def call_failed_def Let_def sending_fields called_on_def
        split: option.splits command_callback.splits)
qed

lemma called_on_check_commands: "called_on n (fst (check_commands conf env k n))"
proof (induction k arbitrary: n)
  case (Suc k)
  have "called_on n (fst (check_command conf env c cb (n\<lparr>commands_queue := q\<rparr>)))" for c cb q
    using called_on_check_command[of "n\<lparr>commands_queue := q\<rparr>" conf env c cb] by (simp add: called_on_def)
  then show ?case
    by (auto intro!: and_then_rel[where R = called_on] Suc.IH intro: called_on_trans split: list.splits)
qed simp

lemma called_on_compaction: "called_on n (fst (try_log_compaction conf app env n))"
proof -
  have "called_on m (fst (start_dump app env m))" for m :: "('a, 'b, 'c) raft"
    unfolding start_dump_def
    by (rule reading_rel[where R = called_on]) (simp_all add: Let_def called_on_same)
  from this[of "n\<lparr>serializer_of := s, force_compaction := False\<rparr>" for s]
  have d: "called_on n (fst (start_dump app env (n\<lparr>serializer_of := s, force_compaction := False\<rparr>)))" for s
    by (simp add: called_on_def)
  show ?thesis
    by (auto simp: try_log_compaction_def Let_def split_beta reading_def d called_on_same split: outcome.splits)
qed

lemma called_on_tick: "called_on n (fst (on_tick conf app env n))"
  unfolding on_tick_def
  by (intro and_then_rel[where R = called_on] called_on_trans[OF called_on_dump called_on_election]
      called_on_tick_leader called_on_apply_committed called_on_check_commands called_on_compaction)
     (blast intro: called_on_trans)+

lemma called_on_follow: "called_on n (follow_leader conf env a t n)"
  by (auto simp: follow_leader_def Let_def on_leader_changed_eq called_on_def)

lemma called_on_confirm: "called_on n (fst (confirm_entries a c n))"
  by (rule called_on_same) (auto simp: confirm_entries_def send_next_node_idx_def reading_def and_then_def sending_fields
      split: outcome.splits)

lemma called_on_append: "called_on n (fst (receive_append_entries conf env a t c es prev n))"
proof -
  let ?n = "follow_leader conf env a t n"
  have n: "called_on n ?n" by (rule called_on_follow)
  have log: "called_on n (fst (f (?n\<lparr>raft_log := l\<rparr>)))" "called_on n (fst (f ?n))"
    if "\<And>m. called_on m (fst (f m))" for f :: "('a, 'b, 'c) raft \<Rightarrow> ('a, 'b, 'c) raft_result" and l
  proof -
    have "called_on ?n (fst (f (?n\<lparr>raft_log := l\<rparr>)))" using that[of "?n\<lparr>raft_log := l\<rparr>"] by (simp add: called_on_def)
    then show "called_on n (fst (f (?n\<lparr>raft_log := l\<rparr>)))" by (rule called_on_trans[OF n])
    show "called_on n (fst (f ?n))" using that by (rule called_on_trans[OF n])
  qed
  show ?thesis
    by (auto simp: receive_append_entries_def Let_def n log called_on_confirm
        called_on_sent[OF sent_only_next_node_idx] split: option.splits)
qed

lemma called_on_serialized: "called_on n (fst (receive_serialized conf app env a t c d n))"
proof -
  let ?n = "follow_leader conf env a t n"
  have n: "called_on n ?n" by (rule called_on_follow)
  have l: "callbacks (load_dump_file app m) = callbacks m" for m :: "('a, 'b, 'c) raft"
    by (auto simp: load_dump_file_def split: option.splits)
  have "called_on n (fst (confirm_entries a c (load_dump_file app (?n\<lparr>serializer_of := s\<rparr>))))"
    "called_on n (fst (confirm_entries a c (?n\<lparr>serializer_of := s\<rparr>)))" for s
    by (rule called_on_trans[OF _ called_on_confirm], use n l in \<open>simp add: called_on_def\<close>)+
  then show ?thesis by (auto simp: receive_serialized_def Let_def split_beta n split: chunk_result.splits)
qed

lemma called_on_step: "called_on n (fst (raft_step conf app ev n))"
proof (cases ev)
  case (Received env a m)
  have v: "called_on n (fst (receive_request_vote conf env a t i lt n))" for t i lt
    by (rule called_on_same)
      (auto simp: receive_request_vote_def Let_def reading_def sending_fields split: outcome.splits)
  have w: "called_on n (fst (receive_response_vote conf env t n))" for t
    by (rule called_on_same)
      (auto simp: receive_response_vote_def on_become_leader_def Let_def sending_fields)
  have r: "called_on n (fst (receive_refused x y n))" "called_on n (fst (receive_taken x i t n))"
    "called_on n (receive_next_node_idx a i b n)" for x y i t b
    by (auto simp: receive_refused_def receive_taken_def receive_next_node_idx_def Let_def called_on_def split: option.splits)
  show ?thesis using Received
    by (cases m) (auto simp: raft_step_def on_message_def receive_apply_command_def v w r
        called_on_append called_on_serialized called_on_apply_command split: option.splits)
qed (auto simp: raft_step_def called_on_tick called_on_apply_command intro: called_on_same)

subsection \<open>The node and the daemon\<close>


text \<open>The answer of \<open>append_entry\<close> travels to the daemon while the cluster goes on.  \<open>ticking\<close>:
  the thread of the node runs.  The last two fields are history: when each call was made, and the
  calls whose callback has reported a time, with this time.  The callback of the listener is one
  object; the number of the call tells its uses apart.\<close>

record 'v measured_cluster =
  appended_node :: "('v command, 'v, 'v option) raft"
  ticking :: bool
  daemon_state :: measuring
  answering :: "rat option"
  ask_times :: "rat list"
  completions :: "(nat \<times> rat) list"

text \<open>A call at two times, of its clock and of the end of \<open>setValue\<close>; its answer arrives, or the
  connection breaks; the thread of the node handles an event; the daemon looks.\<close>

datatype 'v measured_event =
    Asks rat rat 'v
  | Answer
  | Broken
  | At_Node rat "'v command raft_event"
  | Look

text \<open>\<open>onUpdateFunction\<close> sends the result and the time to the daemon, whatever the error is.  The
  proxy of the daemon is made without \<open>allow_none\<close>, so a result that is \<open>None\<close>, which is what the
  callback of a failed command gets, cannot be marshalled: nothing is sent, and a \<open>TypeError\<close>
  is raised.\<close>

definition on_update_function :: "rat \<Rightarrow> 'v option \<Rightarrow> fail_reason \<Rightarrow> measuring \<Rightarrow> measuring outcome" where
  "on_update_function now res err m =
     (case res of None \<Rightarrow> Raise TypeError | Some v \<Rightarrow> Ret (measuring_step (Completed now) m))"

text \<open>The callbacks of one event, up to the first that raises: the daemon, and which were called.\<close>

fun call_back :: "rat \<Rightarrow> (nat \<times> 'v option \<times> fail_reason) list \<Rightarrow> measuring
    \<Rightarrow> measuring \<times> (nat \<times> 'v option \<times> fail_reason) list \<times> unit outcome" where
  "call_back now [] d = (d, [], Ret ())"
| "call_back now ((k, res, err) # cs) d =
     (case on_update_function now res err d of
        Raise e \<Rightarrow> (d, [(k, res, err)], Raise e)
      | Ret d1 \<Rightarrow> (case call_back now cs d1 of (d2, made, r) \<Rightarrow> (d2, (k, res, err) # made, r)))"

definition reporting :: "(nat \<times> 'v option \<times> fail_reason) list \<Rightarrow> nat list" where
  "reporting cs = map fst (filter (\<lambda>(k, res, err). res \<noteq> None) cs)"

text \<open>The node is \<open>n\<close> after an event.  The callbacks after one that raises are not called.  What else
  the event would have done to the node after that is not undone here; nobody sees it: in the
  thread of the node it has ended with the exception, and the daemon, which waits for this very
  callback, does not ask the node again; in the thread of the listener the callback comes last.\<close>

definition node_becomes :: "rat \<Rightarrow> ('v command, 'v, 'v option) raft \<Rightarrow> 'v measured_cluster
    \<Rightarrow> 'v measured_cluster \<times> unit outcome" where
  "node_becomes now n s =
     (let old = callbacks (appended_node s) in
      case call_back now (drop (length old) (callbacks n)) (daemon_state s) of
        (d, made, r) \<Rightarrow>
          (s\<lparr>appended_node := n\<lparr>callbacks := old @ made\<rparr>, daemon_state := d,
             completions := completions s @ map (\<lambda>k. (k, now)) (reporting made)\<rparr>, r))"

text \<open>\<open>numbered_class\<close>: the class of the object, whose callback is that of call \<open>k\<close>.\<close>

definition numbered_class :: "('v, 'v option) class_def \<Rightarrow> nat \<Rightarrow> ('v, 'v option) class_def" where
  "numbered_class cls k = cls\<lparr>as_callback := (\<lambda>cb. LocalCallback k)\<rparr>"

text \<open>\<open>pso_append\<close> in the thread of the listener; what it raises, also from a callback that is called
  because the queue is full, is a fault for the daemon.\<close>

definition ask_node :: "('v, 'v option) class_def \<Rightarrow> 'v \<Rightarrow> rat \<Rightarrow> rat \<Rightarrow> 'v \<Rightarrow> 'v measured_cluster \<Rightarrow> 'v measured_cluster" where
  "ask_node cls callback t now v s =
     (case pso_append (numbered_class cls (length (ask_times s))) callback v (appended_node s) of
        (n, Raise e) \<Rightarrow> s\<lparr>daemon_state := measuring_step (Appended (Raise Fault)) (daemon_state s)\<rparr>
      | (n, Ret _) \<Rightarrow>
          (case node_becomes now n (s\<lparr>ask_times := ask_times s @ [t]\<rparr>) of
             (s1, Raise e) \<Rightarrow> s1\<lparr>daemon_state := measuring_step (Appended (Raise Fault)) (daemon_state s1)\<rparr>
           | (s1, Ret u) \<Rightarrow> s1\<lparr>answering := Some t\<rparr>))"

text \<open>What is raised in the thread of the node, by the node itself or by a callback, ends it.\<close>

definition node_thread :: "('v command, 'v, 'v option) raft_app \<Rightarrow> rat \<Rightarrow> 'v command raft_event
    \<Rightarrow> 'v measured_cluster \<Rightarrow> 'v measured_cluster" where
  "node_thread app now ev s =
     (if ticking s
      then case raft_step test_obj_conf app ev (appended_node s) of
        (n, r) \<Rightarrow> (case node_becomes now n s of (s1, r1) \<Rightarrow> s1\<lparr>ticking := (r = Ret () \<and> r1 = Ret ())\<rparr>)
      else s)"

fun measured_step :: "('v, 'v option) class_def \<Rightarrow> 'v \<Rightarrow> ('v command, 'v, 'v option) raft_app \<Rightarrow> 'v measured_event
    \<Rightarrow> 'v measured_cluster \<Rightarrow> 'v measured_cluster" where
  "measured_step cls callback app (Asks t now v) s =
     (if answering s = None \<and> asked_at (daemon_state s) = None \<and>
         length (results (daemon_state s)) < wanted (daemon_state s)
      then ask_node cls callback t now v s else s)"
| "measured_step cls callback app Answer s =
     (case answering s of
        None \<Rightarrow> s
      | Some t \<Rightarrow> s\<lparr>answering := None, daemon_state := measuring_step (Appended (Ret t)) (daemon_state s)\<rparr>)"
| "measured_step cls callback app Broken s =
     (if answering s = None then s
      else s\<lparr>answering := None, daemon_state := measuring_step (Appended (Raise Fault)) (daemon_state s)\<rparr>)"
| "measured_step cls callback app (At_Node now ev) s = node_thread app now ev s"
| "measured_step cls callback app Look s = s\<lparr>daemon_state := measuring_step Looks (daemon_state s)\<rparr>"

definition measured_run :: "('v, 'v option) class_def \<Rightarrow> 'v \<Rightarrow> ('v command, 'v, 'v option) raft_app
    \<Rightarrow> 'v measured_event list \<Rightarrow> 'v measured_cluster \<Rightarrow> 'v measured_cluster" where
  "measured_run cls callback app evs = fold (measured_step cls callback app) evs"

definition init_measured :: "('v command, 'v, 'v option) raft \<Rightarrow> nat \<Rightarrow> 'v measured_cluster" where
  "init_measured n runs =
     \<lparr>appended_node = n, ticking = True, daemon_state = init_measuring runs, answering = None, ask_times = [],
      completions = []\<rparr>"

subsection \<open>Measurements\<close>

text \<open>Clocks do not go back; no connection breaks between the daemon and the node, and nobody else
  hands callbacks to the node.\<close>

fun event_times :: "'v measured_event \<Rightarrow> rat list" where
  "event_times (Asks t now v) = [t, now]"
| "event_times (At_Node now ev) = [now]"
| "event_times _ = []"

fun undisturbed :: "'v measured_event \<Rightarrow> bool" where
  "undisturbed Broken = False"
| "undisturbed (At_Node now ev) = (handed_in ev = [])"
| "undisturbed _ = True"

text \<open>Callbacks run in the order of the calls; all but the last call have had theirs.\<close>

definition books_ok :: "rat \<Rightarrow> 'v measured_cluster \<Rightarrow> bool" where
  "books_ok c s \<longleftrightarrow>
     (let n = appended_node s; a = length (ask_times s); d = length (callbacks n) in
      map fst (callbacks n) = [0..<d] \<and> d \<le> a \<and> a \<le> d + 1 \<and> account n \<subseteq># mset [0..<a] \<and>
      (\<forall>(k, res, err)\<in>set (callbacks n). res \<noteq> None \<longrightarrow> err = SUCCEEDED) \<and>
      map fst (completions s) = reporting (callbacks n) \<and>
      (\<forall>x\<in>set (ask_times s). x \<le> c) \<and> (\<forall>(k, t)\<in>set (completions s). k < a \<and> ask_times s ! k \<le> t \<and> t \<le> c))"

text \<open>The daemon is idle, or the last call waits for its answer or for its completion, which may
  have come, or may never come.\<close>

definition idle :: "'v measured_cluster \<Rightarrow> bool" where
  "idle s \<longleftrightarrow> answering s = None \<and> asked_at (daemon_state s) = None \<and>
     length (callbacks (appended_node s)) = length (ask_times s) \<and>
     length (completions s) = length (results (daemon_state s)) \<and> cluster_ack (daemon_state s) = None"

definition waits :: "'v measured_cluster \<Rightarrow> bool" where
  "waits s \<longleftrightarrow> ask_times s \<noteq> [] \<and> length (results (daemon_state s)) < wanted (daemon_state s) \<and>
     (answering s = Some (last (ask_times s)) \<and> asked_at (daemon_state s) = None \<or>
      answering s = None \<and> asked_at (daemon_state s) = Some (last (ask_times s)))"

definition uncalled :: "'v measured_cluster \<Rightarrow> bool" where
  "uncalled s \<longleftrightarrow> Suc (length (callbacks (appended_node s))) = length (ask_times s) \<and>
     length (completions s) = length (results (daemon_state s)) \<and> cluster_ack (daemon_state s) = None"

definition reported :: "'v measured_cluster \<Rightarrow> bool" where
  "reported s \<longleftrightarrow> length (callbacks (appended_node s)) = length (ask_times s) \<and>
     length (completions s) = Suc (length (results (daemon_state s))) \<and>
     Suc (fst (last (completions s))) = length (ask_times s) \<and>
     cluster_ack (daemon_state s) = Some (snd (last (completions s)))"

definition failed_for_good :: "'v measured_cluster \<Rightarrow> bool" where
  "failed_for_good s \<longleftrightarrow> \<not> ticking s \<and> length (callbacks (appended_node s)) = length (ask_times s) \<and>
     length (completions s) = length (results (daemon_state s)) \<and> cluster_ack (daemon_state s) = None"

definition measured_ok :: "rat \<Rightarrow> 'v measured_cluster \<Rightarrow> bool" where
  "measured_ok c s \<longleftrightarrow> books_ok c s \<and>
     (\<forall>i<length (results (daemon_state s)).
        results (daemon_state s) ! i = snd (completions s ! i) - ask_times s ! fst (completions s ! i)) \<and>
     (idle s \<or> waits s \<and> (uncalled s \<or> reported s \<or> failed_for_good s))"


lemmas phases = idle_def waits_def uncalled_def reported_def failed_for_good_def

text \<open>A new callback is that of the call that waits.\<close>

lemma new_callbacks:
  assumes "map fst (callbacks n) = [0..<d]" "callbacks m = callbacks n @ ys" "account m \<subseteq># mset [0..<k]" "d \<le> k" "k \<le> Suc d"
  shows "ys = [] \<or> (\<exists>r. ys = [(d, r)] \<and> k = Suc d)"
proof -
  have "called m \<subseteq># mset [0..<k]" using assms(3) unfolding account_def
    by (metis add.commute mset_subset_eq_add_left subset_mset.order_trans)
  then have "mset [0..<d] + mset (map fst ys) \<subseteq># mset [0..<k]" by (simp add: called_def assms(2) assms(1)[symmetric])
  moreover have "mset [0..<k] = mset [0..<d] + mset [d..<k]"
    using assms(4) by (metis le0 le_add_diff_inverse mset_append upt_add_eq_append)
  ultimately have "mset (map fst ys) \<subseteq># mset [d..<k]" by simp
  then show ?thesis using assms(4,5)
    by (cases "k = d"; cases ys; cases "tl ys") (auto simp: le_Suc_eq dest: size_mset_mono)
qed

lemma node_becomes_cases:
  assumes "books_ok c s" "called_on (appended_node s) n" "account n \<subseteq># mset [0..<length (ask_times s)]"
  obtains (quiet) "node_becomes now n s = (s\<lparr>appended_node := n\<rparr>, Ret ())" "callbacks n = callbacks (appended_node s)"
  | (success) v where "length (ask_times s) = Suc (length (callbacks (appended_node s)))"
      "callbacks n = callbacks (appended_node s) @ [(length (callbacks (appended_node s)), Some v, SUCCEEDED)]"
      "node_becomes now n s = (s\<lparr>appended_node := n, daemon_state := measuring_step (Completed now) (daemon_state s),
         completions := completions s @ [(length (callbacks (appended_node s)), now)]\<rparr>, Ret ())"
  | (failure) err where "length (ask_times s) = Suc (length (callbacks (appended_node s)))"
      "callbacks n = callbacks (appended_node s) @ [(length (callbacks (appended_node s)), None, err)]"
      "node_becomes now n s = (s\<lparr>appended_node := n\<rparr>, Raise TypeError)"
proof -
  let ?d = "length (callbacks (appended_node s))"
  obtain ys where ys: "callbacks n = callbacks (appended_node s) @ ys" "\<forall>(k, res, err)\<in>set ys. res \<noteq> None \<longrightarrow> err = SUCCEEDED"
    using assms(2) unfolding called_on_def by blast
  have b: "map fst (callbacks (appended_node s)) = [0..<?d]" "?d \<le> length (ask_times s)" "length (ask_times s) \<le> Suc ?d"
    using assms(1) by (simp_all add: books_ok_def Let_def)
  have same: "n\<lparr>callbacks := callbacks (appended_node s) @ ys\<rparr> = n" using ys(1) by simp
  from new_callbacks[OF b(1) ys(1) assms(3) b(2,3)] consider "ys = []" | r where "ys = [(?d, r)]" "length (ask_times s) = Suc ?d"
    by blast
  then show thesis
  proof cases
    case 1
    then show thesis using quiet same ys(1) by (simp add: node_becomes_def reporting_def Let_def)
  next
    case 2
    obtain res err where r: "r = (res, err)" by (cases r)
    show thesis
    proof (cases res)
      case None
      then show thesis using 2 r same ys(1) failure
        by (simp add: node_becomes_def reporting_def on_update_function_def Let_def)
    next
      case (Some v)
      then show thesis using 2 r same ys success
        by (simp add: node_becomes_def reporting_def on_update_function_def Let_def)
    qed
  qed
qed

lemma books_become:
  assumes "books_ok c s" "c \<le> now" "called_on (appended_node s) n" "account n \<subseteq># mset [0..<length (ask_times s)]"
  shows "books_ok now (fst (node_becomes now n s))"
proof -
  have later: "x \<le> now" if "x \<le> c" for x using that assms(2) by (rule order_trans)
  let ?a = "length (ask_times s)"
  have b: "map fst (callbacks (appended_node s)) = [0..<length (callbacks (appended_node s))]"
    "length (callbacks (appended_node s)) \<le> ?a" "?a \<le> length (callbacks (appended_node s)) + 1"
    "\<forall>(k, res, err)\<in>set (callbacks (appended_node s)). res \<noteq> None \<longrightarrow> err = SUCCEEDED"
    "map fst (completions s) = reporting (callbacks (appended_node s))" "\<forall>x\<in>set (ask_times s). x \<le> now"
    "\<forall>(k, t)\<in>set (completions s). k < ?a \<and> ask_times s ! k \<le> t \<and> t \<le> now"
    using assms(1) later by (auto simp: books_ok_def Let_def)
  from assms(1,3,4) show ?thesis
  proof (cases rule: node_becomes_cases[where now = now])
    case quiet
    then show ?thesis using b assms(4) by (simp add: books_ok_def Let_def del: mset_upt)
  next
    case (success v)
    then have "length (callbacks (appended_node s)) < ?a" by simp
    moreover from this have "ask_times s ! length (callbacks (appended_node s)) \<le> now" using b(6) by simp
    ultimately show ?thesis using success(2,3) b assms(4)
      by (simp add: books_ok_def Let_def reporting_def del: mset_upt)
  next
    case (failure err)
    then have "length (callbacks (appended_node s)) < ?a" by simp
    then show ?thesis using failure(2,3) b assms(4)
      by (simp add: books_ok_def Let_def reporting_def del: mset_upt)
  qed
qed

lemma books_later: "books_ok c s \<Longrightarrow> c \<le> c' \<Longrightarrow> books_ok c' s"
  unfolding books_ok_def Let_def by fastforce

lemma books_same:
  "books_ok c s \<Longrightarrow> appended_node s' = appended_node s \<Longrightarrow> ask_times s' = ask_times s \<Longrightarrow> completions s' = completions s \<Longrightarrow>
     books_ok c s'"
  by (simp add: books_ok_def)

lemma thread_ok:
  assumes "measured_ok c s" "c \<le> now" "handed_in ev = []"
  shows "measured_ok now (node_thread app now ev s)"
proof (cases "ticking s")
  case False
  then show ?thesis using assms books_later by (auto simp: node_thread_def measured_ok_def)
next
  case True
  obtain n r where n: "raft_step test_obj_conf app ev (appended_node s) = (n, r)" by fastforce
  have b: "books_ok c s" using assms(1) by (simp add: measured_ok_def)
  have on: "called_on (appended_node s) n" using called_on_step[of "appended_node s" test_obj_conf app ev] n by simp
  have acc: "account n \<subseteq># mset [0..<length (ask_times s)]"
    using keeps_event[of "appended_node s" ev test_obj_conf app] b assms(3) n
    by (auto simp: keeps_def books_ok_def Let_def intro: subset_mset.order_trans)
  have b1: "books_ok now (fst (node_becomes now n s))" by (rule books_become[OF b assms(2) on acc])
  from b on acc show ?thesis
  proof (cases rule: node_becomes_cases[where now = now])
    case quiet
    then show ?thesis using assms(1) True n b1 by (auto simp: node_thread_def measured_ok_def phases intro: books_same)
  next
    case (success v)
    then have "waits s" "uncalled s" using assms(1) True by (auto simp: measured_ok_def phases)
    then show ?thesis using success assms(1) True n b1
      by (auto simp: node_thread_def measured_ok_def phases nth_append intro: books_same)
  next
    case (failure err)
    then have "waits s" "uncalled s" using assms(1) True by (auto simp: measured_ok_def phases)
    then show ?thesis using failure assms(1) True n b1
      by (auto simp: node_thread_def measured_ok_def phases intro: books_same)
  qed
qed

lemma pso_append_cases:
  obtains e where "pso_append (numbered_class cls k) callback v n = (n, Raise e)"
  | m where "pso_append (numbered_class cls k) callback v n = (m, Ret None)" "called_on n m"
    "account m = add_mset k (account n)"
proof (cases "method_to_id cls ''setValue''")
  case None
  then have "pso_append (numbered_class cls k) callback v n = (n, Raise KeyError)"
    using keys_differ by (simp add: pso_append_def new_func_def numbered_class_def method_to_id_def methods_def)
  then show ?thesis using that(1) by blast
next
  case (Some i)
  let ?c = "With_Args i [v]"
  have "fst (pso_append (numbered_class cls k) callback v n) = fst (raft_apply_command test_obj_conf ?c (LocalCallback k) n) \<and>
      snd (pso_append (numbered_class cls k) callback v n) = Ret None"
    using keys_differ Some
    by (auto simp: pso_append_def new_func_def numbered_class_def method_to_id_def methods_def raft_apply_command_def
        call_failed_def Let_def)
  moreover have "account (fst (raft_apply_command test_obj_conf ?c (LocalCallback k) n)) = add_mset k (account n)"
    using keeps_apply_command[of n "LocalCallback k" test_obj_conf ?c]
    by (auto simp: keeps_def raft_apply_command_def call_failed_def split: if_splits)
  ultimately show ?thesis
    using that(2)[of "fst (pso_append (numbered_class cls k) callback v n)"]
      called_on_apply_command[of n test_obj_conf ?c "LocalCallback k"] by (metis prod.collapse)
qed

lemma idle_when_asking:
  "measured_ok c s \<Longrightarrow> answering s = None \<Longrightarrow> asked_at (daemon_state s) = None \<Longrightarrow> idle s"
  by (auto simp: measured_ok_def waits_def)

text \<open>Times of calls are looked up by number, and stay.\<close>

definition own_times :: "'v measured_cluster \<Rightarrow> bool" where
  "own_times s \<longleftrightarrow> (\<forall>i<length (results (daemon_state s)).
     results (daemon_state s) ! i = snd (completions s ! i) - ask_times s ! fst (completions s ! i))"

lemma measured_ok_alt:
  "measured_ok c s \<longleftrightarrow> books_ok c s \<and> own_times s \<and> (idle s \<or> waits s \<and> (uncalled s \<or> reported s \<or> failed_for_good s))"
  by (simp add: measured_ok_def own_times_def)

lemma completions_called:
  assumes "books_ok c s" "i < length (completions s)"
  shows "fst (completions s ! i) < length (ask_times s)" "ask_times s ! fst (completions s ! i) \<le> snd (completions s ! i)"
proof -
  have "\<forall>x\<in>set (completions s). fst x < length (ask_times s) \<and> ask_times s ! fst x \<le> snd x"
    using assms(1) by (simp add: books_ok_def Let_def case_prod_beta)
  with nth_mem[OF assms(2)] show "fst (completions s ! i) < length (ask_times s)"
    "ask_times s ! fst (completions s ! i) \<le> snd (completions s ! i)" by blast+
qed

lemma books_asked:
  assumes "books_ok c s" "c \<le> t" "length (callbacks (appended_node s)) = length (ask_times s)"
  shows "books_ok t (s\<lparr>ask_times := ask_times s @ [t]\<rparr>)"
proof -
  have "account (appended_node s) \<subseteq># mset [0..<length (ask_times s)]" using assms(1) by (simp add: books_ok_def Let_def)
  then have "account (appended_node s) \<subseteq># mset [0..<Suc (length (ask_times s))]"
    by (rule subset_mset.order_trans) (simp del: mset_upt)
  moreover have "\<forall>x\<in>set (ask_times s). x \<le> t" "\<forall>(k, u)\<in>set (completions s). k < length (ask_times s) \<and> ask_times s ! k \<le> u \<and> u \<le> t"
    using assms(1) order_trans[OF _ assms(2)] by (auto simp: books_ok_def Let_def)
  moreover have "map fst (callbacks (appended_node s)) = [0..<length (callbacks (appended_node s))]"
    "\<forall>(k, res, err)\<in>set (callbacks (appended_node s)). res \<noteq> None \<longrightarrow> err = SUCCEEDED"
    "map fst (completions s) = reporting (callbacks (appended_node s))"
    using assms(1) by (simp_all add: books_ok_def Let_def)
  ultimately show ?thesis using assms(3) by (auto simp: books_ok_def Let_def nth_append simp del: mset_upt upt_Suc)
qed

lemma asks_ok:
  assumes "measured_ok c s" "c \<le> t" "t \<le> now" "answering s = None" "asked_at (daemon_state s) = None"
    "length (results (daemon_state s)) < wanted (daemon_state s)"
  shows "measured_ok now (ask_node cls callback t now v s)"
proof (cases rule: pso_append_cases[of cls "length (ask_times s)" callback v "appended_node s"])
  case (1 e)
  have "books_ok now s" using assms(1-3) books_later order_trans by (fastforce simp: measured_ok_def)
  then show ?thesis using 1 assms by (simp add: ask_node_def measured_ok_def)
next
  case (2 m)
  let ?s = "s\<lparr>ask_times := ask_times s @ [t]\<rparr>"
  have b: "books_ok c s" "own_times s" using assms(1) by (simp_all add: measured_ok_alt)
  have i: "idle s" by (rule idle_when_asking[OF assms(1,4,5)])
  then have l: "length (callbacks (appended_node s)) = length (ask_times s)" by (simp add: idle_def)
  have b1: "books_ok t ?s" by (rule books_asked[OF b(1) assms(2) l])
  have acc: "account m \<subseteq># mset [0..<length (ask_times ?s)]" using b(1) 2(3) by (simp add: books_ok_def Let_def)
  have on: "called_on (appended_node ?s) m" using 2(2) by simp
  have b2: "books_ok now (fst (node_becomes now m ?s))" by (rule books_become[OF b1 assms(3) on acc])
  have o: "own_times ?s" using b(2) i completions_called[OF b(1)] by (simp add: own_times_def idle_def nth_append)
  have own: "own_times (fst (node_becomes now m ?s))"
    using b1 on acc
  proof (cases rule: node_becomes_cases[where now = now])
    case quiet
    then show ?thesis using o by (simp add: own_times_def)
  next
    case (success v)
    then show ?thesis using o i by (simp add: own_times_def idle_def nth_append)
  next
    case (failure err)
    then show ?thesis using o by (simp add: own_times_def)
  qed
  from b1 on acc show ?thesis
  proof (cases rule: node_becomes_cases[where now = now])
    case quiet
    then show ?thesis using 2(1) b2 own i assms(6) l
      by (auto simp: ask_node_def measured_ok_alt own_times_def phases intro: books_same)
  next
    case (success v)
    then show ?thesis using 2(1) b2 own i assms(6) l
      by (auto simp: ask_node_def measured_ok_alt own_times_def phases intro: books_same)
  next
    case (failure err)
    then show ?thesis using 2(1) b2 own i assms(4-6) l
      by (auto simp: ask_node_def measured_ok_alt own_times_def phases intro: books_same)
  qed
qed

lemma answer_ok:
  assumes "measured_ok c s"
  shows "measured_ok c (measured_step cls callback app Answer s)"
proof (cases "answering s")
  case (Some t)
  then have "waits s" using assms by (auto simp: measured_ok_def idle_def)
  then have "asked_at (daemon_state s) = None" "length (results (daemon_state s)) < wanted (daemon_state s)"
    "t = last (ask_times s)" "ask_times s \<noteq> []"
    using Some by (auto simp: waits_def)
  then show ?thesis using assms Some
    by (auto simp: measured_ok_alt own_times_def phases intro: books_same)
qed (use assms in simp)

lemma looks_ok:
  assumes "measured_ok c s"
  shows "measured_ok c (measured_step cls callback app Look s)"
proof (cases "\<exists>t a. asked_at (daemon_state s) = Some t \<and> cluster_ack (daemon_state s) = Some a")
  case False
  then show ?thesis using assms by (auto split: option.splits)
next
  case True
  then obtain t a where ta: "asked_at (daemon_state s) = Some t" "cluster_ack (daemon_state s) = Some a" by blast
  have b: "books_ok c s" "own_times s" "waits s" "reported s" using assms ta by (auto simp: measured_ok_alt phases)
  let ?C = "completions s"
  have "?C \<noteq> []" "ask_times s \<noteq> []" "t = last (ask_times s)" "a = snd (last ?C)" "Suc (fst (last ?C)) = length (ask_times s)"
    using b(3,4) ta by (auto simp: waits_def reported_def)
  then have "t = ask_times s ! fst (last ?C)" by (metis diff_Suc_1 last_conv_nth)
  moreover have "last ?C = ?C ! length (results (daemon_state s))"
    using b(4) \<open>?C \<noteq> []\<close> by (simp add: last_conv_nth reported_def)
  ultimately have "own_times (measured_step cls callback app Look s)"
    using b(2) ta \<open>a = snd (last ?C)\<close> by (auto simp: own_times_def nth_append less_Suc_eq)
  then show ?thesis using b(1,3,4) ta
    by (auto simp: measured_ok_alt idle_def waits_def reported_def intro: books_same)
qed

lemma measured_step_ok:
  assumes "measured_ok c s" "undisturbed ev" "sorted (c # event_times ev)"
  shows "measured_ok (last (c # event_times ev)) (measured_step cls callback app ev s)"
proof (cases ev)
  case (Asks t now v)
  have "books_ok now s" using assms Asks by (auto simp: measured_ok_def intro: books_later)
  then show ?thesis using assms asks_ok[of c s t now cls callback v] Asks by (auto simp: measured_ok_def)
next
  case (At_Node now e)
  then show ?thesis using thread_ok[of c s now e app] assms by simp
qed (use assms answer_ok looks_ok in \<open>simp_all del: measured_step.simps\<close>)

lemma last_twice: "last (c # xs @ ys) = last (last (c # xs) # ys)"
  by (induction xs arbitrary: c) auto

lemma measured_run_ok:
  assumes "measured_ok c s" "\<forall>ev\<in>set evs. undisturbed ev" "sorted (c # concat (map event_times evs))"
  shows "measured_ok (last (c # concat (map event_times evs))) (measured_run cls callback app evs s)"
  using assms
proof (induction evs arbitrary: c s)
  case (Cons ev evs)
  let ?c = "last (c # event_times ev)"
  have ev: "sorted (c # event_times ev)" and rest: "sorted (?c # concat (map event_times evs))"
    using Cons.prems(3) by (auto simp: sorted_append sorted_simps)
  have "measured_ok ?c (measured_step cls callback app ev s)"
    using measured_step_ok[OF Cons.prems(1) _ ev] Cons.prems(2) by simp
  from Cons.IH[OF this _ rest] show ?case
    using Cons.prems(2) last_twice[of c "event_times ev" "concat (map event_times evs)"] by (simp add: measured_run_def del: last.simps)
qed (simp add: measured_run_def)

lemma init_measured_ok:
  assumes "pending n = {#}" "callbacks n = []"
  shows "measured_ok c (init_measured n runs)"
  using assms by (simp add: measured_ok_def init_measured_def books_ok_def idle_def account_def called_def
      init_measuring_def reporting_def)

text \<open>C40: the times that are measured on a PySyncObj cluster are those of appends that succeeded.
  Whatever arrives at the node and whenever the daemon looks, while no connection between the two
  breaks and nobody else hands callbacks in: the callbacks of the calls of \<open>append_entry\<close> run in the
  order of the calls, each at most once; those that report a time are the ones that are handed a
  result, and they are told of success; and measurement \<open>i\<close> is the time from the call to the
  callback of one and the same call, the \<open>i\<close>-th of those, and is not negative.\<close>

theorem measurements_are_own_times:
  assumes "pending n = {#}" "callbacks n = []" "\<forall>ev\<in>set evs. undisturbed ev" "sorted (concat (map event_times evs))"
    "s = measured_run cls callback app evs (init_measured n runs)"
  shows "map fst (callbacks (appended_node s)) = [0..<length (callbacks (appended_node s))] \<and>
    length (callbacks (appended_node s)) \<le> length (ask_times s) \<and>
    map fst (completions s) = map fst (filter (\<lambda>(k, res, err). res \<noteq> None) (callbacks (appended_node s))) \<and>
    (\<forall>(k, res, err)\<in>set (callbacks (appended_node s)). res \<noteq> None \<longrightarrow> err = SUCCEEDED) \<and>
    (\<forall>i<length (results (daemon_state s)). i < length (completions s) \<and>
       (case completions s ! i of (k, t) \<Rightarrow>
          results (daemon_state s) ! i = t - ask_times s ! k \<and> 0 \<le> results (daemon_state s) ! i))"
proof -
  let ?ts = "concat (map event_times evs)"
  define c where "c = (case ?ts of [] \<Rightarrow> 0 | t # ts \<Rightarrow> t)"
  have "sorted ((case ts of [] \<Rightarrow> 0 | t # ts \<Rightarrow> t) # ts)" if "sorted ts" for ts :: "rat list"
    using that by (cases ts) auto
  then have "sorted (c # ?ts)" using assms(4) unfolding c_def by blast
  then have ok: "measured_ok (last (c # ?ts)) s"
    unfolding assms(5) by (intro measured_run_ok init_measured_ok assms(1-3))
  then have b: "books_ok (last (c # ?ts)) s" "own_times s" by (simp_all add: measured_ok_alt)
  have "length (results (daemon_state s)) \<le> length (completions s)" using ok by (auto simp: measured_ok_alt phases)
  then have "i < length (completions s) \<and> results (daemon_state s) ! i = snd (completions s ! i) - ask_times s ! fst (completions s ! i) \<and>
      0 \<le> results (daemon_state s) ! i" if "i < length (results (daemon_state s))" for i
    using that b(2) completions_called(2)[OF b(1), of i] by (simp add: own_times_def)
  then show ?thesis using b(1) by (simp add: books_ok_def Let_def reporting_def case_prod_beta)
qed

text \<open>A node that follows \<open>b\<close> is asked to append 5 and passes the command on.  Either \<open>b\<close> appends it,
  sends it back with the new commit index, and the node applies it; or \<open>c\<close> leads, and the command
  has failed.\<close>

definition following :: "(int command, int, int option) raft" where
  "following = (init_raft ''a'' [''b'', ''c''] (Bare 0) None (init_serializer None 4 None) 0 100)
     \<lparr>need_load_dump := False, raft_leader := Some ''b'', current_term := 1\<rparr>"

definition passed_on :: "(int command, int, int option) raft" where
  "passed_on = following\<lparr>local_counter := 1, waiting_reply := [(1, 0)]\<rparr>"

definition sample_object :: "(int command, int, int option) raft_app" where
  "sample_object = \<lparr>app_apply = replicated_apply sample_class, app_pack = (\<lambda>d. []), app_unpack = (\<lambda>d. None)\<rparr>"

definition leader_appends :: "int command \<Rightarrow> int measured_event list" where
  "leader_appends c =
     [At_Node 2 (Received (env_at 2) ''b'' (ApplyTaken 1 2 1)),
      At_Node 2 (Received (env_at 2) ''b'' (AppendEntries 1 2 [Entry c 2 1] (Some (1, 0)))),
      At_Node 2 (Tick (env_at 2))]"

definition leader_change :: "int measured_event" where
  "leader_change = At_Node 3 (Received (env_at 3) ''c'' (AppendEntries 2 1 [] (Some (1, 0))))"

lemma check_commands_more:
  "0 < k \<Longrightarrow> check_commands conf env k n =
     (if raft_leader n = None \<and> commands_wait_leader conf then (n, Ret ())
      else
        (case commands_queue n of
           [] \<Rightarrow> (n, Ret ())
         | (c, cb) # q \<Rightarrow>
             and_then (check_command conf env c cb (n\<lparr>commands_queue := q\<rparr>)) (check_commands conf env (k - 1))))"
  by (cases k) (simp_all split: list.split)

lemma tick_passes_on:
  "raft_step test_obj_conf app (Tick (env_at 1)) (following\<lparr>commands_queue := [(c, LocalCallback 0)]\<rparr>) = (passed_on, Ret ())"
  by (simp add: raft_step_def on_tick_def following_def passed_on_def init_raft_def env_at_def tick_dump_def tick_election_def
      tick_leader_def apply_committed_def check_commands_more check_command_def test_obj_conf_def default_conf_def raft_send_def
      try_log_compaction_def check_serializing_def init_serializer_def)

lemma leader_change_fails:
  "callbacks (fst (raft_step test_obj_conf app (Received (env_at 3) ''c'' (AppendEntries 2 1 [] (Some (1, 0)))) passed_on)) =
     [(0, None, LEADER_CHANGED)]"
  by (simp add: raft_step_def on_message_def receive_append_entries_def follow_leader_def on_leader_changed_eq following_def
      passed_on_def init_raft_def confirm_entries_def send_next_node_idx_def get_entries_def get_current_log_index_def
      raft_send_def Let_def)

lemma ask_following:
  obtains c where "pso_append (numbered_class sample_class 0) 0 5 following =
    (following\<lparr>commands_queue := [(c, LocalCallback 0)]\<rparr>, Ret None)" "\<And>s. replicated_apply sample_class c s = (Some 5, Ret 5)"
proof -
  have n: "numbered_class sample_class 0 = test_obj [''getCounter'', ''setValue''] (\<lambda>_. True) (\<lambda>v. v \<noteq> 0) 1 (\<lambda>cb. LocalCallback 0)"
    by (simp add: numbered_class_def sample_class_def test_obj_def)
  have same: "replicated_apply (numbered_class sample_class 0) c = replicated_apply sample_class c" for c
  proof -
    have e: "call_of (numbered_class sample_class 0) = call_of sample_class"
      "id_to_method (numbered_class sample_class 0) = id_to_method sample_class"
      "bodies (numbered_class sample_class 0) = bodies sample_class"
      by (simp_all add: fun_eq_iff call_of_def id_to_method_def methods_def numbered_class_def)
    show ?thesis unfolding replicated_apply_def fun_eq_iff e by simp
  qed
  from append_stores_value[OF _ _ _ _ _ n, of following 0 5] that show thesis
    by (auto simp: following_def init_raft_def same)
qed

lemma leader_appends_calls:
  assumes "\<And>s. replicated_apply sample_class c s = (Some 5, Ret 5)"
  obtains n1 n2 n3 where
    "raft_step test_obj_conf sample_object (Received (env_at 2) ''b'' (ApplyTaken 1 2 1)) passed_on = (n1, Ret ())"
    "raft_step test_obj_conf sample_object (Received (env_at 2) ''b'' (AppendEntries 1 2 [Entry c 2 1] (Some (1, 0)))) n1 = (n2, Ret ())"
    "raft_step test_obj_conf sample_object (Tick (env_at 2)) n2 = (n3, Ret ())"
    "callbacks n1 = []" "callbacks n2 = []" "callbacks n3 = [(0, Some 5, SUCCEEDED)]" "app_state n3 = Some 5" "commands_queue n3 = []"
proof -
  let ?n1 = "passed_on\<lparr>waiting_reply := [], waiting_commit := [(2, 1, 0)]\<rparr>"
  have 1: "raft_step test_obj_conf sample_object (Received (env_at 2) ''b'' (ApplyTaken 1 2 1)) passed_on = (?n1, Ret ())"
    by (simp add: raft_step_def on_message_def receive_taken_def passed_on_def following_def init_raft_def)
  let ?n2 = "?n1\<lparr>election_deadline := 2 + generate_raft_timeout test_obj_conf 0,
    raft_log := [Entry (Bare 0) 1 0, Entry c 2 1], commit_index := 2\<rparr>"
  have 2: "raft_step test_obj_conf sample_object (Received (env_at 2) ''b'' (AppendEntries 1 2 [Entry c 2 1] (Some (1, 0)))) ?n1 =
      (?n2, Ret ())"
    by (simp add: raft_step_def on_message_def receive_append_entries_def follow_leader_def following_def env_at_def
        passed_on_def init_raft_def confirm_entries_def send_next_node_idx_def get_entries_def get_current_log_index_def
        raft_send_def Let_def py_from_nonneg)
  let ?n3 = "?n2\<lparr>waiting_commit := [], app_state := Some 5, last_applied := 2, callbacks := [(0, Some 5, SUCCEEDED)]\<rparr>"
  have 3: "raft_step test_obj_conf sample_object (Tick (env_at 2)) ?n2 = (?n3, Ret ())"
    using assms
    by (simp add: raft_step_def on_tick_def following_def passed_on_def init_raft_def env_at_def tick_dump_def tick_election_def
        tick_leader_def apply_committed_def check_commands_more test_obj_conf_def default_conf_def generate_raft_timeout_def
        try_log_compaction_def check_serializing_def init_serializer_def get_entries_def sample_object_def apply_entry_def
        notify_def call_def Let_def py_slice_nonneg)
  show thesis by (rule that[OF 1 2 3]) (simp_all add: passed_on_def following_def init_raft_def)
qed

lemma following_fields [simp]: "callbacks following = []" "pending following = {#}"
  by (simp_all add: following_def init_raft_def pending_def List.map_filter_simps)

lemma thread_quiet:
  "ticking s \<Longrightarrow> raft_step test_obj_conf app ev (appended_node s) = (n, Ret ()) \<Longrightarrow> callbacks n = callbacks (appended_node s) \<Longrightarrow>
     measured_step cls callback app (At_Node now ev) s = s\<lparr>appended_node := n\<rparr>"
  by (simp add: node_thread_def node_becomes_def reporting_def Let_def)

lemma thread_reports:
  "ticking s \<Longrightarrow> raft_step test_obj_conf app ev (appended_node s) = (n, Ret ()) \<Longrightarrow> callbacks (appended_node s) = [] \<Longrightarrow>
     callbacks n = [(k, Some v, err)] \<Longrightarrow>
     measured_step cls callback app (At_Node now ev) s =
       s\<lparr>appended_node := n, daemon_state := measuring_step (Completed now) (daemon_state s), completions := completions s @ [(k, now)]\<rparr>"
proof -
  assume n: "ticking s" "raft_step test_obj_conf app ev (appended_node s) = (n, Ret ())" "callbacks (appended_node s) = []"
    "callbacks n = [(k, Some v, err)]"
  then have "n\<lparr>callbacks := [(k, Some v, err)]\<rparr> = n" by simp
  with n show ?thesis by (simp add: node_thread_def node_becomes_def reporting_def on_update_function_def Let_def)
qed

lemma leader_appends_reports:
  assumes "\<And>s. replicated_apply sample_class c s = (Some 5, Ret 5)" "appended_node s = passed_on" "ticking s"
  obtains n where "measured_run cls callback sample_object (leader_appends c) s =
      s\<lparr>appended_node := n, daemon_state := measuring_step (Completed 2) (daemon_state s), completions := completions s @ [(0, 2)]\<rparr>"
    "callbacks n = [(0, Some 5, SUCCEEDED)]" "app_state n = Some 5" "commands_queue n = []"
proof -
  have p: "callbacks passed_on = []" by (simp add: passed_on_def)
  obtain n1 n2 n3 where n:
    "raft_step test_obj_conf sample_object (Received (env_at 2) ''b'' (ApplyTaken 1 2 1)) passed_on = (n1, Ret ())"
    "raft_step test_obj_conf sample_object (Received (env_at 2) ''b'' (AppendEntries 1 2 [Entry c 2 1] (Some (1, 0)))) n1 = (n2, Ret ())"
    "raft_step test_obj_conf sample_object (Tick (env_at 2)) n2 = (n3, Ret ())"
    "callbacks n1 = []" "callbacks n2 = []" and n3: "callbacks n3 = [(0, Some 5, SUCCEEDED)]" "app_state n3 = Some 5" "commands_queue n3 = []"
    by (rule leader_appends_calls[OF assms(1)])
  show thesis
    by (rule that[OF _ n3])
      (simp add: measured_run_def leader_appends_def thread_quiet thread_reports n n3(1) p assms(2,3) del: measured_step.simps)
qed

lemma run_append: "measured_run cls callback app (xs @ ys) s = measured_run cls callback app ys (measured_run cls callback app xs s)"
  by (simp add: measured_run_def)

text \<open>The command is passed on, and the daemon hears of the call, or does not.\<close>

lemma asked_and_passed:
  assumes "pso_append (numbered_class sample_class 0) 0 5 following = (following\<lparr>commands_queue := [(c, LocalCallback 0)]\<rparr>, Ret None)"
    "d = init_measured following 1"
  shows "measured_run sample_class 0 app [Asks 1 1 5, At_Node 1 (Tick (env_at 1))] d = d\<lparr>appended_node := passed_on, answering := Some 1, ask_times := [1]\<rparr>"
proof -
  have p: "callbacks passed_on = []" by (simp add: passed_on_def)
  let ?n = "following\<lparr>commands_queue := [(c, LocalCallback 0)]\<rparr>"
  have same: "?n\<lparr>callbacks := []\<rparr> = ?n" by (simp add: following_def init_raft_def)
  have "measured_step sample_class 0 app (Asks 1 1 5) d = d\<lparr>appended_node := ?n, answering := Some 1, ask_times := [1]\<rparr>"
    using same by (simp add: assms init_measured_def init_measuring_def ask_node_def node_becomes_def reporting_def)
  then show ?thesis
    by (simp add: measured_run_def thread_quiet tick_passes_on p assms(2) init_measured_def del: measured_step.simps)
qed

text \<open>The append that succeeds is measured, at the time of its callback.\<close>

lemma append_measured:
  assumes "pso_append (numbered_class sample_class 0) 0 5 following = (following\<lparr>commands_queue := [(c, LocalCallback 0)]\<rparr>, Ret None)"
    "\<And>s. replicated_apply sample_class c s = (Some 5, Ret 5)"
  shows "\<exists>n. measured_run sample_class 0 sample_object
      ([Asks 1 1 5, At_Node 1 (Tick (env_at 1))] @ [Answer] @ leader_appends c @ [Look]) (init_measured following 1) =
     \<lparr>appended_node = n, ticking = True,
      daemon_state = \<lparr>cluster_ack = None, asked_at = None, results = [1], wanted = 1\<rparr>,
      answering = None, ask_times = [1], completions = [(0, 2)]\<rparr> \<and>
     callbacks n = [(0, Some 5, SUCCEEDED)] \<and> app_state n = Some 5"
proof -
  let ?s = "(init_measured following 1)\<lparr>appended_node := passed_on, daemon_state := (init_measuring 1)\<lparr>asked_at := Some 1\<rparr>, ask_times := [1]\<rparr>"
  have s: "measured_run sample_class 0 sample_object [Answer]
      ((init_measured following 1)\<lparr>appended_node := passed_on, answering := Some 1, ask_times := [1]\<rparr>) = ?s"
    by (simp add: measured_run_def init_measured_def init_measuring_def)
  have t: "appended_node ?s = passed_on" "ticking ?s" by (simp_all add: init_measured_def)
  obtain n where n: "measured_run sample_class 0 sample_object (leader_appends c) ?s =
      ?s\<lparr>appended_node := n, daemon_state := measuring_step (Completed 2) (daemon_state ?s), completions := completions ?s @ [(0, 2)]\<rparr>"
    "callbacks n = [(0, Some 5, SUCCEEDED)]" "app_state n = Some 5" "commands_queue n = []"
    by (rule leader_appends_reports[OF assms(2) t])
  show ?thesis unfolding run_append asked_and_passed[OF assms(1) refl] s n(1)
    by (intro exI[of _ n]) (simp add: n(2,3) measured_run_def init_measured_def init_measuring_def)
qed

theorem measurements_are_own_times_witness:
  "\<exists>c s. s = measured_run sample_class 0 sample_object
      ([Asks 1 1 5, At_Node 1 (Tick (env_at 1))] @ [Answer] @ leader_appends c @ [Look]) (init_measured following 1) \<and>
    results (daemon_state s) = [1] \<and> completions s = [(0, 2)] \<and> ask_times s = [1] \<and>
    callbacks (appended_node s) = [(0, Some 5, SUCCEEDED)] \<and>
    (\<forall>i<1. case completions s ! i of (k, t) \<Rightarrow> results (daemon_state s) ! i = t - ask_times s ! k)"
proof -
  obtain c where c: "pso_append (numbered_class sample_class 0) 0 5 following =
    (following\<lparr>commands_queue := [(c, LocalCallback 0)]\<rparr>, Ret None)" "\<And>s. replicated_apply sample_class c s = (Some 5, Ret 5)"
    by (rule ask_following) blast
  let ?evs = "[Asks 1 1 5, At_Node 1 (Tick (env_at 1))] @ [Answer] @ leader_appends c @ [Look]"
  let ?s = "measured_run sample_class 0 sample_object ?evs (init_measured following 1)"
  have "\<forall>ev\<in>set ?evs. undisturbed ev" "sorted (concat (map event_times ?evs))"
    by (simp_all add: leader_appends_def)
  from measurements_are_own_times[OF following_fields(2,1) this refl, of sample_class 0 sample_object 1]
  have "\<forall>i<length (results (daemon_state ?s)). case completions ?s ! i of (k, t) \<Rightarrow>
      results (daemon_state ?s) ! i = t - ask_times ?s ! k"
    by (simp add: case_prod_beta)
  moreover from append_measured[OF c] have "results (daemon_state ?s) = [1]" "completions ?s = [(0, 2)]" "ask_times ?s = [1]"
    "callbacks (appended_node ?s) = [(0, Some 5, SUCCEEDED)]"
    by (elim exE conjE, simp)+
  ultimately show ?thesis by (intro exI[of _ c] exI[of _ ?s]) simp
qed

text \<open>A callback that is told of a failure ends the thread of the node, and the daemon waits for ever:
  whatever comes after it, while the connection holds, no further time is measured.\<close>

lemma no_ticks_no_callbacks:
  assumes "\<not> ticking s" "answering s = None" "asked_at (daemon_state s) \<noteq> None" "cluster_ack (daemon_state s) = None"
  shows "measured_run cls callback app evs s = s"
  using assms
proof (induction evs)
  case (Cons ev evs)
  have "measured_step cls callback app ev s = s"
    using Cons.prems by (cases ev) (auto simp: node_thread_def split: option.splits)
  then show ?case using Cons by (simp add: measured_run_def)
qed (simp add: measured_run_def)

lemma failed_append_hangs:
  "\<exists>n. callbacks n = [(0, None, LEADER_CHANGED)] \<and>
     measured_run sample_class 0 sample_object ([Asks 1 1 5, At_Node 1 (Tick (env_at 1)), Answer, leader_change] @ evs)
       (init_measured following 1) =
     \<lparr>appended_node = n, ticking = False,
      daemon_state = \<lparr>cluster_ack = None, asked_at = Some 1, results = [], wanted = 1\<rparr>,
      answering = None, ask_times = [1], completions = []\<rparr>"
proof -
  obtain c where c: "pso_append (numbered_class sample_class 0) 0 5 following =
    (following\<lparr>commands_queue := [(c, LocalCallback 0)]\<rparr>, Ret None)" by (rule ask_following)
  obtain n r where n: "raft_step test_obj_conf sample_object (Received (env_at 3) ''c'' (AppendEntries 2 1 [] (Some (1, 0)))) passed_on = (n, r)"
    by fastforce
  then have m: "callbacks n = [(0, None, LEADER_CHANGED)]" using leader_change_fails[of sample_object] by simp
  have p: "callbacks passed_on = []" by (simp add: passed_on_def)
  let ?evs = "[Asks 1 1 5, At_Node 1 (Tick (env_at 1)), Answer, leader_change]"
  let ?n = "n\<lparr>callbacks := [(0, None, LEADER_CHANGED)]\<rparr>"
  have same: "n\<lparr>callbacks := []\<rparr> = n" if "callbacks n = []" for n :: "(int command, int, int option) raft" using that by simp
  have "measured_run sample_class 0 sample_object ?evs (init_measured following 1) =
     \<lparr>appended_node = ?n, ticking = False,
      daemon_state = \<lparr>cluster_ack = None, asked_at = Some 1, results = [], wanted = 1\<rparr>,
      answering = None, ask_times = [1], completions = []\<rparr>"
    by (simp add: measured_run_def leader_change_def init_measured_def init_measuring_def ask_node_def c node_becomes_def
        node_thread_def tick_passes_on n m p same on_update_function_def reporting_def)
  moreover have "measured_run sample_class 0 sample_object (?evs @ evs) s =
      measured_run sample_class 0 sample_object evs (measured_run sample_class 0 sample_object ?evs s)" for s
    by (simp add: measured_run_def)
  ultimately show ?thesis by (intro exI[of _ ?n]) (simp only:, simp add: no_ticks_no_callbacks)
qed

text \<open>After a connection has broken, the callback of the call that was lost is taken for that of
  the next one, which seems to end before it began.\<close>

lemma lost_answer_negative:
  "\<exists>c. results (daemon_state (measured_run sample_class 0 sample_object
      ([Asks 1 1 5, At_Node 1 (Tick (env_at 1))] @ [Broken] @ leader_appends c @ [Asks 3 3 5, Answer, Look])
      (init_measured following 1))) = [-1]"
proof -
  obtain c where c: "pso_append (numbered_class sample_class 0) 0 5 following =
    (following\<lparr>commands_queue := [(c, LocalCallback 0)]\<rparr>, Ret None)" "\<And>s. replicated_apply sample_class c s = (Some 5, Ret 5)"
    by (rule ask_following) blast
  let ?s = "(init_measured following 1)\<lparr>appended_node := passed_on, ask_times := [1]\<rparr>"
  have s: "measured_run sample_class 0 sample_object [Broken]
      ((init_measured following 1)\<lparr>appended_node := passed_on, answering := Some 1, ask_times := [1]\<rparr>) = ?s"
    by (simp add: measured_run_def init_measured_def init_measuring_def)
  have t: "appended_node ?s = passed_on" "ticking ?s" by (simp_all add: init_measured_def)
  obtain n where n: "measured_run sample_class 0 sample_object (leader_appends c) ?s =
      ?s\<lparr>appended_node := n, daemon_state := measuring_step (Completed 2) (daemon_state ?s), completions := completions ?s @ [(0, 2)]\<rparr>"
    "callbacks n = [(0, Some 5, SUCCEEDED)]" "app_state n = Some 5" "commands_queue n = []"
    by (rule leader_appends_reports[OF c(2) t])
  have "numbered_class sample_class 1 = test_obj [''getCounter'', ''setValue''] (\<lambda>_. True) (\<lambda>v. v \<noteq> 0) 1 (\<lambda>cb. LocalCallback 1)"
    by (simp add: numbered_class_def sample_class_def test_obj_def)
  from append_stores_value[OF _ _ _ _ _ this, of n 0 5] n(4) obtain c' where
    c': "pso_append (numbered_class sample_class 1) 0 5 n = (n\<lparr>commands_queue := [(c', LocalCallback 1)]\<rparr>, Ret None)" by auto
  have "results (daemon_state (measured_run sample_class 0 sample_object [Asks 3 3 5, Answer, Look]
      (?s\<lparr>appended_node := n, daemon_state := measuring_step (Completed 2) (daemon_state ?s), completions := completions ?s @ [(0, 2)]\<rparr>))) = [-1]"
    by (simp add: measured_run_def init_measured_def init_measuring_def ask_node_def c'[unfolded One_nat_def] node_becomes_def n(2)
        reporting_def)
  then show ?thesis by (intro exI[of _ c]) (simp only: run_append asked_and_passed[OF c(1) refl] s n(1))
qed

end
