(* ===== verification/Result_Plots.thy ===== *)
theory Result_Plots
  imports Prelude "HOL-Library.Multiset" Complex_Main
begin

section \<open>Plots of measured times\<close>

text \<open>
  \<open>generate_plots.py\<close>: from the rows of result files to the points that are drawn.  Python's
  floats are rational numbers here, without rounding; \<open>float_of\<close> is \<open>float\<close> on a cell.
  What \<open>matplotlib\<close> does with labels and points is the list of what is handed to it.
\<close>

subsection \<open>The curves\<close>

type_synonym curve = "string \<times> rat list \<times> rat list"     \<comment> \<open>label, x axis, y axis\<close>

fun floats :: "(string \<Rightarrow> rat outcome) \<Rightarrow> string list \<Rightarrow> rat list outcome" where
  "floats float_of [] = Ret []"
| "floats float_of (c # cs) =
     (case float_of c of
        Raise e \<Rightarrow> Raise e
      | Ret x \<Rightarrow> (case floats float_of cs of Raise e \<Rightarrow> Raise e | Ret xs \<Rightarrow> Ret (x # xs)))"

text \<open>One turn of each loop; \<open>raw.pop(0)\<close> takes the label off the row.\<close>

definition raw_curve :: "(string \<Rightarrow> rat outcome) \<Rightarrow> string list \<Rightarrow> curve outcome" where
  "raw_curve float_of row =
     (case row of
        [] \<Rightarrow> Raise IndexError
      | label # raw \<Rightarrow>
          (case floats float_of raw of
             Raise e \<Rightarrow> Raise e
           | Ret ys \<Rightarrow> Ret (label, map of_nat [0..<length raw], ys)))"

definition distribution_data :: "(string \<Rightarrow> rat outcome) \<Rightarrow> string list \<Rightarrow> (string \<times> rat list) outcome" where
  "distribution_data float_of row =
     (case row of
        [] \<Rightarrow> Raise IndexError
      | label # raw \<Rightarrow> (case floats float_of raw of Raise e \<Rightarrow> Raise e | Ret d \<Rightarrow> Ret (label, d)))"

text \<open>\<open>i / len(raw)\<close> of a row without times is 0 divided by 0.\<close>

definition mass_curve :: "(string \<Rightarrow> rat outcome) \<Rightarrow> string list \<Rightarrow> curve outcome" where
  "mass_curve float_of row =
     (case row of
        [] \<Rightarrow> Raise IndexError
      | label # raw \<Rightarrow>
          if length raw = 0 then Raise ZeroDivisionError
          else
            let y_axis = map (\<lambda>i. of_nat i / of_nat (length raw)) [0..<length raw + 1] in
            (case floats float_of raw of
               Raise e \<Rightarrow> Raise e
             | Ret values \<Rightarrow> Ret (label, [0] @ sort values, y_axis)))"

text \<open>The loop over the rows: what is drawn before a row raises.\<close>

fun plot_rows :: "('a \<Rightarrow> 'b outcome) \<Rightarrow> 'a list \<Rightarrow> 'b list \<times> unit outcome" where
  "plot_rows f [] = ([], Ret ())"
| "plot_rows f (row # rows) =
     (case f row of
        Raise e \<Rightarrow> ([], Raise e)
      | Ret x \<Rightarrow> (case plot_rows f rows of (xs, r) \<Rightarrow> (x # xs, r)))"

subsection \<open>The program\<close>

text \<open>The rows of the files in order, up to the first file that is not found, for which a message is
  printed; then the name of the picture.\<close>

fun read_series :: "(string \<Rightarrow> string list list option) \<Rightarrow> string list \<Rightarrow> string list list" where
  "read_series files [] = []"
| "read_series files (f # fs) =
     (case files f of None \<Rightarrow> [] | Some rows \<Rightarrow> rows @ read_series files fs)"

definition output_file :: "string option \<Rightarrow> string list \<Rightarrow> string outcome" where
  "output_file path result_csv =
     (case path of
        Some (c # cs) \<Rightarrow> Ret (c # cs)
      | _ \<Rightarrow> if length result_csv > 1 then Raise SystemExit
             else case result_csv of [] \<Rightarrow> Raise IndexError | f # fs \<Rightarrow> Ret (f @ ''.png''))"

subsection \<open>The mass plot is the distribution function\<close>

lemma floats_ret: "floats float_of cs = Ret xs \<Longrightarrow> length xs = length cs"
  by (induction cs arbitrary: xs) (auto split: outcome.splits)

lemma sorted_at_most:
  assumes "sorted xs" "k < length xs"
  shows "Suc k \<le> length (filter (\<lambda>x. x \<le> xs ! k) xs)" "length (filter (\<lambda>x. x < xs ! k) xs) \<le> k"
proof -
  have split: "xs = take (Suc k) xs @ drop (Suc k) xs" "xs = take k xs @ drop k xs" by simp_all
  have "filter (\<lambda>x. x \<le> xs ! k) (take (Suc k) xs) = take (Suc k) xs"
    using assms by (auto simp: filter_id_conv in_set_conv_nth less_Suc_eq_le intro!: sorted_nth_mono)
  then have "Suc k \<le> length (filter (\<lambda>x. x \<le> xs ! k) (take (Suc k) xs))" using assms(2) by simp
  moreover have "length (filter (\<lambda>x. x \<le> xs ! k) (take (Suc k) xs)) \<le> length (filter (\<lambda>x. x \<le> xs ! k) xs)"
    by (metis split(1) filter_append length_append le_add1)
  ultimately show "Suc k \<le> length (filter (\<lambda>x. x \<le> xs ! k) xs)" by (rule order_trans)
  have "filter (\<lambda>x. x < xs ! k) (drop k xs) = []"
    using assms by (auto simp: filter_empty_conv in_set_conv_nth not_less intro!: sorted_nth_mono)
  then have "length (filter (\<lambda>x. x < xs ! k) xs) = length (filter (\<lambda>x. x < xs ! k) (take k xs))"
    by (metis split(2) append_Nil2 filter_append)
  also have "\<dots> \<le> k" by (metis length_filter_le length_take min.bounded_iff order_trans min.cobounded2)
  finally show "length (filter (\<lambda>x. x < xs ! k) xs) \<le> k" .
qed

text \<open>The mass plot shows how many operations had completed by a time.  For a row with at least
  one time, the curve starts at the origin and has one point per operation: its x coordinates are
  the measured times in order, and at the point of height k/n at least k and, before it, fewer than
  k of the n operations had completed.\<close>

lemma mass_curve_distribution:
  assumes "floats float_of raw = Ret values" "raw \<noteq> []"
  shows "\<exists>xs ys. mass_curve float_of (label # raw) = Ret (label, xs, ys) \<and>
    length xs = length values + 1 \<and> length ys = length values + 1 \<and> xs ! 0 = 0 \<and> ys ! 0 = 0 \<and>
    mset (tl xs) = mset values \<and> sorted (tl xs) \<and>
    (\<forall>k\<in>{1..length values}. ys ! k = of_nat k / of_nat (length values) \<and>
       k \<le> length (filter (\<lambda>t. t \<le> xs ! k) values) \<and> length (filter (\<lambda>t. t < xs ! k) values) < k)"
proof -
  let ?n = "length values"
  have n: "length raw = ?n" "0 < ?n" using floats_ret[OF assms(1)] assms(2) by auto
  let ?xs = "0 # sort values" and ?ys = "map (\<lambda>i. of_nat i / of_nat ?n) [0..<?n + 1] :: rat list"
  have c: "mass_curve float_of (label # raw) = Ret (label, ?xs, ?ys)"
    using assms n by (simp add: mass_curve_def Let_def)
  have same: "length (filter P (sort values)) = length (filter P values)" for P :: "rat \<Rightarrow> bool"
    by (metis mset_filter mset_sort size_mset)
  have "?ys ! k = of_nat k / of_nat ?n \<and> k \<le> length (filter (\<lambda>t. t \<le> ?xs ! k) values) \<and>
      length (filter (\<lambda>t. t < ?xs ! k) values) < k" if "k \<in> {1..?n}" for k
  proof -
    obtain j where j: "k = Suc j" "j < ?n" using \<open>k \<in> {1..?n}\<close> by (cases k) auto
    have "?ys ! k = of_nat k / of_nat ?n" using j by (simp del: upt_Suc add: nth_map)
    then show ?thesis
      using sorted_at_most[of "sort values" j] j by (simp only: same length_sort sorted_sort nth_Cons_Suc) auto
  qed
  moreover have "?ys ! 0 = 0" by (simp del: upt_Suc add: nth_map)
  ultimately show ?thesis
    using c by (intro exI[of _ ?xs] exI[of _ ?ys] conjI) (simp_all del: upt_Suc)
qed

end
