(* ===== verification/Spec2Isabelle.thy ===== *)
theory Spec2Isabelle
  imports Recovery Master_Strategy Paxos_Programs Raft_Rebind Raft_Network Raft_Status Dns_Resolver
    Cluster_Programs Cloud_Requests Executor_Program Test_Generator Measured_Cluster Result_Plots
begin

text \<open>
  Krafters deploys a consensus algorithm on a cluster of nodes, disturbs the network between them
  and measures how long updates take.  This development models the two algorithms that the
  repository carries in source, \<open>paxos/\<close> (multi-Paxos over UDP) and \<open>pysyncobj/\<close>
  (Raft over TCP), the provisioning of a cluster, the manager that disturbs the network, and the language of
  tests from the lines of a test file to the measured times.  Every definition
  translates code under \<open>src/\<close>; a method that mutates its object takes the object's record
  and returns the new one, together with what it returns or raises.

  \<^bold>\<open>Paxos.\<close>
  Messages between nodes are the packets of \<open>Messenger\<close>; a node reacts to a packet, a timer
  or a proposal, writes its state file and sends packets.

  \<^item> \<open>Prelude\<close>: exceptions and outcomes, Python's slices, facts on options and majorities.
  \<^item> \<open>Proposal_Id\<close>, \<open>Paxos_Messages\<close>: \<open>ProposalID\<close> as a linear order and the
    message classes of \<open>composable_paxos.py\<close>.
  \<^item> \<open>Proposer\<close>, \<open>Acceptor\<close>, \<open>Learner\<close>, \<open>Paxos_Instance\<close>: the three
    roles and their union, one record per class, one definition per method.  Their lemmas are
    the invariants of each role alone: one value per proposal, promises kept, the last vote
    reported, resolution exactly by a quorum.
  \<^item> \<open>Replicated_Value\<close>, \<open>Resolution_Strategy\<close>, \<open>Sync_Strategy\<close>,
    \<open>Paxos_Node\<close>: the class of \<open>custom_server.py\<close>, mixin by mixin.  A method that
    Python looks up on \<open>self\<close> and a mixin overrides is an argument of the base definition.
  \<^item> \<open>Master_Strategy\<close>: the mixin of \<open>master_strategy.py\<close>, which \<open>server.py\<close> puts in
    front of these under \<open>--master\<close>: leases, the values a master resolves without preparing,
    and what goes wrong with them.
  \<^item> \<open>Paxos_Network\<close>: the cluster.  A step is an event at one node, or the delivery of any
    packet ever sent, so packets may be lost, repeated, delayed and reordered.
  \<^item> \<open>Quorum\<close>, \<open>Ballot_History\<close>: the interface between the protocol and its safety.
    The locale of \<open>Ballot_History\<close> states what a record of promises, requests and votes
    has to satisfy and derives that a chosen value is unique; \<open>Paxos_Agreement\<close> interprets
    it on the packets sent in the network model.
  \<^item> \<open>Paxos_Invariants\<close>, \<open>Node_Invariants\<close>, \<open>Role_Steps\<close>, \<open>Handler_Steps\<close>,
    \<open>Paxos_Agreement\<close>: the invariant of the cluster and that every handler preserves it,
    role by role, then handler by handler.
  \<^item> \<open>Messenger_Text\<close>: class \<open>Messenger\<close> below the packets: names and addresses of
    peers, the keywords of the JSON objects, what a datagram makes the node do; and what the two
    clients send.  \<open>Paxos_Programs\<close>: \<open>config.py\<close>, the command lines of clients and servers,
    and what the test daemon measures on a Paxos node.
  \<^item> \<open>Recovery\<close>: a node that restarts from its state file, what it keeps, what it
    loses, and a run in which the loss makes two nodes disagree.

  \<^bold>\<open>Raft.\<close>
  A node ticks, receives messages over its connections and takes commands from the program.

  \<^item> \<open>Serializer\<close>: class \<open>Serializer\<close>; dumps arrive as they were stored.
  \<^item> \<open>Connection\<close>: class \<open>Connection\<close>, over bytes; framed messages arrive whole, in
    order and once, and an exception of \<open>pickle\<close> that \<open>getMessage\<close> does not catch leaves its loop.
  \<^item> \<open>Poller\<close>: the two pollers of \<open>poller.py\<close>, and the contract a client of them
    relies on as a locale, interpreted on the one that is used where \<open>poll\<close> exists.
  \<^item> \<open>Peer_Links\<close>: class \<open>Node\<close> and the methods of \<open>SyncObj\<close> that listen
    and accept: dialling, the handshake, sending and receiving, as steps of a node's links.
  \<^item> \<open>Raft_Log\<close>: the list \<open>__raftLog\<close> and the methods that read and cut it; its
    abstraction is the map \<open>at_index\<close> from indices to entries.
  \<^item> \<open>Raft_Node\<close>: class \<open>SyncObj\<close>: a record of its attributes, and one definition per
    message, per part of \<open>_onTick\<close> and per helper, composed as the code composes them in
    \<open>on_tick\<close> and \<open>on_message\<close>.
  \<^item> \<open>Raft_Frames\<close>: which fields the operations write, and the books on callbacks.
  \<^item> \<open>Raft_Properties\<close>: elections and callbacks, over all sequences of events of a node.
  \<^item> \<open>Raft_Replication\<close>: what a follower does with entries, commitment, application.
  \<^item> \<open>Raft_Transfer\<close>: a leader's round and the follower that receives it; dumps; and where
    a follower is never reached.
  \<^item> \<open>Raft_Network\<close>: a cluster whose messages may be lost, repeated and reordered, and
    the shape of logs and messages in all its reachable states.
  \<^item> \<open>Replicated_Methods\<close>: the decorator \<open>replicated\<close> and its inverse
    \<open>__doApplyCommand\<close>; the replicated object of \<open>custom_server.py\<close>.
  \<^item> \<open>Dns_Resolver\<close>: class \<open>DnsCachingResolver\<close>.
  \<^item> \<open>Raft_Runs\<close>: runs of a cluster that break the guarantees, evaluated.
  \<^item> \<open>Raft_Rebind\<close>: the part of \<open>_onTick\<close> before \<open>on_tick\<close>, which binds the
    listening socket and loads the dump again after an error, and what this does to a leader.
  \<^item> \<open>Raft_Status\<close>: the addresses nodes bind and dial, what a node tells about itself, and the
    lines of \<open>debug_utils.py\<close>.

  \<^bold>\<open>The platform.\<close>

  \<^item> \<open>Cluster_Config\<close>: the nodes of a cluster, their ports, their configuration files and
    what the Paxos server makes of them (\<open>provisioner.py\<close>).
  \<^item> \<open>Deployment\<close>: what the provisioner, the configure daemons and the tear-down script
    do, as lists of actions; what the network manager and the PySyncObj server make of their
    configuration, and where these do not fit.
  \<^item> \<open>Cluster_Programs\<close>: the command lines of \<open>provisioner.py\<close> and
    \<open>tear_down.py\<close>, one of which undoes the other, the delivery of its configuration
    to each machine, the waiting for ports, and the script \<open>configure_daemon_tester.py\<close>.
  \<^item> \<open>Cloud_Requests\<close>: every request that \<open>provisioner.py\<close> and \<open>tear_down.py\<close> make to the cloud
    services, with the loops that poll them, as processes over any services; they implement the
    actions of \<open>Deployment\<close>, each machine awaited by the operation that creates it, and what is
    left behind when one fails.
  \<^item> \<open>Netem_Manager\<close>: the \<open>tc\<close> commands that \<open>network_manager.py\<close> runs.

  \<^bold>\<open>Tests.\<close>
  A test file is parsed into commands, whose loops are unrolled; each command is checked, then
  carried out by the network managers or the test daemon, whose times become rows of a table.

  \<^item> \<open>Test_Lines\<close>: the regular expressions of \<open>Parser\<close> in \<open>test_executor.py\<close>, a
    matcher for them with its correctness, the methods of \<open>str\<close> that cut a line into
    parameters, and \<open>read_line\<close>, what one line says.
  \<^item> \<open>Test_Parser\<close>: \<open>parse\<close> with its jumps, against test files as programs with nested
    blocks.
  \<^item> \<open>Test_Commands\<close>: \<open>CommandUnwrapper\<close>, \<open>Executor\<close>, \<open>NetemMaster\<close> and the queue
    of \<open>main\<close>, against one pass that checks and one that acts.
    The locale \<open>node_managers\<close> states what it relies on in the network managers.
  \<^item> \<open>Test_Network\<close>: these on the managers of a cluster laid out by the provisioner, which
    interpret the locale; \<open>Test_Runs\<close>: a whole run, and that it ends with all delays reset.
  \<^item> \<open>Executor_Program\<close>: \<open>main\<close> of \<open>test_executor.py\<close> and of \<open>network_manager.py\<close>, from the
    arguments to the exit status, on what the provisioner has written.
  \<^item> \<open>Test_Generator\<close>: the lines that \<open>test_generator.py\<close> writes, read back.
  \<^item> \<open>Test_Daemon\<close>: the functions of \<open>test_daemon.py\<close> that append and take times.
  \<^item> \<open>Measured_Cluster\<close>: the test daemon together with the PySyncObj node it appends to: which
    call each measured time belongs to, that only appends that succeed are measured, and that one
    that fails ends the thread of the node and leaves the daemon waiting.
  \<^item> \<open>Result_Plots\<close>: the points that \<open>generate_plots.py\<close> draws.

  \<^bold>\<open>Bounds.\<close>
  Loops that end by themselves are functions with a measure (\<open>commit_loop\<close>,
  \<open>try_send_buffer\<close>, \<open>py_replace\<close>).  The sending loop of Raft ends by the clock: its
  number of passes is an argument, and \<open>round_replicates\<close> says how many are enough.
  Looking for a free port may not end (\<open>get_free_random_port\<close> is partial);
  \<open>local_cluster_ports\<close> says when it does.  The ports that the system offers are words of 16 bits.
  So are \<open>parse_from\<close>, which ends for files whose blocks are closed (\<open>parse_unrolls\<close>),
  \<open>run\<close> of the test daemon (\<open>run_ends\<close>), and the loops that poll the cloud services
  (\<open>wait_operation_ends\<close>, \<open>wait_object_ends\<close>).  Loops that draw random numbers take the
  list of what is drawn, and their value \<open>None\<close> means that they have not ended on it.
  \<open>transfer\<close> and \<open>drain\<close> take fuel; \<open>transmission_roundtrip\<close> and
  \<open>connection_roundtrip\<close> show that the fuel they give suffices.

  \<^bold>\<open>Arguments.\<close>
  Clocks, random numbers, the order in which Python lists a set, the kernel's answers to socket and
  file operations, the shell, the answers of the cloud services, and how objects are packed into bytes are arguments of the definitions
  that use them.  Python's floats are rational numbers.

  \<^bold>\<open>Not modelled.\<close>
  The text of JSON (a JSON object is the list of its keys and values) and of pickle, threads other
  than by the order of their steps, the XML-RPC servers, command-line parsing beyond the choices it
  allows, which messages are logged and printed when, and the drawing of plots.
\<close>

section \<open>Properties that span components\<close>

text \<open>C1: agreement along the chain.  In a cluster of any peers that exchange UDP packets,
  which may be lost, duplicated, delayed and reordered, no two nodes ever hold different
  current values for the same instance, even when they are compared at different moments.\<close>

theorem chain_agreement:
  assumes "reachable ps s" "(net_trans ps)\<^sup>*\<^sup>* s s'" "u \<in> set ps" "w \<in> set ps"
    "instance_number (node_at s u) = instance_number (node_at s' w)"
  shows "current_value (node_at s u) = current_value (node_at s' w)"
proof -
  have r': "reachable ps s'" using assms(1,2) unfolding reachable_def by (rule rtranclp_trans)
  note chain = reachable_chain[OF assms(1,3)] reachable_chain[OF r' assms(4)]
  show ?thesis
  proof (cases "instance_number (node_at s u) = 0")
    case True
    then show ?thesis using chain assms(5) by (auto simp: chain_ok_def)
  next
    case False
    let ?i = "instance_number (node_at s u) - 1"
    have "chosen ps (set (sent s)) ?i (current_value (node_at s u))"
      using chain(1) False by (simp add: chain_ok_def)
    then have "chosen ps (set (sent s')) ?i (current_value (node_at s u))"
      by (rule chosen_mono[OF sent_mono[OF assms(2)]])
    moreover have "chosen ps (set (sent s')) ?i (current_value (node_at s' w))"
      using chain(2) False assms(5) by (simp add: chain_ok_def)
    ultimately show ?thesis using chosen_agree reachable_packets[OF r'] by blast
  qed
qed

definition two_nodes_decide :: "(uid \<times> nat event) list" where
  "two_nodes_decide =
     (let a = UInt 1; b = UInt 2; p = ProposalID 1 a; rcv = (\<lambda>u f w. (u, Receive 0 f w)) in
      [(a, Propose 7), rcv a a (WPrepare 0 p), rcv b a (WPrepare 0 p),
       rcv a a (WPromise 0 p None None), rcv a b (WPromise 0 p None None),
       rcv a a (WAccept 0 p (Some 7)), rcv b a (WAccept 0 p (Some 7)),
       rcv a a (WAccepted 0 p (Some 7)), rcv a b (WAccepted 0 p (Some 7)),
       rcv b a (WAccepted 0 p (Some 7)), rcv b b (WAccepted 0 p (Some 7))])"

lemma two_nodes_positions:
  "positions [UInt 1, UInt 2]
     (net_run [UInt 1, UInt 2] two_nodes_decide (init_network [UInt 1, UInt 2]))
   = Some [(1, Some 7), (1, Some 7)]"
  by code_simp

lemma two_nodes_run:
  obtains s where "reachable [UInt 1, UInt 2] s"
    "instance_number (node_at s (UInt 1)) = 1" "instance_number (node_at s (UInt 2)) = 1"
    "current_value (node_at s (UInt 1)) = Some (7::nat)"
proof -
  obtain s where "net_run [UInt 1, UInt 2] two_nodes_decide (init_network [UInt 1, UInt 2]) = Some s"
    using two_nodes_positions by (auto simp: positions_def)
  with net_run_reachable two_nodes_positions that show ?thesis by (auto simp: positions_def)
qed

theorem chain_agreement_witness:
  "\<exists>s. reachable [UInt 1, UInt 2] s \<and> instance_number (node_at s (UInt 1)) = 1 \<and>
     current_value (node_at s (UInt 2)) = Some (7::nat)"
proof -
  obtain s where s: "reachable [UInt 1, UInt 2] s" "instance_number (node_at s (UInt 1)) = 1"
    "instance_number (node_at s (UInt 2)) = 1" "current_value (node_at s (UInt 1)) = Some (7::nat)"
    by (rule two_nodes_run)
  have "current_value (node_at s (UInt 1)) = current_value (node_at s (UInt 2))"
    using s by (intro chain_agreement[OF s(1) rtranclp.rtrancl_refl]) simp_all
  with s show ?thesis by metis
qed

text \<open>C2: only proposed values are agreed on.  The current value of a node that has passed
  instance 0 is a value, and one that some application proposed at some node.\<close>

theorem chain_validity:
  assumes "reachable ps s" "u \<in> set ps"
  shows "if instance_number (node_at s u) = 0 then current_value (node_at s u) = None
    else 0 < instance_number (node_at s u) \<and> current_value (node_at s u) \<in> Some ` set (requested s)"
proof (cases "instance_number (node_at s u) = 0")
  case False
  then have i: "0 < instance_number (node_at s u)"
    and "chosen ps (set (sent s)) (instance_number (node_at s u) - 1) (current_value (node_at s u))"
    using reachable_chain[OF assms] by (simp_all add: chain_ok_def)
  then show ?thesis using chosen_requested reachable_packets[OF assms(1)] False by auto
qed (use reachable_chain[OF assms] in \<open>simp add: chain_ok_def\<close>)

theorem chain_validity_witness:
  "\<exists>s. reachable [UInt 1, UInt 2] s \<and>
     current_value (node_at s (UInt 1)) \<in> Some ` set (requested s) \<and>
     current_value (node_at s (UInt 1)) = Some (7::nat)"
proof -
  obtain s where s: "reachable [UInt 1, UInt 2] s" "instance_number (node_at s (UInt 1)) = 1"
    "instance_number (node_at s (UInt 2)) = 1" "current_value (node_at s (UInt 1)) = Some (7::nat)"
    by (rule two_nodes_run)
  then show ?thesis using chain_validity[OF s(1), of "UInt 1"] by auto
qed

text \<open>C8: the catch-all in \<open>datagramReceived\<close> is never needed for the peers' packets.  At no
  moment does the handler of a packet that a peer sent, of a timer or of a proposal raise: the
  learner never sees two values for one proposal nor an unknown acceptor, the proposer never a
  Promise before its first Prepare.\<close>

theorem handlers_never_raise:
  assumes "reachable ps s" "enabled ps u e s"
  shows "\<not> raises (snd (node_step e (node_at s u)))"
  using net_inv_step(2)[OF reachable_inv[OF assms(1)] assms(2)] .

theorem handlers_never_raise_witness:
  "\<exists>s. reachable [UInt 1, UInt 2] s \<and>
     \<not> raises (snd (node_step (Propose (9::nat)) (node_at s (UInt 1))))"
proof -
  obtain s where s: "reachable [UInt 1, UInt 2] s" "instance_number (node_at s (UInt 1)) = 1"
    "instance_number (node_at s (UInt 2)) = 1" "current_value (node_at s (UInt 1)) = Some (7::nat)"
    by (rule two_nodes_run)
  then show ?thesis using handlers_never_raise[OF s(1), of "UInt 1" "Propose 9"] by auto
qed

end
